(* ===== verification/Prelude.thy ===== *)
theory Prelude
  imports Main "HOL-Library.Word" "HOL-Library.Multiset"
begin

text \<open>
  Shared vocabulary of the development.

  \<^item> The result type of fallible Go code, \<open>'e + 'a\<close> with \<open>Inl\<close> for a returned error, its
    sequencing \<open>ebind\<close> (\<open>if err != nil { return err }\<close>) and the early-return loop \<open>foldE\<close>.
  \<^item> Go slices and maps: a nil-able byte slice is \<open>bytes option\<close>; a Go map is an association
    list with distinct keys, whose list order is the iteration order Go happens to choose, so that
    a property proved of every such list holds for every iteration order.
  \<^item> Generic lemmas on lists, association lists and machine words, and the reachability
    locale that all state machines of the development instantiate.
\<close>

named_theorems inv_intros \<open>introduction rules for invariants of the components\<close>
named_theorems step_simps \<open>equations unfolding one step of a component\<close>

section \<open>Results\<close>

definition ebind :: "'e + 'a \<Rightarrow> ('a \<Rightarrow> 'e + 'b) \<Rightarrow> 'e + 'b" where
  "ebind r k = (case r of Inl e \<Rightarrow> Inl e | Inr a \<Rightarrow> k a)"

lemma ebind_simps [simp]:
  "ebind (Inl e) k = Inl e"
  "ebind (Inr a) k = k a"
  by (simp_all add: ebind_def)

lemma ebind_eq_Inr [simp]: "ebind r k = Inr b \<longleftrightarrow> (\<exists>a. r = Inr a \<and> k a = Inr b)"
  by (cases r) auto

lemma ebind_cong [fundef_cong]:
  "r = r' \<Longrightarrow> (\<And>a. r' = Inr a \<Longrightarrow> k a = k' a) \<Longrightarrow> ebind r k = ebind r' k'"
  by (cases r') auto

lemma ebind_split:
  "P (ebind r k) \<longleftrightarrow> (\<forall>e. r = Inl e \<longrightarrow> P (Inl e)) \<and> (\<forall>a. r = Inr a \<longrightarrow> P (k a))"
  by (cases r) auto

fun foldE :: "('x \<Rightarrow> 's \<Rightarrow> 'e + 's) \<Rightarrow> 'x list \<Rightarrow> 's \<Rightarrow> 'e + 's" where
  "foldE f [] s = Inr s"
| "foldE f (x # xs) s = ebind (f x s) (foldE f xs)"

lemma foldE_append: "foldE f (xs @ ys) s = ebind (foldE f xs s) (foldE f ys)"
proof (induction xs arbitrary: s)
  case Nil
  then show ?case by simp
next
  case (Cons x xs)
  then show ?case by (cases "f x s") auto
qed

text \<open>An invariant of the loop body is an invariant of the loop.\<close>

lemma foldE_invariant:
  assumes "foldE f xs s = Inr s'" and "P s"
    and "\<And>x s s'. x \<in> set xs \<Longrightarrow> P s \<Longrightarrow> f x s = Inr s' \<Longrightarrow> P s'"
  shows "P s'"
  using assms
proof (induction xs arbitrary: s)
  case Nil
  then show ?case by simp
next
  case (Cons x xs)
  from Cons.prems(1) obtain t where t: "f x s = Inr t" "foldE f xs t = Inr s'" by auto
  from t(1) Cons.prems have "P t" by auto
  with t(2) Cons.prems(3) show ?case by (intro Cons.IH) auto
qed

lemma foldE_pure: "foldE (\<lambda>x s. Inr (g x s)) xs s = Inr (fold g xs s)"
  by (induction xs arbitrary: s) auto

text \<open>A loop whose body is total on the elements it meets returns.\<close>

lemma foldE_total:
  assumes "P s" and "\<And>x s. x \<in> set xs \<Longrightarrow> P s \<Longrightarrow> \<exists>s'. f x s = Inr s' \<and> P s'"
  shows "\<exists>s'. foldE f xs s = Inr s' \<and> P s'"
  using assms
proof (induction xs arbitrary: s)
  case Nil
  then show ?case by simp
next
  case (Cons x xs)
  then obtain t where "f x s = Inr t" "P t" by (meson list.set_intros(1))
  with Cons show ?case by simp
qed

fun mapE :: "('x \<Rightarrow> 'e + 'y) \<Rightarrow> 'x list \<Rightarrow> 'e + 'y list" where
  "mapE f [] = Inr []"
| "mapE f (x # xs) = ebind (f x) (\<lambda>y. ebind (mapE f xs) (\<lambda>ys. Inr (y # ys)))"

lemma mapE_eq_Inr: "mapE f xs = Inr ys \<longleftrightarrow> list_all2 (\<lambda>x y. f x = Inr y) xs ys"
proof (induction xs arbitrary: ys)
  case Nil
  then show ?case by auto
next
  case (Cons x xs)
  then show ?case by (cases ys) auto
qed

lemma mapE_pure: "(\<And>x. x \<in> set xs \<Longrightarrow> f x = Inr (g x)) \<Longrightarrow> mapE f xs = Inr (map g xs)"
  by (induction xs) auto

lemma list_all2_set2D:
  assumes "list_all2 R xs ys" and "y \<in> set ys"
  obtains x where "x \<in> set xs" "R x y"
  using assms by (metis in_set_conv_nth list_all2_conv_all_nth)

lemma sort_eq_Nil: "sort xs = [] \<longleftrightarrow> xs = []"
  by (metis length_0_conv length_sort)

section \<open>Bytes\<close>

type_synonym u8 = "8 word"
type_synonym u32 = "32 word"
type_synonym u64 = "64 word"
type_synonym bytes = "u8 list"
type_synonym gobytes = "bytes option"

text \<open>\<open>raw\<close> reads a Go byte slice: the nil slice has length 0.\<close>

definition raw :: "gobytes \<Rightarrow> bytes" where
  "raw b = (case b of None \<Rightarrow> [] | Some xs \<Rightarrow> xs)"

lemma raw_simps [simp]: "raw None = []" "raw (Some xs) = xs"
  by (simp_all add: raw_def)

text \<open>Go's conversion of a string to bytes.\<close>

definition byte_of_char :: "char \<Rightarrow> u8" where
  "byte_of_char c = word_of_nat (of_char c)"

lemma of_char_less_256 [simp]: "(of_char c :: nat) < 256"
  using char_of_nat [of "of_char c"] by (metis nat_of_char_less_256)

lemma unat_byte_of_char [simp]: "unat (byte_of_char c) = of_char c"
  by (simp add: byte_of_char_def unat_of_nat take_bit_eq_mod)

lemma byte_of_char_inj: "byte_of_char c = byte_of_char d \<longleftrightarrow> c = d"
  by (metis of_char_eq_iff unat_byte_of_char)

lemma map_byte_of_char_inj: "map byte_of_char s = map byte_of_char t \<longleftrightarrow> s = t"
  by (simp add: inj_map_eq_map inj_def byte_of_char_inj)

section \<open>Words\<close>

lemma word_less_imp_unat_add1: "(a :: 'a::len word) < b \<Longrightarrow> unat (a + 1) = unat a + 1"
proof -
  assume "a < b"
  then have "a \<noteq> - 1" using word_n1_ge [of b] by auto
  then have "1 + a \<noteq> 0" by (metis add.commute eq_neg_iff_add_eq_0)
  from unatSuc [OF this] show ?thesis by (simp add: add.commute)
qed

section \<open>Go maps\<close>

type_synonym ('k, 'v) gomap = "('k \<times> 'v) list"

definition gomap_ok :: "('k, 'v) gomap \<Rightarrow> bool" where
  "gomap_ok m \<longleftrightarrow> distinct (map fst m)"

text \<open>\<open>m[k] = v\<close>: an existing key keeps its place, a new one joins the iteration at the end.\<close>

fun gomap_upd :: "'k \<Rightarrow> 'v \<Rightarrow> ('k, 'v) gomap \<Rightarrow> ('k, 'v) gomap" where
  "gomap_upd k v [] = [(k, v)]"
| "gomap_upd k v ((k', v') # m) = (if k = k' then (k, v) # m else (k', v') # gomap_upd k v m)"

definition gomap_del :: "'k \<Rightarrow> ('k, 'v) gomap \<Rightarrow> ('k, 'v) gomap" where
  "gomap_del k m = filter (\<lambda>(k', _). k' \<noteq> k) m"

text \<open>Reading a missing key of an integer-valued map gives 0.\<close>

definition gomap_get0 :: "('k, 'n::zero) gomap \<Rightarrow> 'k \<Rightarrow> 'n" where
  "gomap_get0 m k = (case map_of m k of None \<Rightarrow> 0 | Some v \<Rightarrow> v)"

lemma map_of_gomap_upd [simp]: "map_of (gomap_upd k v m) = (map_of m)(k \<mapsto> v)"
  by (induction m) auto

lemma fst_set_gomap_upd [simp]: "fst ` set (gomap_upd k v m) = insert k (fst ` set m)"
proof -
  have "dom (map_of (gomap_upd k v m)) = insert k (dom (map_of m))" by simp
  then show ?thesis by (simp only: dom_map_of_conv_image_fst)
qed

lemma gomap_ok_upd [simp, inv_intros]: "gomap_ok m \<Longrightarrow> gomap_ok (gomap_upd k v m)"
  unfolding gomap_ok_def
proof (induction m)
  case (Cons p m)
  have "set (map fst (gomap_upd k v m)) = insert k (set (map fst m))" by simp
  with Cons show ?case by (cases p) (auto simp del: set_map)
qed simp

lemma map_of_gomap_del [simp]: "map_of (gomap_del k m) = (map_of m)(k := None)"
proof (induction m)
  case (Cons p m)
  then show ?case by (cases p) (auto simp: gomap_del_def)
qed (simp add: gomap_del_def fun_eq_iff)

lemma gomap_ok_del [simp, inv_intros]: "gomap_ok m \<Longrightarrow> gomap_ok (gomap_del k m)"
  by (auto simp: gomap_ok_def gomap_del_def distinct_map_filter)

lemma gomap_ok_Nil [simp, inv_intros]: "gomap_ok []"
  by (simp add: gomap_ok_def)

lemma gomap_get0_upd [simp]:
  "gomap_get0 (gomap_upd k v m) j = (if j = k then v else gomap_get0 m j)"
  by (simp add: gomap_get0_def)

lemma gomap_get0_Nil [simp]: "gomap_get0 [] k = 0"
  by (simp add: gomap_get0_def)

section \<open>Lists as tables\<close>

text \<open>An SQL \<open>UPDATE ... WHERE p\<close>.\<close>

definition update_where :: "('r \<Rightarrow> bool) \<Rightarrow> ('r \<Rightarrow> 'r) \<Rightarrow> 'r list \<Rightarrow> 'r list" where
  "update_where p f rs = map (\<lambda>r. if p r then f r else r) rs"

lemma map_update_where [simp]:
  "(\<And>r. key (f r) = key r) \<Longrightarrow> map key (update_where p f rs) = map key rs"
  by (simp add: update_where_def)

lemma set_update_where:
  "set (update_where p f rs) = (\<lambda>r. if p r then f r else r) ` set rs"
  by (simp add: update_where_def)

lemma distinct_map_filterI: "distinct (map f xs) \<Longrightarrow> distinct (map f (filter P xs))"
  by (rule distinct_map_filter)

lemma find_key_unique:
  assumes "distinct (map key rs)" and "r \<in> set rs"
  shows "find (\<lambda>x. key x = key r) rs = Some r"
  using assms by (induction rs) (auto simp: image_iff)

lemma find_key_None: "find (\<lambda>x. key x = k) rs = None \<longleftrightarrow> k \<notin> key ` set rs"
  by (induction rs) auto

lemma find_SomeD: "find P xs = Some x \<Longrightarrow> x \<in> set xs \<and> P x"
  by (auto simp: find_Some_iff)

lemma find_update_where:
  assumes "\<And>r. key (f r) = key r"
  shows "find (\<lambda>r. key r = k) (update_where (\<lambda>r. key r \<in> S) f rs) =
    (if k \<in> S then map_option f (find (\<lambda>r. key r = k) rs) else find (\<lambda>r. key r = k) rs)"
  using assms by (induction rs) (auto simp: update_where_def)

lemmas find_update_where1 = find_update_where [where S = "{j}" for j, unfolded singleton_iff]

lemma length_filter_key:
  assumes "distinct (map key rs)"
  shows "length (filter (\<lambda>r. k = key r \<and> Q r) rs) \<le> 1"
  using assms by (induction rs) (auto simp: filter_empty_conv)

lemma find_append: "find P (xs @ ys) = (case find P xs of None \<Rightarrow> find P ys | Some x \<Rightarrow> Some x)"
  by (induction xs) auto

section \<open>Reachability\<close>

text \<open>
  Every state machine of the development is an initial state, a step relation and an invariant the
  steps keep; the locale lifts the invariant to all reachable states and to single runs.
\<close>

inductive reach :: "('s \<Rightarrow> 's \<Rightarrow> bool) \<Rightarrow> 's \<Rightarrow> 's \<Rightarrow> bool" for R where
  reach_refl [intro]: "reach R s s"
| reach_step: "reach R s t \<Longrightarrow> R t u \<Longrightarrow> reach R s u"

lemma reach_Cons:
  assumes "R s t" and "reach R t u"
  shows "reach R s u"
  using assms(2,1) by induction (auto intro: reach.intros)

locale step_invariant =
  fixes init :: "'s \<Rightarrow> bool"
    and step :: "'s \<Rightarrow> 's \<Rightarrow> bool"
    and inv :: "'s \<Rightarrow> bool"
  assumes init_inv: "init s \<Longrightarrow> inv s"
    and step_inv: "inv s \<Longrightarrow> step s t \<Longrightarrow> inv t"
begin

lemma steps_inv: "reach step s t \<Longrightarrow> inv s \<Longrightarrow> inv t"
  by (induction rule: reach.induct) (auto intro: step_inv)

lemma reachable_inv: "init s \<Longrightarrow> reach step s t \<Longrightarrow> inv t"
  using steps_inv init_inv by blast

end

end
