(* ===== verification/Proto.thy ===== *)
theory Proto
  imports Prelude
begin

text \<open>
  The protocol buffers the program exchanges and stores, as records with the fields of
  \<^verbatim>\<open>fleetspeak/src/common/proto/fleetspeak/common.proto\<close> and
  \<^verbatim>\<open>system.proto\<close>, the errors its functions return, and its clock.

  A \<open>bytes\<close> field the code compares with \<^verbatim>\<open>nil\<close> is a \<open>gobytes\<close>; a message-valued
  field is an option (\<^verbatim>\<open>nil\<close> is \<open>None\<close>). \<^verbatim>\<open>int64\<close> seconds and \<^verbatim>\<open>int32\<close> nanoseconds
  are integers, since no computation of the modelled code can leave their range for a clock
  within the years a protobuf timestamp represents.
\<close>

section \<open>Errors\<close>

text \<open>
  \<open>Err\<close> is \<^verbatim>\<open>errors.New\<close>/\<^verbatim>\<open>fmt.Errorf\<close>, carrying its format string; \<open>Fatal\<close> is
  \<^verbatim>\<open>log.Fatalf\<close>, \<^verbatim>\<open>log.Exitf\<close> or \<^verbatim>\<open>panic\<close>, which end the process;
  \<open>SqlErr\<close> is an error of the SQL engine; the others are the sentinel values the code compares
  errors with.
\<close>

datatype error =
    Err string
  | Fatal string
  | SqlErr string
  | ErrNoRows
  | ErrBroadcastDisabled
  | ErrNotSupported
  | ErrNotAuthorized
  | CtxErr
  | TemporaryError error

text \<open>\<^verbatim>\<open>error.Error()\<close>; a \<open>TemporaryError\<close> delegates to the error it wraps.\<close>

fun Error :: "error \<Rightarrow> string" where
  "Error (Err s) = s"
| "Error (Fatal s) = s"
| "Error (SqlErr s) = s"
| "Error ErrNoRows = ''sql: no rows in result set''"
| "Error ErrBroadcastDisabled = ''broadcast is disabled and allocation expired''"
| "Error ErrNotSupported = ''feature not supported''"
| "Error ErrNotAuthorized = ''not authorized''"
| "Error CtxErr = ''context deadline exceeded''"
| "Error (TemporaryError e) = Error e"

text \<open>
  \<^verbatim>\<open>service.IsTemporary\<close>: whether the error is a \<^verbatim>\<open>net.Error\<close> with a true
  \<^verbatim>\<open>Timeout()\<close>, which \<^verbatim>\<open>TemporaryError\<close> and \<^verbatim>\<open>context.DeadlineExceeded\<close> are.
\<close>

fun IsTemporary :: "error \<Rightarrow> bool" where
  "IsTemporary (TemporaryError e) = True"
| "IsTemporary CtxErr = True"
| "IsTemporary e = False"

section \<open>Time\<close>

text \<open>A \<^verbatim>\<open>time.Time\<close> is its \<^verbatim>\<open>UnixNano()\<close>; durations are nanoseconds.\<close>

type_synonym gotime = int

abbreviation second :: int where "second \<equiv> 1000000000"
abbreviation minute :: int where "minute \<equiv> 60 * second"

record Timestamp =
  Seconds :: int
  Nanos :: int

text \<open>The zero value of \<^verbatim>\<open>time.Time\<close>, January 1 of the year 1.\<close>

definition zero_time :: gotime where
  "zero_time = - 62135596800 * second"

text \<open>\<^verbatim>\<open>timestamppb.New\<close> and \<^verbatim>\<open>AsTime\<close>.\<close>

definition tspb_New :: "gotime \<Rightarrow> Timestamp" where
  "tspb_New t = \<lparr>Seconds = t div second, Nanos = t mod second\<rparr>"

definition AsTime :: "Timestamp \<Rightarrow> gotime" where
  "AsTime ts = Seconds ts * second + Nanos ts"

text \<open>\<^verbatim>\<open>CheckValid\<close>: years 1 to 9999 and nanoseconds within a second.\<close>

definition CheckValid :: "Timestamp option \<Rightarrow> error + Timestamp" where
  "CheckValid ts = (case ts of None \<Rightarrow> Inl (Err ''invalid nil Timestamp'')
     | Some t \<Rightarrow> if Seconds t < - 62135596800 then Inl (Err ''before 0001-01-01'')
         else if Seconds t > 253402300799 then Inl (Err ''after 9999-12-31'')
         else if Nanos t < 0 \<or> Nanos t \<ge> second then Inl (Err ''out-of-range nanos'')
         else Inr t)"

lemma AsTime_tspb_New [simp]: "AsTime (tspb_New t) = t"
  by (simp add: AsTime_def tspb_New_def)

text \<open>Go's integer division and remainder truncate towards zero.\<close>

definition go_quot :: "int \<Rightarrow> int \<Rightarrow> int" where
  "go_quot a b = sgn a * sgn b * (\<bar>a\<bar> div \<bar>b\<bar>)"

definition go_rem :: "int \<Rightarrow> int \<Rightarrow> int" where
  "go_rem a b = a - b * go_quot a b"

lemma go_quot_nonneg: "0 \<le> a \<Longrightarrow> 0 < b \<Longrightarrow> go_quot a b = a div b"
  by (cases "a = 0") (auto simp: go_quot_def)

section \<open>Floating point\<close>

text \<open>
  A \<^verbatim>\<open>float64\<close>: the finite number \<open>m * 2 ^ e\<close>, or an infinity or NaN. The conversion to
  \<^verbatim>\<open>int32\<close> truncates; out of range it gives the value the amd64 instruction gives.
\<close>

datatype f64 = F64 int int | F64_NaN_Inf

definition f64_int32 :: "f64 \<Rightarrow> int" where
  "f64_int32 x = (case x of F64_NaN_Inf \<Rightarrow> - 2147483648
     | F64 m e \<Rightarrow> let t = (if e \<ge> 0 then m * 2 ^ nat e else go_quot m (2 ^ nat (- e))) in
         if t < - 2147483648 \<or> t > 2147483647 then - 2147483648 else t)"

text \<open>Scaling by a power of two is exact but for values far below 1, which truncate to 0 either way.\<close>

definition f64_scale :: "int \<Rightarrow> f64 \<Rightarrow> f64" where
  "f64_scale k x = (case x of F64_NaN_Inf \<Rightarrow> F64_NaN_Inf | F64 m e \<Rightarrow> F64 m (e + k))"

section \<open>Messages\<close>

record Address =
  ClientId :: gobytes
  ServiceName :: string

record AnyData =
  TypeUrl :: string
  Value :: bytes

record MessageResult =
  ProcessedTime :: "Timestamp option"
  Failed :: bool
  FailedReason :: string

type_synonym ValidationInfoData = "(string \<times> string) list"
type_synonym AnnotationsData = "(string \<times> string) list"

datatype PriorityLevel = Message_MEDIUM | Message_LOW | Message_HIGH | Message_Priority int

record Message =
  MessageId :: gobytes
  Source :: "Address option"
  IsBlocklistedSource :: bool
  SourceMessageId :: gobytes
  Destination :: "Address option"
  MessageType :: string
  CreationTime :: "Timestamp option"
  Data :: "AnyData option"
  ValidationInfo :: "ValidationInfoData option"
  Result :: "MessageResult option"
  Priority :: PriorityLevel
  Background :: bool
  Annotations :: "AnnotationsData option"

definition empty_Message :: Message where
  "empty_Message = \<lparr>MessageId = None, Source = None, IsBlocklistedSource = False,
     SourceMessageId = None, Destination = None, MessageType = [], CreationTime = None,
     Data = None, ValidationInfo = None, Result = None, Priority = Message_MEDIUM,
     Background = False, Annotations = None\<rparr>"

text \<open>The generated getters: \<^verbatim>\<open>GetServiceName()\<close> of a nil address is the empty string.\<close>

definition addr_service :: "Address option \<Rightarrow> string" where
  "addr_service a = (case a of None \<Rightarrow> [] | Some x \<Rightarrow> ServiceName x)"

definition addr_client :: "Address option \<Rightarrow> gobytes" where
  "addr_client a = (case a of None \<Rightarrow> None | Some x \<Rightarrow> ClientId x)"

lemma addr_simps [simp]:
  "addr_service None = []" "addr_service (Some x) = ServiceName x"
  "addr_client None = None" "addr_client (Some x) = ClientId x"
  by (simp_all add: addr_service_def addr_client_def)

record Label =
  lbl_service :: string
  lbl_label :: string

record ContactData =
  SequencingNonce :: u64
  Messages :: "Message list"
  ClientClock :: "Timestamp option"
  AllowedMessages :: "(string, u64) gomap"

record Signature =
  sig_Certificate :: "bytes list"
  sig_Algorithm :: int
  sig_Signature :: bytes

record WrappedContactData =
  wcd_ContactData :: bytes
  wcd_Signatures :: "Signature list"
  wcd_ClientLabels :: "string list"

record Broadcast =
  BroadcastId :: gobytes
  b_Source :: "Address option"
  b_Destination :: "Address option"
  b_MessageType :: string
  RequiredLabels :: "Label list"
  ExpirationTime :: "Timestamp option"
  b_Data :: "AnyData option"
  GroupName :: string

section \<open>The clock and retry policy the server runs under\<close>

text \<open>
  \<^verbatim>\<open>ftime.Now\<close>, \<^verbatim>\<open>ClientRetryTime\<close> and \<^verbatim>\<open>ServerRetryTime\<close> are package
  variables. The clock is a field; the client retry time is computed from it; the jitter
  \<^verbatim>\<open>rand.Float64()\<close> makes the server retry time a delay the environment picks for each retry
  count. \<open>begin_err\<close> and \<open>commit_err\<close> are the outcomes of \<^verbatim>\<open>Begin\<close> and
  \<^verbatim>\<open>Commit\<close> of the SQL driver.
\<close>

record env =
  Now :: gotime
  server_delay :: "u32 \<Rightarrow> int"
  begin_err :: "error option"
  commit_err :: "error option"

definition ClientRetryTime :: "env \<Rightarrow> gotime" where
  "ClientRetryTime e = Now e + 15 * minute"

definition ServerRetryTime :: "env \<Rightarrow> u32 \<Rightarrow> gotime" where
  "ServerRetryTime e n = Now e + server_delay e n"

definition NowProto :: "env \<Rightarrow> Timestamp" where
  "NowProto e = tspb_New (Now e)"

section \<open>Functions that change state\<close>

text \<open>
  A Go function on state \<open>'w\<close> either ends the process (\<open>Inl\<close>, a panic or \<^verbatim>\<open>log.Fatal\<close>) or returns
  a value, which may be a Go error, and the new state.
\<close>

type_synonym ('w, 'a) gofn = "'w \<Rightarrow> error + 'a \<times> 'w"

definition abind :: "('w, 'a) gofn \<Rightarrow> ('a \<Rightarrow> ('w, 'b) gofn) \<Rightarrow> ('w, 'b) gofn" where
  "abind f g w = ebind (f w) (\<lambda>(a, w'). g a w')"

definition aret :: "'a \<Rightarrow> ('w, 'a) gofn" where
  "aret a w = Inr (a, w)"

fun aloop :: "('x \<Rightarrow> ('w, unit) gofn) \<Rightarrow> 'x list \<Rightarrow> ('w, unit) gofn" where
  "aloop f [] = aret ()"
| "aloop f (x # xs) = abind (f x) (\<lambda>_. aloop f xs)"

text \<open>\<^verbatim>\<open>if err != nil { return err }\<close>.\<close>

definition atry :: "('w, error + 'a) gofn \<Rightarrow> ('a \<Rightarrow> ('w, error + 'b) gofn) \<Rightarrow> ('w, error + 'b) gofn" where
  "atry f k = abind f (\<lambda>r. case r of Inl x \<Rightarrow> aret (Inl x) | Inr a \<Rightarrow> k a)"

lemma abind_eq_Inr [simp]:
  "abind f g w = Inr (b, w'') \<longleftrightarrow> (\<exists>a w'. f w = Inr (a, w') \<and> g a w' = Inr (b, w''))"
  by (auto simp: abind_def)

lemma aret_eq_Inr [simp]: "aret a w = Inr (b, w') \<longleftrightarrow> b = a \<and> w' = w"
  by (auto simp: aret_def)

lemma atry_eq_Inr:
  "atry f k w = Inr (r, w') \<longleftrightarrow>
     (\<exists>y. f w = Inr (Inl y, w') \<and> r = Inl y) \<or> (\<exists>a w1. f w = Inr (Inr a, w1) \<and> k a w1 = Inr (r, w'))"
proof (cases "f w")
  case (Inr p)
  obtain x w1 where "p = (x, w1)" by force
  with Inr show ?thesis by (cases x) (auto simp: atry_def abind_def)
qed (simp add: atry_def abind_def)

end
