(* ===== verification/Flow_Filter.thy ===== *)
theory Flow_Filter
  imports Proto
begin

text \<open>
  \<^verbatim>\<open>fleetspeak/src/client/flow/filter.go\<close>: three booleans packed into an \<^verbatim>\<open>int32\<close>.
\<close>

unbundle bit_operations_syntax

type_synonym Filter = "32 word"

definition lowFiltered :: "32 word" where "lowFiltered = push_bit 0 1"
definition medFiltered :: "32 word" where "medFiltered = push_bit 1 1"
definition highFiltered :: "32 word" where "highFiltered = push_bit 2 1"

definition NewFilter :: Filter where
  "NewFilter = 0"

definition Filter_Set :: "bool \<Rightarrow> bool \<Rightarrow> bool \<Rightarrow> Filter" where
  "Filter_Set low medium high =
     (let i = 0;
          i = (if low then i OR lowFiltered else i);
          i = (if medium then i OR medFiltered else i);
          i = (if high then i OR highFiltered else i)
      in i)"

definition Filter_Get :: "Filter \<Rightarrow> bool \<times> bool \<times> bool" where
  "Filter_Get i = (i AND lowFiltered \<noteq> 0, i AND medFiltered \<noteq> 0, i AND highFiltered \<noteq> 0)"

lemmas filter_defs = Filter_Set_def Filter_Get_def lowFiltered_def medFiltered_def highFiltered_def

lemma Filter_Get_NewFilter [simp]: "Filter_Get NewFilter = (False, False, False)"
  by (simp add: filter_defs NewFilter_def)

text \<open>
  Reading a filter that was just set returns the three booleans it was set to, whatever bits it
  held before: the flags do not interfere.
\<close>

lemma Filter_Get_Set: "Filter_Get (Filter_Set low medium high) = (low, medium, high)"
  by (cases low; cases medium; cases high) (simp_all add: filter_defs Let_def)

end
