(* ===== verification/Outbox_Sort.thy ===== *)
theory Outbox_Sort
  imports Flow_Filter
begin

text \<open>
  \<^verbatim>\<open>fleetspeak/src/client/internal/message/sort.go\<close>: the loop that reorders the client's outgoing
  messages by priority.

  One iteration of the \<^verbatim>\<open>for\<close> loop is \<open>sort_iter f e s\<close>: \<open>f\<close> is the value
  \<^verbatim>\<open>f.Get()\<close> reads, \<open>e\<close> the case the \<^verbatim>\<open>select\<close> takes, which is the environment's choice
  among the ready ones; \<open>None\<close> means the case is not part of the select in this state. The fields
  \<open>received\<close> and \<open>delivered\<close> are history variables: everything read from \<^verbatim>\<open>in\<close> and written
  to \<^verbatim>\<open>out\<close> so far.
\<close>

text \<open>
  A \<^verbatim>\<open>comms.MessageInfo\<close>: the message and its \<^verbatim>\<open>Ack\<close> and \<^verbatim>\<open>Nack\<close> closures, which are
  identified by a number.
\<close>

record MessageInfo =
  mi_M :: Message
  mi_callbacks :: nat

record sort_state =
  ss_low :: "MessageInfo list"
  ss_medium :: "MessageInfo list"
  ss_high :: "MessageInfo list"
  ss_returned :: bool
  ss_received :: "MessageInfo list"
  ss_delivered :: "MessageInfo list"

definition sort_init :: sort_state where
  "sort_init = \<lparr>ss_low = [], ss_medium = [], ss_high = [], ss_returned = False,
     ss_received = [], ss_delivered = []\<rparr>"

definition appendMI :: "MessageInfo \<Rightarrow> sort_state \<Rightarrow> sort_state" where
  "appendMI mi s = (case Priority (mi_M mi) of
       Message_LOW \<Rightarrow> s\<lparr>ss_low := ss_low s @ [mi]\<rparr>
     | Message_MEDIUM \<Rightarrow> s\<lparr>ss_medium := ss_medium s @ [mi]\<rparr>
     | Message_HIGH \<Rightarrow> s\<lparr>ss_high := ss_high s @ [mi]\<rparr>
     | Message_Priority _ \<Rightarrow> s\<lparr>ss_medium := ss_medium s @ [mi]\<rparr>)"

datatype sort_event = RecvIn MessageInfo | InClosed | SendOut | FilterPoll

text \<open>The deferred drain: on return everything buffered is written to \<^verbatim>\<open>out\<close>, high first.\<close>

definition sort_return :: "sort_state \<Rightarrow> sort_state" where
  "sort_return s = s\<lparr>ss_returned := True, ss_low := [], ss_medium := [], ss_high := [],
     ss_delivered := ss_delivered s @ ss_high s @ ss_medium s @ ss_low s\<rparr>"

definition recvMI :: "MessageInfo \<Rightarrow> sort_state \<Rightarrow> sort_state" where
  "recvMI mi s = appendMI mi (s\<lparr>ss_received := ss_received s @ [mi]\<rparr>)"

fun sort_iter :: "Filter \<Rightarrow> sort_event \<Rightarrow> sort_state \<Rightarrow> sort_state option" where
  "sort_iter f e s =
     (let (lf, mf, hf) = Filter_Get f in
      if ss_returned s then None
      else (case e of
          RecvIn mi \<Rightarrow> Some (recvMI mi s)
        | InClosed \<Rightarrow> Some (sort_return s)
        | FilterPoll \<Rightarrow> Some s
        | SendOut \<Rightarrow>
            (if ss_high s \<noteq> [] \<and> \<not> hf then
               Some (s\<lparr>ss_delivered := ss_delivered s @ [hd (ss_high s)], ss_high := tl (ss_high s)\<rparr>)
             else if ss_medium s \<noteq> [] \<and> \<not> mf then
               Some (s\<lparr>ss_delivered := ss_delivered s @ [hd (ss_medium s)], ss_medium := tl (ss_medium s)\<rparr>)
             else if ss_low s \<noteq> [] \<and> \<not> lf then
               Some (s\<lparr>ss_delivered := ss_delivered s @ [hd (ss_low s)], ss_low := tl (ss_low s)\<rparr>)
             else None)))"

declare sort_iter.simps [simp del]

definition sort_step :: "sort_state \<Rightarrow> sort_state \<Rightarrow> bool" where
  "sort_step s t \<longleftrightarrow> (\<exists>f e. sort_iter f e s = Some t)"

section \<open>The queues\<close>

datatype queue_class = Low | Medium | High

definition class_of :: "MessageInfo \<Rightarrow> queue_class" where
  "class_of mi = (case Priority (mi_M mi) of Message_LOW \<Rightarrow> Low | Message_HIGH \<Rightarrow> High | _ \<Rightarrow> Medium)"

fun queue :: "queue_class \<Rightarrow> sort_state \<Rightarrow> MessageInfo list" where
  "queue Low s = ss_low s"
| "queue Medium s = ss_medium s"
| "queue High s = ss_high s"

definition only :: "queue_class \<Rightarrow> MessageInfo list \<Rightarrow> MessageInfo list" where
  "only c = filter (\<lambda>mi. class_of mi = c)"

text \<open>
  The invariant: for each class, what was received is what was delivered followed by what is
  queued, in order; each queue holds messages of its class only.
\<close>

definition sort_inv :: "sort_state \<Rightarrow> bool" where
  "sort_inv s \<longleftrightarrow> (\<forall>c. only c (ss_received s) = only c (ss_delivered s) @ queue c s)
     \<and> (\<forall>c. \<forall>mi \<in> set (queue c s). class_of mi = c)
     \<and> (ss_returned s \<longrightarrow> (\<forall>c. queue c s = []))"

lemma all_queue_class: "(\<forall>c. P c) \<longleftrightarrow> P Low \<and> P Medium \<and> P High"
  by (metis queue_class.exhaust)

lemma only_append [simp]: "only c (xs @ ys) = only c xs @ only c ys"
  by (simp add: only_def)

lemma only_Nil [simp]: "only c [] = []"
  by (simp add: only_def)

lemma only_Cons [simp]: "only c (x # xs) = (if class_of x = c then x # only c xs else only c xs)"
  by (simp add: only_def)

lemma only_all: "\<forall>mi \<in> set xs. class_of mi = c \<Longrightarrow> only d xs = (if c = d then xs else [])"
  by (induction xs) auto

lemma queue_update [simp]:
  "queue d (s\<lparr>ss_delivered := x\<rparr>) = queue d s"
  "queue d (s\<lparr>ss_high := x\<rparr>) = (if d = High then x else queue d s)"
  "queue d (s\<lparr>ss_medium := x\<rparr>) = (if d = Medium then x else queue d s)"
  "queue d (s\<lparr>ss_low := x\<rparr>) = (if d = Low then x else queue d s)"
  by (cases d; simp)+

lemma sort_invD:
  assumes "sort_inv s"
  shows "only c (ss_received s) = only c (ss_delivered s) @ queue c s"
    and "mi \<in> set (queue c s) \<Longrightarrow> class_of mi = c"
    and "ss_returned s \<Longrightarrow> queue c s = []"
  using assms by (auto simp: sort_inv_def)

lemma sort_inv_init: "sort_inv sort_init"
  by (auto simp: sort_inv_def sort_init_def all_queue_class)

lemma sort_inv_recv: "sort_inv s \<Longrightarrow> \<not> ss_returned s \<Longrightarrow> sort_inv (recvMI mi s)"
  by (cases "Priority (mi_M mi)")
    (auto simp: sort_inv_def recvMI_def appendMI_def class_of_def all_queue_class)

lemma sort_inv_return: "sort_inv s \<Longrightarrow> sort_inv (sort_return s)"
  by (auto simp: sort_inv_def sort_return_def all_queue_class
      only_all [of _ Low] only_all [of _ Medium] only_all [of _ High])

text \<open>The select's send cases, one lemma for the three queues.\<close>

lemma sort_iter_SendOutE:
  assumes "sort_iter f SendOut s = Some t"
  obtains c mi rest where "queue c s = mi # rest" "queue c t = rest"
    "ss_delivered t = ss_delivered s @ [mi]" "ss_received t = ss_received s"
    "\<And>d. d \<noteq> c \<Longrightarrow> queue d t = queue d s" "\<not> ss_returned s" "\<not> ss_returned t"
proof -
  obtain lf mf hf where f: "Filter_Get f = (lf, mf, hf)" by (cases "Filter_Get f")
  note eq = assms [unfolded sort_iter.simps f Let_def, simplified]
  consider (h) "ss_high s \<noteq> []" "\<not> hf" | (m) "\<not> (ss_high s \<noteq> [] \<and> \<not> hf)" "ss_medium s \<noteq> []" "\<not> mf"
    | (l) "\<not> (ss_high s \<noteq> [] \<and> \<not> hf)" "\<not> (ss_medium s \<noteq> [] \<and> \<not> mf)" "ss_low s \<noteq> []" "\<not> lf"
    using eq by (auto split: if_splits)
  then show thesis
  proof cases
    case h
    with eq show ?thesis
      by (intro that [of High "hd (ss_high s)" "tl (ss_high s)"]) (auto split: if_splits)
  next
    case m
    with eq show ?thesis
      by (intro that [of Medium "hd (ss_medium s)" "tl (ss_medium s)"]) (auto split: if_splits)
  next
    case l
    with eq show ?thesis
      by (intro that [of Low "hd (ss_low s)" "tl (ss_low s)"]) (auto split: if_splits)
  qed
qed

lemma sort_inv_send:
  assumes "sort_inv s" and "sort_iter f SendOut s = Some t"
  shows "sort_inv t"
  using assms(2)
proof (rule sort_iter_SendOutE)
  fix c mi rest
  assume q: "queue c s = mi # rest" "queue c t = rest" "ss_delivered t = ss_delivered s @ [mi]"
    "ss_received t = ss_received s" "\<And>d. d \<noteq> c \<Longrightarrow> queue d t = queue d s"
    and r: "\<not> ss_returned t"
  have c: "class_of mi = c" using sort_invD(2) [OF assms(1), of mi c] q(1) by simp
  have "only d (ss_received t) = only d (ss_delivered t) @ queue d t" for d
    using sort_invD(1) [OF assms(1), of d] q c by (cases "d = c") simp_all
  moreover have "\<forall>mi \<in> set (queue d t). class_of mi = d" for d
    using sort_invD(2) [OF assms(1), of _ d] q(1,2) q(5) [of d] by (cases "d = c") simp_all
  ultimately show ?thesis using r by (simp add: sort_inv_def)
qed

interpretation sorting: step_invariant "\<lambda>s. s = sort_init" sort_step sort_inv
proof unfold_locales
  fix s t
  assume s: "sort_inv s" and "sort_step s t"
  then obtain f e where it: "sort_iter f e s = Some t" by (auto simp: sort_step_def)
  show "sort_inv t"
  proof (cases e)
    case SendOut
    with s it show ?thesis by (auto intro: sort_inv_send)
  qed (use s it in \<open>auto simp: sort_iter.simps split: if_splits prod.splits
        intro: sort_inv_recv sort_inv_return\<close>)
qed (auto intro: sort_inv_init)

section \<open>Runs\<close>

fun sort_run :: "(Filter \<times> sort_event) list \<Rightarrow> sort_state \<Rightarrow> sort_state option" where
  "sort_run [] s = Some s"
| "sort_run ((f, e) # es) s = (case sort_iter f e s of None \<Rightarrow> None | Some t \<Rightarrow> sort_run es t)"

lemma sort_run_reach: "sort_run es s = Some t \<Longrightarrow> reach sort_step s t"
proof (induction es s rule: sort_run.induct)
  case (2 f e es s)
  from "2.prems" obtain u where u: "sort_iter f e s = Some u" "sort_run es u = Some t"
    by (auto split: option.splits)
  have "sort_step s u" using u(1) by (auto simp: sort_step_def)
  then show ?case using "2.IH" u by (blast intro: reach_Cons)
qed auto

text \<open>A sample run for the witnesses: a low and then a high message arrive, one is sent.\<close>

definition demo_mi :: "PriorityLevel \<Rightarrow> MessageInfo" where
  "demo_mi p = \<lparr>mi_M = empty_Message\<lparr>Priority := p\<rparr>, mi_callbacks = 0\<rparr>"

definition demo_sort0 :: sort_state where
  "demo_sort0 = \<lparr>ss_low = [demo_mi Message_LOW], ss_medium = [], ss_high = [demo_mi Message_HIGH],
     ss_returned = False, ss_received = [demo_mi Message_LOW, demo_mi Message_HIGH], ss_delivered = []\<rparr>"

definition demo_sort1 :: sort_state where
  "demo_sort1 = \<lparr>ss_low = [demo_mi Message_LOW], ss_medium = [], ss_high = [],
     ss_returned = False, ss_received = [demo_mi Message_LOW, demo_mi Message_HIGH],
     ss_delivered = [demo_mi Message_HIGH]\<rparr>"

lemma demo_sort_step: "sort_iter NewFilter SendOut demo_sort0 = Some demo_sort1"
  by (simp add: sort_iter.simps demo_sort0_def demo_sort1_def)

lemma demo_sort_reach: "reach sort_step sort_init demo_sort0"
  by (rule sort_run_reach [of "[(NewFilter, RecvIn (demo_mi Message_LOW)), (NewFilter, RecvIn (demo_mi Message_HIGH))]"])
    (simp add: sort_iter.simps sort_init_def recvMI_def appendMI_def demo_mi_def demo_sort0_def)

section \<open>Properties\<close>

text \<open>
  C28. No message is lost, duplicated or reordered within its priority: at any moment the
  messages received with one priority are those delivered followed by those still queued, in
  order; and once the loop has returned, everything received was delivered, per priority in the
  order of arrival.
\<close>

theorem SortLoop_fifo_per_priority:
  assumes "reach sort_step sort_init s"
  shows "only c (ss_received s) = only c (ss_delivered s) @ queue c s
    \<and> (ss_returned s \<longrightarrow> only c (ss_delivered s) = only c (ss_received s))"
  using sorting.reachable_inv [OF refl assms] by (auto simp: sort_inv_def)

theorem SortLoop_fifo_per_priority_witness:
  "only Low (ss_received demo_sort0) = only Low (ss_delivered demo_sort0) @ queue Low demo_sort0
   \<and> ss_received demo_sort0 \<noteq> []"
  using SortLoop_fifo_per_priority [OF demo_sort_reach, of Low] by (simp add: demo_sort0_def)

text \<open>
  C29. A message leaves the buffer only when no message of a higher priority that is not filtered is
  waiting, and never from a priority the flow filter blocks.
\<close>

theorem SortLoop_priority:
  assumes "reach sort_step sort_init s"
    and "Filter_Get f = (lf, mf, hf)"
    and "sort_iter f SendOut s = Some t"
    and "ss_delivered t = ss_delivered s @ [mi]"
  shows "(class_of mi = High \<longrightarrow> \<not> hf)
    \<and> (class_of mi = Medium \<longrightarrow> \<not> mf \<and> (ss_high s = [] \<or> hf))
    \<and> (class_of mi = Low \<longrightarrow> \<not> lf \<and> (ss_high s = [] \<or> hf) \<and> (ss_medium s = [] \<or> mf))"
proof -
  have cls: "\<And>c xs x. queue c s = x # xs \<Longrightarrow> class_of x = c"
    using sort_invD(2) [OF sorting.reachable_inv [OF refl assms(1)]] by simp
  show ?thesis
    using assms(2-4) cls [of High] cls [of Medium] cls [of Low]
    by (cases "ss_high s"; cases "ss_medium s"; cases "ss_low s")
      (auto simp: sort_iter.simps split: if_splits)
qed

theorem SortLoop_priority_witness:
  "class_of (demo_mi Message_HIGH) = High \<and> \<not> snd (snd (Filter_Get NewFilter))"
proof -
  have "ss_delivered demo_sort1 = ss_delivered demo_sort0 @ [demo_mi Message_HIGH]"
    by (simp add: demo_sort0_def demo_sort1_def)
  from SortLoop_priority [OF demo_sort_reach Filter_Get_NewFilter demo_sort_step this]
  show ?thesis by (simp add: class_of_def demo_mi_def)
qed

text \<open>
  While the loop runs it always offers to send when some queue is non-empty and not filtered,
  and each send shortens the buffer, so a buffered message is delayed only by the receiver and by
  higher priorities.
\<close>

lemma SortLoop_can_send:
  assumes "Filter_Get f = (lf, mf, hf)" and "\<not> ss_returned s"
    and "(ss_high s \<noteq> [] \<and> \<not> hf) \<or> (ss_medium s \<noteq> [] \<and> \<not> mf) \<or> (ss_low s \<noteq> [] \<and> \<not> lf)"
  shows "\<exists>t. sort_iter f SendOut s = Some t \<and>
    length (ss_low t @ ss_medium t @ ss_high t) < length (ss_low s @ ss_medium s @ ss_high s)"
  using assms by (auto simp: sort_iter.simps)

lemma SortLoop_can_send_instance:
  "\<exists>t. sort_iter NewFilter SendOut demo_sort0 = Some t \<and>
    length (ss_low t @ ss_medium t @ ss_high t) <
    length (ss_low demo_sort0 @ ss_medium demo_sort0 @ ss_high demo_sort0)"
  by (rule SortLoop_can_send [OF Filter_Get_NewFilter]) (simp_all add: demo_sort0_def)

end
