(* ===== verification/Outbox_Retry.thy ===== *)
theory Outbox_Retry
  imports Proto
begin

text \<open>
  \<^verbatim>\<open>fleetspeak/src/client/internal/message/retry.go\<close>: the loop that holds outgoing messages until
  the communicator acknowledges them.

  The loop runs beside the communicator, which calls the \<^verbatim>\<open>Ack\<close> and \<^verbatim>\<open>Nack\<close> closures of
  the \<^verbatim>\<open>MessageInfo\<close>s it was handed; the model interleaves the two. \<open>rl_pc\<close> says whether the
  loop stands at its \<^verbatim>\<open>select\<close>, at a send \<^verbatim>\<open>out <- makeInfo(sm)\<close>, or has returned;
  \<open>rl_acks\<close> and \<open>rl_nacks\<close> are the two buffered channels of capacity \<^verbatim>\<open>maxCount\<close>;
  \<open>rl_held\<close> is what the receiver of \<^verbatim>\<open>out\<close> holds and has neither acked nor nacked
  (\<^verbatim>\<open>comms.MessageInfo\<close> requires exactly one of the two calls); \<open>rl_accepted\<close> and
  \<open>rl_acked\<close> are histories. \<^verbatim>\<open>proto.Size\<close> is the parameter \<open>Size\<close>.
\<close>

record sizedMessage =
  sm_size :: int
  sm_m :: Message

datatype retry_pc = AtSelect | Sending sizedMessage | Returned

record retry_state =
  rl_size :: int
  rl_count :: int
  rl_pc :: retry_pc
  rl_acks :: "sizedMessage list"
  rl_nacks :: "sizedMessage list"
  rl_held :: "sizedMessage list"
  rl_accepted :: "sizedMessage list"
  rl_acked :: "sizedMessage list"

definition retry_init :: retry_state where
  "retry_init = \<lparr>rl_size = 0, rl_count = 0, rl_pc = AtSelect, rl_acks = [], rl_nacks = [],
     rl_held = [], rl_accepted = [], rl_acked = []\<rparr>"

datatype retry_event =
    LoopAck        \<comment> \<open>\<^verbatim>\<open>case sm := <-acks\<close>\<close>
  | LoopNack       \<comment> \<open>\<^verbatim>\<open>case sm := <-nacks\<close>\<close>
  | LoopIn Message \<comment> \<open>\<^verbatim>\<open>case m, ok := <-optIn\<close>, a message\<close>
  | LoopClosed     \<comment> \<open>the same case on the closed channel\<close>
  | OutTaken       \<comment> \<open>the receiver takes what the loop offers on \<^verbatim>\<open>out\<close>\<close>
  | CallAck nat    \<comment> \<open>the receiver calls \<^verbatim>\<open>Ack\<close> of the i-th message it holds\<close>
  | CallNack nat

text \<open>\<^verbatim>\<open>optIn\<close> is the input channel, or nil (never ready) when enough is pending.\<close>

definition reads_input :: "int \<Rightarrow> int \<Rightarrow> retry_state \<Rightarrow> bool" where
  "reads_input maxSize maxCount s \<longleftrightarrow> \<not> (rl_size s \<ge> maxSize \<or> rl_count s \<ge> maxCount)"

definition drop_at :: "nat \<Rightarrow> 'a list \<Rightarrow> 'a list" where
  "drop_at i xs = take i xs @ drop (Suc i) xs"

fun retry_step :: "(Message \<Rightarrow> nat) \<Rightarrow> int \<Rightarrow> int \<Rightarrow> retry_event \<Rightarrow> retry_state \<Rightarrow> retry_state option" where
  "retry_step Size maxSize maxCount LoopAck s =
     (case (rl_pc s, rl_acks s) of
        (AtSelect, sm # rest) \<Rightarrow>
          Some (s\<lparr>rl_acks := rest, rl_size := rl_size s - sm_size sm, rl_count := rl_count s - 1\<rparr>)
      | _ \<Rightarrow> None)"
| "retry_step Size maxSize maxCount LoopNack s =
     (case (rl_pc s, rl_nacks s) of
        (AtSelect, sm # rest) \<Rightarrow> Some (s\<lparr>rl_nacks := rest, rl_pc := Sending sm\<rparr>)
      | _ \<Rightarrow> None)"
| "retry_step Size maxSize maxCount (LoopIn m) s =
     (if rl_pc s = AtSelect \<and> reads_input maxSize maxCount s then
        (let sm = \<lparr>sm_size = int (Size m), sm_m = m\<rparr> in
         Some (s\<lparr>rl_size := rl_size s + sm_size sm, rl_count := rl_count s + 1,
                 rl_pc := Sending sm, rl_accepted := rl_accepted s @ [sm]\<rparr>))
      else None)"
| "retry_step Size maxSize maxCount LoopClosed s =
     (if rl_pc s = AtSelect \<and> reads_input maxSize maxCount s then Some (s\<lparr>rl_pc := Returned\<rparr>) else None)"
| "retry_step Size maxSize maxCount OutTaken s =
     (case rl_pc s of Sending sm \<Rightarrow> Some (s\<lparr>rl_pc := AtSelect, rl_held := rl_held s @ [sm]\<rparr>) | _ \<Rightarrow> None)"
| "retry_step Size maxSize maxCount (CallAck i) s =
     (if i < length (rl_held s) \<and> int (length (rl_acks s)) < maxCount then
        Some (s\<lparr>rl_held := drop_at i (rl_held s), rl_acks := rl_acks s @ [rl_held s ! i],
                rl_acked := rl_acked s @ [rl_held s ! i]\<rparr>)
      else None)"
| "retry_step Size maxSize maxCount (CallNack i) s =
     (if i < length (rl_held s) \<and> int (length (rl_nacks s)) < maxCount then
        Some (s\<lparr>rl_held := drop_at i (rl_held s), rl_nacks := rl_nacks s @ [rl_held s ! i]\<rparr>)
      else None)"

declare retry_step.simps [simp del]

definition retry_steps :: "(Message \<Rightarrow> nat) \<Rightarrow> int \<Rightarrow> int \<Rightarrow> retry_state \<Rightarrow> retry_state \<Rightarrow> bool" where
  "retry_steps Size maxSize maxCount s t \<longleftrightarrow> (\<exists>e. retry_step Size maxSize maxCount e s = Some t)"

section \<open>The invariant\<close>

text \<open>Every message accepted and not yet counted down: on offer, held, or on its way back.\<close>

definition rl_sending :: "retry_state \<Rightarrow> sizedMessage list" where
  "rl_sending s = (case rl_pc s of Sending sm \<Rightarrow> [sm] | _ \<Rightarrow> [])"

definition rl_live :: "retry_state \<Rightarrow> sizedMessage list" where
  "rl_live s = rl_sending s @ rl_held s @ rl_acks s @ rl_nacks s"

definition retry_inv :: "(Message \<Rightarrow> nat) \<Rightarrow> int \<Rightarrow> int \<Rightarrow> retry_state \<Rightarrow> bool" where
  "retry_inv Size maxSize maxCount s \<longleftrightarrow>
     rl_count s = int (length (rl_live s))
     \<and> rl_size s = sum_list (map sm_size (rl_live s))
     \<and> (\<forall>sm \<in> set (rl_accepted s). sm_size sm = int (Size (sm_m sm)))
     \<and> mset (rl_accepted s) = mset (rl_acked s) + mset (rl_sending s @ rl_held s @ rl_nacks s)
     \<and> set (rl_live s) \<subseteq> set (rl_accepted s)
     \<and> rl_count s \<le> max maxCount 0
     \<and> (\<forall>K. (\<forall>sm \<in> set (rl_accepted s). sm_size sm \<le> K) \<longrightarrow> rl_live s \<noteq> [] \<longrightarrow> rl_size s < maxSize + K)"

lemma mset_drop_at: "i < length xs \<Longrightarrow> add_mset (xs ! i) (mset (drop_at i xs)) = mset xs"
  unfolding drop_at_def by (metis id_take_nth_drop mset.simps(2) mset_append union_mset_add_mset_right)

lemma length_drop_at: "i < length xs \<Longrightarrow> length (drop_at i xs) = length xs - 1"
  by (simp add: drop_at_def)

lemma set_drop_at: "set (drop_at i xs) \<subseteq> set xs"
  by (auto simp: drop_at_def dest: in_set_takeD in_set_dropD)

lemma sum_list_drop_at:
  "i < length xs \<Longrightarrow> sum_list (map f (drop_at i xs)) = sum_list (map f xs) - (f (xs ! i) :: int)"
proof -
  assume "i < length xs"
  then have "sum_mset (image_mset f (add_mset (xs ! i) (mset (drop_at i xs)))) = sum_list (map f xs)"
    by (simp only: mset_drop_at) (metis mset_map sum_mset_sum_list)
  moreover have "sum_mset (image_mset f (mset (drop_at i xs))) = sum_list (map f (drop_at i xs))"
    by (metis mset_map sum_mset_sum_list)
  ultimately show ?thesis by simp
qed

lemmas retry_defs = retry_inv_def rl_live_def rl_sending_def reads_input_def

lemma retry_inv_init: "retry_inv Size maxSize maxCount retry_init"
  by (simp add: retry_defs retry_init_def)

lemma nonneg_sizes:
  assumes "\<forall>sm \<in> set A. sm_size sm = int (Size (sm_m sm))" and "set L \<subseteq> set A"
  shows "0 \<le> sum_list (map sm_size L)"
  using assms by (intro sum_list_nonneg) auto

text \<open>
  A step that only moves messages between the parts of \<open>rl_live\<close> keeps every clause but the
  history equation.
\<close>

lemma retry_inv_move:
  assumes "retry_inv Size maxSize maxCount s"
    and "mset (rl_live t) = mset (rl_live s)" "rl_accepted t = rl_accepted s"
    and "rl_count t = rl_count s" "rl_size t = rl_size s"
    and "mset (rl_acked t) + mset (rl_sending t @ rl_held t @ rl_nacks t) =
         mset (rl_acked s) + mset (rl_sending s @ rl_held s @ rl_nacks s)"
  shows "retry_inv Size maxSize maxCount t"
proof -
  have len: "length (rl_live t) = length (rl_live s)"
    and set: "set (rl_live t) = set (rl_live s)"
    and nil: "rl_live t = [] \<longleftrightarrow> rl_live s = []"
    using assms(2) by (auto dest: mset_eq_length mset_eq_setD)
  have sum: "sum_list (map sm_size (rl_live t)) = sum_list (map sm_size (rl_live s))"
    using assms(2) by (metis mset_map sum_mset_sum_list)
  show ?thesis
    using assms(1) unfolding retry_inv_def len set sum nil assms(3-6) .
qed

lemma retry_inv_ack:
  assumes "retry_inv Size maxSize maxCount s" and "rl_pc s = AtSelect" and "rl_acks s = sm # rest"
  shows "retry_inv Size maxSize maxCount
    (s\<lparr>rl_acks := rest, rl_size := rl_size s - sm_size sm, rl_count := rl_count s - 1\<rparr>)"
proof -
  have "0 \<le> sm_size sm" using assms by (auto simp: retry_defs)
  then show ?thesis using assms by (auto simp: retry_defs) force+
qed

lemma retry_inv_in:
  assumes "retry_inv Size maxSize maxCount s" and "rl_pc s = AtSelect"
    and "reads_input maxSize maxCount s" and "sm = \<lparr>sm_size = int (Size m), sm_m = m\<rparr>"
  shows "retry_inv Size maxSize maxCount
    (s\<lparr>rl_size := rl_size s + sm_size sm, rl_count := rl_count s + 1,
       rl_pc := Sending sm, rl_accepted := rl_accepted s @ [sm]\<rparr>)"
  using assms by (auto simp: retry_defs)

lemma retry_inv_step:
  assumes inv: "retry_inv Size maxSize maxCount s" and st: "retry_step Size maxSize maxCount e s = Some t"
  shows "retry_inv Size maxSize maxCount t"
proof (cases e)
  case LoopAck
  with inv st show ?thesis
    by (auto simp: retry_step.simps split: retry_pc.splits list.splits intro: retry_inv_ack)
next
  case LoopNack
  with st show ?thesis
    by (auto simp: retry_step.simps rl_live_def rl_sending_def split: retry_pc.splits list.splits
        intro!: retry_inv_move [OF inv])
next
  case (LoopIn m)
  with st retry_inv_in [OF inv _ _ refl, of m] show ?thesis
    by (auto simp: retry_step.simps Let_def split: if_splits)
next
  case LoopClosed
  with st show ?thesis
    by (auto simp: retry_step.simps rl_live_def rl_sending_def split: if_splits intro!: retry_inv_move [OF inv])
next
  case OutTaken
  with st show ?thesis
    by (auto simp: retry_step.simps rl_live_def rl_sending_def split: retry_pc.splits
        intro!: retry_inv_move [OF inv])
next
  case (CallAck i)
  with st mset_drop_at [of i "rl_held s"] show ?thesis
    by (auto simp: retry_step.simps rl_live_def rl_sending_def split: if_splits retry_pc.splits
        intro!: retry_inv_move [OF inv])
next
  case (CallNack i)
  with st mset_drop_at [of i "rl_held s"] show ?thesis
    by (auto simp: retry_step.simps rl_live_def rl_sending_def split: if_splits retry_pc.splits
        intro!: retry_inv_move [OF inv])
qed

interpretation retrying: step_invariant "\<lambda>s. s = retry_init" "retry_steps Size maxSize maxCount"
  "retry_inv Size maxSize maxCount" for Size maxSize maxCount
  by unfold_locales (auto simp: retry_steps_def retry_inv_init dest: retry_inv_step)

section \<open>Properties\<close>

fun retry_run :: "(Message \<Rightarrow> nat) \<Rightarrow> int \<Rightarrow> int \<Rightarrow> retry_event list \<Rightarrow> retry_state \<Rightarrow> retry_state option" where
  "retry_run Size maxSize maxCount [] s = Some s"
| "retry_run Size maxSize maxCount (e # es) s =
     (case retry_step Size maxSize maxCount e s of None \<Rightarrow> None
      | Some t \<Rightarrow> retry_run Size maxSize maxCount es t)"

lemma retry_run_reach:
  "retry_run Size maxSize maxCount es s = Some t \<Longrightarrow> reach (retry_steps Size maxSize maxCount) s t"
proof (induction es arbitrary: s)
  case (Cons e es)
  from Cons.prems obtain u where "retry_step Size maxSize maxCount e s = Some u"
    "retry_run Size maxSize maxCount es u = Some t" by (auto split: option.splits)
  then show ?case using Cons.IH unfolding retry_steps_def by (blast intro: reach_Cons)
qed auto

text \<open>A sample run for the witnesses: two messages of 10 bytes accepted, one handed out.\<close>

definition demo_sm :: sizedMessage where
  "demo_sm = \<lparr>sm_size = 10, sm_m = empty_Message\<rparr>"

definition demo_retry :: retry_state where
  "demo_retry = \<lparr>rl_size = 20, rl_count = 2, rl_pc = Sending demo_sm, rl_acks = [], rl_nacks = [],
     rl_held = [demo_sm], rl_accepted = [demo_sm, demo_sm], rl_acked = []\<rparr>"

lemma demo_retry_reach: "reach (retry_steps (\<lambda>_. 10) 20 2) retry_init demo_retry"
  by (rule retry_run_reach [of _ _ _ "[LoopIn empty_Message, OutTaken, LoopIn empty_Message]"])
    (simp add: retry_step.simps retry_init_def reads_input_def demo_retry_def demo_sm_def Let_def)

text \<open>
  The \<^verbatim>\<open>Ack\<close> and \<^verbatim>\<open>Nack\<close> callbacks never block: whenever the receiver holds a
  message, both buffered channels have room, however the loop and the receiver interleave, and
  also after the loop has returned.
\<close>

lemma RetryLoop_callbacks_never_block:
  assumes "reach (retry_steps Size maxSize maxCount) retry_init s" and "i < length (rl_held s)"
  shows "retry_step Size maxSize maxCount (CallAck i) s \<noteq> None
    \<and> retry_step Size maxSize maxCount (CallNack i) s \<noteq> None"
proof -
  from retrying.reachable_inv [OF refl assms(1)]
  have "int (length (rl_live s)) \<le> max maxCount 0" by (simp add: retry_inv_def)
  with assms(2) have "int (length (rl_acks s)) < maxCount" "int (length (rl_nacks s)) < maxCount"
    by (auto simp: rl_live_def max_def split: if_splits)
  with assms(2) show ?thesis by (simp add: retry_step.simps)
qed

lemma RetryLoop_callbacks_never_block_instance:
  "retry_step (\<lambda>_. 10) 20 2 (CallAck 0) demo_retry \<noteq> None
   \<and> retry_step (\<lambda>_. 10) 20 2 (CallNack 0) demo_retry \<noteq> None"
  using RetryLoop_callbacks_never_block [OF demo_retry_reach, of 0] by (simp add: demo_retry_def)

text \<open>
  The backlog is bounded: at most \<^verbatim>\<open>maxCount\<close> messages are pending, and when no accepted
  message is larger than \<open>K\<close> their total size stays below \<^verbatim>\<open>maxSize\<close> plus \<open>K\<close>. The two
  counters of the loop are exactly the number and the size of the messages accepted and not yet
  acknowledged back to it.
\<close>

lemma RetryLoop_bounded:
  assumes "reach (retry_steps Size maxSize maxCount) retry_init s"
    and "0 \<le> maxCount" and "0 \<le> K" and "0 < maxSize + K"
    and "\<forall>sm \<in> set (rl_accepted s). int (Size (sm_m sm)) \<le> K"
  shows "rl_count s = int (length (rl_live s)) \<and> rl_count s \<le> maxCount
    \<and> rl_size s = sum_list (map sm_size (rl_live s)) \<and> rl_size s < maxSize + K"
proof -
  note inv = retrying.reachable_inv [OF refl assms(1), unfolded retry_inv_def]
  have "\<forall>sm \<in> set (rl_accepted s). sm_size sm \<le> K" using inv assms(5) by simp
  then have "rl_live s \<noteq> [] \<longrightarrow> rl_size s < maxSize + K" using inv by blast
  then have "rl_size s < maxSize + K" using inv assms(4) by (cases "rl_live s = []") auto
  then show ?thesis using inv assms(2) by simp
qed

lemma RetryLoop_bounded_instance:
  "rl_count demo_retry = int (length (rl_live demo_retry)) \<and> rl_count demo_retry \<le> 2
    \<and> rl_size demo_retry = sum_list (map sm_size (rl_live demo_retry)) \<and> rl_size demo_retry < 20 + 10"
  by (rule RetryLoop_bounded [OF demo_retry_reach]) simp_all

text \<open>
  C31. No accepted message is forgotten: each is acknowledged, or is on offer, held by the receiver
  or waiting to be offered again after a \<^verbatim>\<open>Nack\<close>, and none is in two of these places.
\<close>

theorem RetryLoop_conserves:
  assumes "reach (retry_steps Size maxSize maxCount) retry_init s"
  shows "mset (rl_accepted s) =
    mset (rl_acked s) + mset (rl_sending s) + mset (rl_held s) + mset (rl_nacks s)"
  using retrying.reachable_inv [OF refl assms] by (simp add: retry_inv_def add.assoc)

theorem RetryLoop_conserves_witness:
  "mset (rl_accepted demo_retry) = mset (rl_acked demo_retry) + mset (rl_sending demo_retry)
    + mset (rl_held demo_retry) + mset (rl_nacks demo_retry) \<and> rl_accepted demo_retry \<noteq> []"
  using RetryLoop_conserves [OF demo_retry_reach] by (simp add: demo_retry_def)

end
