(* ===== verification/Ids.thy ===== *)
theory Ids
  imports Proto
begin

text \<open>
  \<^verbatim>\<open>fleetspeak/src/common/ids.go\<close> and \<^verbatim>\<open>fleetspeak/src/server/ids/ids.go\<close>: client, message,
  broadcast and allocation identifiers, and the hexadecimal codec of \<^verbatim>\<open>encoding/hex\<close> they
  print with. The hash \<^verbatim>\<open>sha256.Sum256\<close>, \<^verbatim>\<open>x509.MarshalPKIXPublicKey\<close> and the random
  source are arguments. The locales \<open>byte_id\<close> and \<open>string_id\<close> state what every identifier type
  promises its users; the three identifier types of the program interpret them.
\<close>

section \<open>Hexadecimal\<close>

definition hextable :: string where
  "hextable = ''0123456789abcdef''"

definition hexdigit :: "nat \<Rightarrow> char" where
  "hexdigit n = hextable ! n"

fun EncodeToString :: "bytes \<Rightarrow> string" where
  "EncodeToString [] = []"
| "EncodeToString (w # ws) = hexdigit (unat w div 16) # hexdigit (unat w mod 16) # EncodeToString ws"

definition fromHexChar :: "char \<Rightarrow> nat option" where
  "fromHexChar c = (let n = (of_char c :: nat) in
     if 48 \<le> n \<and> n \<le> 57 then Some (n - 48)
     else if 97 \<le> n \<and> n \<le> 102 then Some (n - 97 + 10)
     else if 65 \<le> n \<and> n \<le> 70 then Some (n - 65 + 10)
     else None)"

fun DecodeString :: "string \<Rightarrow> error + bytes" where
  "DecodeString [] = Inr []"
| "DecodeString [c] = (case fromHexChar c of None \<Rightarrow> Inl (Err ''invalid byte'')
     | Some _ \<Rightarrow> Inl (Err ''odd length hex string''))"
| "DecodeString (c # d # cs) =
     (case fromHexChar c of None \<Rightarrow> Inl (Err ''invalid byte'')
      | Some a \<Rightarrow> (case fromHexChar d of None \<Rightarrow> Inl (Err ''invalid byte'')
      | Some b \<Rightarrow> ebind (DecodeString cs) (\<lambda>ws. Inr (word_of_nat (a * 16 + b) # ws))))"

lemma fromHexChar_hexdigit: "n < 16 \<Longrightarrow> fromHexChar (hexdigit n) = Some n"
proof -
  have "list_all (\<lambda>n. fromHexChar (hexdigit n) = Some n) [0..<16]" by code_simp
  then show "n < 16 \<Longrightarrow> ?thesis" by (simp add: list_all_iff)
qed

lemma length_EncodeToString [simp]: "length (EncodeToString b) = 2 * length b"
  by (induction b) auto

lemma DecodeString_EncodeToString [simp]: "DecodeString (EncodeToString b) = Inr b"
proof (induction b)
  case (Cons w ws)
  have "unat w < 256" using unsigned_less [of w] by simp
  then have "unat w div 16 < 16" "unat w mod 16 < 16" by auto
  moreover have "word_of_nat (unat w div 16 * 16 + unat w mod 16) = w"
    unfolding div_mult_mod_eq by simp
  ultimately show ?case using Cons by (simp add: fromHexChar_hexdigit)
qed simp

lemma EncodeToString_inj: "EncodeToString a = EncodeToString b \<longleftrightarrow> a = b"
  by (metis DecodeString_EncodeToString sum.inject(2))

lemma DecodeString_length: "DecodeString s = Inr b \<Longrightarrow> length s = 2 * length b"
  by (induction s arbitrary: b rule: DecodeString.induct) (auto split: option.splits)

section \<open>Identifier types\<close>

datatype ClientID = ClientID (cid_id: bytes)
datatype MessageID = MessageID (mid_id: bytes)
datatype BroadcastID = BroadcastID (bid_id: bytes)
datatype AllocationID = AllocationID (aid_id: bytes)

subsection \<open>Client identifiers\<close>

definition BytesToClientID :: "gobytes \<Rightarrow> error + ClientID" where
  "BytesToClientID b = (if length (raw b) = 0 then Inr (ClientID [])
     else if length (raw b) \<noteq> 8 then Inl (Err ''ClientID must be 8 bytes'')
     else Inr (ClientID (raw b)))"

definition StringToClientID :: "string \<Rightarrow> error + ClientID" where
  "StringToClientID s = (if s = [] \<or> s = ''nil'' then Inr (ClientID [])
     else if length s \<noteq> 16 then Inl (Err ''ClientID must be 16 characters'')
     else ebind (DecodeString s) (\<lambda>b. BytesToClientID (Some b)))"

definition MakeClientID ::
  "('k \<Rightarrow> error + bytes) \<Rightarrow> (bytes \<Rightarrow> bytes) \<Rightarrow> 'k \<Rightarrow> error + ClientID" where
  "MakeClientID marshalPKIX sha256 pk =
     ebind (marshalPKIX pk) (\<lambda>b. BytesToClientID (Some (take 8 (sha256 b))))"

definition ClientID_IsNil :: "ClientID \<Rightarrow> bool" where
  "ClientID_IsNil i \<longleftrightarrow> cid_id i = []"

definition ClientID_String :: "ClientID \<Rightarrow> string" where
  "ClientID_String i = (if ClientID_IsNil i then ''nil'' else EncodeToString (cid_id i))"

definition ClientID_Bytes :: "ClientID \<Rightarrow> gobytes" where
  "ClientID_Bytes i = (if cid_id i = [] then None else Some (cid_id i))"

subsection \<open>Message identifiers\<close>

definition BytesToMessageID :: "gobytes \<Rightarrow> error + MessageID" where
  "BytesToMessageID b = (if length (raw b) = 0 then Inr (MessageID [])
     else if length (raw b) \<noteq> 32 then Inl (Err ''MessageID must be 32 bytes'')
     else Inr (MessageID (raw b)))"

text \<open>The buffer \<^verbatim>\<open>MakeMessageID\<close> hashes: the three parts separated by zero bytes.\<close>

definition MessageID_buffer :: "Address \<Rightarrow> gobytes \<Rightarrow> bytes" where
  "MessageID_buffer origin originID =
     raw (ClientId origin) @ [0] @ map byte_of_char (ServiceName origin) @ [0] @ raw originID"

definition MakeMessageID :: "(bytes \<Rightarrow> bytes) \<Rightarrow> Address \<Rightarrow> gobytes \<Rightarrow> MessageID" where
  "MakeMessageID sha256 origin originID = MessageID (take 32 (sha256 (MessageID_buffer origin originID)))"

definition RandomMessageID :: "error + bytes \<Rightarrow> error + MessageID" where
  "RandomMessageID rnd = ebind rnd (\<lambda>b. BytesToMessageID (Some b))"

definition StringToMessageID :: "string \<Rightarrow> error + MessageID" where
  "StringToMessageID s = (if s = [] \<or> s = ''nil'' then Inr (MessageID [])
     else if length s \<noteq> 64 then Inl (Err ''MessageID must be 64 characters'')
     else ebind (DecodeString s) (\<lambda>b. BytesToMessageID (Some b)))"

definition MessageID_IsNil :: "MessageID \<Rightarrow> bool" where
  "MessageID_IsNil i \<longleftrightarrow> mid_id i = []"

definition MessageID_String :: "MessageID \<Rightarrow> string" where
  "MessageID_String i = (if mid_id i = [] then ''nil'' else EncodeToString (mid_id i))"

definition MessageID_Bytes :: "MessageID \<Rightarrow> gobytes" where
  "MessageID_Bytes i = (if MessageID_IsNil i then None else Some (mid_id i))"

subsection \<open>Broadcast and allocation identifiers\<close>

definition BytesToBroadcastID :: "gobytes \<Rightarrow> error + BroadcastID" where
  "BytesToBroadcastID b = (if length (raw b) = 0 then Inr (BroadcastID [])
     else if length (raw b) \<noteq> 8 then Inl (Err ''BroadcastID must be 8 bytes'')
     else Inr (BroadcastID (raw b)))"

definition RandomBroadcastID :: "error + bytes \<Rightarrow> error + BroadcastID" where
  "RandomBroadcastID rnd = ebind rnd (\<lambda>b. Inr (BroadcastID b))"

definition StringToBroadcastID :: "string \<Rightarrow> error + BroadcastID" where
  "StringToBroadcastID s = (if length s \<noteq> 16 then Inl (Err ''BroadcastID must be 16 characters'')
     else ebind (DecodeString s) (\<lambda>b. BytesToBroadcastID (Some b)))"

definition BroadcastID_String :: "BroadcastID \<Rightarrow> string" where
  "BroadcastID_String i = (if bid_id i = [] then ''nil'' else EncodeToString (bid_id i))"

definition BroadcastID_Bytes :: "BroadcastID \<Rightarrow> gobytes" where
  "BroadcastID_Bytes i = (if bid_id i = [] then None else Some (bid_id i))"

definition RandomAllocationID :: "error + bytes \<Rightarrow> error + AllocationID" where
  "RandomAllocationID rnd = ebind rnd (\<lambda>b. Inr (AllocationID b))"

definition AllocationID_Bytes :: "AllocationID \<Rightarrow> bytes" where
  "AllocationID_Bytes i = aid_id i"

definition AllocationID_String :: "AllocationID \<Rightarrow> string" where
  "AllocationID_String i = EncodeToString (AllocationID_Bytes i)"

section \<open>The contract of an identifier type\<close>

locale byte_id =
  fixes len :: nat
    and wf :: "'i \<Rightarrow> bool"
    and of_bytes :: "gobytes \<Rightarrow> error + 'i"
    and to_bytes :: "'i \<Rightarrow> gobytes"
  assumes of_bytes_wf: "of_bytes b = Inr i \<Longrightarrow> wf i"
    and of_bytes_raw: "of_bytes b = Inr i \<Longrightarrow> raw (to_bytes i) = raw b"
    and of_bytes_to_bytes: "wf i \<Longrightarrow> of_bytes (to_bytes i) = Inr i"
    and of_bytes_total: "(\<exists>i. of_bytes b = Inr i) \<longleftrightarrow> length (raw b) = 0 \<or> length (raw b) = len"
begin

lemma of_bytes_inj:
  assumes "of_bytes b = Inr i" and "of_bytes c = Inr i"
  shows "raw b = raw c"
  using of_bytes_raw [OF assms(1)] of_bytes_raw [OF assms(2)] by simp

lemma to_bytes_inj:
  assumes "wf i" and "wf j" and "to_bytes i = to_bytes j"
  shows "i = j"
  by (metis assms of_bytes_to_bytes sum.inject(2))

lemma to_bytes_length: "wf i \<Longrightarrow> length (raw (to_bytes i)) = 0 \<or> length (raw (to_bytes i)) = len"
  using of_bytes_total [of "to_bytes i"] of_bytes_to_bytes by blast

end

locale string_id = byte_id +
  fixes of_string :: "string \<Rightarrow> error + 'i"
    and to_string :: "'i \<Rightarrow> string"
  assumes of_string_to_string: "wf i \<Longrightarrow> of_string (to_string i) = Inr i"
    and of_string_wf: "of_string s = Inr i \<Longrightarrow> wf i"
begin

lemma to_string_inj: "wf i \<Longrightarrow> wf j \<Longrightarrow> to_string i = to_string j \<longleftrightarrow> i = j"
  by (metis of_string_to_string sum.inject(2))

end

definition ClientID_ok :: "ClientID \<Rightarrow> bool" where
  "ClientID_ok i \<longleftrightarrow> length (cid_id i) = 0 \<or> length (cid_id i) = 8"

definition MessageID_ok :: "MessageID \<Rightarrow> bool" where
  "MessageID_ok i \<longleftrightarrow> length (mid_id i) = 0 \<or> length (mid_id i) = 32"

definition BroadcastID_ok :: "BroadcastID \<Rightarrow> bool" where
  "BroadcastID_ok i \<longleftrightarrow> length (bid_id i) = 0 \<or> length (bid_id i) = 8"

lemma EncodeToString_eq_Nil [simp]: "EncodeToString b = [] \<longleftrightarrow> b = []"
  by (cases b) auto

lemma EncodeToString_neq_nil: "EncodeToString b \<noteq> ''nil''"
proof
  assume "EncodeToString b = ''nil''"
  then have "length (EncodeToString b) = 3" by simp
  then show False unfolding length_EncodeToString by presburger
qed

interpretation client_id: string_id 8 ClientID_ok BytesToClientID ClientID_Bytes
  StringToClientID ClientID_String
proof unfold_locales
  fix i
  assume "ClientID_ok i"
  then show "StringToClientID (ClientID_String i) = Inr i"
    by (cases i) (auto simp: ClientID_ok_def StringToClientID_def ClientID_String_def
        ClientID_IsNil_def BytesToClientID_def EncodeToString_neq_nil)
qed (auto simp: BytesToClientID_def ClientID_ok_def ClientID_Bytes_def StringToClientID_def
      split: if_splits intro: ClientID.expand)

interpretation message_id: string_id 32 MessageID_ok BytesToMessageID MessageID_Bytes
  StringToMessageID MessageID_String
proof unfold_locales
  fix i
  assume "MessageID_ok i"
  then show "StringToMessageID (MessageID_String i) = Inr i"
    by (cases i) (auto simp: MessageID_ok_def StringToMessageID_def MessageID_String_def
        BytesToMessageID_def EncodeToString_neq_nil)
qed (auto simp: BytesToMessageID_def MessageID_ok_def MessageID_Bytes_def MessageID_IsNil_def
      StringToMessageID_def split: if_splits intro: MessageID.expand)

interpretation broadcast_id: byte_id 8 BroadcastID_ok BytesToBroadcastID BroadcastID_Bytes
  by unfold_locales (auto simp: BytesToBroadcastID_def BroadcastID_ok_def BroadcastID_Bytes_def
      split: if_splits intro: BroadcastID.expand)

lemma StringToBroadcastID_String:
  "length (bid_id i) = 8 \<Longrightarrow> StringToBroadcastID (BroadcastID_String i) = Inr i"
  by (cases i) (auto simp: StringToBroadcastID_def BroadcastID_String_def BytesToBroadcastID_def)

lemma BroadcastID_String_inj: "BroadcastID_String i = BroadcastID_String j \<longleftrightarrow> i = j"
proof -
  have "BroadcastID_String (BroadcastID a) = BroadcastID_String (BroadcastID b) \<longleftrightarrow> a = b" for a b
    using EncodeToString_neq_nil [of a] EncodeToString_neq_nil [of b]
    by (auto simp: BroadcastID_String_def EncodeToString_inj)
  then show ?thesis by (cases i; cases j) simp
qed

lemma AllocationID_String_inj: "AllocationID_String i = AllocationID_String j \<longleftrightarrow> i = j"
  by (cases i; cases j) (simp add: AllocationID_String_def AllocationID_Bytes_def EncodeToString_inj)

lemma ClientID_String_inj: "ClientID_String i = ClientID_String j \<longleftrightarrow> i = j"
proof -
  have "ClientID_String i = ClientID_String j \<Longrightarrow> cid_id i = cid_id j"
    using EncodeToString_neq_nil [of "cid_id i"] EncodeToString_neq_nil [of "cid_id j"]
    by (auto simp: ClientID_String_def ClientID_IsNil_def EncodeToString_inj split: if_splits)
  then show ?thesis by (auto intro: ClientID.expand)
qed

lemma ClientID_String_neq_Nil [simp]: "ClientID_String i \<noteq> []"
  by (simp add: ClientID_String_def ClientID_IsNil_def)

section \<open>Properties\<close>

lemma BytesToMessageID_Some_cases:
  "BytesToMessageID b = Inr i \<Longrightarrow> MessageID_String i = (if raw b = [] then ''nil'' else EncodeToString (raw b))"
  by (auto simp: BytesToMessageID_def MessageID_String_def split: if_splits)

text \<open>
  The hashed buffer determines its parts when the client ids have one length and the service names
  hold no zero byte: the separators are then found again.
\<close>

lemma append_Cons_zero_eq:
  assumes "(0::u8) \<notin> set xs" and "0 \<notin> set ys" and "xs @ 0 # us = ys @ 0 # vs"
  shows "xs = ys \<and> us = vs"
  using assms
proof (induction xs arbitrary: ys)
  case Nil
  then show ?case by (cases ys) auto
next
  case (Cons x xs)
  then show ?case by (cases ys) auto
qed

lemma zero_notin_map_byte_of_char: "(0::u8) \<in> set (map byte_of_char s) \<longleftrightarrow> CHR 0x00 \<in> set s"
proof -
  have "byte_of_char c = 0 \<longleftrightarrow> c = CHR 0x00" for c
  proof -
    have "byte_of_char c = 0 \<longleftrightarrow> (of_char c :: nat) = of_char (CHR 0x00)"
      unfolding unat_eq_0 [symmetric] unat_byte_of_char by simp
    then show ?thesis by (simp only: of_char_eq_iff)
  qed
  then show ?thesis unfolding set_map image_iff by metis
qed

lemma MessageID_buffer_inj:
  assumes "length (raw (ClientId a)) = length (raw (ClientId b))"
    and "CHR 0x00 \<notin> set (ServiceName a)" and "CHR 0x00 \<notin> set (ServiceName b)"
    and "MessageID_buffer a m = MessageID_buffer b n"
  shows "raw (ClientId a) = raw (ClientId b)" "ServiceName a = ServiceName b" "raw m = raw n"
proof -
  from assms(1,4) show "raw (ClientId a) = raw (ClientId b)"
    by (simp add: MessageID_buffer_def)
  with assms(4) have "map byte_of_char (ServiceName a) @ 0 # raw m =
      map byte_of_char (ServiceName b) @ 0 # raw n"
    by (simp add: MessageID_buffer_def)
  then have *: "map byte_of_char (ServiceName a) = map byte_of_char (ServiceName b) \<and> raw m = raw n"
    by (rule append_Cons_zero_eq [rotated 2])
      (use assms(2,3) zero_notin_map_byte_of_char in blast)+
  then show "ServiceName a = ServiceName b" "raw m = raw n"
    by (simp_all add: map_byte_of_char_inj)
qed

text \<open>
  Printing an identifier and parsing it back, as text or as bytes, gives the identifier, and two
  different identifiers never print alike.
\<close>

lemma ids_roundtrip:
  assumes "ClientID_ok i" and "ClientID_ok j" and "MessageID_ok m" and "MessageID_ok n"
  shows "StringToClientID (ClientID_String i) = Inr i \<and> BytesToClientID (ClientID_Bytes i) = Inr i
    \<and> StringToMessageID (MessageID_String m) = Inr m \<and> BytesToMessageID (MessageID_Bytes m) = Inr m
    \<and> (ClientID_String i = ClientID_String j \<longleftrightarrow> i = j) \<and> (MessageID_String m = MessageID_String n \<longleftrightarrow> m = n)"
  using assms
  by (simp add: client_id.of_string_to_string client_id.of_bytes_to_bytes client_id.to_string_inj
      message_id.of_string_to_string message_id.of_bytes_to_bytes message_id.to_string_inj)

lemma ids_roundtrip_instance:
  "StringToClientID (ClientID_String (ClientID [1, 2, 3, 4, 5, 6, 7, 255])) = Inr (ClientID [1, 2, 3, 4, 5, 6, 7, 255])"
  using ids_roundtrip [of "ClientID [1, 2, 3, 4, 5, 6, 7, 255]" "ClientID []" "MessageID []" "MessageID []"]
  by (simp add: ClientID_ok_def MessageID_ok_def)

text \<open>
  Message ids are unique per origin: if two messages get the same id then, unless the hash
  collides on the two inputs, they have the same client, the same service and the same id at their
  origin, provided the two client ids have one length and the service names hold no zero byte.
\<close>

lemma MakeMessageID_unique:
  assumes "MakeMessageID sha256 a m = MakeMessageID sha256 b n"
    and "length (sha256 (MessageID_buffer a m)) = 32" and "length (sha256 (MessageID_buffer b n)) = 32"
    and "sha256 (MessageID_buffer a m) = sha256 (MessageID_buffer b n) \<longrightarrow> MessageID_buffer a m = MessageID_buffer b n"
    and "length (raw (ClientId a)) = length (raw (ClientId b))"
    and "CHR 0x00 \<notin> set (ServiceName a)" and "CHR 0x00 \<notin> set (ServiceName b)"
  shows "raw (ClientId a) = raw (ClientId b) \<and> ServiceName a = ServiceName b \<and> raw m = raw n"
proof -
  have "sha256 (MessageID_buffer a m) = sha256 (MessageID_buffer b n)"
    using assms(1-3) by (simp add: MakeMessageID_def)
  with assms(4) have "MessageID_buffer a m = MessageID_buffer b n" by blast
  from MessageID_buffer_inj [OF assms(5,6,7) this] show ?thesis by blast
qed

text \<open>A stand-in for the hash that pads or cuts its input to 32 bytes.\<close>

definition demo_hash :: "bytes \<Rightarrow> bytes" where
  "demo_hash b = take 32 (b @ replicate 32 0)"

lemma MakeMessageID_unique_instance:
  "MakeMessageID demo_hash \<lparr>ClientId = None, ServiceName = ''s''\<rparr> (Some [7]) =
     MakeMessageID demo_hash \<lparr>ClientId = Some [], ServiceName = ''s''\<rparr> (Some [7])
   \<and> raw (ClientId \<lparr>ClientId = None, ServiceName = ''s''\<rparr>) = raw (ClientId \<lparr>ClientId = Some [], ServiceName = ''s''\<rparr>)"
proof -
  have same: "MakeMessageID demo_hash \<lparr>ClientId = None, ServiceName = ''s''\<rparr> (Some [7]) =
     MakeMessageID demo_hash \<lparr>ClientId = Some [], ServiceName = ''s''\<rparr> (Some [7])"
    by (simp add: MakeMessageID_def MessageID_buffer_def)
  from MakeMessageID_unique [OF this] same show ?thesis
    by (simp add: demo_hash_def MessageID_buffer_def)
qed

end
