(* ===== verification/Sqlite_Core.thy ===== *)
theory Sqlite_Core
  imports Ids "HOL-Library.Char_ord" "HOL-Library.List_Lexorder"
begin

text \<open>
  \<^verbatim>\<open>fleetspeak/src/server/sqlite/sqlite.go\<close>: the tables of \<^verbatim>\<open>initSchema\<close> and the transaction
  wrapper \<^verbatim>\<open>runInTx\<close>.

  A table is the list of its rows. The SQL statements of the package are modelled by what they mean
  under the declared keys: an \<^verbatim>\<open>INSERT\<close> fails on a primary key already present or a foreign key
  without its parent, \<^verbatim>\<open>INSERT OR IGNORE\<close> drops a row whose key is present, \<^verbatim>\<open>UPDATE\<close>,
  \<^verbatim>\<open>DELETE\<close> and \<^verbatim>\<open>SELECT\<close> act on the rows that satisfy the condition, in table order
  unless \<^verbatim>\<open>ORDER BY\<close> asks for another. A statement that the engine refuses makes the transaction
  fail; what the driver's \<^verbatim>\<open>Begin\<close> and \<^verbatim>\<open>Commit\<close> return is part of the environment.
  A transaction body is a function \<open>sqldb \<Rightarrow> error + 'a \<times> sqldb\<close>.
\<close>

section \<open>Tables\<close>

text \<open>
  \<^verbatim>\<open>dbMessage\<close>, which also is the row type of \<^verbatim>\<open>messages\<close>; the columns that table lacks
  (\<open>retryCount\<close>, \<open>dataTypeURL\<close>, \<open>dataValue\<close>) have their zero values in its rows.
\<close>

record dbMessage =
  messageID :: string
  sourceClientID :: string
  sourceServiceName :: string
  sourceMessageID :: string
  destinationClientID :: string
  destinationServiceName :: string
  messageType :: string
  creationTimeSeconds :: int
  creationTimeNanos :: int
  processedTimeSeconds :: "int option"
  processedTimeNanos :: "int option"
  validationInfo :: bytes
  failed :: "bool option"
  failedReason :: "string option"
  retryCount :: u32
  dataTypeURL :: "string option"
  dataValue :: bytes
  annotations :: bytes

record pending_row =
  p_message_id :: string
  p_retry_count :: u32
  p_scheduled_time :: int
  p_data_type_url :: "string option"
  p_data_value :: bytes

record client_row =
  cl_client_id :: string
  cl_client_key :: bytes
  cl_blacklisted :: bool
  cl_last_contact_time :: int
  cl_last_contact_address :: "string option"
  cl_last_contact_streaming_to :: "string option"
  cl_last_clock_seconds :: "int option"
  cl_last_clock_nanos :: "int option"

record label_row =
  l_client_id :: string
  l_service_name :: string
  l_label :: string

record contact_row =
  cc_id :: nat
  cc_client_id :: string
  cc_time :: int
  cc_sent_nonce :: string
  cc_received_nonce :: string
  cc_address :: "string option"

record broadcast_row =
  br_broadcast_id :: string
  br_source_service_name :: string
  br_destination_service_name :: "string option"
  br_message_type :: string
  br_expiration_time_seconds :: "int option"
  br_expiration_time_nanos :: "int option"
  br_data_type_url :: "string option"
  br_data_value :: bytes
  br_sent :: u64
  br_allocated :: u64
  br_message_limit :: u64

record alloc_row =
  al_broadcast_id :: string
  al_allocation_id :: string
  al_sent :: u64
  al_message_limit :: u64
  al_expiration_time_seconds :: int
  al_expiration_time_nanos :: int

record file_row =
  f_service :: string
  f_name :: string
  f_modified_time_nanos :: int
  f_data :: bytes

text \<open>A \<^verbatim>\<open>REAL\<close> column holds a \<^verbatim>\<open>float64\<close> unchanged.\<close>

record usage_row =
  u_client_id :: string
  u_scope :: string
  u_pid :: int
  u_process_start_time :: int
  u_client_timestamp :: int
  u_server_timestamp :: int
  u_process_terminated :: bool
  u_mean_user_cpu_rate :: f64
  u_max_user_cpu_rate :: f64
  u_mean_system_cpu_rate :: f64
  u_max_system_cpu_rate :: f64
  u_mean_resident_memory_mib :: int
  u_max_resident_memory_mib :: int
  u_mean_num_fds :: int
  u_max_num_fds :: int

record sqldb =
  t_clients :: "client_row list"
  t_client_labels :: "label_row list"
  t_client_contacts :: "contact_row list"
  t_messages :: "dbMessage list"
  t_pending :: "pending_row list"
  t_contact_messages :: "(u64 \<times> string) list"
  t_broadcasts :: "broadcast_row list"
  t_broadcast_labels :: "label_row list"
  t_allocations :: "alloc_row list"
  t_broadcast_sent :: "(string \<times> string) list"
  t_files :: "file_row list"
  t_usage :: "usage_row list"

definition initSchema :: sqldb where
  "initSchema = \<lparr>t_clients = [], t_client_labels = [], t_client_contacts = [], t_messages = [],
     t_pending = [], t_contact_messages = [], t_broadcasts = [], t_broadcast_labels = [],
     t_allocations = [], t_broadcast_sent = [], t_files = [], t_usage = []\<rparr>"

section \<open>Statements\<close>

definition sql_insert :: "('r \<Rightarrow> 'k) \<Rightarrow> bool \<Rightarrow> 'r \<Rightarrow> 'r list \<Rightarrow> error + 'r list" where
  "sql_insert key fk r rs =
     (if key r \<in> set (map key rs) then Inl (SqlErr ''UNIQUE constraint failed'')
      else if \<not> fk then Inl (SqlErr ''FOREIGN KEY constraint failed'')
      else Inr (rs @ [r]))"

text \<open>\<^verbatim>\<open>INSERT OR IGNORE\<close>, with the number of rows affected.\<close>

definition sql_insert_or_ignore :: "('r \<Rightarrow> 'k) \<Rightarrow> bool \<Rightarrow> 'r \<Rightarrow> 'r list \<Rightarrow> error + nat \<times> 'r list" where
  "sql_insert_or_ignore key fk r rs =
     (if key r \<in> set (map key rs) then Inr (0, rs)
      else if \<not> fk then Inl (SqlErr ''FOREIGN KEY constraint failed'')
      else Inr (1, rs @ [r]))"

text \<open>\<^verbatim>\<open>QueryRowContext(...).Scan\<close>: the first row, or \<^verbatim>\<open>sql.ErrNoRows\<close>.\<close>

definition sql_row :: "('r \<Rightarrow> bool) \<Rightarrow> 'r list \<Rightarrow> error + 'r" where
  "sql_row p rs = (case find p rs of None \<Rightarrow> Inl ErrNoRows | Some r \<Rightarrow> Inr r)"

text \<open>
  \<^verbatim>\<open>database/sql\<close> passes a \<^verbatim>\<open>uint64\<close> argument to the driver as an \<^verbatim>\<open>int64\<close> and refuses
  one with the high bit set.
\<close>

definition sql_u64 :: "u64 \<Rightarrow> error + u64" where
  "sql_u64 v = (if v > 0x7fffffffffffffff then Inl (SqlErr ''uint64 values with high bit set are not supported'')
     else Inr v)"

lemma sql_u64_eq_Inr [simp]: "sql_u64 v = Inr w \<longleftrightarrow> w = v \<and> unat v < 2 ^ 63"
  by (auto simp: sql_u64_def word_less_nat_alt)

lemma sql_insert_eq_Inr:
  "sql_insert key fk r rs = Inr rs' \<longleftrightarrow> key r \<notin> key ` set rs \<and> fk \<and> rs' = rs @ [r]"
  by (auto simp: sql_insert_def)

lemma sql_insert_or_ignore_eq_Inr:
  "sql_insert_or_ignore key fk r rs = Inr (n, rs') \<longleftrightarrow>
     (if key r \<in> key ` set rs then n = 0 \<and> rs' = rs else fk \<and> n = 1 \<and> rs' = rs @ [r])"
  by (auto simp: sql_insert_or_ignore_def)

lemma sql_row_eq_Inr: "sql_row p rs = Inr r \<longleftrightarrow> find p rs = Some r"
  by (auto simp: sql_row_def split: option.splits)

lemma sql_row_eq_Inl: "sql_row p rs = Inl e \<longleftrightarrow> find p rs = None \<and> e = ErrNoRows"
  by (auto simp: sql_row_def split: option.splits)

section \<open>Transactions\<close>

type_synonym 'a tx = "sqldb \<Rightarrow> error + 'a \<times> sqldb"
type_synonym 'a dbop = "sqldb \<Rightarrow> (error + 'a) \<times> sqldb"

definition runInTx :: "env \<Rightarrow> 'a tx \<Rightarrow> 'a dbop" where
  "runInTx e f d =
     (case begin_err e of Some x \<Rightarrow> (Inl x, d)
      | None \<Rightarrow> (case f d of
            Inl x \<Rightarrow> (Inl x, d)
          | Inr (a, d') \<Rightarrow> (case commit_err e of Some x \<Rightarrow> (Inl x, d) | None \<Rightarrow> (Inr a, d'))))"

definition IsNotFound :: "error \<Rightarrow> bool" where
  "IsNotFound e \<longleftrightarrow> e = ErrNoRows"

lemma runInTx_cases:
  obtains (err) x where "runInTx e f d = (Inl x, d)"
  | (ok) a d' where "f d = Inr (a, d')" "runInTx e f d = (Inr a, d')"
  by (cases "begin_err e"; cases "f d"; cases "commit_err e") (auto simp: runInTx_def)

text \<open>All or nothing: an operation that reports an error leaves the database as it was.\<close>

lemma runInTx_error: "runInTx e f d = (Inl x, d') \<Longrightarrow> d' = d"
  by (auto simp: runInTx_def split: option.splits sum.splits prod.splits)

lemma runInTx_success: "runInTx e f d = (Inr a, d') \<Longrightarrow> f d = Inr (a, d')"
  by (auto simp: runInTx_def split: option.splits sum.splits prod.splits)

lemma runInTx_invariant:
  assumes "P d" and "\<And>a d'. f d = Inr (a, d') \<Longrightarrow> P d'"
  shows "P (snd (runInTx e f d))"
  using assms by (cases rule: runInTx_cases [of e f d]) auto

lemma runInTx_no_fault:
  "begin_err e = None \<Longrightarrow> commit_err e = None \<Longrightarrow> f d = Inr (a, d') \<Longrightarrow> runInTx e f d = (Inr a, d')"
  by (simp add: runInTx_def)

section \<open>Numbers as text\<close>

text \<open>\<^verbatim>\<open>strconv.FormatUint(v, 16)\<close> and \<^verbatim>\<open>strconv.ParseUint(s, 16, 64)\<close>.\<close>

fun format_hex :: "nat \<Rightarrow> string" where
  "format_hex n = (if n < 16 then [hexdigit n] else format_hex (n div 16) @ [hexdigit (n mod 16)])"

declare format_hex.simps [simp del]

definition FormatUint16 :: "u64 \<Rightarrow> string" where
  "FormatUint16 v = format_hex (unat v)"

fun parse_hex :: "nat \<Rightarrow> string \<Rightarrow> nat option" where
  "parse_hex acc [] = Some acc"
| "parse_hex acc (c # cs) = (case fromHexChar c of None \<Rightarrow> None | Some v \<Rightarrow> parse_hex (acc * 16 + v) cs)"

definition ParseUint16 :: "string \<Rightarrow> error + u64" where
  "ParseUint16 s = (if s = [] then Inl (Err ''invalid syntax'')
     else case parse_hex 0 s of None \<Rightarrow> Inl (Err ''invalid syntax'')
       | Some n \<Rightarrow> if n < 2 ^ 64 then Inr (word_of_nat n) else Inl (Err ''value out of range''))"

lemma parse_hex_append:
  "parse_hex acc (xs @ ys) = (case parse_hex acc xs of None \<Rightarrow> None | Some n \<Rightarrow> parse_hex n ys)"
  by (induction xs arbitrary: acc) (auto split: option.splits)

lemma parse_hex_format: "parse_hex 0 (format_hex n) = Some n"
proof (induction n rule: format_hex.induct)
  case (1 n)
  show ?case
  proof (cases "n < 16")
    case True
    then show ?thesis by (simp add: format_hex.simps [of n] fromHexChar_hexdigit)
  next
    case False
    with 1 show ?thesis
      by (simp add: format_hex.simps [of n] parse_hex_append fromHexChar_hexdigit)
  qed
qed

lemma format_hex_neq_Nil [simp]: "format_hex n \<noteq> []"
  by (subst format_hex.simps) simp

lemma ParseUint16_FormatUint16 [simp]: "ParseUint16 (FormatUint16 v) = Inr v"
proof -
  have "unat v < 2 ^ 64" using unsigned_less [of v] by simp
  then show ?thesis by (simp add: ParseUint16_def FormatUint16_def parse_hex_format)
qed

end
