(* ===== verification/Sqlite_Messages.thy ===== *)
theory Sqlite_Messages
  imports Sqlite_Core "HOL-Library.Sublist"
begin

text \<open>
  \<^verbatim>\<open>fleetspeak/src/server/sqlite/messagestore.go\<close>: the message store on SQLite.

  \<^verbatim>\<open>proto.Marshal\<close>/\<^verbatim>\<open>Unmarshal\<close> of the two nested messages stored as blobs are the
  parameter \<open>codec\<close>. The central invariant, \<open>messages_ok\<close>, is the one \<^verbatim>\<open>db.MessageStore\<close>
  documents: a message is pending exactly as long as it has no result.
\<close>

record codec =
  marshal_ValidationInfo :: "ValidationInfoData \<Rightarrow> error + bytes"
  unmarshal_ValidationInfo :: "bytes \<Rightarrow> error + ValidationInfoData"
  marshal_Annotations :: "AnnotationsData \<Rightarrow> error + bytes"
  unmarshal_Annotations :: "bytes \<Rightarrow> error + AnnotationsData"

section \<open>Operations\<close>

definition toMicro :: "gotime \<Rightarrow> int" where
  "toMicro t = go_quot t 1000"

definition trySetMessageResult :: "MessageID \<Rightarrow> MessageResult \<Rightarrow> unit tx" where
  "trySetMessageResult i res d =
     (case ProcessedTime res of
        None \<Rightarrow> Inl (Fatal ''nil pointer dereference'')
      | Some pt \<Rightarrow>
         (let mid = MessageID_String i;
              fl = (if Failed res then Some True else None);
              fr = (if Failed res then Some (FailedReason res) else None)
          in Inr ((), d\<lparr>
               t_messages := update_where (\<lambda>r. messageID r = mid)
                 (\<lambda>r. r\<lparr>failed := fl, failedReason := fr,
                        processedTimeSeconds := Some (Seconds pt),
                        processedTimeNanos := Some (Nanos pt)\<rparr>) (t_messages d),
               t_pending := filter (\<lambda>p. p_message_id p \<noteq> mid) (t_pending d)\<rparr>)))"

definition SetMessageResult :: "env \<Rightarrow> ClientID \<Rightarrow> MessageID \<Rightarrow> MessageResult \<Rightarrow> unit dbop" where
  "SetMessageResult e dest i res = runInTx e (trySetMessageResult i res)"

definition toClientIDString :: "gobytes \<Rightarrow> error + string" where
  "toClientIDString b = (if length (raw b) = 0 then Inr []
     else case BytesToClientID b of
         Inl _ \<Rightarrow> Inl (Fatal ''Could not parse ClientID'')
       | Inr i \<Rightarrow> Inr (ClientID_String i))"

definition fromClientIDString :: "string \<Rightarrow> error + gobytes" where
  "fromClientIDString s = (if s = [] then Inr None
     else case StringToClientID s of
         Inl _ \<Rightarrow> Inl (Fatal ''Could not parse ClientID'')
       | Inr cid \<Rightarrow> Inr (ClientID_Bytes cid))"

definition address_columns :: "Address option \<Rightarrow> error + string \<times> string" where
  "address_columns a = (case a of None \<Rightarrow> Inr ([], [])
     | Some a \<Rightarrow> ebind (toClientIDString (ClientId a)) (\<lambda>s. Inr (s, ServiceName a)))"

definition empty_dbMessage :: dbMessage where
  "empty_dbMessage = \<lparr>messageID = [], sourceClientID = [], sourceServiceName = [], sourceMessageID = [],
     destinationClientID = [], destinationServiceName = [], messageType = [],
     creationTimeSeconds = 0, creationTimeNanos = 0, processedTimeSeconds = None,
     processedTimeNanos = None, validationInfo = [], failed = None, failedReason = None,
     retryCount = 0, dataTypeURL = None, dataValue = [], annotations = []\<rparr>"

definition fromMessageProto :: "codec \<Rightarrow> Message \<Rightarrow> error + dbMessage" where
  "fromMessageProto cd m =
     ebind (BytesToMessageID (MessageId m)) (\<lambda>i.
     ebind (address_columns (Source m)) (\<lambda>(sc, ss).
     ebind (address_columns (Destination m)) (\<lambda>(dc, ds).
     ebind (case ValidationInfo m of None \<Rightarrow> Inr [] | Some v \<Rightarrow> marshal_ValidationInfo cd v) (\<lambda>vi.
     ebind (case Annotations m of None \<Rightarrow> Inr [] | Some a \<Rightarrow> marshal_Annotations cd a) (\<lambda>an.
     Inr (empty_dbMessage\<lparr>
       messageID := MessageID_String i,
       messageType := MessageType m,
       sourceClientID := sc, sourceServiceName := ss,
       destinationClientID := dc, destinationServiceName := ds,
       sourceMessageID := EncodeToString (raw (SourceMessageId m)),
       creationTimeSeconds := (case CreationTime m of None \<Rightarrow> 0 | Some t \<Rightarrow> Seconds t),
       creationTimeNanos := (case CreationTime m of None \<Rightarrow> 0 | Some t \<Rightarrow> Nanos t),
       processedTimeSeconds := (case Result m of None \<Rightarrow> None
         | Some r \<Rightarrow> map_option Seconds (ProcessedTime r)),
       processedTimeNanos := (case Result m of None \<Rightarrow> None
         | Some r \<Rightarrow> map_option Nanos (ProcessedTime r)),
       failed := (case Result m of None \<Rightarrow> None | Some r \<Rightarrow> if Failed r then Some True else None),
       failedReason := (case Result m of None \<Rightarrow> None
         | Some r \<Rightarrow> if Failed r then Some (FailedReason r) else None),
       dataTypeURL := map_option TypeUrl (Data m),
       dataValue := (case Data m of None \<Rightarrow> [] | Some a \<Rightarrow> Value a),
       validationInfo := vi,
       annotations := an\<rparr>))))))"

definition toMessageResultProto :: "dbMessage \<Rightarrow> MessageResult option" where
  "toMessageResultProto m = (case processedTimeSeconds m of None \<Rightarrow> None
     | Some s \<Rightarrow> Some \<lparr>ProcessedTime = Some \<lparr>Seconds = s,
           Nanos = (case processedTimeNanos m of None \<Rightarrow> 0 | Some n \<Rightarrow> n)\<rparr>,
         Failed = (failed m = Some True),
         FailedReason = (case failedReason m of None \<Rightarrow> [] | Some r \<Rightarrow> r)\<rparr>)"

definition toMessageProto :: "codec \<Rightarrow> dbMessage \<Rightarrow> error + Message" where
  "toMessageProto cd m =
     ebind (StringToMessageID (messageID m)) (\<lambda>mid.
     ebind (DecodeString (sourceMessageID m)) (\<lambda>bsmid.
     ebind (fromClientIDString (sourceClientID m)) (\<lambda>sc.
     ebind (fromClientIDString (destinationClientID m)) (\<lambda>dc.
     ebind (if length (validationInfo m) > 0
            then ebind (unmarshal_ValidationInfo cd (validationInfo m)) (\<lambda>v. Inr (Some v))
            else Inr None) (\<lambda>vi.
     ebind (if length (annotations m) > 0
            then ebind (unmarshal_Annotations cd (annotations m)) (\<lambda>a. Inr (Some a))
            else Inr None) (\<lambda>an.
     Inr (empty_Message\<lparr>
       MessageId := MessageID_Bytes mid,
       Source := Some \<lparr>ClientId = sc, ServiceName = sourceServiceName m\<rparr>,
       SourceMessageId := Some bsmid,
       Destination := Some \<lparr>ClientId = dc, ServiceName = destinationServiceName m\<rparr>,
       MessageType := messageType m,
       CreationTime := Some \<lparr>Seconds = creationTimeSeconds m, Nanos = creationTimeNanos m\<rparr>,
       Result := toMessageResultProto m,
       Data := (case dataTypeURL m of None \<Rightarrow> None
         | Some u \<Rightarrow> Some \<lparr>TypeUrl = u, Value = dataValue m\<rparr>),
       ValidationInfo := vi,
       Annotations := an\<rparr>)))))))"

text \<open>The columns of \<^verbatim>\<open>messages\<close>.\<close>

definition message_columns :: "dbMessage \<Rightarrow> dbMessage" where
  "message_columns m = m\<lparr>retryCount := 0, dataTypeURL := None, dataValue := []\<rparr>"

definition tryStoreMessage :: "env \<Rightarrow> dbMessage \<Rightarrow> bool \<Rightarrow> unit tx" where
  "tryStoreMessage e dbm isBroadcast d =
     (if creationTimeSeconds dbm = 0 then Inl (Err ''message CreationTime must be set'')
      else ebind (sql_insert_or_ignore messageID True (message_columns dbm) (t_messages d)) (\<lambda>(cnt, msgs).
        if cnt = 1 \<and> processedTimeSeconds dbm = None then
          (let due = (if destinationClientID dbm = [] then toMicro (ServerRetryTime e 0)
                      else if isBroadcast then toMicro (ClientRetryTime e)
                      else toMicro (Now e));
               row = \<lparr>p_message_id = messageID dbm, p_retry_count = 0, p_scheduled_time = due,
                      p_data_type_url = dataTypeURL dbm, p_data_value = dataValue dbm\<rparr>
           in ebind (sql_insert p_message_id True row (t_pending d)) (\<lambda>pend.
                Inr ((), d\<lparr>t_messages := msgs, t_pending := pend\<rparr>)))
        else Inr ((), d\<lparr>t_messages := msgs\<rparr>)))"

text \<open>One iteration of the loop of \<^verbatim>\<open>StoreMessages\<close>; \<open>ids\<close> is its accumulator.\<close>

definition storeOne :: "env \<Rightarrow> codec \<Rightarrow> Message \<Rightarrow> string list \<times> sqldb \<Rightarrow> error + string list \<times> sqldb" where
  "storeOne e cd m = (\<lambda>(ids, d).
     ebind (fromMessageProto cd m) (\<lambda>dbm0.
      (let dbm = (if Result m \<noteq> None then dbm0\<lparr>dataTypeURL := None, dataValue := []\<rparr> else dbm0);
           ids' = ids @ [messageID dbm]
       in case Result m of
            Some r \<Rightarrow>
              if \<not> Failed r then
                ebind (tryStoreMessage e dbm False d) (\<lambda>(_, d1).
                ebind (BytesToMessageID (MessageId m)) (\<lambda>mid.
                ebind (trySetMessageResult mid r d1) (\<lambda>(_, d2). Inr (ids', d2))))
              else (case sql_row (\<lambda>x. messageID x = messageID dbm) (t_messages d) of
                  Inl _ \<Rightarrow> ebind (tryStoreMessage e dbm False d) (\<lambda>(_, d1). Inr (ids', d1))
                | Inr x \<Rightarrow>
                    if processedTimeSeconds x \<noteq> None \<and> failed x \<noteq> Some True then Inr (ids', d)
                    else if processedTimeSeconds x = None \<or> \<not> Failed r then
                      ebind (BytesToMessageID (MessageId m)) (\<lambda>mid.
                      ebind (trySetMessageResult mid r d) (\<lambda>(_, d1). Inr (ids', d1)))
                    else Inr (ids', d))
          | None \<Rightarrow>
              (case sql_row (\<lambda>x. messageID x = messageID dbm) (t_messages d) of
                  Inl _ \<Rightarrow> ebind (tryStoreMessage e dbm False d) (\<lambda>(_, d1). Inr (ids', d1))
                | Inr x \<Rightarrow> Inr (ids', d)))))"

text \<open>
  \<^verbatim>\<open>INSERT [OR IGNORE] INTO client_contact_messages\<close>: the contact and the message must exist.
\<close>

definition link_fk :: "u64 \<Rightarrow> string \<Rightarrow> sqldb \<Rightarrow> bool" where
  "link_fk c i d \<longleftrightarrow> unat c \<in> cc_id ` set (t_client_contacts d) \<and> i \<in> messageID ` set (t_messages d)"

definition linkIgnore :: "u64 \<Rightarrow> string \<Rightarrow> sqldb \<Rightarrow> error + sqldb" where
  "linkIgnore c i d =
     ebind (sql_u64 c) (\<lambda>c.
     ebind (sql_insert_or_ignore (\<lambda>x. x) (link_fk c i d) (c, i) (t_contact_messages d)) (\<lambda>(_, cm).
       Inr (d\<lparr>t_contact_messages := cm\<rparr>)))"

definition StoreMessages :: "env \<Rightarrow> codec \<Rightarrow> Message list \<Rightarrow> string \<Rightarrow> unit dbop" where
  "StoreMessages e cd msgs contact = runInTx e (\<lambda>d.
     ebind (foldE (storeOne e cd) msgs ([], d)) (\<lambda>(ids, d1).
       if contact = [] then Inr ((), d1)
       else (case ParseUint16 contact of
           Inl _ \<Rightarrow> Inl (Err ''unable to parse ContactID'')
         | Inr c \<Rightarrow> ebind (foldE (linkIgnore c) ids d1) (\<lambda>d2. Inr ((), d2)))))"

definition pending_for :: "ClientID list \<Rightarrow> sqldb \<Rightarrow> (dbMessage \<times> pending_row) list" where
  "pending_for ids d =
     concat (map (\<lambda>m. map (Pair m) (filter (\<lambda>p. messageID m = p_message_id p) (t_pending d)))
       (filter (\<lambda>m. destinationClientID m \<in> ClientID_String ` set ids) (t_messages d)))"

definition getPendingMessageRawIds ::
  "ClientID list \<Rightarrow> u64 \<Rightarrow> u64 \<Rightarrow> sqldb \<Rightarrow> error + string list" where
  "getPendingMessageRawIds ids offset limit d =
     (if offset \<noteq> 0 \<and> limit = 0 then Inl (Err ''if offset is provided, a limit must be provided as well'')
      else ebind (sql_u64 limit) (\<lambda>limit. ebind (sql_u64 offset) (\<lambda>offset.
        (let rows = sort (map (messageID \<circ> fst) (pending_for ids d));
             rows = drop (unat offset) rows
         in Inr (if limit \<noteq> 0 then take (unat limit) rows else rows)))))"

definition GetPendingMessageCount :: "env \<Rightarrow> ClientID list \<Rightarrow> u64 dbop" where
  "GetPendingMessageCount e ids = runInTx e (\<lambda>d. Inr (word_of_nat (length (pending_for ids d)), d))"

definition getMessage :: "codec \<Rightarrow> bool \<Rightarrow> sqldb \<Rightarrow> MessageID \<Rightarrow> error + Message" where
  "getMessage cd wantData d i =
     ebind (sql_row (\<lambda>r. messageID r = MessageID_String i) (t_messages d)) (\<lambda>r.
     (let dbm = r\<lparr>failed := None, failedReason := None\<rparr>;
          dbm = (if wantData then
              (case find (\<lambda>p. p_message_id p = MessageID_String i) (t_pending d) of
                 None \<Rightarrow> dbm
               | Some p \<Rightarrow> dbm\<lparr>dataTypeURL := p_data_type_url p, dataValue := p_data_value p\<rparr>)
            else dbm)
      in toMessageProto cd dbm))"

definition getMessages :: "codec \<Rightarrow> MessageID list \<Rightarrow> bool \<Rightarrow> sqldb \<Rightarrow> error + Message list" where
  "getMessages cd ids wantData d = mapE (getMessage cd wantData d) ids"

definition GetMessages :: "env \<Rightarrow> codec \<Rightarrow> MessageID list \<Rightarrow> bool \<Rightarrow> Message list dbop" where
  "GetMessages e cd ids wantData =
     runInTx e (\<lambda>d. ebind (getMessages cd ids wantData d) (\<lambda>ms. Inr (ms, d)))"

definition GetPendingMessages ::
  "env \<Rightarrow> codec \<Rightarrow> ClientID list \<Rightarrow> u64 \<Rightarrow> u64 \<Rightarrow> bool \<Rightarrow> Message list dbop" where
  "GetPendingMessages e cd ids offset limit wantData = runInTx e (\<lambda>d.
     ebind (getPendingMessageRawIds ids offset limit d) (\<lambda>rawIds.
     ebind (mapE StringToMessageID rawIds) (\<lambda>mids.
     ebind (getMessages cd mids wantData d) (\<lambda>ms. Inr (ms, d)))))"

definition DeletePendingMessages :: "env \<Rightarrow> ClientID list \<Rightarrow> unit dbop" where
  "DeletePendingMessages e ids = runInTx e (\<lambda>d.
     ebind (getPendingMessageRawIds ids 0 0 d) (\<lambda>rawIds.
       if rawIds = [] then Inr ((), d)
       else (let now = NowProto e in
         Inr ((), d\<lparr>
           t_messages := update_where (\<lambda>r. messageID r \<in> set rawIds)
             (\<lambda>r. r\<lparr>failed := Some True, failedReason := Some ''Removed by admin action.'',
                    processedTimeSeconds := Some (Seconds now),
                    processedTimeNanos := Some (Nanos now)\<rparr>) (t_messages d),
           t_pending := filter (\<lambda>p. p_message_id p \<notin> set rawIds) (t_pending d)\<rparr>))))"

definition GetMessageResult :: "env \<Rightarrow> MessageID \<Rightarrow> MessageResult option dbop" where
  "GetMessageResult e i = runInTx e (\<lambda>d.
     (case sql_row (\<lambda>r. messageID r = MessageID_String i) (t_messages d) of
        Inl _ \<Rightarrow> Inr (None, d)
      | Inr r \<Rightarrow> Inr (toMessageResultProto r, d)))"

text \<open>
  The loop of \<^verbatim>\<open>internalMessagesForProcessing\<close> over the rows of its query: \<open>nread\<close> is the map
  \<^verbatim>\<open>read\<close>, \<open>res\<close> the messages found so far.
\<close>

definition reschedule :: "env \<Rightarrow> dbMessage \<Rightarrow> pending_row \<Rightarrow> sqldb \<Rightarrow> sqldb" where
  "reschedule e m p d =
     (let nc = p_retry_count p + 1;
          due = (if destinationClientID m = [] then toMicro (ServerRetryTime e nc)
                 else toMicro (ClientRetryTime e))
      in d\<lparr>t_pending := update_where (\<lambda>q. p_message_id q = messageID m)
             (\<lambda>q. q\<lparr>p_retry_count := nc, p_scheduled_time := due\<rparr>) (t_pending d)\<rparr>)"

fun ifp_loop ::
  "env \<Rightarrow> codec \<Rightarrow> u64 \<Rightarrow> (string, u64) gomap option \<Rightarrow> (dbMessage \<times> pending_row) list \<Rightarrow>
   (string, u64) gomap \<Rightarrow> Message list \<Rightarrow> Message list tx" where
  "ifp_loop e cd lim limits [] nread res d = Inr (res, d)"
| "ifp_loop e cd lim limits ((m, p) # rows) nread res d =
     (let svc = destinationServiceName m in
      if (case limits of None \<Rightarrow> False | Some sl \<Rightarrow> gomap_get0 nread svc \<ge> gomap_get0 sl svc)
      then ifp_loop e cd lim limits rows nread res d
      else
        (let nread' = (case limits of None \<Rightarrow> nread
               | Some _ \<Rightarrow> gomap_upd svc (gomap_get0 nread svc + 1) nread);
             d' = reschedule e m p d
         in ebind (toMessageProto cd (m\<lparr>processedTimeSeconds := None, processedTimeNanos := None,
                failed := None, failedReason := None, retryCount := p_retry_count p,
                dataTypeURL := p_data_type_url p, dataValue := p_data_value p\<rparr>)) (\<lambda>msg.
              if int (length (res @ [msg])) \<ge> sint lim then Inr (res @ [msg], d')
              else ifp_loop e cd lim limits rows nread' (res @ [msg]) d')))"

definition due_rows :: "env \<Rightarrow> string \<Rightarrow> sqldb \<Rightarrow> (dbMessage \<times> pending_row) list" where
  "due_rows e sid d =
     concat (map (\<lambda>m. map (Pair m) (filter (\<lambda>p. messageID m = p_message_id p
            \<and> p_scheduled_time p < toMicro (Now e)) (t_pending d)))
       (filter (\<lambda>m. destinationClientID m = sid) (t_messages d)))"

definition internalMessagesForProcessing ::
  "env \<Rightarrow> codec \<Rightarrow> ClientID \<Rightarrow> u64 \<Rightarrow> (string, u64) gomap option \<Rightarrow> Message list dbop" where
  "internalMessagesForProcessing e cd i lim serviceLimits = runInTx e (\<lambda>d.
     ebind (toClientIDString (ClientID_Bytes i)) (\<lambda>sid.
       ifp_loop e cd lim serviceLimits (due_rows e sid d) [] [] d))"

definition ClientMessagesForProcessing ::
  "env \<Rightarrow> codec \<Rightarrow> ClientID \<Rightarrow> u64 \<Rightarrow> (string, u64) gomap option \<Rightarrow> Message list dbop" where
  "ClientMessagesForProcessing e cd i lim serviceLimits d =
     (if i = ClientID [] then (Inl (Err ''a client is required''), d)
      else internalMessagesForProcessing e cd i lim serviceLimits d)"

section \<open>The invariant of the message tables\<close>

text \<open>
  Both tables have unique keys, the pending messages are exactly the messages without a result, and
  the identifiers in the rows are in the form the code prints them.
\<close>

definition dbMessage_wf :: "dbMessage \<Rightarrow> bool" where
  "dbMessage_wf m \<longleftrightarrow> (\<exists>i. MessageID_ok i \<and> messageID m = MessageID_String i)
     \<and> (\<exists>b. toClientIDString b = Inr (sourceClientID m))
     \<and> (\<exists>b. toClientIDString b = Inr (destinationClientID m))
     \<and> (\<exists>b. sourceMessageID m = EncodeToString b)"

definition unprocessed :: "dbMessage list \<Rightarrow> string set" where
  "unprocessed ms = set (map messageID (filter (\<lambda>m. processedTimeSeconds m = None) ms))"

definition messages_ok :: "sqldb \<Rightarrow> bool" where
  "messages_ok d \<longleftrightarrow> distinct (map messageID (t_messages d)) \<and> distinct (map p_message_id (t_pending d))
     \<and> set (map p_message_id (t_pending d)) = unprocessed (t_messages d)
     \<and> list_all dbMessage_wf (t_messages d)"

lemma unprocessed_simps [simp]:
  "unprocessed [] = {}"
  "unprocessed (ms @ [m]) = unprocessed ms \<union> (if processedTimeSeconds m = None then {messageID m} else {})"
  by (simp_all add: unprocessed_def)

lemma unprocessed_subset: "unprocessed ms \<subseteq> set (map messageID ms)"
  by (auto simp: unprocessed_def)

lemma unprocessed_settle:
  assumes "\<And>r. messageID (f r) = messageID r" and "\<And>r. processedTimeSeconds (f r) \<noteq> None"
  shows "unprocessed (update_where (\<lambda>r. messageID r \<in> S) f ms) = unprocessed ms - S"
proof -
  have settled: "processedTimeSeconds (f r) = None \<longleftrightarrow> False" for r using assms(2) by simp
  show ?thesis
  proof (induction ms)
    case (Cons m ms)
    then show ?case
      unfolding unprocessed_def update_where_def by (simp add: settled assms(1) del: set_map) blast
  qed (simp add: update_where_def)
qed

lemma messages_okD:
  assumes "messages_ok d"
  shows "distinct (map messageID (t_messages d))" "distinct (map p_message_id (t_pending d))"
    "set (map p_message_id (t_pending d)) = unprocessed (t_messages d)"
    "list_all dbMessage_wf (t_messages d)"
  using assms by (simp_all add: messages_ok_def)

lemma messages_ok_cong:
  "t_messages d' = t_messages d \<Longrightarrow> t_pending d' = t_pending d \<Longrightarrow> messages_ok d' = messages_ok d"
  by (simp add: messages_ok_def)

lemma messages_ok_init: "messages_ok initSchema"
  by (simp add: messages_ok_def initSchema_def)

text \<open>
  Giving results to a set of messages and dropping their pending rows keeps the invariant: the
  common core of \<^verbatim>\<open>trySetMessageResult\<close> and \<^verbatim>\<open>DeletePendingMessages\<close>.
\<close>

lemma messages_ok_settle:
  assumes "messages_ok d"
    and key: "\<And>r. messageID (f r) = messageID r"
    and wf: "\<And>r. dbMessage_wf (f r) = dbMessage_wf r"
    and settled: "\<And>r. processedTimeSeconds (f r) \<noteq> None"
    and d': "t_messages d' = update_where (\<lambda>r. messageID r \<in> S) f (t_messages d)"
      "t_pending d' = filter (\<lambda>p. p_message_id p \<notin> S) (t_pending d)"
  shows "messages_ok d'"
  using assms(1) unprocessed_settle [OF key settled]
  by (auto simp: messages_ok_def d' key wf distinct_map_filter list_all_iff set_update_where)

lemma messages_ok_trySetMessageResult:
  assumes "messages_ok d" and "trySetMessageResult i res d = Inr (u, d')"
  shows "messages_ok d'"
proof -
  obtain pt where pt: "ProcessedTime res = Some pt"
    using assms(2) by (cases "ProcessedTime res") (auto simp: trySetMessageResult_def)
  show ?thesis
    by (rule messages_ok_settle [OF assms(1), where S = "{MessageID_String i}"
          and f = "\<lambda>r. r\<lparr>failed := if Failed res then Some True else None,
             failedReason := if Failed res then Some (FailedReason res) else None,
             processedTimeSeconds := Some (Seconds pt), processedTimeNanos := Some (Nanos pt)\<rparr>"])
      (use assms(2) pt in \<open>auto simp: trySetMessageResult_def Let_def dbMessage_wf_def\<close>)
qed

lemma messages_ok_insert:
  assumes "messages_ok d" and "messageID m \<notin> set (map messageID (t_messages d))"
    and "dbMessage_wf m"
  shows "processedTimeSeconds m = None \<Longrightarrow> p_message_id p = messageID m \<Longrightarrow>
      messages_ok (d\<lparr>t_messages := t_messages d @ [m], t_pending := t_pending d @ [p]\<rparr>)"
    and "processedTimeSeconds m \<noteq> None \<Longrightarrow> messages_ok (d\<lparr>t_messages := t_messages d @ [m]\<rparr>)"
proof -
  have new: "messageID m \<notin> unprocessed (t_messages d)"
    using assms(2) unprocessed_subset by fast
  show "processedTimeSeconds m = None \<Longrightarrow> p_message_id p = messageID m \<Longrightarrow>
      messages_ok (d\<lparr>t_messages := t_messages d @ [m], t_pending := t_pending d @ [p]\<rparr>)"
    using assms new by (simp add: messages_ok_def)
  show "processedTimeSeconds m \<noteq> None \<Longrightarrow> messages_ok (d\<lparr>t_messages := t_messages d @ [m]\<rparr>)"
    using assms by (auto simp: messages_ok_def)
qed

lemma messages_ok_tryStoreMessage:
  assumes "messages_ok d" and "dbMessage_wf dbm" and "tryStoreMessage e dbm b d = Inr (u, d')"
  shows "messages_ok d'"
proof -
  obtain n ms where ins: "sql_insert_or_ignore messageID True (message_columns dbm) (t_messages d) = Inr (n, ms)"
    using assms(3) by (auto simp: tryStoreMessage_def split: if_splits)
  have mc: "messageID (message_columns dbm) = messageID dbm"
    "processedTimeSeconds (message_columns dbm) = processedTimeSeconds dbm"
    "dbMessage_wf (message_columns dbm) = dbMessage_wf dbm"
    by (simp_all add: message_columns_def dbMessage_wf_def)
  show ?thesis
  proof (cases "messageID dbm \<in> set (map messageID (t_messages d))")
    case True
    with ins assms show ?thesis
      by (auto simp: tryStoreMessage_def sql_insert_or_ignore_eq_Inr mc split: if_splits)
  next
    case False
    with ins assms show ?thesis
      by (auto simp: tryStoreMessage_def sql_insert_or_ignore_eq_Inr mc Let_def sql_insert_eq_Inr
          intro!: messages_ok_insert split: if_splits)
  qed
qed

lemma toClientIDString_Nil: "toClientIDString None = Inr []"
  by (simp add: toClientIDString_def)

lemma address_columns_wf: "address_columns a = Inr (c, s) \<Longrightarrow> \<exists>b. toClientIDString b = Inr c"
  using toClientIDString_Nil by (auto simp: address_columns_def split: option.splits)

lemma fromMessageProto_wf: "fromMessageProto cd m = Inr dbm \<Longrightarrow> dbMessage_wf dbm"
  unfolding fromMessageProto_def dbMessage_wf_def empty_dbMessage_def
  by (auto dest: address_columns_wf message_id.of_bytes_wf)

lemma dbMessage_wf_upd [simp]:
  "dbMessage_wf (r\<lparr>dataTypeURL := u, dataValue := v\<rparr>) = dbMessage_wf r"
  by (simp add: dbMessage_wf_def)

lemma messages_ok_storeOne:
  assumes "messages_ok d" and "storeOne e cd m (acc, d) = Inr (acc', d')"
  shows "messages_ok d'"
  using assms
  by (auto simp: storeOne_def Let_def split: option.splits if_splits sum.splits
      dest!: fromMessageProto_wf intro: messages_ok_trySetMessageResult messages_ok_tryStoreMessage
        messages_ok_tryStoreMessage [where dbm = "r\<lparr>dataTypeURL := None, dataValue := []\<rparr>" for r,
          unfolded dbMessage_wf_upd])

lemma messages_ok_linkIgnore: "messages_ok d \<Longrightarrow> linkIgnore c i d = Inr d' \<Longrightarrow> messages_ok d'"
  by (auto simp: linkIgnore_def intro: messages_ok_cong [THEN iffD2])

lemma messages_ok_StoreMessages:
  assumes "messages_ok d"
  shows "messages_ok (snd (StoreMessages e cd msgs contact d))"
  unfolding StoreMessages_def
proof (rule runInTx_invariant [where P = messages_ok, OF assms], goal_cases)
  case (1 a d')
  note * = 1
  from * obtain ids d1 where 1: "foldE (storeOne e cd) msgs ([], d) = Inr (ids, d1)" by auto
  have "messages_ok (snd (ids, d1))"
    by (rule foldE_invariant [OF 1, where P = "\<lambda>s. messages_ok (snd s)"])
      (use assms messages_ok_storeOne in auto)
  then have ok: "messages_ok d1" by simp
  show ?case
  proof (cases "contact = []")
    case True
    with * 1 ok show ?thesis by simp
  next
    case False
    with * 1 obtain c where "foldE (linkIgnore c) ids d1 = Inr d'"
      by (auto split: sum.splits)
    then show ?thesis using ok
      by (rule foldE_invariant [where P = messages_ok]) (auto intro: messages_ok_linkIgnore)
  qed
qed

lemma messages_ok_SetMessageResult: "messages_ok d \<Longrightarrow> messages_ok (snd (SetMessageResult e c i r d))"
  unfolding SetMessageResult_def
  by (rule runInTx_invariant [where P = messages_ok]) (auto intro: messages_ok_trySetMessageResult)

lemma messages_ok_DeletePendingMessages:
  assumes "messages_ok d"
  shows "messages_ok (snd (DeletePendingMessages e cids d))"
  unfolding DeletePendingMessages_def
proof (rule runInTx_invariant [where P = messages_ok, OF assms], goal_cases)
  case (1 a d')
  note * = 1
  from * obtain raws where "getPendingMessageRawIds cids 0 0 d = Inr raws" by auto
  with * show ?case
    by (cases "raws = []")
      (use assms in \<open>auto simp: Let_def dbMessage_wf_def intro!: messages_ok_settle [OF assms, of
          "\<lambda>r. r\<lparr>failed := Some True, failedReason := Some ''Removed by admin action.'',
                    processedTimeSeconds := Some (Seconds (NowProto e)),
                    processedTimeNanos := Some (Nanos (NowProto e))\<rparr>" _ "set raws"]\<close>)
qed

lemma messages_ok_reschedule: "messages_ok d \<Longrightarrow> messages_ok (reschedule e m p d)"
  by (simp add: messages_ok_def reschedule_def Let_def del: set_map)

lemma messages_ok_ifp_loop:
  "ifp_loop e cd lim limits rows nread res d = Inr (r, d') \<Longrightarrow> messages_ok d \<Longrightarrow> messages_ok d'"
  by (induction e cd lim limits rows nread res d rule: ifp_loop.induct)
    (auto simp: Let_def messages_ok_reschedule split: if_splits option.splits)

lemma messages_ok_internalMessagesForProcessing:
  assumes "messages_ok d"
  shows "messages_ok (snd (internalMessagesForProcessing e cd cid lim limits d))"
  unfolding internalMessagesForProcessing_def
  by (rule runInTx_invariant [where P = messages_ok, OF assms]) (auto intro: messages_ok_ifp_loop assms)

lemma messages_ok_ClientMessagesForProcessing:
  "messages_ok d \<Longrightarrow> messages_ok (snd (ClientMessagesForProcessing e cd cid lim limits d))"
  by (simp add: ClientMessagesForProcessing_def messages_ok_internalMessagesForProcessing)

section \<open>Results of stored messages\<close>

text \<open>
  What the store answers about the result of a message: \<open>None\<close> for an unknown message, \<open>Some None\<close>
  for a pending one. \<open>merge_result\<close> is the rule \<^verbatim>\<open>db.MessageStore.StoreMessages\<close> documents: a
  success overwrites any result, a failure only an empty one.
\<close>

definition result_of :: "sqldb \<Rightarrow> string \<Rightarrow> MessageResult option option" where
  "result_of d i = map_option toMessageResultProto (find (\<lambda>r. messageID r = i) (t_messages d))"

definition stored_result :: "MessageResult \<Rightarrow> MessageResult" where
  "stored_result r = r\<lparr>FailedReason := if Failed r then FailedReason r else []\<rparr>"

fun merge_result :: "MessageResult option option \<Rightarrow> MessageResult option \<Rightarrow> MessageResult option option" where
  "merge_result None new = Some (map_option stored_result new)"
| "merge_result (Some old) None = Some old"
| "merge_result (Some old) (Some r) =
     (if \<not> Failed r \<or> old = None then Some (Some (stored_result r)) else Some old)"

definition message_key :: "Message \<Rightarrow> string" where
  "message_key m = (if raw (MessageId m) = [] then ''nil'' else EncodeToString (raw (MessageId m)))"

definition spec_store ::
  "Message \<Rightarrow> (string \<Rightarrow> MessageResult option option) \<Rightarrow> string \<Rightarrow> MessageResult option option" where
  "spec_store m f = f(message_key m := merge_result (f (message_key m)) (Result m))"

definition results_timed :: "Message \<Rightarrow> bool" where
  "results_timed m \<longleftrightarrow> (case Result m of None \<Rightarrow> True | Some r \<Rightarrow> ProcessedTime r \<noteq> None)"

lemma result_of_trySetMessageResult:
  assumes "trySetMessageResult i r d = Inr (u, d')"
  shows "result_of d' = (\<lambda>j. if j = MessageID_String i then map_option (\<lambda>_. Some (stored_result r)) (result_of d j)
    else result_of d j)"
proof
  fix j
  obtain pt where pt: "ProcessedTime r = Some pt"
    using assms by (cases "ProcessedTime r") (auto simp: trySetMessageResult_def)
  let ?f = "\<lambda>m. m\<lparr>failed := if Failed r then Some True else None,
      failedReason := if Failed r then Some (FailedReason r) else None,
      processedTimeSeconds := Some (Seconds pt), processedTimeNanos := Some (Nanos pt)\<rparr>"
  have "t_messages d' = update_where (\<lambda>m. messageID m = MessageID_String i) ?f (t_messages d)"
    using assms pt by (auto simp: trySetMessageResult_def Let_def)
  moreover have "toMessageResultProto (?f m) = Some (stored_result r)" for m
    using pt by (cases r) (auto simp: toMessageResultProto_def stored_result_def)
  ultimately show "result_of d' j = (if j = MessageID_String i
      then map_option (\<lambda>_. Some (stored_result r)) (result_of d j) else result_of d j)"
    by (simp add: result_of_def find_update_where1 option.map_comp comp_def)
qed

lemma result_of_tryStoreMessage:
  assumes "tryStoreMessage e dbm b d = Inr (u, d')"
  shows "result_of d' = (\<lambda>j. if j = messageID dbm \<and> result_of d j = None
    then Some (toMessageResultProto dbm) else result_of d j)"
proof
  fix j
  have mc: "messageID (message_columns dbm) = messageID dbm"
    "toMessageResultProto (message_columns dbm) = toMessageResultProto dbm"
    by (simp_all add: message_columns_def toMessageResultProto_def split: option.split)
  have "t_messages d' = (if messageID dbm \<in> messageID ` set (t_messages d) then t_messages d
     else t_messages d @ [message_columns dbm])"
    using assms by (auto simp: tryStoreMessage_def Let_def sql_insert_or_ignore_eq_Inr mc
        sql_insert_eq_Inr split: if_splits)
  moreover have "messageID dbm \<in> messageID ` set (t_messages d) \<longleftrightarrow>
      find (\<lambda>r. messageID r = messageID dbm) (t_messages d) \<noteq> None"
    by (simp only: find_key_None not_not)
  ultimately show "result_of d' j = (if j = messageID dbm \<and> result_of d j = None
    then Some (toMessageResultProto dbm) else result_of d j)"
    by (auto simp: result_of_def find_append mc split: option.splits)
qed

lemma fromMessageProto_result_columns:
  assumes "fromMessageProto cd m = Inr dbm"
  shows "messageID dbm = message_key m"
    "processedTimeSeconds dbm = (case Result m of None \<Rightarrow> None | Some r \<Rightarrow> map_option Seconds (ProcessedTime r))"
    "processedTimeNanos dbm = (case Result m of None \<Rightarrow> None | Some r \<Rightarrow> map_option Nanos (ProcessedTime r))"
    "failed dbm = (case Result m of None \<Rightarrow> None | Some r \<Rightarrow> if Failed r then Some True else None)"
    "failedReason dbm = (case Result m of None \<Rightarrow> None
       | Some r \<Rightarrow> if Failed r then Some (FailedReason r) else None)"
  using assms unfolding fromMessageProto_def empty_dbMessage_def message_key_def
  by (auto dest!: BytesToMessageID_Some_cases)

lemma fromMessageProto_result:
  assumes "fromMessageProto cd m = Inr dbm" and "results_timed m"
  shows "toMessageResultProto dbm = map_option stored_result (Result m)"
  using assms(2) by (cases "Result m")
    (auto simp: toMessageResultProto_def fromMessageProto_result_columns [OF assms(1)] results_timed_def
      stored_result_def)

lemma result_of_storeOne:
  assumes "storeOne e cd m (acc, d) = Inr (acc', d')" and timed: "results_timed m"
  shows "result_of d' = spec_store m (result_of d)"
proof -
  obtain dbm0 where dbm0: "fromMessageProto cd m = Inr dbm0"
    using assms(1) by (auto simp: storeOne_def)
  define dbm where "dbm = (if Result m \<noteq> None then dbm0\<lparr>dataTypeURL := None, dataValue := []\<rparr> else dbm0)"
  have key: "messageID dbm = message_key m" "messageID dbm0 = message_key m"
    using fromMessageProto_result_columns(1) [OF dbm0] by (auto simp: dbm_def)
  have res: "toMessageResultProto dbm = map_option stored_result (Result m)"
    using fromMessageProto_result [OF dbm0 timed]
    by (auto simp: dbm_def toMessageResultProto_def split: option.splits)
  have mid: "MessageID_String mid = message_key m" if "BytesToMessageID (MessageId m) = Inr mid" for mid
    using BytesToMessageID_Some_cases [OF that] by (simp add: message_key_def)
  have row: "result_of d (message_key m) = (case sql_row (\<lambda>x. messageID x = message_key m) (t_messages d) of
      Inl _ \<Rightarrow> None | Inr x \<Rightarrow> Some (toMessageResultProto x))"
    by (simp add: result_of_def sql_row_def split: option.split)
  have old: "(toMessageResultProto x = None) = (processedTimeSeconds x = None)" for x
    by (simp add: toMessageResultProto_def split: option.split)
  note body = assms(1) [unfolded storeOne_def, simplified dbm0, simplified, folded dbm_def, unfolded Let_def]
  show ?thesis
  proof (cases "Result m")
    case None
    with body key res row show ?thesis
      by (cases "sql_row (\<lambda>x. messageID x = message_key m) (t_messages d)")
        (auto simp: spec_store_def fun_eq_iff dbm_def dest!: result_of_tryStoreMessage)
  next
    case (Some r)
    with body key res row mid show ?thesis
      by (cases "Failed r"; cases "sql_row (\<lambda>x. messageID x = message_key m) (t_messages d)")
        (auto simp: spec_store_def fun_eq_iff old dbm_def split: if_splits
          dest!: result_of_tryStoreMessage result_of_trySetMessageResult)
  qed
qed

lemma result_of_linkIgnore: "linkIgnore c i d = Inr d' \<Longrightarrow> result_of d' = result_of d"
  by (auto simp: linkIgnore_def result_of_def fun_eq_iff)

lemma result_of_storeAll:
  assumes "foldE (storeOne e cd) msgs (acc, d) = Inr (acc', d')" and "list_all results_timed msgs"
  shows "result_of d' = fold spec_store msgs (result_of d)"
  using assms
proof (induction msgs arbitrary: acc d)
  case (Cons m ms)
  then obtain acc1 d1 where 1: "storeOne e cd m (acc, d) = Inr (acc1, d1)"
    "foldE (storeOne e cd) ms (acc1, d1) = Inr (acc', d')" by auto
  with Cons.IH [of acc1 d1] Cons.prems result_of_storeOne [OF 1(1)] show ?case by simp
qed simp

lemma StoreMessages_okE:
  assumes "StoreMessages e cd msgs contact d = (Inr u, d')"
  obtains ids d1 where "foldE (storeOne e cd) msgs ([], d) = Inr (ids, d1)"
    "contact = [] \<Longrightarrow> d' = d1"
    "contact \<noteq> [] \<Longrightarrow> \<exists>c. ParseUint16 contact = Inr c \<and> foldE (linkIgnore c) ids d1 = Inr d'"
  using runInTx_success [OF assms [unfolded StoreMessages_def]] that
  by (auto split: if_splits sum.splits)

text \<open>
  C17. \<^verbatim>\<open>StoreMessages\<close> implements the documented merge rule: after it succeeds, what
  \<^verbatim>\<open>GetMessageResult\<close> reports for every message id is what one gets by merging the stored messages
  one after the other into what was known before, a success overwriting any result, a failure only
  the empty one, anything else being dropped.
\<close>

theorem StoreMessages_merges_results:
  assumes "StoreMessages e cd msgs contact d = (Inr (), d')" and "list_all results_timed msgs"
  shows "result_of d' = fold spec_store msgs (result_of d)"
proof -
  obtain ids d1 where 1: "foldE (storeOne e cd) msgs ([], d) = Inr (ids, d1)"
    "contact = [] \<Longrightarrow> d' = d1"
    "contact \<noteq> [] \<Longrightarrow> \<exists>c. ParseUint16 contact = Inr c \<and> foldE (linkIgnore c) ids d1 = Inr d'"
    using StoreMessages_okE [OF assms(1)] by blast
  have "result_of d' = result_of d1"
  proof (cases "contact = []")
    case False
    with 1(3) obtain c where "foldE (linkIgnore c) ids d1 = Inr d'" by blast
    then show ?thesis
      by (rule foldE_invariant [where P = "\<lambda>x. result_of x = result_of d1"])
        (simp_all add: result_of_linkIgnore)
  qed (simp add: 1(2))
  with result_of_storeAll [OF 1(1) assms(2)] show ?thesis by simp
qed

lemma GetMessageResult_result_of:
  "GetMessageResult e i d = (Inr r, d') \<Longrightarrow> d' = d \<and> r = (case result_of d (MessageID_String i) of
     None \<Rightarrow> None | Some x \<Rightarrow> x)"
  unfolding GetMessageResult_def result_of_def
  by (drule runInTx_success) (auto simp: sql_row_def split: option.splits)

section \<open>Handing out messages\<close>

text \<open>
  A run of the loop picks some of the rows, in order, reschedules exactly them and returns them.
\<close>

definition row_message :: "dbMessage \<times> pending_row \<Rightarrow> dbMessage" where
  "row_message mp = (fst mp)\<lparr>processedTimeSeconds := None, processedTimeNanos := None,
     failed := None, failedReason := None, retryCount := p_retry_count (snd mp),
     dataTypeURL := p_data_type_url (snd mp), dataValue := p_data_value (snd mp)\<rparr>"

definition service_count :: "string \<Rightarrow> Message list \<Rightarrow> nat" where
  "service_count svc ms = length (filter (\<lambda>m. addr_service (Destination m) = svc) ms)"

lemma toMessageProto_fields:
  assumes "toMessageProto cd r = Inr m"
  shows "addr_service (Destination m) = destinationServiceName r"
    "Result m = toMessageResultProto r"
    "\<exists>i. StringToMessageID (messageID r) = Inr i \<and> MessageId m = MessageID_Bytes i"
    "fromClientIDString (destinationClientID r) = Inr (addr_client (Destination m))"
  using assms by (auto simp: toMessageProto_def)

definition over_limit :: "(string, u64) gomap option \<Rightarrow> (string, u64) gomap \<Rightarrow> string \<Rightarrow> bool" where
  "over_limit limits nread svc =
     (case limits of None \<Rightarrow> False | Some sl \<Rightarrow> gomap_get0 nread svc \<ge> gomap_get0 sl svc)"

definition count_read ::
  "(string, u64) gomap option \<Rightarrow> string \<Rightarrow> (string, u64) gomap \<Rightarrow> (string, u64) gomap" where
  "count_read limits svc nread = (case limits of None \<Rightarrow> nread
     | Some _ \<Rightarrow> gomap_upd svc (gomap_get0 nread svc + 1) nread)"

lemma ifp_loop_ConsE:
  assumes "ifp_loop e cd lim limits ((m, p) # rows) nread res d = Inr (r, d')"
  obtains (skip) "over_limit limits nread (destinationServiceName m)"
      "ifp_loop e cd lim limits rows nread res d = Inr (r, d')"
  | (stop) msg where "\<not> over_limit limits nread (destinationServiceName m)"
      "toMessageProto cd (row_message (m, p)) = Inr msg"
      "int (length res) + 1 \<ge> sint lim" "r = res @ [msg]" "d' = reschedule e m p d"
  | (go) msg where "\<not> over_limit limits nread (destinationServiceName m)"
      "toMessageProto cd (row_message (m, p)) = Inr msg" "int (length res) + 1 < sint lim"
      "ifp_loop e cd lim limits rows (count_read limits (destinationServiceName m) nread)
         (res @ [msg]) (reschedule e m p d) = Inr (r, d')"
proof (cases "over_limit limits nread (destinationServiceName m)")
  case True
  with assms skip show thesis by (simp add: over_limit_def Let_def)
next
  case False
  with assms obtain msg where msg: "toMessageProto cd (row_message (m, p)) = Inr msg"
    by (auto simp: over_limit_def Let_def row_message_def)
  show thesis
  proof (cases "int (length res) + 1 \<ge> sint lim")
    case True
    with assms False msg show thesis
      by (intro stop [of msg]) (auto simp: over_limit_def Let_def row_message_def)
  next
    case less: False
    with assms False msg show thesis
      by (intro go [of msg]) (auto simp: over_limit_def Let_def row_message_def count_read_def)
  qed
qed

lemma ifp_loop_picks:
  assumes "ifp_loop e cd lim limits rows nread res d = Inr (r, d')"
  shows "\<exists>picked new. subseq picked rows \<and> r = res @ new
    \<and> list_all2 (\<lambda>mp msg. toMessageProto cd (row_message mp) = Inr msg) picked new
    \<and> d' = fold (\<lambda>(m, p). reschedule e m p) picked d"
  using assms
proof (induction rows arbitrary: nread res d)
  case Nil
  then show ?case by (intro exI [of _ "[]"]) simp
next
  case (Cons mp rows)
  obtain m p where mp: "mp = (m, p)" by force
  from Cons.prems [unfolded mp] show ?case
  proof (cases rule: ifp_loop_ConsE)
    case skip
    with Cons.IH show ?thesis by (metis list_emb_Cons)
  next
    case (stop msg)
    then show ?thesis
      by (intro exI [of _ "[mp]"] exI [of _ "[msg]"]) (simp add: mp)
  next
    case (go msg)
    from Cons.IH [OF go(4)] obtain picked new where "subseq picked rows" "r = (res @ [msg]) @ new"
      "list_all2 (\<lambda>mp msg. toMessageProto cd (row_message mp) = Inr msg) picked new"
      "d' = fold (\<lambda>(m, p). reschedule e m p) picked (reschedule e m p d)" by blast
    with go(2) show ?thesis
      by (intro exI [of _ "mp # picked"] exI [of _ "msg # new"]) (simp add: mp)
  qed
qed

lemma ifp_loop_length:
  assumes "ifp_loop e cd lim limits rows nread res d = Inr (r, d')" and "int (length res) < sint lim"
  shows "int (length r) \<le> sint lim"
  using assms
proof (induction rows arbitrary: nread res d)
  case (Cons mp rows)
  obtain m p where mp: "mp = (m, p)" by force
  from Cons.prems(1) [unfolded mp] show ?case
    by (cases rule: ifp_loop_ConsE) (use Cons in auto)
qed simp

lemma service_count_append [simp]: "service_count svc (a @ b) = service_count svc a + service_count svc b"
  by (simp add: service_count_def)

text \<open>The counter map \<^verbatim>\<open>read\<close> counts what has been picked and never passes the limit.\<close>

lemma ifp_loop_service_limits:
  assumes "ifp_loop e cd lim (Some sl) rows nread res d = Inr (r, d')"
    and "\<And>svc. service_count svc res = unat (gomap_get0 nread svc)"
    and "\<And>svc. gomap_get0 nread svc \<le> gomap_get0 sl svc"
  shows "service_count svc r \<le> unat (gomap_get0 sl svc)"
  using assms
proof (induction rows arbitrary: nread res d)
  case Nil
  then show ?case by (simp add: word_le_nat_alt)
next
  case (Cons mp rows)
  obtain m p where mp: "mp = (m, p)" by force
  let ?s = "destinationServiceName m"
  have one: "service_count svc' [msg] = (if svc' = ?s then 1 else 0)"
    if "toMessageProto cd (row_message (m, p)) = Inr msg" for svc' msg
    using toMessageProto_fields(1) [OF that] by (simp add: service_count_def row_message_def)
  have less: "gomap_get0 nread ?s < gomap_get0 sl ?s" if "\<not> over_limit (Some sl) nread ?s"
    using that by (simp add: over_limit_def)
  from Cons.prems(1) [unfolded mp] show ?case
  proof (cases rule: ifp_loop_ConsE)
    case skip
    with Cons show ?thesis by blast
  next
    case (stop msg)
    with Cons.prems less one [OF stop(2)] show ?thesis
      by (auto simp: word_less_nat_alt word_le_nat_alt Suc_le_eq)
  next
    case (go msg)
    note lt = less [OF go(1)]
    show ?thesis
      by (rule Cons.IH [OF go(4)])
        (use Cons.prems(2,3) one [OF go(2)] word_less_imp_unat_add1 [OF lt] inc_le [OF lt]
          in \<open>auto simp: count_read_def\<close>)
  qed
qed

lemma due_rows_mem:
  "(m, p) \<in> set (due_rows e sid d) \<longleftrightarrow> m \<in> set (t_messages d) \<and> p \<in> set (t_pending d)
     \<and> p_message_id p = messageID m \<and> p_scheduled_time p < toMicro (Now e) \<and> destinationClientID m = sid"
  by (auto simp: due_rows_def)

lemma distinct_join:
  assumes "distinct (map f xs)" and "distinct (map g ys)"
  shows "distinct (map (\<lambda>x. f (fst x)) (concat (map (\<lambda>x. map (Pair x) (filter (\<lambda>y. f x = g y \<and> Q y) ys)) xs)))"
  using assms(1)
proof (induction xs)
  case (Cons x xs)
  have "length (filter (\<lambda>y. f x = g y \<and> Q y) ys) \<le> 1"
    using assms(2) by (rule length_filter_key)
  then have "distinct (map (\<lambda>y. f x) (filter (\<lambda>y. f x = g y \<and> Q y) ys))"
    by (cases "filter (\<lambda>y. f x = g y \<and> Q y) ys" rule: list.exhaust; simp)
  with Cons show ?case by (auto simp: comp_def image_iff)
qed simp

lemma distinct_due_rows:
  "messages_ok d \<Longrightarrow> distinct (map (\<lambda>mp. messageID (fst mp)) (due_rows e sid d))"
  unfolding due_rows_def by (rule distinct_join) (simp_all add: messages_okD distinct_map_filter)

lemma fromClientIDString_toClientIDString:
  assumes "toClientIDString b = Inr s"
  shows "fromClientIDString s = Inr (if raw b = [] then None else Some (raw b))"
proof (cases "raw b = []")
  case True
  with assms show ?thesis by (auto simp: toClientIDString_def fromClientIDString_def)
next
  case False
  with assms obtain i where i: "BytesToClientID b = Inr i" "s = ClientID_String i"
    by (auto simp: toClientIDString_def split: sum.splits)
  then have "StringToClientID s = Inr i"
    using client_id.of_bytes_wf client_id.of_string_to_string by blast
  moreover have "raw (ClientID_Bytes i) = raw b" using i(1) by (rule client_id.of_bytes_raw)
  ultimately show ?thesis
    using i(2) False by (auto simp: fromClientIDString_def ClientID_Bytes_def)
qed

lemma toMicro_mono: "a \<le> b \<Longrightarrow> toMicro a \<le> toMicro b"
proof -
  have "toMicro t = (if 0 \<le> t then t div 1000 else - ((- t) div 1000))" for t
    by (auto simp: toMicro_def go_quot_def sgn_if)
  then show "a \<le> b \<Longrightarrow> ?thesis"
    by (auto simp: zdiv_mono1 intro: order_trans [of _ 0])
qed

lemma reschedule_schedules:
  assumes "\<And>m p. (m, p) \<in> set picked \<Longrightarrow> destinationClientID m \<noteq> []"
    and "q \<in> set (t_pending (fold (\<lambda>(m, p). reschedule e m p) picked d))"
    and "p_message_id q \<in> (\<lambda>mp. messageID (fst mp)) ` set picked"
  shows "p_scheduled_time q = toMicro (ClientRetryTime e)"
  using assms
proof (induction picked arbitrary: q rule: rev_induct)
  case (snoc mp picked)
  obtain m p where mp: "mp = (m, p)" by force
  let ?d = "fold (\<lambda>(m, p). reschedule e m p) picked d"
  have "q \<in> (\<lambda>q'. if p_message_id q' = messageID m then q'\<lparr>p_retry_count := p_retry_count p + 1,
        p_scheduled_time := toMicro (ClientRetryTime e)\<rparr> else q') ` set (t_pending ?d)"
    using snoc.prems(1) [of m p] snoc.prems(2)
    by (simp add: mp reschedule_def [of e m p] Let_def set_update_where del: if_image_distrib)
  then obtain q' where q': "q' \<in> set (t_pending ?d)"
    "q = (if p_message_id q' = messageID m then q'\<lparr>p_retry_count := p_retry_count p + 1,
        p_scheduled_time := toMicro (ClientRetryTime e)\<rparr> else q')" by blast
  with snoc.IH [OF _ q'(1)] snoc.prems(1,3) show ?case
    by (auto simp: mp split: if_splits)
qed simp

text \<open>The two facts about a successful call that its properties rest on.\<close>

lemma ClientMessagesForProcessing_picks:
  assumes "ClientMessagesForProcessing e cd cid lim limits d = (Inr msgs, d')" and "messages_ok d"
  obtains picked sid where "toClientIDString (ClientID_Bytes cid) = Inr sid" "sid \<noteq> []"
    "ifp_loop e cd lim limits (due_rows e sid d) [] [] d = Inr (msgs, d')"
    "subseq picked (due_rows e sid d)"
    "list_all2 (\<lambda>mp msg. toMessageProto cd (row_message mp) = Inr msg) picked msgs"
    "d' = fold (\<lambda>(m, p). reschedule e m p) picked d"
proof -
  from assms(1) have cid: "cid \<noteq> ClientID []"
    "runInTx e (\<lambda>d. ebind (toClientIDString (ClientID_Bytes cid)) (\<lambda>sid.
       ifp_loop e cd lim limits (due_rows e sid d) [] [] d)) d = (Inr msgs, d')"
    by (auto simp: ClientMessagesForProcessing_def internalMessagesForProcessing_def split: if_splits)
  from runInTx_success [OF cid(2)] obtain sid where sid: "toClientIDString (ClientID_Bytes cid) = Inr sid"
    "ifp_loop e cd lim limits (due_rows e sid d) [] [] d = Inr (msgs, d')" by auto
  from cid(1) have "raw (ClientID_Bytes cid) \<noteq> []" by (cases cid) (auto simp: ClientID_Bytes_def)
  with sid(1) have "sid \<noteq> []" by (auto simp: toClientIDString_def split: sum.splits)
  with that ifp_loop_picks [OF sid(2)] sid show thesis by auto
qed

lemma row_message_simps [simp]:
  "messageID (row_message mp) = messageID (fst mp)"
  "destinationClientID (row_message mp) = destinationClientID (fst mp)"
  "toMessageResultProto (row_message mp) = None"
  by (simp_all add: row_message_def toMessageResultProto_def)

text \<open>Stored ids are read back as the ids they were printed from.\<close>

lemma messages_ok_id:
  assumes "messages_ok d" and "m \<in> set (t_messages d)"
  obtains i where "MessageID_ok i" "messageID m = MessageID_String i" "StringToMessageID (messageID m) = Inr i"
proof -
  have "dbMessage_wf m" using messages_okD(4) [OF assms(1)] assms(2) by (simp add: list_all_iff)
  then show thesis using that message_id.of_string_to_string by (auto simp: dbMessage_wf_def)
qed

lemma picked_MessageId:
  assumes "messages_ok d" and "fst mp \<in> set (t_messages d)" and "fst mq \<in> set (t_messages d')" and "messages_ok d'"
    and "toMessageProto cd (row_message mp) = Inr m" and "toMessageProto cd' (row_message mq) = Inr n"
  shows "MessageId m = MessageId n \<longleftrightarrow> messageID (fst mp) = messageID (fst mq)"
proof -
  obtain i where i: "MessageID_ok i" "messageID (fst mp) = MessageID_String i"
    "StringToMessageID (messageID (fst mp)) = Inr i" using messages_ok_id [OF assms(1,2)] .
  obtain j where j: "MessageID_ok j" "messageID (fst mq) = MessageID_String j"
    "StringToMessageID (messageID (fst mq)) = Inr j" using messages_ok_id [OF assms(4,3)] .
  have "MessageId m = MessageID_Bytes i" "MessageId n = MessageID_Bytes j"
    using toMessageProto_fields(3) [OF assms(5)] toMessageProto_fields(3) [OF assms(6)] i(3) j(3) by auto
  then show ?thesis
    using message_id.to_bytes_inj [OF i(1) j(1)] message_id.to_string_inj [OF i(1) j(1)] i(2) j(2) by auto
qed

lemma subseq_setD: "subseq xs ys \<Longrightarrow> set xs \<subseteq> set ys"
  by (auto simp: subseq_conv_nths dest: in_set_nthsD)

lemma subseq_distinct: "subseq xs ys \<Longrightarrow> distinct ys \<Longrightarrow> distinct xs"
  by (auto simp: subseq_conv_nths)

lemma list_all2_distinct_map:
  assumes "list_all2 R xs ys" and "distinct (map f xs)"
    and "\<And>x y x' y'. x \<in> set xs \<Longrightarrow> x' \<in> set xs \<Longrightarrow> R x y \<Longrightarrow> R x' y' \<Longrightarrow> g y = g y' \<Longrightarrow> f x = f x'"
  shows "distinct (map g ys)"
  using assms
proof (induction xs ys rule: list_all2_induct)
  case (Cons x xs y ys)
  have "g y \<noteq> g y'" if y': "y' \<in> set ys" for y'
  proof -
    obtain x' where x': "x' \<in> set xs" "R x' y'" using list_all2_set2D [OF Cons.hyps(2) y'] .
    have "f x \<notin> f ` set xs" using Cons.prems(1) by simp
    with x'(1) have "f x' \<noteq> f x" by (metis imageI)
    with x' Cons.hyps(1) Cons.prems(2) [of x x' y y'] show ?thesis by auto
  qed
  with Cons show ?case by (auto simp: image_iff)
qed simp

lemma picked_messages:
  assumes "messages_ok d" and "toClientIDString (ClientID_Bytes cid) = Inr sid"
    and "subseq picked (due_rows e sid d)"
    and new: "list_all2 (\<lambda>mp msg. toMessageProto cd (row_message mp) = Inr msg) picked msgs"
  shows "distinct (map MessageId msgs)"
    and "\<And>m. m \<in> set msgs \<Longrightarrow> addr_client (Destination m) = ClientID_Bytes cid \<and> Result m = None"
proof -
  have sub: "set picked \<subseteq> set (due_rows e sid d)" using assms(3) by (rule subseq_setD)
  then have dest: "destinationClientID (fst mp) = sid" "fst mp \<in> set (t_messages d)" if "mp \<in> set picked" for mp
    using that due_rows_mem [of "fst mp" "snd mp"] by force+
  have "distinct (map (\<lambda>mp. messageID (fst mp)) picked)"
    using distinct_due_rows [OF assms(1)] subseq_map [OF assms(3)] subseq_distinct by blast
  with new show "distinct (map MessageId msgs)"
    by (rule list_all2_distinct_map) (use dest(2) picked_MessageId [OF assms(1) _ _ assms(1)] in blast)
  fix m
  assume "m \<in> set msgs"
  then obtain mp where mp: "mp \<in> set picked" "toMessageProto cd (row_message mp) = Inr m"
    using list_all2_set2D [OF new] by blast
  have "raw (ClientID_Bytes cid) = [] \<longleftrightarrow> ClientID_Bytes cid = None" by (simp add: ClientID_Bytes_def)
  then have "fromClientIDString sid = Inr (ClientID_Bytes cid)"
    using fromClientIDString_toClientIDString [OF assms(2)] by (cases "ClientID_Bytes cid") auto
  then show "addr_client (Destination m) = ClientID_Bytes cid \<and> Result m = None"
    using toMessageProto_fields(2,4) [OF mp(2)] dest(1) [OF mp(1)] by simp
qed

text \<open>
  C18. A successful \<^verbatim>\<open>ClientMessagesForProcessing\<close> hands out at most \<open>lim\<close> messages, at most
  \<open>serviceLimits[s]\<close> for each service \<open>s\<close> (none for a service the map lacks), no message twice,
  and only messages without a result that are addressed to the client asked for.
\<close>

theorem ClientMessagesForProcessing_limits:
  assumes "ClientMessagesForProcessing e cd cid lim (Some limits) d = (Inr msgs, d')"
    and "messages_ok d" and "0 < sint lim"
  shows "int (length msgs) \<le> sint lim
    \<and> (\<forall>svc. service_count svc msgs \<le> unat (gomap_get0 limits svc))
    \<and> distinct (map MessageId msgs)
    \<and> list_all (\<lambda>m. addr_client (Destination m) = ClientID_Bytes cid \<and> Result m = None) msgs"
proof -
  obtain picked sid where *: "toClientIDString (ClientID_Bytes cid) = Inr sid"
    "ifp_loop e cd lim (Some limits) (due_rows e sid d) [] [] d = Inr (msgs, d')"
    "subseq picked (due_rows e sid d)"
    "list_all2 (\<lambda>mp msg. toMessageProto cd (row_message mp) = Inr msg) picked msgs"
    using ClientMessagesForProcessing_picks [OF assms(1,2)] .
  have "service_count svc msgs \<le> unat (gomap_get0 limits svc)" for svc
    using *(2) by (rule ifp_loop_service_limits) (simp_all add: service_count_def)
  with ifp_loop_length [OF *(2)] picked_messages [OF assms(2) *(1,3,4)] assms(3) show ?thesis
    by (auto simp: list_all_iff)
qed

text \<open>
  A message handed to a client is not handed out again, by any later call, before its retry
  time (15 minutes) has come: two calls closer in time return disjoint sets of messages.
\<close>

lemma ClientMessagesForProcessing_no_redelivery:
  assumes "ClientMessagesForProcessing e cd cid lim limits d = (Inr msgs, d1)"
    and "ClientMessagesForProcessing e' cd' cid' lim' limits' d1 = (Inr msgs', d2)"
    and "messages_ok d" and "Now e' \<le> ClientRetryTime e"
  shows "MessageId ` set msgs \<inter> MessageId ` set msgs' = {}"
proof -
  obtain picked sid where 1: "sid \<noteq> []" "subseq picked (due_rows e sid d)"
    "list_all2 (\<lambda>mp msg. toMessageProto cd (row_message mp) = Inr msg) picked msgs"
    "d1 = fold (\<lambda>(m, p). reschedule e m p) picked d"
    using ClientMessagesForProcessing_picks [OF assms(1,3)] .
  have ok: "messages_ok d1" using messages_ok_ClientMessagesForProcessing [OF assms(3)] assms(1) by (metis snd_conv)
  obtain picked' sid' where 2: "subseq picked' (due_rows e' sid' d1)"
    "list_all2 (\<lambda>mp msg. toMessageProto cd' (row_message mp) = Inr msg) picked' msgs'"
    using ClientMessagesForProcessing_picks [OF assms(2) ok] .
  have False if m: "m \<in> set msgs" "m' \<in> set msgs'" "MessageId m = MessageId m'" for m m'
  proof -
    obtain mp where mp: "mp \<in> set picked" "toMessageProto cd (row_message mp) = Inr m"
      using list_all2_set2D [OF 1(3) m(1)] .
    obtain mq where mq: "mq \<in> set picked'" "toMessageProto cd' (row_message mq) = Inr m'"
      using list_all2_set2D [OF 2(2) m(2)] .
    have rows: "fst mp \<in> set (t_messages d)" "(fst mq, snd mq) \<in> set (due_rows e' sid' d1)"
      using mp(1) mq(1) subseq_setD [OF 1(2)] subseq_setD [OF 2(1)] due_rows_mem [of "fst mp" "snd mp"] by auto
    note q = rows(2) [unfolded due_rows_mem]
    have "messageID (fst mp) = messageID (fst mq)"
      using picked_MessageId [OF assms(3) rows(1) _ ok mp(2) mq(2)] q m(3) by simp
    moreover have dest: "destinationClientID m \<noteq> []" if "(m, p) \<in> set picked" for m p
      using subseq_setD [OF 1(2)] that 1(1) by (auto simp: due_rows_mem)
    ultimately have "p_scheduled_time (snd mq) = toMicro (ClientRetryTime e)"
      using q mp(1) 1(1,4) dest
      by (intro reschedule_schedules [of picked "snd mq" e d]) (auto intro!: image_eqI [of _ _ mp])
    with q toMicro_mono [OF assms(4)] show False by simp
  qed
  then show ?thesis by blast
qed

section \<open>Reading messages back\<close>

text \<open>
  The form in which a stored message comes back. \<^verbatim>\<open>priority\<close>, \<^verbatim>\<open>background\<close> and
  \<^verbatim>\<open>is_blocklisted_source\<close> have no column; an empty nested message is stored as an empty blob and
  comes back as nil; addresses and the creation time come back as allocated messages.
\<close>

definition norm_bytes :: "gobytes \<Rightarrow> gobytes" where
  "norm_bytes b = (if raw b = [] then None else Some (raw b))"

definition stored_address :: "Address option \<Rightarrow> Address option" where
  "stored_address a = Some \<lparr>ClientId = norm_bytes (addr_client a), ServiceName = addr_service a\<rparr>"

definition stored_blob :: "'a list option \<Rightarrow> 'a list option" where
  "stored_blob b = (if b = Some [] then None else b)"

definition stored_form :: "Message \<Rightarrow> Message" where
  "stored_form m = m\<lparr>MessageId := norm_bytes (MessageId m), Source := stored_address (Source m),
     IsBlocklistedSource := False, SourceMessageId := Some (raw (SourceMessageId m)),
     Destination := stored_address (Destination m),
     CreationTime := Some (case CreationTime m of None \<Rightarrow> \<lparr>Seconds = 0, Nanos = 0\<rparr> | Some t \<Rightarrow> t),
     ValidationInfo := stored_blob (ValidationInfo m), Result := map_option stored_result (Result m),
     Priority := Message_MEDIUM, Background := False, Annotations := stored_blob (Annotations m)\<rparr>"

text \<open>
  What \<^verbatim>\<open>proto.Marshal\<close>/\<^verbatim>\<open>Unmarshal\<close> guarantee of one nested message: the empty message has the
  empty encoding, and a non-empty encoding decodes to the message.
\<close>

definition blob_roundtrip :: "('a list \<Rightarrow> error + bytes) \<Rightarrow> (bytes \<Rightarrow> error + 'a list) \<Rightarrow> 'a list option \<Rightarrow> bool" where
  "blob_roundtrip enc dec b \<longleftrightarrow> (case b of None \<Rightarrow> True | Some v \<Rightarrow>
     (case enc v of Inl _ \<Rightarrow> False | Inr w \<Rightarrow> if v = [] then w = [] else w \<noteq> [] \<and> dec w = Inr v))"

definition codec_roundtrips :: "codec \<Rightarrow> Message \<Rightarrow> bool" where
  "codec_roundtrips cd m \<longleftrightarrow>
     blob_roundtrip (marshal_ValidationInfo cd) (unmarshal_ValidationInfo cd) (ValidationInfo m) \<and>
     blob_roundtrip (marshal_Annotations cd) (unmarshal_Annotations cd) (Annotations m)"

lemma blob_roundtripD:
  assumes "blob_roundtrip enc dec b" and "(case b of None \<Rightarrow> Inr [] | Some v \<Rightarrow> enc v) = Inr w"
  shows "(if length w > 0 then ebind (dec w) (\<lambda>v. Inr (Some v)) else Inr None) = Inr (stored_blob b)"
  using assms by (cases b) (auto simp: blob_roundtrip_def stored_blob_def split: if_splits)

lemma address_columnsD:
  assumes "address_columns a = Inr (c, s)"
  shows "fromClientIDString c = Inr (norm_bytes (addr_client a))" "s = addr_service a"
proof (atomize (full), cases a)
  case None
  with assms show "fromClientIDString c = Inr (norm_bytes (addr_client a)) \<and> s = addr_service a"
    by (simp add: address_columns_def norm_bytes_def fromClientIDString_def)
next
  case (Some x)
  with assms fromClientIDString_toClientIDString [of "ClientId x" c]
  show "fromClientIDString c = Inr (norm_bytes (addr_client a)) \<and> s = addr_service a"
    by (auto simp: address_columns_def norm_bytes_def)
qed

lemma stored_form_read:
  assumes "fromMessageProto cd m = Inr dbm" and "codec_roundtrips cd m" and "results_timed m"
  shows "toMessageProto cd dbm = Inr (stored_form m)"
proof -
  from assms(1) obtain i sc ss dc ds vi an where
    parts: "BytesToMessageID (MessageId m) = Inr i" "address_columns (Source m) = Inr (sc, ss)"
      "address_columns (Destination m) = Inr (dc, ds)"
      "(case ValidationInfo m of None \<Rightarrow> Inr [] | Some v \<Rightarrow> marshal_ValidationInfo cd v) = Inr vi"
      "(case Annotations m of None \<Rightarrow> Inr [] | Some a \<Rightarrow> marshal_Annotations cd a) = Inr an"
    and cols: "messageID dbm = MessageID_String i" "sourceMessageID dbm = EncodeToString (raw (SourceMessageId m))"
      "sourceClientID dbm = sc" "sourceServiceName dbm = ss" "destinationClientID dbm = dc"
      "destinationServiceName dbm = ds" "messageType dbm = MessageType m" "validationInfo dbm = vi"
      "annotations dbm = an" "dataTypeURL dbm = map_option TypeUrl (Data m)"
      "dataValue dbm = (case Data m of None \<Rightarrow> [] | Some a \<Rightarrow> Value a)"
      "creationTimeSeconds dbm = (case CreationTime m of None \<Rightarrow> 0 | Some t \<Rightarrow> Seconds t)"
      "creationTimeNanos dbm = (case CreationTime m of None \<Rightarrow> 0 | Some t \<Rightarrow> Nanos t)"
    unfolding fromMessageProto_def empty_dbMessage_def by auto
  note cd = assms(2) [unfolded codec_roundtrips_def]
  have i: "StringToMessageID (MessageID_String i) = Inr i"
    using parts(1) message_id.of_bytes_wf message_id.of_string_to_string by blast
  have "MessageID_Bytes i = norm_bytes (MessageId m)"
    using message_id.of_bytes_raw [OF parts(1)] by (auto simp: MessageID_Bytes_def MessageID_IsNil_def norm_bytes_def)
  moreover have "toMessageResultProto dbm = map_option stored_result (Result m)"
    using assms(1,3) by (rule fromMessageProto_result)
  ultimately have "toMessageProto cd dbm = Inr (empty_Message\<lparr>
       MessageId := norm_bytes (MessageId m), Source := stored_address (Source m),
       SourceMessageId := Some (raw (SourceMessageId m)), Destination := stored_address (Destination m),
       MessageType := MessageType m,
       CreationTime := Some \<lparr>Seconds = creationTimeSeconds dbm, Nanos = creationTimeNanos dbm\<rparr>,
       Result := map_option stored_result (Result m), Data := Data m,
       ValidationInfo := stored_blob (ValidationInfo m), Annotations := stored_blob (Annotations m)\<rparr>)"
    using i blob_roundtripD [OF cd [THEN conjunct1] parts(4)] blob_roundtripD [OF cd [THEN conjunct2] parts(5)]
      address_columnsD [OF parts(2)] address_columnsD [OF parts(3)]
    by (cases "Data m") (simp_all add: toMessageProto_def cols stored_address_def del: ebind_eq_Inr split del: if_split
        cong del: if_weak_cong)
  then show ?thesis
    by (cases "CreationTime m") (simp_all add: stored_form_def empty_Message_def cols)
qed

text \<open>
  Round trip: a message converted to a row (\<^verbatim>\<open>fromMessageProto\<close>) and back
  (\<^verbatim>\<open>toMessageProto\<close>) is the message in its stored form, with its ids, addresses, times, result,
  data, validation info and annotations.
\<close>

lemma toMessageProto_fromMessageProto:
  assumes "fromMessageProto cd m = Inr dbm" and "codec_roundtrips cd m" and "results_timed m"
  shows "toMessageProto cd dbm = Inr (stored_form m)"
  using assms by (rule stored_form_read)

section \<open>A concrete store\<close>

definition demo_env :: env where
  "demo_env = \<lparr>Now = 1000 * second, server_delay = (\<lambda>_. 60 * second), begin_err = None, commit_err = None\<rparr>"

definition demo_client :: ClientID where
  "demo_client = ClientID [1, 2, 3, 4, 5, 6, 7, 8]"

definition demo_message :: "u8 \<Rightarrow> string \<Rightarrow> Message" where
  "demo_message n svc = empty_Message\<lparr>MessageId := Some (replicate 32 n),
     Source := Some \<lparr>ClientId = None, ServiceName = svc\<rparr>,
     Destination := Some \<lparr>ClientId = ClientID_Bytes demo_client, ServiceName = svc\<rparr>,
     CreationTime := Some \<lparr>Seconds = 900, Nanos = 7\<rparr>,
     Data := Some \<lparr>TypeUrl = ''t'', Value = [n]\<rparr>,
     Annotations := Some [(''k'', ''v'')]\<rparr>"

text \<open>A codec good for one value.\<close>

definition demo_codec :: codec where
  "demo_codec = \<lparr>marshal_ValidationInfo = (\<lambda>v. if v = [] then Inr [] else Inl (Err ''x'')),
     unmarshal_ValidationInfo = (\<lambda>_. Inr []),
     marshal_Annotations = (\<lambda>v. if v = [] then Inr [] else if v = [(''k'', ''v'')] then Inr [10, 2] else Inl (Err ''x'')),
     unmarshal_Annotations = (\<lambda>b. if b = [10, 2] then Inr [(''k'', ''v'')] else Inl (Err ''x''))\<rparr>"

definition demo_db :: sqldb where
  "demo_db = snd (StoreMessages demo_env demo_codec
     [demo_message 1 ''a'', demo_message 2 ''a'', demo_message 3 ''b''] [] initSchema)"

definition demo_later :: env where
  "demo_later = demo_env\<lparr>Now := 1001 * second\<rparr>"

lemma demo_db_ok: "messages_ok demo_db"
  unfolding demo_db_def by (rule messages_ok_StoreMessages [OF messages_ok_init])

lemma demo_store:
  "fst (StoreMessages demo_env demo_codec [demo_message 1 ''a'', demo_message 2 ''a'', demo_message 3 ''b''] [] initSchema) = Inr ()"
  by code_simp

lemma demo_hand_out:
  "fst (ClientMessagesForProcessing demo_later demo_codec demo_client 10 (Some [(''a'', 1)]) demo_db)
     = Inr [stored_form (demo_message 1 ''a'')]"
  by code_simp

theorem StoreMessages_merges_results_witness:
  "result_of (snd (StoreMessages demo_env demo_codec [demo_message 1 ''a'', demo_message 2 ''a'', demo_message 3 ''b''] [] initSchema))
    = fold spec_store [demo_message 1 ''a'', demo_message 2 ''a'', demo_message 3 ''b''] (result_of initSchema)"
proof (rule StoreMessages_merges_results)
  show "StoreMessages demo_env demo_codec [demo_message 1 ''a'', demo_message 2 ''a'', demo_message 3 ''b''] [] initSchema =
    (Inr (), snd (StoreMessages demo_env demo_codec [demo_message 1 ''a'', demo_message 2 ''a'', demo_message 3 ''b''] [] initSchema))"
    using demo_store by (simp add: prod_eq_iff)
  show "list_all results_timed [demo_message 1 ''a'', demo_message 2 ''a'', demo_message 3 ''b'']"
    by code_simp
qed

lemma demo_hand_out':
  "ClientMessagesForProcessing demo_later demo_codec demo_client 10 (Some [(''a'', 1)]) demo_db =
    (Inr [stored_form (demo_message 1 ''a'')],
     snd (ClientMessagesForProcessing demo_later demo_codec demo_client 10 (Some [(''a'', 1)]) demo_db))"
  using demo_hand_out by (simp add: prod_eq_iff)

theorem ClientMessagesForProcessing_limits_witness:
  "service_count ''a'' [stored_form (demo_message 1 ''a'')] \<le> unat (gomap_get0 [(''a'', 1 :: u64)] ''a'')"
  using ClientMessagesForProcessing_limits [OF demo_hand_out' demo_db_ok] by simp

definition demo_db1 :: sqldb where
  "demo_db1 = snd (ClientMessagesForProcessing demo_later demo_codec demo_client 10 (Some [(''a'', 1)]) demo_db)"

lemma demo_hand_out_again:
  "fst (ClientMessagesForProcessing demo_later demo_codec demo_client 10 None demo_db1)
     = Inr [stored_form (demo_message 2 ''a''), stored_form (demo_message 3 ''b'')]"
  by code_simp

lemma ClientMessagesForProcessing_no_redelivery_instance:
  "MessageId ` set [stored_form (demo_message 1 ''a'')] \<inter>
   MessageId ` set [stored_form (demo_message 2 ''a''), stored_form (demo_message 3 ''b'')] = {}"
proof (rule ClientMessagesForProcessing_no_redelivery [OF demo_hand_out' _ demo_db_ok])
  show "ClientMessagesForProcessing demo_later demo_codec demo_client 10 None
      (snd (ClientMessagesForProcessing demo_later demo_codec demo_client 10 (Some [(''a'', 1)]) demo_db)) =
    (Inr [stored_form (demo_message 2 ''a''), stored_form (demo_message 3 ''b'')],
     snd (ClientMessagesForProcessing demo_later demo_codec demo_client 10 None demo_db1))"
    using demo_hand_out_again by (simp add: prod_eq_iff demo_db1_def)
  show "Now demo_later \<le> ClientRetryTime demo_later" by (simp add: ClientRetryTime_def)
qed

lemma toMessageProto_fromMessageProto_instance:
  "toMessageProto demo_codec (projr (fromMessageProto demo_codec (demo_message 1 ''a''))) =
    Inr (stored_form (demo_message 1 ''a''))"
proof (rule toMessageProto_fromMessageProto)
  have "isl (fromMessageProto demo_codec (demo_message 1 ''a'')) = False" by code_simp
  then show "fromMessageProto demo_codec (demo_message 1 ''a'') =
      Inr (projr (fromMessageProto demo_codec (demo_message 1 ''a'')))" by (simp add: isl_def split: sum.split) 
qed code_simp+

section \<open>Deleting pending messages\<close>

definition admin_removed :: "env \<Rightarrow> MessageResult" where
  "admin_removed e = \<lparr>ProcessedTime = Some (NowProto e), Failed = True,
     FailedReason = ''Removed by admin action.''\<rparr>"

lemma pending_for_mem:
  "(m, p) \<in> set (pending_for cids d) \<longleftrightarrow> m \<in> set (t_messages d) \<and> p \<in> set (t_pending d)
     \<and> messageID m = p_message_id p \<and> destinationClientID m \<in> ClientID_String ` set cids"
  by (auto simp: pending_for_def)

text \<open>
  \<^verbatim>\<open>DeletePendingMessages\<close> leaves the given clients without pending messages, gives every
  message it removed the documented failed result, and touches no other message.
\<close>

lemma DeletePendingMessages_effect:
  assumes "DeletePendingMessages e cids d = (Inr (), d')"
  shows "pending_for cids d' = []
    \<and> result_of d' = (\<lambda>i. if i \<in> (\<lambda>mp. messageID (fst mp)) ` set (pending_for cids d)
        then Some (Some (admin_removed e)) else result_of d i)"
proof -
  let ?S = "(\<lambda>mp. messageID (fst mp)) ` set (pending_for cids d)"
  let ?f = "\<lambda>r. r\<lparr>failed := Some True, failedReason := Some ''Removed by admin action.'',
     processedTimeSeconds := Some (Seconds (NowProto e)), processedTimeNanos := Some (Nanos (NowProto e))\<rparr>"
  have ids: "getPendingMessageRawIds cids 0 0 d = Inr (sort (map (messageID \<circ> fst) (pending_for cids d)))"
    by (simp add: getPendingMessageRawIds_def sql_u64_def)
  have tabs: "t_messages d' = update_where (\<lambda>r. messageID r \<in> ?S) ?f (t_messages d) \<and>
     t_pending d' = filter (\<lambda>p. p_message_id p \<notin> ?S) (t_pending d)"
    using runInTx_success [OF assms [unfolded DeletePendingMessages_def]]
    by (cases "pending_for cids d = []") (auto simp: ids Let_def update_where_def comp_def sort_eq_Nil)
  have "\<not> (m, p) \<in> set (pending_for cids d')" for m p
  proof
    assume mp: "(m, p) \<in> set (pending_for cids d')"
    then obtain m0 where "m0 \<in> set (t_messages d)" "messageID m = messageID m0"
      "destinationClientID m = destinationClientID m0"
      by (auto simp: pending_for_mem tabs set_update_where split: if_splits)
    with mp have "(m0, p) \<in> set (pending_for cids d)" by (auto simp: pending_for_mem tabs)
    then have "messageID m0 \<in> ?S" by force
    with \<open>messageID m = messageID m0\<close> mp show False by (auto simp: pending_for_mem tabs)
  qed
  then have "pending_for cids d' = []" by (cases "pending_for cids d'") auto
  moreover have "result_of d' i = (if i \<in> ?S then Some (Some (admin_removed e)) else result_of d i)" for i
  proof (cases "i \<in> ?S")
    case True
    then have "i \<in> messageID ` set (t_messages d)" by (auto simp: pending_for_mem)
    then obtain r where "find (\<lambda>r. messageID r = i) (t_messages d) = Some r"
      using find_key_None [of messageID i] by fastforce
    with True show ?thesis
      by (simp add: result_of_def tabs find_update_where toMessageResultProto_def admin_removed_def)
  qed (simp add: result_of_def tabs find_update_where)
  ultimately show ?thesis by (simp add: fun_eq_iff)
qed

lemma DeletePendingMessages_returns:
  "begin_err e = None \<Longrightarrow> commit_err e = None \<Longrightarrow> fst (DeletePendingMessages e cids d) = Inr ()"
  by (simp add: DeletePendingMessages_def runInTx_def getPendingMessageRawIds_def sql_u64_def Let_def)

lemma DeletePendingMessages_effect_instance:
  "pending_for [demo_client] (snd (DeletePendingMessages demo_later [demo_client] demo_db)) = []
   \<and> length (pending_for [demo_client] demo_db) = 3"
proof -
  have "fst (DeletePendingMessages demo_later [demo_client] demo_db) = Inr ()"
    by (rule DeletePendingMessages_returns) (simp_all add: demo_later_def demo_env_def)
  then have "DeletePendingMessages demo_later [demo_client] demo_db =
    (Inr (), snd (DeletePendingMessages demo_later [demo_client] demo_db))" by (simp add: prod_eq_iff)
  note effect = DeletePendingMessages_effect [OF this]
  have "length (pending_for [demo_client] demo_db) = 3" by code_simp
  then show ?thesis by (rule conjI [OF effect [THEN conjunct1]])
qed

end
