(* ===== verification/Message_Looper.thy ===== *)
theory Message_Looper
  imports Sqlite_Messages
begin

text \<open>
  The \<^verbatim>\<open>messageLooper\<close> of \<^verbatim>\<open>fleetspeak/src/server/sqlite/messagestore.go\<close>, which reads
  the messages for the server from the datastore and gives them to the message processor.

  The ticker goroutine calls \<open>processMessages\<close> again and again until it is stopped. The registered
  \<^verbatim>\<open>MessageProcessor\<close> is the argument \<open>mp\<close>, which may change the database. The environment of the
  \<open>k\<close>-th round of the loop is \<open>es k\<close>. The loop retries at once after an error and so may run for
  ever; not returning is the value \<open>None\<close>.
\<close>

partial_function (option) processMessages ::
  "(nat \<Rightarrow> env) \<Rightarrow> codec \<Rightarrow> (Message list \<Rightarrow> sqldb \<Rightarrow> sqldb) \<Rightarrow> nat \<Rightarrow> sqldb \<Rightarrow> (nat \<times> sqldb) option" where
  "processMessages es cd mp k d =
     (case internalMessagesForProcessing (es k) cd (ClientID []) 5 None d of
        (Inl err, d') \<Rightarrow>
          if Error err = ''attempt to write a readonly database'' then Some (k, d')
          else processMessages es cd mp (k + 1) d'
      | (Inr msgs, d') \<Rightarrow>
          if length msgs = 0 then Some (k, mp msgs d')
          else processMessages es cd mp (k + 1) (mp msgs d'))"

record looper =
  lo_looper :: bool
  lo_loops :: nat

text \<open>Registering a second processor stops the first loop; at most one loop runs.\<close>

definition RegisterMessageProcessor :: "looper \<Rightarrow> looper" where
  "RegisterMessageProcessor d = (let running = (if lo_looper d then lo_loops d - 1 else lo_loops d)
     in \<lparr>lo_looper = True, lo_loops = running + 1\<rparr>)"

definition StopMessageProcessor :: "looper \<Rightarrow> looper" where
  "StopMessageProcessor d = \<lparr>lo_looper = False, lo_loops = (if lo_looper d then lo_loops d - 1 else lo_loops d)\<rparr>"

section \<open>Due messages\<close>

definition due_ids :: "gotime \<Rightarrow> sqldb \<Rightarrow> string set" where
  "due_ids t d = p_message_id ` {p \<in> set (t_pending d). p_scheduled_time p < toMicro t}"

lemma finite_due_ids [simp]: "finite (due_ids t d)"
  by (simp add: due_ids_def)

lemma card_due_ids: "card (due_ids t d) \<le> length (t_pending d)"
proof -
  have "due_ids t d \<subseteq> set (map p_message_id (t_pending d))" by (auto simp: due_ids_def)
  then have "card (due_ids t d) \<le> card (set (map p_message_id (t_pending d)))" by (intro card_mono) simp_all
  also have "\<dots> \<le> length (t_pending d)" using card_length [of "map p_message_id (t_pending d)"] by simp
  finally show ?thesis .
qed

text \<open>A codec that can read every stored row.\<close>

definition readable :: "codec \<Rightarrow> sqldb \<Rightarrow> bool" where
  "readable cd d \<longleftrightarrow> messages_ok d \<and> (\<forall>m \<in> set (t_messages d).
     (validationInfo m = [] \<or> (\<exists>v. unmarshal_ValidationInfo cd (validationInfo m) = Inr v))
     \<and> (annotations m = [] \<or> (\<exists>a. unmarshal_Annotations cd (annotations m) = Inr a)))"

lemma toMessageProto_decodes:
  assumes "StringToMessageID (messageID m) = Inr i" "DecodeString (sourceMessageID m) = Inr b"
    "fromClientIDString (sourceClientID m) = Inr sc" "fromClientIDString (destinationClientID m) = Inr dc"
    "validationInfo m = [] \<or> (\<exists>v. unmarshal_ValidationInfo cd (validationInfo m) = Inr v)"
    "annotations m = [] \<or> (\<exists>a. unmarshal_Annotations cd (annotations m) = Inr a)"
  shows "\<exists>msg. toMessageProto cd m = Inr msg"
  using assms(5,6) by (elim disjE exE) (simp_all add: toMessageProto_def assms(1-4))

lemma toMessageProto_total:
  assumes "readable cd d" and "fst mp \<in> set (t_messages d)"
  obtains msg where "toMessageProto cd (row_message mp) = Inr msg"
proof -
  have wf: "dbMessage_wf (fst mp)" using assms messages_okD(4) by (auto simp: readable_def list_all_iff)
  have client: "\<exists>c. fromClientIDString s = Inr c" if "toClientIDString b = Inr s" for b s
    using fromClientIDString_toClientIDString [OF that] by auto
  obtain i where "StringToMessageID (messageID (fst mp)) = Inr i"
    by (rule messages_ok_id [of d "fst mp"]) (use assms in \<open>auto simp: readable_def\<close>)
  moreover obtain b where "DecodeString (sourceMessageID (fst mp)) = Inr b"
    using wf by (auto simp: dbMessage_wf_def)
  moreover obtain sc dc where "fromClientIDString (sourceClientID (fst mp)) = Inr sc"
    "fromClientIDString (destinationClientID (fst mp)) = Inr dc"
    using wf client by (fastforce simp: dbMessage_wf_def)
  moreover have "validationInfo (fst mp) = [] \<or> (\<exists>v. unmarshal_ValidationInfo cd (validationInfo (fst mp)) = Inr v)"
    "annotations (fst mp) = [] \<or> (\<exists>a. unmarshal_Annotations cd (annotations (fst mp)) = Inr a)"
    using assms unfolding readable_def by blast+
  ultimately have "\<exists>msg. toMessageProto cd (row_message mp) = Inr msg"
    by (intro toMessageProto_decodes [where i = i and b = b and sc = sc and dc = dc]) (simp_all add: row_message_def)
  then show thesis using that by blast
qed

lemma readable_reschedule: "readable cd d \<Longrightarrow> readable cd (reschedule e m p d)"
  using messages_ok_reschedule [of d e m p] by (simp add: readable_def reschedule_def Let_def)

lemma ifp_loop_total:
  assumes "readable cd d" and "list_all (\<lambda>mp. fst mp \<in> set (t_messages d)) rows"
  shows "\<exists>r d'. ifp_loop e cd lim None rows nread res d = Inr (r, d') \<and> readable cd d' \<and> (r = [] \<longrightarrow> rows = [])"
  using assms
proof (induction rows arbitrary: nread res d)
  case (Cons mp rows)
  obtain m p where mp: "mp = (m, p)" by force
  obtain msg where "toMessageProto cd (row_message mp) = Inr msg"
    by (rule toMessageProto_total [OF Cons.prems(1)]) (use Cons.prems(2) in auto)
  then have msg: "toMessageProto cd (m\<lparr>processedTimeSeconds := None, processedTimeNanos := None,
                failed := None, failedReason := None, retryCount := p_retry_count p,
                dataTypeURL := p_data_type_url p, dataValue := p_data_value p\<rparr>) = Inr msg"
    by (simp add: mp row_message_def)
  let ?d = "reschedule e m p d"
  have ok: "readable cd ?d" "list_all (\<lambda>mp. fst mp \<in> set (t_messages ?d)) rows"
    using Cons.prems readable_reschedule by (auto simp: reschedule_def Let_def)
  show ?case
  proof (cases "int (length (res @ [msg])) \<ge> sint lim")
    case True
    with msg ok show ?thesis by (simp add: mp)
  next
    case False
    obtain r d' where "ifp_loop e cd lim None rows nread (res @ [msg]) ?d = Inr (r, d')" "readable cd d'"
      using Cons.IH [OF ok] by blast
    moreover have "r \<noteq> []" using ifp_loop_picks [OF calculation(1)] by auto
    ultimately show ?thesis using msg False by (simp add: mp)
  qed
qed simp

lemma due_ids_reschedule:
  assumes "destinationClientID m = []" and "toMicro t \<le> toMicro (ServerRetryTime e (p_retry_count p + 1))"
  shows "due_ids t (reschedule e m p d) = due_ids t d - {messageID m}"
  using assms by (auto simp: due_ids_def reschedule_def Let_def set_update_where image_iff)

lemma due_ids_picked:
  assumes "list_all (\<lambda>mp. destinationClientID (fst mp) = []) picked"
    and "\<And>n. toMicro t \<le> toMicro (ServerRetryTime e n)"
  shows "due_ids t (fold (\<lambda>(m, p). reschedule e m p) picked d) = due_ids t d - messageID ` fst ` set picked"
  using assms
proof (induction picked arbitrary: d)
  case (Cons mp picked)
  obtain m p where mp: "mp = (m, p)" by force
  have "due_ids t (fold (\<lambda>(m, p). reschedule e m p) picked (reschedule e m p d)) =
      due_ids t (reschedule e m p d) - messageID ` fst ` set picked" using Cons by simp
  moreover have "due_ids t (reschedule e m p d) = due_ids t d - {messageID m}"
    using Cons.prems by (intro due_ids_reschedule) (simp_all add: mp)
  ultimately show ?case by (auto simp: mp)
qed simp

text \<open>One round: it returns, hands out a message if one is due, and what it hands out is no longer due.\<close>

lemma round_returns:
  assumes "readable cd d" and "begin_err e = None" "commit_err e = None"
    and time: "Now e \<le> t" "\<And>n. t \<le> Now e + server_delay e n"
  obtains msgs d' where "internalMessagesForProcessing e cd (ClientID []) 5 None d = (Inr msgs, d')" "readable cd d'"
    "msgs = [] \<Longrightarrow> due_rows e [] d = [] \<and> d' = d" "msgs \<noteq> [] \<Longrightarrow> due_ids t d' \<subset> due_ids t d"
proof -
  have rows: "list_all (\<lambda>mp. fst mp \<in> set (t_messages d)) (due_rows e [] d)"
  proof -
    have "fst mp \<in> set (t_messages d)" if "mp \<in> set (due_rows e [] d)" for mp
      using that due_rows_mem [of "fst mp" "snd mp"] by simp
    then show ?thesis by (simp add: list_all_iff)
  qed
  obtain msgs d' where run: "ifp_loop e cd 5 None (due_rows e [] d) [] [] d = Inr (msgs, d')"
    and ok: "readable cd d'" "msgs = [] \<Longrightarrow> due_rows e [] d = []"
    using ifp_loop_total [OF assms(1) rows] by blast
  obtain picked where p: "subseq picked (due_rows e [] d)" "d' = fold (\<lambda>(m, p). reschedule e m p) picked d"
    "list_all2 (\<lambda>mp msg. toMessageProto cd (row_message mp) = Inr msg) picked msgs"
    using ifp_loop_picks [OF run] by auto
  have mem: "destinationClientID (fst mp) = [] \<and> messageID (fst mp) \<in> due_ids t d" if "mp \<in> set picked" for mp
  proof -
    have "mp \<in> set (due_rows e [] d)" using that subseq_setD [OF p(1)] by blast
    then have row: "snd mp \<in> set (t_pending d)" "p_message_id (snd mp) = messageID (fst mp)"
      "p_scheduled_time (snd mp) < toMicro (Now e)" "destinationClientID (fst mp) = []"
      using due_rows_mem [of "fst mp" "snd mp" e "[]" d] by simp_all
    then have "p_scheduled_time (snd mp) < toMicro t" using toMicro_mono [OF time(1)] by linarith
    with row show ?thesis unfolding due_ids_def by (metis (mono_tags, lifting) image_eqI mem_Collect_eq)
  qed
  have "due_ids t d' = due_ids t d - messageID ` fst ` set picked"
    unfolding p(2) by (rule due_ids_picked) (use mem time(2) toMicro_mono in \<open>auto simp: list_all_iff ServerRetryTime_def\<close>)
  moreover have "picked \<noteq> []" if "msgs \<noteq> []" using p(3) that by auto
  ultimately have less: "due_ids t d' \<subset> due_ids t d" if "msgs \<noteq> []"
    using mem that by (cases picked) auto
  have "picked = []" if "msgs = []" using p(3) that by auto
  then have "d' = d" if "msgs = []" using p(2) that by simp
  moreover have "internalMessagesForProcessing e cd (ClientID []) 5 None d = (Inr msgs, d')"
    using run assms(2,3)
    by (simp add: internalMessagesForProcessing_def ClientID_Bytes_def toClientIDString_def runInTx_def)
  ultimately show thesis using that ok less by blast
qed

section \<open>Properties\<close>

text \<open>
  C38. The message loop ends: if the database works and holds only rows that can be decoded, the
  loop is not slower than the shortest retry delay (\<open>t\<close> lies after every round and before every retry
  time), and the message processor neither damages the database nor makes further messages due, then
  \<^verbatim>\<open>processMessages\<close> returns, after at most as many rounds as messages were due, and at its last
  read no message for the server was due.
\<close>
theorem processMessages_returns:
  assumes "readable cd d"
    and "\<And>k. begin_err (es k) = None \<and> commit_err (es k) = None"
    and "\<And>k n. Now (es k) \<le> t \<and> t \<le> Now (es k) + server_delay (es k) n"
    and "\<And>msgs d. readable cd d \<Longrightarrow> readable cd (mp msgs d) \<and> due_ids t (mp msgs d) \<subseteq> due_ids t d"
  shows "\<exists>n d'. processMessages es cd mp k d = Some (k + n, mp [] d') \<and> n \<le> card (due_ids t d)
    \<and> due_rows (es (k + n)) [] d' = []"
  using assms(1)
proof (induction "card (due_ids t d)" arbitrary: k d rule: less_induct)
  case less
  obtain msgs d1 where r: "internalMessagesForProcessing (es k) cd (ClientID []) 5 None d = (Inr msgs, d1)" "readable cd d1"
    "msgs = [] \<Longrightarrow> due_rows (es k) [] d = [] \<and> d1 = d" "msgs \<noteq> [] \<Longrightarrow> due_ids t d1 \<subset> due_ids t d"
    by (rule round_returns [OF less.prems, of "es k" t]) (use assms(2,3) in blast)+
  show ?case
  proof (cases "msgs = []")
    case True
    then have "processMessages es cd mp k d = Some (k + 0, mp [] d1)" using r(1) by (simp add: processMessages.simps)
    with r(3) [OF True] show ?thesis by (intro exI [of _ 0] exI [of _ d1]) simp
  next
    case False
    note keep = assms(4) [OF r(2), of msgs]
    have lt: "card (due_ids t (mp msgs d1)) < card (due_ids t d)"
      using keep r(4) [OF False] by (intro psubset_card_mono) auto
    obtain n d' where n: "processMessages es cd mp (k + 1) (mp msgs d1) = Some (k + 1 + n, mp [] d')"
      "n \<le> card (due_ids t (mp msgs d1))" "due_rows (es (k + 1 + n)) [] d' = []"
      using less.hyps [OF lt, of "k + 1"] keep by blast
    have "processMessages es cd mp k d = processMessages es cd mp (k + 1) (mp msgs d1)"
      using r(1) False by (subst processMessages.simps) simp
    with n lt show ?thesis by (intro exI [of _ "n + 1"] exI [of _ d']) simp
  qed
qed

definition demo_server_db :: sqldb where
  "demo_server_db = snd (StoreMessages (demo_env\<lparr>Now := 1, server_delay := (\<lambda>_. 0)\<rparr>) demo_codec
     [(demo_message 1 ''a'')\<lparr>Destination := Some \<lparr>ClientId = None, ServiceName = ''a''\<rparr>\<rparr>] [] initSchema)"

theorem processMessages_returns_witness:
  "\<exists>n d'. processMessages (\<lambda>_. demo_env) demo_codec (\<lambda>_ d. d) 0 demo_server_db = Some (n, d') \<and> n \<le> 1"
proof -
  have ok: "messages_ok demo_server_db"
    unfolding demo_server_db_def by (rule messages_ok_StoreMessages [OF messages_ok_init])
  have "list_all (\<lambda>m. validationInfo m = [] \<and> annotations m = [10, 2]) (t_messages demo_server_db)" by code_simp
  then have "readable demo_codec demo_server_db" using ok by (auto simp: readable_def list_all_iff demo_codec_def)
  moreover have "length (t_pending demo_server_db) = 1" by code_simp
  then have "card (due_ids (Now demo_env) demo_server_db) \<le> 1"
    using card_due_ids [of "Now demo_env" demo_server_db] by simp
  ultimately show ?thesis
    using processMessages_returns [of demo_codec demo_server_db "\<lambda>_. demo_env" "Now demo_env" "\<lambda>_ d. d" 0]
    by (fastforce simp: demo_env_def)
qed

end
