(* ===== verification/Server_Contact.thy ===== *)
theory Server_Contact
  imports Ids
begin

text \<open>
  What a server knows about one connection to a client:
  \<^verbatim>\<open>fleetspeak/src/server/comms/comms.go\<close> (connection data and message tokens),
  \<^verbatim>\<open>fleetspeak/src/server/authorizer/authorizer.go\<close> (the decisions an installation takes) and
  \<^verbatim>\<open>fleetspeak/src/server/internal/signatures/validation.go\<close> (additional signatures).

  X.509 parsing and signature checking are arguments. A network address is the text it prints as.
\<close>

section \<open>Authorizer\<close>

datatype ContactType = UnknownContactType | ClientContact | FileRequest

fun ContactType_String :: "ContactType \<Rightarrow> string" where
  "ContactType_String ClientContact = ''CLIENT_CONTACT''"
| "ContactType_String FileRequest = ''FILE_REQUEST''"
| "ContactType_String UnknownContactType = ''UNKNOWN''"

record ContactInfo =
  ci_ID :: ClientID
  ci_ContactSize :: nat
  ci_ClientLabels :: "string list"
  ci_Type :: ContactType

record AuthClientInfo =
  ac_New :: bool
  ac_Labels :: "Label list"

record 'c SignatureInfo =
  si_Certificate :: "'c list"
  si_Algorithm :: int
  si_Valid :: bool

record 'c Authorizer =
  Allow1 :: "string \<Rightarrow> bool"
  Allow2 :: "string \<Rightarrow> ContactInfo \<Rightarrow> bool"
  Allow3 :: "string \<Rightarrow> ContactInfo \<Rightarrow> AuthClientInfo \<Rightarrow> bool"
  Allow4 :: "string \<Rightarrow> ContactInfo \<Rightarrow> AuthClientInfo \<Rightarrow> 'c SignatureInfo list \<Rightarrow> bool \<times> ValidationInfoData option"

definition PermissiveAuthorizer :: "'c Authorizer" where
  "PermissiveAuthorizer = \<lparr>Allow1 = (\<lambda>_. True), Allow2 = (\<lambda>_ _. True), Allow3 = (\<lambda>_ _ _. True),
     Allow4 = (\<lambda>_ _ _ _. (True, None))\<rparr>"

section \<open>Signatures\<close>

record 'c x509 =
  ParseCertificate :: "bytes \<Rightarrow> error + 'c"
  CheckSignature :: "'c \<Rightarrow> int \<Rightarrow> bytes \<Rightarrow> bytes \<Rightarrow> error option"

text \<open>\<^verbatim>\<open>x509.UnknownSignatureAlgorithm\<close> is 0 and \<^verbatim>\<open>x509.SHA512WithRSAPSS\<close> is 15.\<close>

definition signature_algorithm :: "int \<Rightarrow> int" where
  "signature_algorithm a = (if a > 0 \<and> a \<le> 15 then a else 0)"

text \<open>One round of the loop; \<^verbatim>\<open>certs[0]\<close> of a signature without certificates panics.\<close>

definition validate_signature :: "'c x509 \<Rightarrow> bytes \<Rightarrow> Signature \<Rightarrow> error + 'c SignatureInfo" where
  "validate_signature x contactData sig =
     ebind (mapE (ParseCertificate x) (sig_Certificate sig)) (\<lambda>certs.
       (let alg = signature_algorithm (sig_Algorithm sig) in
        if alg \<noteq> 0
        then (case certs of [] \<Rightarrow> Inl (Fatal ''index out of range'')
              | c # _ \<Rightarrow> Inr \<lparr>si_Certificate = certs, si_Algorithm = alg,
                    si_Valid = (CheckSignature x c alg contactData (sig_Signature sig) = None)\<rparr>)
        else Inr \<lparr>si_Certificate = certs, si_Algorithm = alg, si_Valid = False\<rparr>))"

definition ValidateWrappedContactData :: "'c x509 \<Rightarrow> WrappedContactData \<Rightarrow> error + 'c SignatureInfo list" where
  "ValidateWrappedContactData x wcd = (if wcd_Signatures wcd = [] then Inr []
     else mapE (validate_signature x (wcd_ContactData wcd)) (wcd_Signatures wcd))"

section \<open>Connections\<close>

record 'k ClientInfo =
  cl_ID :: ClientID
  cl_Key :: "'k option"
  cl_Labels :: "Label list"
  cl_Blacklisted :: bool
  cl_Cached :: bool

text \<open>
  \<^verbatim>\<open>Notices\<close> and \<^verbatim>\<open>Fin\<close> are set together, from the same registration: \<open>Notices\<close> is the
  channel, and \<^verbatim>\<open>Fin\<close> ends the registration that made it.
\<close>

record 'k ConnectionInfo =
  Addr :: string
  Client :: "'k ClientInfo"
  ContactID :: string
  NonceSent :: u64
  NonceReceived :: u64
  con_Auth :: AuthClientInfo
  messageTokens :: "(string, u64) gomap option"
  Notices :: "nat option"

definition MessageTokens :: "'k ConnectionInfo \<Rightarrow> (string, u64) gomap option" where
  "MessageTokens i = messageTokens i"

definition AddMessageTokens :: "(string, u64) gomap \<Rightarrow> 'k ConnectionInfo \<Rightarrow> 'k ConnectionInfo" where
  "AddMessageTokens delta i =
     (let m = (case messageTokens i of None \<Rightarrow> [] | Some m \<Rightarrow> m) in
      i\<lparr>messageTokens := Some (fold (\<lambda>(k, v) m. gomap_upd k (gomap_get0 m k + v) m) delta m)\<rparr>)"

text \<open>
  \<^verbatim>\<open>log.Exitf\<close> ends the process when more tokens are taken than there are. A nil map reads as
  empty, and assigning to it panics.
\<close>

definition SubtractMessageTokens :: "(string, u64) gomap \<Rightarrow> 'k ConnectionInfo \<Rightarrow> error + 'k ConnectionInfo" where
  "SubtractMessageTokens delta i = foldE (\<lambda>(k, v) i.
     (let m = (case messageTokens i of None \<Rightarrow> [] | Some m \<Rightarrow> m) in
      if v > gomap_get0 m k then Inl (Fatal ''Attempt to consume more tokens than we have'')
      else case messageTokens i of
          None \<Rightarrow> Inl (Fatal ''assignment to entry in nil map'')
        | Some m \<Rightarrow> Inr (i\<lparr>messageTokens := Some (gomap_upd k (gomap_get0 m k - v) m)\<rparr>))) delta i"

section \<open>Tokens\<close>

lemma gomap_get0_Cons: "gomap_get0 ((k, v) # m) j = (if j = k then v else gomap_get0 m j)"
  by (simp add: gomap_get0_def)

lemma gomap_get0_notin: "k \<notin> fst ` set m \<Longrightarrow> gomap_get0 m k = 0"
  by (simp add: gomap_get0_def map_of_eq_None_iff [THEN iffD2])

lemma SubtractMessageTokens_ok:
  assumes "messageTokens i = Some m" and "gomap_ok delta" and "\<And>k. gomap_get0 delta k \<le> gomap_get0 m k"
  shows "\<exists>m'. SubtractMessageTokens delta i = Inr (i\<lparr>messageTokens := Some m'\<rparr>)
    \<and> (\<forall>k. gomap_get0 m' k = gomap_get0 m k - gomap_get0 delta k)"
  using assms
proof (induction delta arbitrary: i m)
  case Nil
  then show ?case by (intro exI [of _ m]) (simp add: SubtractMessageTokens_def)
next
  case (Cons kv delta)
  obtain k v where kv: "kv = (k, v)" by force
  let ?m = "gomap_upd k (gomap_get0 m k - v) m"
  have new: "gomap_ok delta" "gomap_get0 delta k = 0"
    using Cons.prems(2) by (auto simp: kv gomap_ok_def intro: gomap_get0_notin)
  have v: "v \<le> gomap_get0 m k" using Cons.prems(3) [of k] by (simp add: kv gomap_get0_Cons)
  have le: "gomap_get0 delta j \<le> gomap_get0 ?m j" for j
    using Cons.prems(3) [of j] new(2) by (auto simp: kv gomap_get0_Cons)
  from Cons.IH [OF _ new(1) le, of "i\<lparr>messageTokens := Some ?m\<rparr>"] obtain m' where
    m': "SubtractMessageTokens delta (i\<lparr>messageTokens := Some ?m\<rparr>) = Inr (i\<lparr>messageTokens := Some m'\<rparr>)"
      "\<forall>k. gomap_get0 m' k = gomap_get0 ?m k - gomap_get0 delta k" by auto
  have "SubtractMessageTokens (kv # delta) i = Inr (i\<lparr>messageTokens := Some m'\<rparr>)"
    using m'(1) v Cons.prems(1) by (simp add: SubtractMessageTokens_def kv not_less)
  moreover have "gomap_get0 m' j = gomap_get0 m j - gomap_get0 (kv # delta) j" for j
    using m'(2) new(2) by (simp add: kv gomap_get0_Cons)
  ultimately show ?case by blast
qed

section \<open>Properties\<close>

lemma validate_signature_sound:
  assumes "validate_signature x d sig = Inr si"
  shows "list_all2 (\<lambda>b c. ParseCertificate x b = Inr c) (sig_Certificate sig) (si_Certificate si)
    \<and> (si_Valid si \<longleftrightarrow> 0 < sig_Algorithm sig \<and> sig_Algorithm sig \<le> 15 \<and> si_Algorithm si = sig_Algorithm sig
        \<and> CheckSignature x (hd (si_Certificate si)) (sig_Algorithm sig) d (sig_Signature sig) = None
        \<and> si_Certificate si \<noteq> [])"
proof -
  from assms obtain certs where certs: "list_all2 (\<lambda>b c. ParseCertificate x b = Inr c) (sig_Certificate sig) certs"
    by (auto simp: validate_signature_def mapE_eq_Inr)
  then have "mapE (ParseCertificate x) (sig_Certificate sig) = Inr certs" by (simp add: mapE_eq_Inr)
  with assms certs show ?thesis
    by (cases certs) (auto simp: validate_signature_def signature_algorithm_def Let_def split: if_splits)
qed

text \<open>
  What the server tells its authorizer about additional signatures: there is one entry per
  signature, in order, with the parsed certificates; an entry is marked valid only if its algorithm is
  known and the check of the signature over the contact data against the first certificate succeeded.
\<close>
lemma ValidateWrappedContactData_sound:
  assumes "ValidateWrappedContactData x wcd = Inr sigs"
  shows "list_all2 (\<lambda>sig si. list_all2 (\<lambda>b c. ParseCertificate x b = Inr c) (sig_Certificate sig) (si_Certificate si)
    \<and> (si_Valid si \<longleftrightarrow> 0 < sig_Algorithm sig \<and> sig_Algorithm sig \<le> 15 \<and> si_Algorithm si = sig_Algorithm sig
        \<and> CheckSignature x (hd (si_Certificate si)) (sig_Algorithm sig) (wcd_ContactData wcd) (sig_Signature sig) = None
        \<and> si_Certificate si \<noteq> [])) (wcd_Signatures wcd) sigs"
proof -
  have "list_all2 (\<lambda>sig si. validate_signature x (wcd_ContactData wcd) sig = Inr si) (wcd_Signatures wcd) sigs"
    using assms by (auto simp: ValidateWrappedContactData_def mapE_eq_Inr split: if_splits)
  then show ?thesis by (rule list_all2_mono) (use validate_signature_sound in blast)
qed

text \<open>
  A client that adds a signature with a known algorithm and no certificate makes the server index
  an empty slice: validation panics instead of returning an error.
\<close>
lemma signature_without_certificate_panics:
  assumes "wcd_Signatures wcd = sig # rest" and "sig_Certificate sig = []"
    and "0 < sig_Algorithm sig" "sig_Algorithm sig \<le> 15"
  shows "ValidateWrappedContactData x wcd = Inl (Fatal ''index out of range'')"
  using assms by (simp add: ValidateWrappedContactData_def validate_signature_def signature_algorithm_def Let_def)

definition demo_x509 :: "bytes x509" where
  "demo_x509 = \<lparr>ParseCertificate = Inr, CheckSignature = (\<lambda>c a d s. if s = c then None else Some (Err ''bad''))\<rparr>"

definition demo_wcd :: "bytes list \<Rightarrow> WrappedContactData" where
  "demo_wcd certs = \<lparr>wcd_ContactData = [1], wcd_Signatures = [\<lparr>sig_Certificate = certs, sig_Algorithm = 4, sig_Signature = [9]\<rparr>],
     wcd_ClientLabels = []\<rparr>"

lemma ValidateWrappedContactData_sound_instance:
  "ValidateWrappedContactData demo_x509 (demo_wcd [[9]]) =
     Inr [\<lparr>si_Certificate = [[9]], si_Algorithm = 4, si_Valid = True\<rparr>]
   \<and> CheckSignature demo_x509 [9] 4 [1] [9] = None"
proof -
  have run: "ValidateWrappedContactData demo_x509 (demo_wcd [[9]]) =
     Inr [\<lparr>si_Certificate = [[9]], si_Algorithm = 4, si_Valid = True\<rparr>]" by code_simp
  with ValidateWrappedContactData_sound [OF run] show ?thesis by (simp add: demo_wcd_def)
qed

lemma signature_without_certificate_panics_instance:
  "ValidateWrappedContactData demo_x509 (demo_wcd []) = Inl (Fatal ''index out of range'')"
  by (rule signature_without_certificate_panics
      [where rest = "[]" and sig = "\<lparr>sig_Certificate = [], sig_Algorithm = 4, sig_Signature = [9]\<rparr>"])
    (simp_all add: demo_wcd_def)

end
