(* ===== verification/Sqlite_Clients.thy ===== *)
theory Sqlite_Clients
  imports Sqlite_Messages
begin

text \<open>
  \<^verbatim>\<open>fleetspeak/src/server/sqlite/clientstore.go\<close>: clients, their labels and their contacts, with the
  \<^verbatim>\<open>ClientData\<close> and \<^verbatim>\<open>ContactData\<close> of \<^verbatim>\<open>db/store.go\<close>.

  A callback of a streaming operation is a function on a state of its own that may return an error;
  the operation folds it over the rows. On an error the Go functions may hand back the part of
  the result computed so far beside the error; callers discard it and so does the model. The
  resource-usage records are in \<open>Sqlite_Usage\<close>. Rows of a query without \<^verbatim>\<open>ORDER BY\<close> come in table
  order here; no statement below depends on that order.
\<close>

section \<open>Data\<close>

record ClientData =
  cd_Key :: bytes
  cd_Labels :: "Label list"
  cd_Blacklisted :: bool

definition ClientData_Clone :: "ClientData \<Rightarrow> ClientData" where
  "ClientData_Clone c = \<lparr>cd_Key = [] @ cd_Key c,
     cd_Labels = foldl (\<lambda>ls l. ls @ [l]) [] (cd_Labels c), cd_Blacklisted = cd_Blacklisted c\<rparr>"

record dbContactData =
  con_ClientID :: ClientID
  con_NonceSent :: u64
  con_NonceReceived :: u64
  con_Addr :: string
  con_ClientClock :: "Timestamp option"
  con_StreamingTo :: string
  con_Labels :: "Label list"

record spb_Client =
  sc_ClientId :: gobytes
  sc_Labels :: "Label list"
  sc_LastContactTime :: Timestamp
  sc_LastContactAddress :: string
  sc_LastContactStreamingTo :: string
  sc_LastClock :: "Timestamp option"
  sc_Blacklisted :: bool

record spb_ClientContact =
  scc_SentNonce :: u64
  scc_ReceivedNonce :: u64
  scc_ObservedAddress :: string
  scc_Timestamp :: Timestamp

section \<open>Operations\<close>

definition fromNULLString :: "string option \<Rightarrow> string" where
  "fromNULLString s = (case s of None \<Rightarrow> [] | Some x \<Rightarrow> x)"

text \<open>The row handler \<^verbatim>\<open>h\<close> and the label handler \<^verbatim>\<open>j\<close> of \<^verbatim>\<open>ListClients\<close>.\<close>

definition listClients_h :: "client_row \<Rightarrow> (string, spb_Client) gomap \<Rightarrow> error + (string, spb_Client) gomap" where
  "listClients_h r retm =
     ebind (StringToClientID (cl_client_id r)) (\<lambda>i.
     ebind (CheckValid (Some (tspb_New (cl_last_contact_time r)))) (\<lambda>ts.
       Inr (gomap_upd (cl_client_id r)
         \<lparr>sc_ClientId = ClientID_Bytes i, sc_Labels = [], sc_LastContactTime = ts,
          sc_LastContactAddress = fromNULLString (cl_last_contact_address r),
          sc_LastContactStreamingTo = fromNULLString (cl_last_contact_streaming_to r),
          sc_LastClock = (case (cl_last_clock_seconds r, cl_last_clock_nanos r) of
             (Some s, Some n) \<Rightarrow> Some \<lparr>Seconds = s, Nanos = n\<rparr> | _ \<Rightarrow> None),
          sc_Blacklisted = cl_blacklisted r\<rparr> retm)))"

definition listClients_j :: "label_row \<Rightarrow> (string, spb_Client) gomap \<Rightarrow> error + (string, spb_Client) gomap" where
  "listClients_j r retm =
     (case map_of retm (l_client_id r) of
        None \<Rightarrow> Inl (Fatal ''nil pointer dereference'')
      | Some c \<Rightarrow> Inr (gomap_upd (l_client_id r)
          (c\<lparr>sc_Labels := sc_Labels c @ [\<lparr>lbl_service = l_service_name r, lbl_label = l_label r\<rparr>]\<rparr>) retm))"

definition ListClients :: "env \<Rightarrow> ClientID list \<Rightarrow> spb_Client list dbop" where
  "ListClients e ids = runInTx e (\<lambda>d.
     ebind (if ids = [] then foldE listClients_h (t_clients d) []
            else foldE (\<lambda>i. foldE listClients_h
                   (filter (\<lambda>r. cl_client_id r = ClientID_String i) (t_clients d))) ids []) (\<lambda>retm.
     ebind (if ids = [] then foldE listClients_j (t_client_labels d) retm
            else foldE (\<lambda>i. foldE listClients_j
                   (filter (\<lambda>r. l_client_id r = ClientID_String i) (t_client_labels d))) ids retm) (\<lambda>retm.
       Inr (map snd retm, d))))"

definition StreamClientIds ::
  "env \<Rightarrow> bool \<Rightarrow> gotime option \<Rightarrow> (ClientID \<Rightarrow> 's \<Rightarrow> error + 's) \<Rightarrow> 's \<Rightarrow> 's dbop" where
  "StreamClientIds e includeBlacklisted lastContactAfter callback s = runInTx e (\<lambda>d.
     ebind (foldE (\<lambda>r s. ebind (StringToClientID (cl_client_id r)) (\<lambda>i. callback i s))
       (filter (\<lambda>r. (includeBlacklisted \<or> \<not> cl_blacklisted r)
          \<and> (case lastContactAfter of None \<Rightarrow> True | Some t \<Rightarrow> cl_last_contact_time r > t)) (t_clients d)) s)
       (\<lambda>s. Inr (s, d)))"

definition GetClientData :: "env \<Rightarrow> ClientID \<Rightarrow> ClientData dbop" where
  "GetClientData e i = runInTx e (\<lambda>d.
     let sid = ClientID_String i in
     ebind (sql_row (\<lambda>r. cl_client_id r = sid) (t_clients d)) (\<lambda>r.
       Inr (\<lparr>cd_Key = cl_client_key r,
             cd_Labels = map (\<lambda>l. \<lparr>lbl_service = l_service_name l, lbl_label = l_label l\<rparr>)
               (filter (\<lambda>l. l_client_id l = sid) (t_client_labels d)),
             cd_Blacklisted = cl_blacklisted r\<rparr>, d)))"

definition client_ids :: "sqldb \<Rightarrow> string set" where
  "client_ids d = set (map cl_client_id (t_clients d))"

text \<open>\<^verbatim>\<open>INSERT INTO client_labels\<close>.\<close>

definition insert_label :: "string \<Rightarrow> Label \<Rightarrow> sqldb \<Rightarrow> error + sqldb" where
  "insert_label sid l d =
     ebind (sql_insert (\<lambda>r. r) (sid \<in> client_ids d)
        \<lparr>l_client_id = sid, l_service_name = lbl_service l, l_label = lbl_label l\<rparr> (t_client_labels d)) (\<lambda>ls.
       Inr (d\<lparr>t_client_labels := ls\<rparr>))"

definition AddClient :: "env \<Rightarrow> ClientID \<Rightarrow> ClientData \<Rightarrow> unit dbop" where
  "AddClient e i data = runInTx e (\<lambda>d.
     let sid = ClientID_String i in
     ebind (sql_insert cl_client_id True
        \<lparr>cl_client_id = sid, cl_client_key = cd_Key data, cl_blacklisted = cd_Blacklisted data,
         cl_last_contact_time = Now e, cl_last_contact_address = None,
         cl_last_contact_streaming_to = None, cl_last_clock_seconds = None,
         cl_last_clock_nanos = None\<rparr> (t_clients d)) (\<lambda>cs.
     ebind (foldE (insert_label sid) (cd_Labels data) (d\<lparr>t_clients := cs\<rparr>)) (\<lambda>d'. Inr ((), d'))))"

text \<open>A statement outside a transaction.\<close>

definition execStmt :: "(sqldb \<Rightarrow> error + sqldb) \<Rightarrow> unit dbop" where
  "execStmt f d = (case f d of Inl x \<Rightarrow> (Inl x, d) | Inr d' \<Rightarrow> (Inr (), d'))"

definition AddClientLabel :: "ClientID \<Rightarrow> Label \<Rightarrow> unit dbop" where
  "AddClientLabel i l = execStmt (insert_label (ClientID_String i) l)"

definition RemoveClientLabel :: "ClientID \<Rightarrow> Label \<Rightarrow> unit dbop" where
  "RemoveClientLabel i l = execStmt (\<lambda>d. Inr (d\<lparr>t_client_labels :=
     filter (\<lambda>r. \<not> (l_client_id r = ClientID_String i \<and> l_service_name r = lbl_service l
       \<and> l_label r = lbl_label l)) (t_client_labels d)\<rparr>))"

definition BlacklistClient :: "ClientID \<Rightarrow> unit dbop" where
  "BlacklistClient i = execStmt (\<lambda>d. Inr (d\<lparr>t_clients :=
     update_where (\<lambda>r. cl_client_id r = ClientID_String i) (\<lambda>r. r\<lparr>cl_blacklisted := True\<rparr>) (t_clients d)\<rparr>))"

text \<open>The automatic key of \<^verbatim>\<open>client_contacts\<close>: one more than the largest in use.\<close>

definition next_contact_id :: "sqldb \<Rightarrow> nat" where
  "next_contact_id d = foldr (\<lambda>r m. max (cc_id r) m) (t_client_contacts d) 0 + 1"

definition RecordClientContact :: "env \<Rightarrow> dbContactData \<Rightarrow> string dbop" where
  "RecordClientContact e data = runInTx e (\<lambda>d.
     let n = Now e; sid = ClientID_String (con_ClientID data); i = next_contact_id d in
     ebind (sql_insert cc_id (sid \<in> client_ids d)
        \<lparr>cc_id = i, cc_client_id = sid, cc_time = n,
         cc_sent_nonce = FormatUint16 (con_NonceSent data),
         cc_received_nonce = FormatUint16 (con_NonceReceived data),
         cc_address = Some (con_Addr data)\<rparr> (t_client_contacts d)) (\<lambda>cs.
     Inr (FormatUint16 (word_of_nat i), d\<lparr>t_client_contacts := cs,
       t_clients := update_where (\<lambda>r. cl_client_id r = sid) (\<lambda>r. r\<lparr>
         cl_last_contact_time := n,
         cl_last_contact_streaming_to := (if con_StreamingTo data \<noteq> [] then Some (con_StreamingTo data) else None),
         cl_last_contact_address := Some (con_Addr data),
         cl_last_clock_seconds := map_option Seconds (con_ClientClock data),
         cl_last_clock_nanos := map_option Nanos (con_ClientClock data)\<rparr>) (t_clients d)\<rparr>)))"

definition StreamClientContacts ::
  "env \<Rightarrow> ClientID \<Rightarrow> (spb_ClientContact \<Rightarrow> 's \<Rightarrow> error + 's) \<Rightarrow> 's \<Rightarrow> 's dbop" where
  "StreamClientContacts e i callback s = runInTx e (\<lambda>d.
     ebind (foldE (\<lambda>r s.
         (case ParseUint16 (cc_sent_nonce r) of
            Inl _ \<Rightarrow> Inl (Err ''Unable to parse sent_nonce in db'')
          | Inr sn \<Rightarrow> (case ParseUint16 (cc_received_nonce r) of
            Inl _ \<Rightarrow> Inl (Err ''Unable to parse received_nonce in db'')
          | Inr rn \<Rightarrow> ebind (CheckValid (Some (tspb_New (cc_time r)))) (\<lambda>ts.
              callback \<lparr>scc_SentNonce = sn, scc_ReceivedNonce = rn,
                scc_ObservedAddress = fromNULLString (cc_address r), scc_Timestamp = ts\<rparr> s))))
       (filter (\<lambda>r. cc_client_id r = ClientID_String i) (t_client_contacts d)) s) (\<lambda>s. Inr (s, d)))"

text \<open>
  \<^verbatim>\<open>return res, d.StreamClientContacts(...)\<close>: the call is made before the result variable the
  callback appends to is read.
\<close>

definition ListClientContacts :: "env \<Rightarrow> ClientID \<Rightarrow> spb_ClientContact list dbop" where
  "ListClientContacts e i = StreamClientContacts e i (\<lambda>c res. Inr (res @ [c])) []"

definition LinkMessagesToContact :: "env \<Rightarrow> string \<Rightarrow> MessageID list \<Rightarrow> unit dbop" where
  "LinkMessagesToContact e contact ids d =
     (case ParseUint16 contact of
        Inl _ \<Rightarrow> (Inl (Err ''unable to parse ContactID''), d)
      | Inr c \<Rightarrow> runInTx e (\<lambda>d.
          ebind (foldE (\<lambda>i d. ebind (sql_u64 c) (\<lambda>c.
              ebind (sql_insert (\<lambda>x. x) (link_fk c (MessageID_String i) d) (c, MessageID_String i)
                (t_contact_messages d)) (\<lambda>cm. Inr (d\<lparr>t_contact_messages := cm\<rparr>)))) ids d)
            (\<lambda>d'. Inr ((), d'))) d)"

section \<open>The invariant of the client tables\<close>

definition clients_ok :: "sqldb \<Rightarrow> bool" where
  "clients_ok d \<longleftrightarrow> distinct (map cl_client_id (t_clients d))
     \<and> distinct (t_client_labels d)
     \<and> list_all (\<lambda>l. l_client_id l \<in> client_ids d) (t_client_labels d)
     \<and> distinct (map cc_id (t_client_contacts d))
     \<and> list_all (\<lambda>c. cc_client_id c \<in> client_ids d) (t_client_contacts d)
     \<and> distinct (t_contact_messages d)
     \<and> list_all (\<lambda>(c, i). link_fk c i d) (t_contact_messages d)"

lemma clients_ok_init: "clients_ok initSchema"
  by (simp add: clients_ok_def initSchema_def)

lemma execStmt_invariant:
  assumes "P d" and "\<And>d'. f d = Inr d' \<Longrightarrow> P d'"
  shows "P (snd (execStmt f d))"
  using assms by (cases "f d") (auto simp: execStmt_def)

lemma link_fk_cong:
  "t_client_contacts d = t_client_contacts d' \<Longrightarrow> t_messages d = t_messages d' \<Longrightarrow> link_fk c i d = link_fk c i d'"
  by (simp add: link_fk_def)

lemma client_ids_simps [simp]:
  "client_ids (d\<lparr>t_clients := cs @ [c]\<rparr>) = insert (cl_client_id c) (client_ids (d\<lparr>t_clients := cs\<rparr>))"
  "client_ids (d\<lparr>t_clients := t_clients d\<rparr>) = client_ids d"
  "client_ids (d\<lparr>t_client_labels := ls\<rparr>) = client_ids d"
  "client_ids (d\<lparr>t_client_contacts := ct\<rparr>) = client_ids d"
  "client_ids (d\<lparr>t_contact_messages := cm\<rparr>) = client_ids d"
  by (auto simp: client_ids_def)

lemma client_ids_cong: "map cl_client_id (t_clients d') = map cl_client_id (t_clients d) \<Longrightarrow> client_ids d' = client_ids d"
  by (simp add: client_ids_def del: set_map)

lemma link_fk_simps [simp]:
  "link_fk c i (d\<lparr>t_clients := cs\<rparr>) = link_fk c i d"
  "link_fk c i (d\<lparr>t_client_labels := ls\<rparr>) = link_fk c i d"
  "link_fk c i (d\<lparr>t_contact_messages := cm\<rparr>) = link_fk c i d"
  "link_fk c i d \<Longrightarrow> link_fk c i (d\<lparr>t_client_contacts := t_client_contacts d @ [x]\<rparr>)"
  by (auto simp: link_fk_def)

lemma clients_ok_insert_label:
  assumes "clients_ok d" and "insert_label sid l d = Inr d'"
  shows "clients_ok d'"
  using assms by (auto simp: insert_label_def sql_insert_eq_Inr clients_ok_def)

lemma clients_ok_AddClient:
  assumes "clients_ok d"
  shows "clients_ok (snd (AddClient e i data d))"
  unfolding AddClient_def Let_def
proof (rule runInTx_invariant [where P = clients_ok, OF assms], goal_cases)
  case (1 a d')
  then obtain cs where cs: "sql_insert cl_client_id True
        \<lparr>cl_client_id = ClientID_String i, cl_client_key = cd_Key data, cl_blacklisted = cd_Blacklisted data,
         cl_last_contact_time = Now e, cl_last_contact_address = None,
         cl_last_contact_streaming_to = None, cl_last_clock_seconds = None,
         cl_last_clock_nanos = None\<rparr> (t_clients d) = Inr cs"
    "foldE (insert_label (ClientID_String i)) (cd_Labels data) (d\<lparr>t_clients := cs\<rparr>) = Inr d'" by auto
  from cs(1) assms have "clients_ok (d\<lparr>t_clients := cs\<rparr>)"
    by (auto simp: sql_insert_eq_Inr clients_ok_def list_all_iff)
  with cs(2) show ?case
    by (rule foldE_invariant [where P = clients_ok]) (auto intro: clients_ok_insert_label)
qed

lemma clients_ok_AddClientLabel: "clients_ok d \<Longrightarrow> clients_ok (snd (AddClientLabel i l d))"
  unfolding AddClientLabel_def
  by (rule execStmt_invariant [where P = clients_ok]) (auto intro: clients_ok_insert_label)

lemma clients_ok_RemoveClientLabel: "clients_ok d \<Longrightarrow> clients_ok (snd (RemoveClientLabel i l d))"
  unfolding RemoveClientLabel_def
  by (rule execStmt_invariant [where P = clients_ok]) (auto simp: clients_ok_def list_all_iff)

text \<open>Touching client rows and adding contacts keeps the invariant.\<close>

lemma clients_ok_contacts:
  assumes "clients_ok d" and ids: "map cl_client_id (t_clients d') = map cl_client_id (t_clients d)"
    and contacts: "t_client_contacts d' = t_client_contacts d @ new" "distinct (map cc_id new)"
      "\<And>x. x \<in> set new \<Longrightarrow> cc_id x \<notin> cc_id ` set (t_client_contacts d) \<and> cc_client_id x \<in> client_ids d"
    and same: "t_client_labels d' = t_client_labels d" "t_contact_messages d' = t_contact_messages d"
      "t_messages d' = t_messages d"
  shows "clients_ok d'"
proof -
  note ok = assms(1) [unfolded clients_ok_def]
  have fk: "link_fk c i d'" if "link_fk c i d" for c i
    using that contacts(1) same(3) by (auto simp: link_fk_def)
  have "k \<notin> cc_id ` set (t_client_contacts d)" if "k \<in> cc_id ` set new" for k
    using that contacts(3) by auto
  then have "cc_id ` set (t_client_contacts d) \<inter> cc_id ` set new = {}" by blast
  then have "distinct (map cc_id (t_client_contacts d'))" using ok contacts(1,2) by simp
  moreover have "list_all (\<lambda>(c, i). link_fk c i d') (t_contact_messages d')"
    using ok fk same(2) by (simp add: list_all_iff case_prod_beta)
  moreover have "list_all (\<lambda>c. cc_client_id c \<in> client_ids d') (t_client_contacts d')"
    using ok contacts(1,3) client_ids_cong [OF ids] by (auto simp: list_all_iff)
  ultimately show ?thesis
    unfolding clients_ok_def client_ids_cong [OF ids] ids same using ok by simp
qed

lemma clients_ok_BlacklistClient: "clients_ok d \<Longrightarrow> clients_ok (snd (BlacklistClient i d))"
  unfolding BlacklistClient_def
  by (rule execStmt_invariant [where P = clients_ok]) (auto intro: clients_ok_contacts [where new = "[]"])

lemma next_contact_id_fresh: "next_contact_id d \<notin> cc_id ` set (t_client_contacts d)"
proof -
  have "\<forall>r \<in> set rs. cc_id r \<le> foldr (\<lambda>r m. max (cc_id r) m) rs 0" for rs
    by (induction rs) auto
  then show ?thesis by (fastforce simp: next_contact_id_def)
qed

lemma clients_ok_RecordClientContact:
  assumes "clients_ok d"
  shows "clients_ok (snd (RecordClientContact e data d))"
  unfolding RecordClientContact_def Let_def
proof (rule runInTx_invariant [where P = clients_ok, OF assms], goal_cases)
  case (1 a d')
  then obtain x where "t_client_contacts d' = t_client_contacts d @ [x]"
    "cc_id x \<notin> cc_id ` set (t_client_contacts d) \<and> cc_client_id x \<in> client_ids d"
    "map cl_client_id (t_clients d') = map cl_client_id (t_clients d)"
    "t_client_labels d' = t_client_labels d" "t_contact_messages d' = t_contact_messages d"
    "t_messages d' = t_messages d"
    by (auto simp: sql_insert_eq_Inr)
  then show ?case by (intro clients_ok_contacts [OF assms, where new = "[x]"]) simp_all
qed

lemma clients_ok_LinkMessagesToContact:
  assumes "clients_ok d"
  shows "clients_ok (snd (LinkMessagesToContact e contact ids d))"
proof (cases "ParseUint16 contact")
  case (Inr c)
  show ?thesis
    unfolding LinkMessagesToContact_def Inr sum.case
  proof (rule runInTx_invariant [where P = clients_ok, OF assms], goal_cases)
    case (1 a d')
    then have "foldE (\<lambda>i d. ebind (sql_u64 c) (\<lambda>c.
              ebind (sql_insert (\<lambda>x. x) (link_fk c (MessageID_String i) d) (c, MessageID_String i)
                (t_contact_messages d)) (\<lambda>cm. Inr (d\<lparr>t_contact_messages := cm\<rparr>)))) ids d = Inr d'"
      by auto
    then show ?case using assms
      by (rule foldE_invariant [where P = clients_ok]) (auto simp: sql_insert_eq_Inr clients_ok_def)
  qed
qed (simp add: LinkMessagesToContact_def assms)

section \<open>Labels\<close>

definition labels_of :: "sqldb \<Rightarrow> ClientID \<Rightarrow> Label set" where
  "labels_of d i = (\<lambda>l. \<lparr>lbl_service = l_service_name l, lbl_label = l_label l\<rparr>) `
     {l \<in> set (t_client_labels d). l_client_id l = ClientID_String i}"

definition label_row_of :: "string \<Rightarrow> Label \<Rightarrow> label_row" where
  "label_row_of sid l = \<lparr>l_client_id = sid, l_service_name = lbl_service l, l_label = lbl_label l\<rparr>"

lemma label_row_of_inj: "label_row_of sid l = label_row_of sid' l' \<longleftrightarrow> sid = sid' \<and> l = l'"
  by (auto simp: label_row_of_def)

lemma label_row_eta: "label_row_of (l_client_id r) \<lparr>lbl_service = l_service_name r, lbl_label = l_label r\<rparr> = r"
  by (cases r) (simp add: label_row_of_def)

lemma label_eta: "\<lparr>lbl_service = lbl_service l, lbl_label = lbl_label l\<rparr> = l"
  by (cases l) simp

lemma labels_of_mem: "l \<in> labels_of d i \<longleftrightarrow> label_row_of (ClientID_String i) l \<in> set (t_client_labels d)"
proof -
  show ?thesis
  proof
    assume "l \<in> labels_of d i"
    then obtain r where "r \<in> set (t_client_labels d)" "l_client_id r = ClientID_String i"
      "l = \<lparr>lbl_service = l_service_name r, lbl_label = l_label r\<rparr>" by (auto simp: labels_of_def)
    then show "label_row_of (ClientID_String i) l \<in> set (t_client_labels d)" using label_row_eta by metis
  next
    assume "label_row_of (ClientID_String i) l \<in> set (t_client_labels d)"
    then show "l \<in> labels_of d i"
      unfolding labels_of_def by (intro image_eqI [of _ _ "label_row_of (ClientID_String i) l"])
        (simp_all add: label_row_of_def)
  qed
qed

lemma insert_label_eq_Inr:
  "insert_label sid l d = Inr d' \<longleftrightarrow> label_row_of sid l \<notin> set (t_client_labels d) \<and> sid \<in> client_ids d
     \<and> d' = d\<lparr>t_client_labels := t_client_labels d @ [label_row_of sid l]\<rparr>"
  by (auto simp: insert_label_def sql_insert_eq_Inr label_row_of_def)

text \<open>
  Adding and removing labels: \<^verbatim>\<open>AddClientLabel\<close> succeeds exactly for a known client without the
  label and then adds just it; \<^verbatim>\<open>RemoveClientLabel\<close> always succeeds and removes just it; neither
  touches another client whose id prints differently.
\<close>

lemma client_labels_set:
  "(fst (AddClientLabel i l d) = Inr () \<longleftrightarrow> ClientID_String i \<in> client_ids d \<and> l \<notin> labels_of d i)
   \<and> labels_of (snd (AddClientLabel i l d)) j =
       labels_of d j \<union> (if ClientID_String j = ClientID_String i \<and> ClientID_String i \<in> client_ids d then {l} else {})
   \<and> fst (RemoveClientLabel i l d) = Inr ()
   \<and> labels_of (snd (RemoveClientLabel i l d)) j =
       labels_of d j - (if ClientID_String j = ClientID_String i then {l} else {})"
proof -
  have "fst (AddClientLabel i l d) = Inr () \<longleftrightarrow> (\<exists>d'. insert_label (ClientID_String i) l d = Inr d')"
    by (cases "insert_label (ClientID_String i) l d") (auto simp: AddClientLabel_def execStmt_def)
  moreover have "labels_of (snd (AddClientLabel i l d)) j =
       labels_of d j \<union> (if ClientID_String j = ClientID_String i \<and> ClientID_String i \<in> client_ids d then {l} else {})"
  proof (cases "insert_label (ClientID_String i) l d")
    case (Inl x)
    then have "ClientID_String i \<in> client_ids d \<longrightarrow> l \<in> labels_of d i"
      using insert_label_eq_Inr [of "ClientID_String i" l d] by (auto simp: labels_of_mem)
    with Inl show ?thesis
      by (auto simp: AddClientLabel_def execStmt_def labels_of_mem)
  next
    case (Inr d')
    then have "snd (AddClientLabel i l d) = d'" by (simp add: AddClientLabel_def execStmt_def)
    with Inr [unfolded insert_label_eq_Inr] show ?thesis
      by (auto simp: labels_of_mem label_row_of_inj)
  qed
  moreover have "labels_of (snd (RemoveClientLabel i l d)) j =
       labels_of d j - (if ClientID_String j = ClientID_String i then {l} else {})"
    by (cases l) (auto simp: RemoveClientLabel_def execStmt_def labels_of_mem label_row_of_def)
  ultimately show ?thesis
    by (auto simp: insert_label_eq_Inr labels_of_mem RemoveClientLabel_def execStmt_def)
qed

lemma foldE_insert_label:
  assumes "foldE (insert_label sid) ls d = Inr d'"
  shows "d' = d\<lparr>t_client_labels := t_client_labels d @ map (label_row_of sid) ls\<rparr>"
  using assms
proof (induction ls arbitrary: d)
  case (Cons l ls)
  from Cons.prems have "foldE (insert_label sid) ls
      (d\<lparr>t_client_labels := t_client_labels d @ [label_row_of sid l]\<rparr>) = Inr d'"
    by (auto simp: insert_label_eq_Inr)
  from Cons.IH [OF this] show ?case by simp
qed simp

text \<open>
  Round trip: after \<^verbatim>\<open>AddClient\<close> has stored a client, \<^verbatim>\<open>GetClientData\<close> returns its key,
  its blacklisted flag and exactly its labels.
\<close>

lemma GetClientData_AddClient:
  assumes "AddClient e i data d = (Inr (), d')" and "clients_ok d"
    and "begin_err e' = None" and "commit_err e' = None"
  shows "\<exists>cd. GetClientData e' i d' = (Inr cd, d') \<and> cd_Key cd = cd_Key data
    \<and> cd_Blacklisted cd = cd_Blacklisted data \<and> set (cd_Labels cd) = set (cd_Labels data)
    \<and> length (cd_Labels cd) = length (cd_Labels data)"
proof -
  let ?sid = "ClientID_String i"
  let ?row = "\<lparr>cl_client_id = ?sid, cl_client_key = cd_Key data, cl_blacklisted = cd_Blacklisted data,
         cl_last_contact_time = Now e, cl_last_contact_address = None,
         cl_last_contact_streaming_to = None, cl_last_clock_seconds = None, cl_last_clock_nanos = None\<rparr>"
  from runInTx_success [OF assms(1) [unfolded AddClient_def]]
  have new: "?sid \<notin> cl_client_id ` set (t_clients d)"
    and fold: "foldE (insert_label ?sid) (cd_Labels data) (d\<lparr>t_clients := t_clients d @ [?row]\<rparr>) = Inr d'"
    by (auto simp: Let_def sql_insert_eq_Inr)
  have "l_client_id l \<noteq> ?sid" if "l \<in> set (t_client_labels d)" for l
  proof -
    have "l_client_id l \<in> client_ids d" using assms(2) that by (auto simp: clients_ok_def list_all_iff)
    with new show ?thesis by (metis client_ids_def set_map)
  qed
  then have "filter (\<lambda>l. l_client_id l = ?sid) (t_client_labels d) = []" by (simp add: filter_empty_conv)
  then have "filter (\<lambda>l. l_client_id l = ?sid) (t_client_labels d') = map (label_row_of ?sid) (cd_Labels data)"
    by (simp add: foldE_insert_label [OF fold] filter_map comp_def label_row_of_def)
  moreover have "sql_row (\<lambda>r. cl_client_id r = ?sid) (t_clients d') = Inr ?row"
    using new by (simp add: foldE_insert_label [OF fold] sql_row_eq_Inr find_append
        find_key_None [THEN iffD2])
  ultimately show ?thesis
    using assms(3,4)
    by (simp add: GetClientData_def runInTx_def Let_def label_row_of_def comp_def label_eta)
qed

section \<open>Contacts\<close>

lemma foldE_link:
  assumes "\<And>i. i \<in> set is \<Longrightarrow> link_fk c (MessageID_String i) d" and "unat c < 2 ^ 63"
    and "distinct (map MessageID_String is)"
    and "\<And>i. i \<in> set is \<Longrightarrow> (c, MessageID_String i) \<notin> set (t_contact_messages d)"
  shows "\<exists>d'. foldE (\<lambda>i d. ebind (sql_u64 c) (\<lambda>c.
              ebind (sql_insert (\<lambda>x. x) (link_fk c (MessageID_String i) d) (c, MessageID_String i)
                (t_contact_messages d)) (\<lambda>cm. Inr (d\<lparr>t_contact_messages := cm\<rparr>)))) is d = Inr d'"
  using assms(1,3,4)
proof (induction "is" arbitrary: d)
  case (Cons i rest)
  have one: "ebind (sql_u64 c) (\<lambda>c. ebind (sql_insert (\<lambda>x. x) (link_fk c (MessageID_String i) d) (c, MessageID_String i)
                (t_contact_messages d)) (\<lambda>cm. Inr (d\<lparr>t_contact_messages := cm\<rparr>))) =
      Inr (d\<lparr>t_contact_messages := t_contact_messages d @ [(c, MessageID_String i)]\<rparr>)"
    using Cons.prems assms(2) by (simp add: sql_insert_def)
  have "MessageID_String j \<noteq> MessageID_String i" if "j \<in> set rest" for j
    using Cons.prems(2) that by (metis distinct.simps(2) imageI list.simps(9) set_map)
  then show ?case
    unfolding foldE.simps one ebind_simps
    by (intro Cons.IH) (use Cons.prems in \<open>auto\<close>)
qed simp

text \<open>
  The contact id \<^verbatim>\<open>RecordClientContact\<close> returns identifies the new contact: linking any set of
  stored messages to it succeeds (as long as the contact table has not outgrown the driver's 63-bit
  integers).
\<close>

lemma RecordClientContact_linkable:
  assumes "RecordClientContact e data d = (Inr contact, d1)" and "clients_ok d"
    and "next_contact_id d < 2 ^ 63" and "distinct (map MessageID_String ids)"
    and "MessageID_String ` set ids \<subseteq> messageID ` set (t_messages d)"
    and "begin_err e' = None" and "commit_err e' = None"
  shows "fst (LinkMessagesToContact e' contact ids d1) = Inr ()"
proof -
  let ?c = "word_of_nat (next_contact_id d) :: u64"
  have unat_c: "unat ?c = next_contact_id d" using assms(3) by (simp add: unat_of_nat)
  from runInTx_success [OF assms(1) [unfolded RecordClientContact_def]]
  have d1: "contact = FormatUint16 ?c" "t_messages d1 = t_messages d" "t_contact_messages d1 = t_contact_messages d"
    "cc_id ` set (t_client_contacts d1) = insert (next_contact_id d) (cc_id ` set (t_client_contacts d))"
    by (auto simp: Let_def sql_insert_eq_Inr)
  have "(?c, i) \<notin> set (t_contact_messages d)" for i
  proof
    assume "(?c, i) \<in> set (t_contact_messages d)"
    then have "link_fk ?c i d" using assms(2) by (auto simp: clients_ok_def list_all_iff)
    then show False using next_contact_id_fresh [of d] unat_c by (simp add: link_fk_def)
  qed
  then obtain d2 where "foldE (\<lambda>i d. ebind (sql_u64 ?c) (\<lambda>c.
              ebind (sql_insert (\<lambda>x. x) (link_fk c (MessageID_String i) d) (c, MessageID_String i)
                (t_contact_messages d)) (\<lambda>cm. Inr (d\<lparr>t_contact_messages := cm\<rparr>)))) ids d1 = Inr d2"
    using foldE_link [of ids ?c d1] assms(3,4,5) d1 unat_c by (auto simp: link_fk_def image_subset_iff)
  then show ?thesis
    using assms(6,7) by (simp add: LinkMessagesToContact_def d1(1) runInTx_def)
qed

section \<open>A concrete client\<close>

definition demo_data :: ClientData where
  "demo_data = \<lparr>cd_Key = [1, 2], cd_Labels = [\<lparr>lbl_service = ''client'', lbl_label = ''linux''\<rparr>],
     cd_Blacklisted = False\<rparr>"

definition demo_clients :: sqldb where
  "demo_clients = snd (AddClient demo_env demo_client demo_data demo_db)"

lemma demo_add: "AddClient demo_env demo_client demo_data demo_db = (Inr (), demo_clients)"
proof -
  have "fst (AddClient demo_env demo_client demo_data demo_db) = Inr ()" by code_simp
  then show ?thesis by (simp add: prod_eq_iff demo_clients_def)
qed

lemma demo_db_clients_ok: "clients_ok demo_db"
  by code_simp

lemma demo_clients_ok: "clients_ok demo_clients"
  unfolding demo_clients_def by (rule clients_ok_AddClient [OF demo_db_clients_ok])

lemma demo_env_no_fault [simp]: "begin_err demo_env = None" "commit_err demo_env = None"
  by (simp_all add: demo_env_def)

lemma GetClientData_AddClient_instance:
  "\<exists>cd. GetClientData demo_env demo_client demo_clients = (Inr cd, demo_clients) \<and> cd_Key cd = [1, 2]"
  using GetClientData_AddClient [OF demo_add demo_db_clients_ok demo_env_no_fault]
  by (auto simp: demo_data_def)

definition demo_contact :: dbContactData where
  "demo_contact = \<lparr>con_ClientID = demo_client, con_NonceSent = 5, con_NonceReceived = 6,
     con_Addr = ''127.0.0.1'', con_ClientClock = None, con_StreamingTo = [], con_Labels = []\<rparr>"

lemma RecordClientContact_linkable_instance:
  "fst (LinkMessagesToContact demo_env ''1'' [MessageID (replicate 32 1)]
     (snd (RecordClientContact demo_env demo_contact demo_clients))) = Inr ()"
proof (rule RecordClientContact_linkable [OF _ demo_clients_ok])
  have "fst (RecordClientContact demo_env demo_contact demo_clients) = Inr ''1''" by code_simp
  then show "RecordClientContact demo_env demo_contact demo_clients =
    (Inr ''1'', snd (RecordClientContact demo_env demo_contact demo_clients))" by (simp add: prod_eq_iff)
  show "MessageID_String ` set [MessageID (replicate 32 1)] \<subseteq> messageID ` set (t_messages demo_clients)"
    by code_simp
  have "next_contact_id demo_clients = 1" by code_simp
  then show "next_contact_id demo_clients < 2 ^ 63" by simp
qed simp_all

end
