(* ===== verification/Broadcast_Alloc.thy ===== *)
theory Broadcast_Alloc
  imports Proto
begin

text \<open>
  The allocation arithmetic of \<^verbatim>\<open>fleetspeak/src/server/db/store.go\<close>
  (\<^verbatim>\<open>ComputeBroadcastAllocation\<close> and its clean-up) and \<^verbatim>\<open>LabelsEqual\<close>.

  The counters are 64-bit words. The one floating-point step,
  \<^verbatim>\<open>uint64(float32(messageLimit-a) * frac)\<close>, is computed exactly: a non-negative
  \<^verbatim>\<open>float32\<close> is a pair of a mantissa of at most 24 bits and a binary exponent, conversion from an
  integer and multiplication round to nearest, ties to even, and conversion to \<^verbatim>\<open>uint64\<close>
  truncates. Subnormal products are not represented as such; they are below one and truncate to
  zero either way. A product of $2^{64}$ or more, where Go leaves the conversion to the
  implementation, wraps here; the caller caps the value in any case.
\<close>

section \<open>Single-precision arithmetic\<close>

datatype f32 = F32 (mantissa: int) (exponent: int)

function bitlen :: "int \<Rightarrow> nat" where
  "bitlen n = (if n \<le> 0 then 0 else Suc (bitlen (n div 2)))"
  by auto
termination by (relation "measure nat") auto

declare bitlen.simps [simp del]

definition round_f32 :: "int \<Rightarrow> int \<Rightarrow> f32" where
  "round_f32 m e = (let k = bitlen m - 24 in
     if k = 0 then F32 m e
     else let q = m div 2 ^ k; r = m mod 2 ^ k; half = 2 ^ (k - 1) in
       F32 (if r > half \<or> (r = half \<and> odd q) then q + 1 else q) (e + int k))"

definition f32_of_u64 :: "u64 \<Rightarrow> f32" where
  "f32_of_u64 w = round_f32 (uint w) 0"

definition f32_mul :: "f32 \<Rightarrow> f32 \<Rightarrow> f32" where
  "f32_mul x y = round_f32 (mantissa x * mantissa y) (exponent x + exponent y)"

definition u64_of_f32 :: "f32 \<Rightarrow> u64" where
  "u64_of_f32 x = (if exponent x \<ge> 0 then word_of_int (mantissa x * 2 ^ nat (exponent x))
     else word_of_int (mantissa x div 2 ^ nat (- exponent x)))"

text \<open>\<^verbatim>\<open>float32(0.2)\<close>, the fraction the broadcast manager asks for.\<close>

definition f32_0_2 :: f32 where
  "f32_0_2 = F32 13421773 (- 26)"

section \<open>Allocations\<close>

definition BroadcastDisabled :: u64 where
  "BroadcastDisabled = 0"

definition BroadcastUnlimited :: u64 where
  "BroadcastUnlimited = 9223372036854775807"

definition ComputeBroadcastAllocation :: "u64 \<Rightarrow> u64 \<Rightarrow> u64 \<Rightarrow> f32 \<Rightarrow> u64 \<times> u64" where
  "ComputeBroadcastAllocation messageLimit allocated sent frac =
     (if messageLimit = BroadcastUnlimited then (BroadcastUnlimited, allocated)
      else let a = allocated;
               a = (if sent > a then sent else a)
           in if a > messageLimit then (0, allocated)
              else let toAllocate = u64_of_f32 (f32_mul (f32_of_u64 (messageLimit - a)) frac);
                       toAllocate = (if toAllocate = 0 then 1 else toAllocate);
                       toAllocate = (if toAllocate > messageLimit - a then messageLimit - a else toAllocate);
                       newAllocated = toAllocate + allocated
                   in (toAllocate, newAllocated))"

definition ComputeBroadcastAllocationCleanup :: "u64 \<Rightarrow> u64 \<Rightarrow> error + u64" where
  "ComputeBroadcastAllocationCleanup allocationLimit allocated =
     (if allocationLimit = BroadcastUnlimited then Inr allocated
      else if allocationLimit > allocated
           then Inl (Err ''allocationLimit = %v, which is larger than allocated = %v'')
      else Inr (allocated - allocationLimit))"

definition LabelsEqual :: "Label list \<Rightarrow> Label list \<Rightarrow> bool" where
  "LabelsEqual l1 l2 \<longleftrightarrow> length l1 = length l2 \<and>
     (\<lambda>l. (lbl_service l, lbl_label l)) ` set l1 = (\<lambda>l. (lbl_service l, lbl_label l)) ` set l2"

lemma CBA_bounds:
  assumes "messageLimit \<noteq> BroadcastUnlimited"
    and "ComputeBroadcastAllocation messageLimit allocated sent frac = (n, newAllocated)"
  shows "unat n \<le> unat messageLimit - max (unat allocated) (unat sent)
    \<and> unat newAllocated = unat allocated + unat n
    \<and> (max allocated sent < messageLimit \<longrightarrow> 0 < n)"
proof (cases "max allocated sent > messageLimit")
  case True
  with assms show ?thesis
    by (auto simp: ComputeBroadcastAllocation_def Let_def max_def word_less_nat_alt split: if_splits)
next
  case False
  define a where "a = max allocated sent"
  define x where "x = u64_of_f32 (f32_mul (f32_of_u64 (messageLimit - a)) frac)"
  have a: "(if sent > allocated then sent else allocated) = a" by (auto simp: a_def max_def)
  have le: "a \<le> messageLimit" using False by (simp add: a_def not_less)
  then have sub: "unat (messageLimit - a) = unat messageLimit - unat a" by (simp add: unat_sub)
  have ua: "unat a = max (unat allocated) (unat sent)"
    by (auto simp: a_def max_def word_le_nat_alt)
  have n: "n = (if (if x = 0 then 1 else x) > messageLimit - a then messageLimit - a else if x = 0 then 1 else x)"
    and new: "newAllocated = n + allocated"
    using assms False by (auto simp: ComputeBroadcastAllocation_def Let_def a x_def a_def [symmetric])
  have "(if c > y then y else c) \<le> y" for c y :: u64 by (simp add: not_less)
  then have n_le: "n \<le> messageLimit - a" unfolding n by blast
  then have bound: "unat n \<le> unat messageLimit - unat a" using sub by (simp add: word_le_nat_alt)
  have "unat messageLimit < 2 ^ 64" using unsigned_less [of messageLimit] by simp
  then have "unat n + unat allocated < 2 ^ 64" using bound ua le by (auto simp: word_le_nat_alt)
  then have "unat newAllocated = unat n + unat allocated"
    unfolding new by (subst unat_add_lem [symmetric]) simp
  moreover have "0 < n" if "a < messageLimit"
  proof -
    have "0 < messageLimit - a" using that sub by (simp add: word_less_nat_alt)
    then show ?thesis using n by (auto simp: word_gt_0)
  qed
  ultimately show ?thesis using bound ua a_def by simp
qed

text \<open>
  A new allocation of a limited broadcast never reaches beyond the limit: it is at most what the
  larger of the sent and the allocated count leaves, the new total is the old total plus the
  allocation without wrapping, and as long as something is left at least one message is allocated.
\<close>

lemma ComputeBroadcastAllocation_bounds:
  assumes "messageLimit \<noteq> BroadcastUnlimited"
    and "ComputeBroadcastAllocation messageLimit allocated sent frac = (n, newAllocated)"
  shows "unat n \<le> unat messageLimit - max (unat allocated) (unat sent)
    \<and> unat newAllocated = unat allocated + unat n
    \<and> (max allocated sent < messageLimit \<longrightarrow> 0 < n)"
  using assms by (rule CBA_bounds)

lemma ComputeBroadcastAllocation_bounds_instance:
  "unat (2 :: u64) \<le> unat (10 :: u64) - max (unat (0 :: u64)) (unat (0 :: u64))
   \<and> (0 :: u64) < 2"
proof -
  have "ComputeBroadcastAllocation 10 0 0 f32_0_2 = (2, 2)" by code_simp
  from ComputeBroadcastAllocation_bounds [OF _ this] show ?thesis by (simp add: BroadcastUnlimited_def)
qed

lemma CBA_Unlimited [simp]:
  "ComputeBroadcastAllocation BroadcastUnlimited allocated sent frac = (BroadcastUnlimited, allocated)"
  by (simp add: ComputeBroadcastAllocation_def)

lemma CBA_limited:
  assumes "messageLimit < BroadcastUnlimited"
    and "ComputeBroadcastAllocation messageLimit allocated sent frac = (n, newAllocated)"
  shows "n < BroadcastUnlimited"
proof -
  have "unat n \<le> unat messageLimit" using CBA_bounds [OF _ assms(2)] assms(1) by fastforce
  then show ?thesis using assms(1) by (simp add: word_less_nat_alt)
qed

text \<open>
  Cleaning up an allocation undoes its creation, for every limit the database can hold: the
  total number allocated returns to what it was.
\<close>

lemma ComputeBroadcastAllocationCleanup_inverse:
  assumes "messageLimit \<le> BroadcastUnlimited"
    and "ComputeBroadcastAllocation messageLimit allocated sent frac = (n, newAllocated)"
  shows "ComputeBroadcastAllocationCleanup n newAllocated = Inr allocated"
proof (cases "messageLimit = BroadcastUnlimited")
  case True
  with assms show ?thesis by (simp add: ComputeBroadcastAllocationCleanup_def)
next
  case False
  with assms(1) have "messageLimit < BroadcastUnlimited" by (rule le_neq_trans)
  then have lim: "n < BroadcastUnlimited" using assms(2) by (rule CBA_limited)
  have sum: "unat newAllocated = unat allocated + unat n" using CBA_bounds [OF False assms(2)] by simp
  then have "n \<le> newAllocated" by (simp add: word_le_nat_alt)
  moreover have "unat (newAllocated - n) = unat allocated"
    unfolding unat_sub [OF \<open>n \<le> newAllocated\<close>] sum by simp
  then have "newAllocated - n = allocated" by (simp only: word_unat_eq_iff)
  ultimately show ?thesis
    using lim by (auto simp: ComputeBroadcastAllocationCleanup_def)
qed

lemma ComputeBroadcastAllocationCleanup_inverse_instance:
  "ComputeBroadcastAllocationCleanup 2 5 = Inr 3"
proof -
  have "ComputeBroadcastAllocation 13 3 0 f32_0_2 = (2, 5)" by code_simp
  from ComputeBroadcastAllocationCleanup_inverse [OF _ this] show ?thesis by (simp add: BroadcastUnlimited_def)
qed

end
