(* ===== verification/Sqlite_Broadcasts.thy ===== *)
theory Sqlite_Broadcasts
  imports Sqlite_Clients Broadcast_Alloc
begin

text \<open>
  \<^verbatim>\<open>fleetspeak/src/server/sqlite/broadcaststore.go\<close>: broadcasts, the allocations servers take of
  their limits, and which client got which broadcast.

  The random allocation id is an argument of \<open>CreateAllocation\<close>. The invariant \<open>broadcasts_ok\<close> ties
  the counters of a broadcast to its allocation rows and to the rows of \<^verbatim>\<open>broadcast_sent\<close>.
\<close>

section \<open>Operations\<close>

definition fromBroadcastProto :: "Broadcast option \<Rightarrow> error + broadcast_row" where
  "fromBroadcastProto bo = (case bo of None \<Rightarrow> Inl (Err ''cannot convert nil Broadcast'')
     | Some b \<Rightarrow> ebind (BytesToBroadcastID (BroadcastId b)) (\<lambda>i.
         (case b_Source b of None \<Rightarrow> Inl (Err ''Broadcast must have Source'')
          | Some src \<Rightarrow> Inr
             \<lparr>br_broadcast_id = BroadcastID_String i,
              br_source_service_name = ServiceName src,
              br_destination_service_name = map_option ServiceName (b_Destination b),
              br_message_type = b_MessageType b,
              br_expiration_time_seconds = map_option Seconds (ExpirationTime b),
              br_expiration_time_nanos = map_option Nanos (ExpirationTime b),
              br_data_type_url = map_option TypeUrl (b_Data b),
              br_data_value = (case b_Data b of None \<Rightarrow> [] | Some a \<Rightarrow> Value a),
              br_sent = 0, br_allocated = 0, br_message_limit = 0\<rparr>)))"

definition toBroadcastProto :: "broadcast_row \<Rightarrow> error + Broadcast" where
  "toBroadcastProto r =
     ebind (StringToBroadcastID (br_broadcast_id r)) (\<lambda>bid. Inr
       \<lparr>BroadcastId = BroadcastID_Bytes bid,
        b_Source = Some \<lparr>ClientId = None, ServiceName = br_source_service_name r\<rparr>,
        b_Destination = map_option (\<lambda>s. \<lparr>ClientId = None, ServiceName = s\<rparr>) (br_destination_service_name r),
        b_MessageType = br_message_type r,
        RequiredLabels = [],
        ExpirationTime = (case (br_expiration_time_seconds r, br_expiration_time_nanos r) of
           (Some s, Some n) \<Rightarrow> Some \<lparr>Seconds = s, Nanos = n\<rparr> | _ \<Rightarrow> None),
        b_Data = map_option (\<lambda>u. \<lparr>TypeUrl = u, Value = br_data_value r\<rparr>) (br_data_type_url r),
        GroupName = []\<rparr>)"

definition broadcast_ids :: "sqldb \<Rightarrow> string set" where
  "broadcast_ids d = set (map br_broadcast_id (t_broadcasts d))"

definition insert_broadcast_label :: "string \<Rightarrow> Label \<Rightarrow> sqldb \<Rightarrow> error + sqldb" where
  "insert_broadcast_label bid l d =
     ebind (sql_insert (\<lambda>r. r) (bid \<in> broadcast_ids d)
        \<lparr>l_client_id = bid, l_service_name = lbl_service l, l_label = lbl_label l\<rparr> (t_broadcast_labels d)) (\<lambda>ls.
       Inr (d\<lparr>t_broadcast_labels := ls\<rparr>))"

definition CreateBroadcast :: "env \<Rightarrow> Broadcast option \<Rightarrow> u64 \<Rightarrow> unit dbop" where
  "CreateBroadcast e bo limit d = (case fromBroadcastProto bo of
       Inl x \<Rightarrow> (Inl x, d)
     | Inr dbB \<Rightarrow> (case bo of None \<Rightarrow> (Inl (Fatal ''unreachable''), d) | Some b \<Rightarrow>
         runInTx e (\<lambda>d.
           if GroupName b \<noteq> [] then Inl ErrNotSupported
           else ebind (sql_u64 limit) (\<lambda>limit.
             ebind (sql_insert br_broadcast_id True (dbB\<lparr>br_message_limit := limit\<rparr>) (t_broadcasts d)) (\<lambda>bs.
             ebind (foldE (insert_broadcast_label (br_broadcast_id dbB)) (RequiredLabels b)
                (d\<lparr>t_broadcasts := bs\<rparr>)) (\<lambda>d'. Inr ((), d'))))) d))"

text \<open>The statement is \<^verbatim>\<open>UPDATE broadcasts(message_limit) VALUES(?) WHERE ...\<close>, which no SQL engine parses.\<close>

definition SetBroadcastLimit :: "env \<Rightarrow> BroadcastID \<Rightarrow> u64 \<Rightarrow> unit dbop" where
  "SetBroadcastLimit e i limit = runInTx e (\<lambda>d.
     ebind (sql_u64 limit) (\<lambda>_. Inl (SqlErr ''near (: syntax error'')))"

definition disableOne :: "BroadcastID \<Rightarrow> sqldb \<Rightarrow> error + sqldb" where
  "disableOne bID d =
     (let bid = BroadcastID_String bID;
          allocs = filter (\<lambda>a. al_broadcast_id a = bid) (t_allocations d);
          totalSent = sum_list (map al_sent allocs);
          totalLimit = sum_list (map al_message_limit allocs);
          d = d\<lparr>t_allocations := filter (\<lambda>a. al_broadcast_id a \<noteq> bid) (t_allocations d)\<rparr>
      in (case sql_row (\<lambda>r. br_broadcast_id r = bid) (t_broadcasts d) of
            Inl _ \<Rightarrow> Inr d
          | Inr b \<Rightarrow>
              (let newAllocated = (if br_allocated b \<ge> totalLimit then br_allocated b - totalLimit else 0)
               in ebind (sql_u64 (br_sent b + totalSent)) (\<lambda>s. ebind (sql_u64 newAllocated) (\<lambda>na.
                    Inr (d\<lparr>t_broadcasts := update_where (\<lambda>r. br_broadcast_id r = bid)
                      (\<lambda>r. r\<lparr>br_message_limit := 0, br_sent := s, br_allocated := na\<rparr>) (t_broadcasts d)\<rparr>))))))"

definition tryDisableBroadcasts :: "BroadcastID list \<Rightarrow> unit tx" where
  "tryDisableBroadcasts bIDs d = ebind (foldE disableOne bIDs d) (\<lambda>d'. Inr ((), d'))"

definition DisableBroadcasts :: "env \<Rightarrow> BroadcastID list \<Rightarrow> unit dbop" where
  "DisableBroadcasts e bIDs d = (if length bIDs = 0 then (Inr (), d)
     else runInTx e (tryDisableBroadcasts bIDs) d)"

text \<open>\<^verbatim>\<open>INSERT INTO broadcast_sent\<close>.\<close>

definition insert_sent :: "BroadcastID \<Rightarrow> ClientID \<Rightarrow> sqldb \<Rightarrow> error + sqldb" where
  "insert_sent bID cID d =
     ebind (sql_insert (\<lambda>x. x) (BroadcastID_String bID \<in> broadcast_ids d \<and> ClientID_String cID \<in> client_ids d)
        (BroadcastID_String bID, ClientID_String cID) (t_broadcast_sent d)) (\<lambda>bs.
       Inr (d\<lparr>t_broadcast_sent := bs\<rparr>))"

definition alloc_key :: "alloc_row \<Rightarrow> string \<times> string" where
  "alloc_key a = (al_broadcast_id a, al_allocation_id a)"

definition SaveBroadcastMessage ::
  "env \<Rightarrow> codec \<Rightarrow> Message \<Rightarrow> BroadcastID \<Rightarrow> ClientID \<Rightarrow> AllocationID \<Rightarrow> unit dbop" where
  "SaveBroadcastMessage e cd msg bID cID aID d =
     (case fromMessageProto cd msg of
        Inl x \<Rightarrow> (Inl x, d)
      | Inr dbm \<Rightarrow> runInTx e (\<lambda>d.
          ebind (tryStoreMessage e dbm True d) (\<lambda>(_, d).
          if length (AllocationID_Bytes aID) = 0 then
            (case sql_row (\<lambda>r. br_broadcast_id r = BroadcastID_String bID) (t_broadcasts d) of
               Inl _ \<Rightarrow> Inl ErrBroadcastDisabled
             | Inr b \<Rightarrow> if br_message_limit b = 0 then Inl ErrBroadcastDisabled
                 else ebind (insert_sent bID cID d) (\<lambda>d. Inr ((), d)))
          else (case sql_row (\<lambda>a. alloc_key a = (BroadcastID_String bID, AllocationID_String aID)) (t_allocations d) of
               Inl _ \<Rightarrow> Inl ErrBroadcastDisabled
             | Inr a \<Rightarrow>
                 if al_sent a \<ge> al_message_limit a then Inl (Err ''broadcast allocation is full'')
                 else (let ts = \<lparr>Seconds = al_expiration_time_seconds a, Nanos = al_expiration_time_nanos a\<rparr>
                   in case CheckValid (Some ts) of
                      Inl _ \<Rightarrow> Inl (Err ''unable to convert expiry to time'')
                    | Inr ts \<Rightarrow>
                      if Now e > AsTime ts then Inl (Err ''broadcast allocation is expired'')
                      else ebind (insert_sent bID cID d) (\<lambda>d.
                           ebind (sql_u64 (al_sent a + 1)) (\<lambda>s.
                           Inr ((), d\<lparr>t_allocations := update_where
                             (\<lambda>r. alloc_key r = (BroadcastID_String bID, AllocationID_String aID))
                             (\<lambda>r. r\<lparr>al_sent := s\<rparr>) (t_allocations d)\<rparr>))))))) d)"

record BroadcastInfo =
  bi_Broadcast :: Broadcast
  bi_Sent :: u64
  bi_Limit :: u64

record AllocationInfo =
  ai_ID :: AllocationID
  ai_Limit :: u64
  ai_Expiry :: gotime

definition broadcast_active :: "Timestamp \<Rightarrow> broadcast_row \<Rightarrow> bool" where
  "broadcast_active now r \<longleftrightarrow> br_sent r < br_message_limit r \<and>
     (case br_expiration_time_seconds r of None \<Rightarrow> True
      | Some s \<Rightarrow> s > Seconds now \<or> (s = Seconds now \<and>
          (case br_expiration_time_nanos r of None \<Rightarrow> False | Some n \<Rightarrow> n > Nanos now)))"

definition ListActiveBroadcasts :: "env \<Rightarrow> BroadcastInfo list dbop" where
  "ListActiveBroadcasts e = runInTx e (\<lambda>d.
     ebind (mapE (\<lambda>r. ebind (toBroadcastProto r) (\<lambda>bp.
         Inr \<lparr>bi_Broadcast = bp, bi_Sent = br_sent r, bi_Limit = br_message_limit r\<rparr>))
       (filter (broadcast_active (NowProto e)) (t_broadcasts d))) (\<lambda>ret.
     ebind (mapE (\<lambda>i. ebind (BytesToBroadcastID (BroadcastId (bi_Broadcast i))) (\<lambda>bid.
         Inr (i\<lparr>bi_Broadcast := (bi_Broadcast i)\<lparr>RequiredLabels :=
           map (\<lambda>l. \<lparr>lbl_service = l_service_name l, lbl_label = l_label l\<rparr>)
             (filter (\<lambda>l. l_client_id l = BroadcastID_String bid) (t_broadcast_labels d))\<rparr>\<rparr>))) ret) (\<lambda>ret.
       Inr (ret, d))))"

definition ListSentBroadcasts :: "ClientID \<Rightarrow> BroadcastID list dbop" where
  "ListSentBroadcasts i d =
     (mapE (\<lambda>(b, _). case StringToBroadcastID b of
           Inl _ \<Rightarrow> Inl (Err ''ListSentBroadcasts: bad broadcast id for client'')
         | Inr bid \<Rightarrow> Inr bid)
        (filter (\<lambda>(_, c). c = ClientID_String i) (t_broadcast_sent d)), d)"

definition insertAllocation ::
  "string \<Rightarrow> AllocationID \<Rightarrow> Timestamp \<Rightarrow> gotime \<Rightarrow> u64 \<Rightarrow> u64 \<Rightarrow> AllocationInfo option tx" where
  "insertAllocation bid aid ep expiry toAllocate newAllocated d =
     ebind (sql_u64 newAllocated) (\<lambda>na.
     ebind (sql_u64 toAllocate) (\<lambda>ta.
     ebind (sql_insert alloc_key (bid \<in> broadcast_ids d)
        \<lparr>al_broadcast_id = bid, al_allocation_id = AllocationID_String aid, al_sent = 0,
         al_message_limit = ta, al_expiration_time_seconds = Seconds ep,
         al_expiration_time_nanos = Nanos ep\<rparr> (t_allocations d)) (\<lambda>as.
       Inr (Some \<lparr>ai_ID = aid, ai_Limit = ta, ai_Expiry = expiry\<rparr>,
         d\<lparr>t_broadcasts := update_where (\<lambda>r. br_broadcast_id r = bid)
             (\<lambda>r. r\<lparr>br_allocated := na\<rparr>) (t_broadcasts d),
           t_allocations := as\<rparr>))))"

definition CreateAllocation ::
  "env \<Rightarrow> error + bytes \<Rightarrow> BroadcastID \<Rightarrow> f32 \<Rightarrow> gotime \<Rightarrow> AllocationInfo option dbop" where
  "CreateAllocation e rnd i frac expiry = runInTx e (\<lambda>d.
     let bid = BroadcastID_String i in
     ebind (CheckValid (Some (tspb_New expiry))) (\<lambda>ep.
     ebind (RandomAllocationID rnd) (\<lambda>aid.
     ebind (sql_row (\<lambda>r. br_broadcast_id r = bid) (t_broadcasts d)) (\<lambda>b.
     case ComputeBroadcastAllocation (br_message_limit b) (br_allocated b) (br_sent b) frac of
       (toAllocate, newAllocated) \<Rightarrow>
         if toAllocate = 0 then Inr (None, d)
         else insertAllocation bid aid ep expiry toAllocate newAllocated d))))"

definition CleanupAllocation :: "env \<Rightarrow> BroadcastID \<Rightarrow> AllocationID \<Rightarrow> u64 \<Rightarrow> unit dbop" where
  "CleanupAllocation e bID aID finalSent = runInTx e (\<lambda>d.
     let bid = BroadcastID_String bID; key = (bid, AllocationID_String aID) in
     ebind (sql_row (\<lambda>r. br_broadcast_id r = bid) (t_broadcasts d)) (\<lambda>b.
     if length (AllocationID_Bytes aID) = 0 then
       ebind (sql_u64 (br_sent b + finalSent)) (\<lambda>s.
         Inr ((), d\<lparr>t_broadcasts := update_where (\<lambda>r. br_broadcast_id r = bid)
           (\<lambda>r. r\<lparr>br_sent := s\<rparr>) (t_broadcasts d)\<rparr>))
     else (case sql_row (\<lambda>a. alloc_key a = key) (t_allocations d) of
         Inl _ \<Rightarrow> Inr ((), d)
       | Inr a \<Rightarrow> (case ComputeBroadcastAllocationCleanup (al_message_limit a) (br_allocated b) of
           Inl _ \<Rightarrow> Inl (Err ''unable to clear allocation'')
         | Inr newAllocated \<Rightarrow>
             ebind (sql_u64 (br_sent b + finalSent)) (\<lambda>s. ebind (sql_u64 newAllocated) (\<lambda>na.
               Inr ((), d\<lparr>t_broadcasts := update_where (\<lambda>r. br_broadcast_id r = bid)
                     (\<lambda>r. r\<lparr>br_sent := s, br_allocated := na\<rparr>) (t_broadcasts d),
                   t_allocations := filter (\<lambda>a. alloc_key a \<noteq> key) (t_allocations d)\<rparr>)))))))"

section \<open>The counters of one broadcast\<close>

lemma unat_u64_less: "unat (w :: u64) < 2 ^ 64"
  using unsigned_less [of w, where 'a = nat] by simp

text \<open>
  For a broadcast row \<open>b\<close>, its allocation rows \<open>as\<close> and the number \<open>n\<close> of clients it was sent to:
  what is allocated is the sum of the allocations' limits and within the broadcast's limit; what
  was sent is counted either in the row or in an allocation; and since an allocation is only granted
  up to the larger of the sent and the allocated count, their sum stays within twice the limit.
\<close>

definition alloc_sum :: "(alloc_row \<Rightarrow> u64) \<Rightarrow> alloc_row list \<Rightarrow> nat" where
  "alloc_sum f as = sum_list (map (\<lambda>a. unat (f a)) as)"

definition counters_ok :: "broadcast_row \<Rightarrow> alloc_row list \<Rightarrow> nat \<Rightarrow> bool" where
  "counters_ok b as n \<longleftrightarrow> br_message_limit b \<le> BroadcastUnlimited \<and> br_sent b \<le> BroadcastUnlimited
     \<and> list_all (\<lambda>a. al_sent a \<le> al_message_limit a) as
     \<and> (if br_message_limit b = BroadcastUnlimited
        then br_allocated b = 0 \<and> list_all (\<lambda>a. al_message_limit a = BroadcastUnlimited) as
        else list_all (\<lambda>a. al_message_limit a < BroadcastUnlimited) as
          \<and> unat (br_allocated b) = alloc_sum al_message_limit as
          \<and> br_allocated b \<le> br_message_limit b
          \<and> (br_message_limit b \<noteq> 0 \<longrightarrow> n = unat (br_sent b) + alloc_sum al_sent as
              \<and> unat (br_sent b) + unat (br_allocated b) \<le> 2 * unat (br_message_limit b)))"

lemma alloc_sum_simps [simp]:
  "alloc_sum f [] = 0"
  "alloc_sum f (as @ bs) = alloc_sum f as + alloc_sum f bs"
  "alloc_sum f (a # as) = unat (f a) + alloc_sum f as"
  by (simp_all add: alloc_sum_def)

lemma alloc_sum_mono: "list_all (\<lambda>a. f a \<le> g a) as \<Longrightarrow> alloc_sum f as \<le> alloc_sum g as"
  by (induction as) (auto simp: word_le_nat_alt add_mono)

lemma unat_sum_list_le:
  assumes "alloc_sum f as < 2 ^ 64"
  shows "unat (sum_list (map f as)) = alloc_sum f as"
  using assms
proof (induction as)
  case (Cons a as)
  then have "unat (f a) + unat (sum_list (map f as)) < 2 ^ 64" by simp
  then have "unat (f a + sum_list (map f as)) = unat (f a) + unat (sum_list (map f as))"
    by (subst unat_add_lem [symmetric]) simp
  with Cons show ?case by simp
qed simp

lemma counters_new:
  assumes "br_message_limit b \<le> BroadcastUnlimited" "br_sent b = 0" "br_allocated b = 0"
  shows "counters_ok b [] 0"
  using assms by (simp add: counters_ok_def)

lemma counters_alloc:
  assumes ok: "counters_ok b as n"
    and cba: "ComputeBroadcastAllocation (br_message_limit b) (br_allocated b) (br_sent b) frac = (t, na)"
    and a: "al_sent a = 0" "al_message_limit a = t"
  shows "counters_ok (b\<lparr>br_allocated := na\<rparr>) (as @ [a]) n"
proof (cases "br_message_limit b = BroadcastUnlimited")
  case True
  with cba have "t = BroadcastUnlimited" "na = br_allocated b" by simp_all
  with True ok a show ?thesis by (auto simp: counters_ok_def)
next
  case False
  have lt: "br_message_limit b < BroadcastUnlimited"
    using ok False by (intro le_neq_trans) (simp_all add: counters_ok_def)
  have bounds: "unat t \<le> unat (br_message_limit b) - max (unat (br_allocated b)) (unat (br_sent b))"
    "unat na = unat (br_allocated b) + unat t"
    using CBA_bounds [OF False cba] by simp_all
  have t: "t < BroadcastUnlimited" using CBA_limited [OF lt cba] .
  have "br_allocated b \<le> br_message_limit b" using ok False by (simp add: counters_ok_def)
  then have "na \<le> br_message_limit b" using bounds by (simp add: word_le_nat_alt max_def split: if_splits)
  moreover have "unat (br_sent b) + unat na \<le> 2 * unat (br_message_limit b)"
    if "unat (br_sent b) + unat (br_allocated b) \<le> 2 * unat (br_message_limit b)"
    using that bounds \<open>br_allocated b \<le> br_message_limit b\<close>
    by (simp add: word_le_nat_alt max_def split: if_splits)
  ultimately show ?thesis using ok False a t bounds(2) by (auto simp: counters_ok_def)
qed

text \<open>Sending one message counts in one allocation.\<close>

lemma alloc_sum_update:
  assumes "distinct (map key as)" and "a \<in> set as"
  shows "alloc_sum f (update_where (\<lambda>r. key r = key a) g as) + unat (f a) = alloc_sum f as + unat (f (g a))"
  using assms
proof (induction as)
  case (Cons x xs)
  show ?case
  proof (cases "key x = key a")
    case True
    then have x: "x = a" using Cons.prems by (auto simp: image_iff)
    have "update_where (\<lambda>r. key r = key a) g xs = xs"
    proof -
      have "key r \<noteq> key a" if "r \<in> set xs" for r
        using that Cons.prems(1) x by (auto simp: image_iff)
      then show ?thesis by (simp add: update_where_def cong: map_cong)
    qed
    with x show ?thesis by (simp add: update_where_def)
  next
    case False
    with Cons show ?thesis by (auto simp: update_where_def)
  qed
qed simp

lemma list_all_update_where:
  "list_all P as \<Longrightarrow> (\<And>a. a \<in> set as \<Longrightarrow> p a \<Longrightarrow> P a \<Longrightarrow> P (g a)) \<Longrightarrow> list_all P (update_where p g as)"
  by (auto simp: list_all_iff set_update_where)

lemma counters_save:
  assumes ok: "counters_ok b as n" and key: "distinct (map alloc_key as)" and a: "a \<in> set as"
    and lt: "al_sent a < al_message_limit a"
  shows "counters_ok b (update_where (\<lambda>r. alloc_key r = alloc_key a) (\<lambda>r. r\<lparr>al_sent := al_sent a + 1\<rparr>) as) (n + 1)"
proof -
  let ?as = "update_where (\<lambda>r. alloc_key r = alloc_key a) (\<lambda>r. r\<lparr>al_sent := al_sent a + 1\<rparr>) as"
  have one: "unat (al_sent a + 1) = unat (al_sent a) + 1" using lt by (rule word_less_imp_unat_add1)
  have sums: "alloc_sum al_sent ?as = alloc_sum al_sent as + 1"
    "alloc_sum al_message_limit ?as = alloc_sum al_message_limit as"
    using alloc_sum_update [OF key a, of al_sent "\<lambda>r. r\<lparr>al_sent := al_sent a + 1\<rparr>"]
      alloc_sum_update [OF key a, of al_message_limit "\<lambda>r. r\<lparr>al_sent := al_sent a + 1\<rparr>"] one by simp_all
  have same: "r = a" if "r \<in> set as" "alloc_key r = alloc_key a" for r
    using key a that by (auto simp: distinct_map inj_on_def)
  have "list_all (\<lambda>a. al_sent a \<le> al_message_limit a) ?as"
  proof (rule list_all_update_where)
    fix x
    assume "x \<in> set as" "alloc_key x = alloc_key a"
    then have "x = a" by (rule same)
    with lt one show "al_sent (x\<lparr>al_sent := al_sent a + 1\<rparr>) \<le> al_message_limit (x\<lparr>al_sent := al_sent a + 1\<rparr>)"
      by (simp add: word_le_nat_alt word_less_nat_alt)
  qed (use ok in \<open>simp add: counters_ok_def\<close>)
  moreover have lim: "list_all (\<lambda>a. P (al_message_limit a)) ?as" if "list_all (\<lambda>a. P (al_message_limit a)) as" for P
    using that by (rule list_all_update_where) simp
  ultimately show ?thesis
    using ok lim [of "\<lambda>x. x = BroadcastUnlimited"] lim [of "\<lambda>x. x < BroadcastUnlimited"]
    by (auto simp: counters_ok_def sums)
qed

lemma alloc_sum_remove:
  assumes "distinct (map key as)" and "a \<in> set as"
  shows "alloc_sum f (filter (\<lambda>r. key r \<noteq> key a) as) + unat (f a) = alloc_sum f as"
  using assms
proof (induction as)
  case (Cons x xs)
  show ?case
  proof (cases "key x = key a")
    case True
    then have x: "x = a" using Cons.prems by (auto simp: image_iff)
    have "filter (\<lambda>r. key r \<noteq> key a) xs = xs"
      using Cons.prems(1) x by (auto simp: filter_id_conv image_iff)
    with x show ?thesis by simp
  qed (use Cons in auto)
qed simp

lemma counters_cleanup:
  assumes ok: "counters_ok b as n" and key: "distinct (map alloc_key as)" and a: "a \<in> set as"
    and cl: "ComputeBroadcastAllocationCleanup (al_message_limit a) (br_allocated b) = Inr na"
    and s: "br_sent b + al_sent a \<le> BroadcastUnlimited"
  shows "counters_ok (b\<lparr>br_sent := br_sent b + al_sent a, br_allocated := na\<rparr>)
    (filter (\<lambda>r. alloc_key r \<noteq> alloc_key a) as) n"
proof (cases "br_message_limit b = BroadcastUnlimited")
  case True
  with ok a have "al_message_limit a = BroadcastUnlimited" by (auto simp: counters_ok_def list_all_iff)
  with True ok cl s show ?thesis
    by (auto simp: counters_ok_def ComputeBroadcastAllocationCleanup_def list_all_iff)
next
  case False
  have am: "al_message_limit a < BroadcastUnlimited" "al_sent a \<le> al_message_limit a" "br_sent b \<le> BroadcastUnlimited"
    using ok a False by (auto simp: counters_ok_def list_all_iff)
  with cl have na: "al_message_limit a \<le> br_allocated b" "na = br_allocated b - al_message_limit a"
    by (auto simp: ComputeBroadcastAllocationCleanup_def split: if_splits)
  then have una: "unat na = unat (br_allocated b) - unat (al_message_limit a)" by (simp add: unat_sub)
  have "unat (br_sent b) + unat (al_sent a) < 2 ^ 64"
    using am by (simp add: word_le_nat_alt word_less_nat_alt BroadcastUnlimited_def)
  then have us: "unat (br_sent b + al_sent a) = unat (br_sent b) + unat (al_sent a)"
    by (subst unat_add_lem [symmetric]) simp
  note sums = alloc_sum_remove [OF key a, of al_sent] alloc_sum_remove [OF key a, of al_message_limit]
  show ?thesis
    using ok False s sums una us na(1) am(2)
    by (auto simp: counters_ok_def word_le_nat_alt list_all_iff)
qed

lemma counters_disable:
  assumes ok: "counters_ok b as n"
    and s: "br_sent b + sum_list (map al_sent as) \<le> BroadcastUnlimited"
    and na: "na = (if br_allocated b \<ge> sum_list (map al_message_limit as)
        then br_allocated b - sum_list (map al_message_limit as) else 0)"
  shows "counters_ok (b\<lparr>br_message_limit := 0, br_sent := br_sent b + sum_list (map al_sent as), br_allocated := na\<rparr>) [] n"
proof -
  have "na = 0"
  proof (cases "br_message_limit b = BroadcastUnlimited")
    case True
    with ok na show ?thesis by (auto simp: counters_ok_def)
  next
    case False
    then have sum: "unat (br_allocated b) = alloc_sum al_message_limit as" using ok by (simp add: counters_ok_def)
    then have "alloc_sum al_message_limit as < 2 ^ 64" using unat_u64_less [of "br_allocated b"] by simp
    from unat_sum_list_le [OF this] sum have "sum_list (map al_message_limit as) = br_allocated b"
      by (simp add: word_unat_eq_iff)
    with na show ?thesis by simp
  qed
  with s show ?thesis by (simp add: counters_ok_def BroadcastUnlimited_def)
qed

section \<open>The invariant of the broadcast tables\<close>

definition allocs_of :: "sqldb \<Rightarrow> string \<Rightarrow> alloc_row list" where
  "allocs_of d bid = filter (\<lambda>a. al_broadcast_id a = bid) (t_allocations d)"

definition sent_count :: "sqldb \<Rightarrow> string \<Rightarrow> nat" where
  "sent_count d bid = length (filter (\<lambda>(b, _). b = bid) (t_broadcast_sent d))"

definition broadcasts_ok :: "sqldb \<Rightarrow> bool" where
  "broadcasts_ok d \<longleftrightarrow> distinct (map br_broadcast_id (t_broadcasts d))
     \<and> distinct (map alloc_key (t_allocations d))
     \<and> list_all (\<lambda>a. al_broadcast_id a \<in> broadcast_ids d) (t_allocations d)
     \<and> distinct (t_broadcast_sent d)
     \<and> list_all (\<lambda>(b, c). b \<in> broadcast_ids d) (t_broadcast_sent d)
     \<and> list_all (\<lambda>b. counters_ok b (allocs_of d (br_broadcast_id b)) (sent_count d (br_broadcast_id b)))
         (t_broadcasts d)"

lemma broadcasts_ok_init: "broadcasts_ok initSchema"
  by (simp add: broadcasts_ok_def initSchema_def)

lemma broadcasts_ok_cong:
  assumes "t_broadcasts d' = t_broadcasts d" "t_allocations d' = t_allocations d"
    "t_broadcast_sent d' = t_broadcast_sent d"
  shows "broadcasts_ok d' = broadcasts_ok d"
  using assms by (simp add: broadcasts_ok_def broadcast_ids_def allocs_of_def sent_count_def)

lemma broadcast_ids_cong:
  "map br_broadcast_id (t_broadcasts d') = map br_broadcast_id (t_broadcasts d) \<Longrightarrow> broadcast_ids d' = broadcast_ids d"
  by (simp add: broadcast_ids_def del: set_map)

text \<open>An operation on one broadcast keeps the invariant when it keeps the counters of that broadcast.\<close>

lemma broadcasts_ok_update:
  assumes ok: "broadcasts_ok d"
    and bs: "t_broadcasts d' = update_where (\<lambda>r. br_broadcast_id r = bid) f (t_broadcasts d)"
    and f: "\<And>r. br_broadcast_id (f r) = br_broadcast_id r"
    and allocs: "distinct (map alloc_key (t_allocations d'))"
      "list_all (\<lambda>a. al_broadcast_id a \<in> broadcast_ids d) (t_allocations d')"
      "\<And>i. i \<noteq> bid \<Longrightarrow> allocs_of d' i = allocs_of d i"
    and sent: "distinct (t_broadcast_sent d')"
      "list_all (\<lambda>(b, c). b \<in> broadcast_ids d) (t_broadcast_sent d')"
      "\<And>i. i \<noteq> bid \<Longrightarrow> sent_count d' i = sent_count d i"
    and step: "\<And>b. b \<in> set (t_broadcasts d) \<Longrightarrow> br_broadcast_id b = bid \<Longrightarrow>
      counters_ok b (allocs_of d bid) (sent_count d bid) \<Longrightarrow>
      counters_ok (f b) (allocs_of d' bid) (sent_count d' bid)"
  shows "broadcasts_ok d'"
proof -
  have keys: "map br_broadcast_id (t_broadcasts d') = map br_broadcast_id (t_broadcasts d)"
    unfolding bs by (simp add: f)
  have "counters_ok b (allocs_of d' (br_broadcast_id b)) (sent_count d' (br_broadcast_id b))"
    if "b \<in> set (t_broadcasts d')" for b
  proof -
    from that obtain b0 where b0: "b0 \<in> set (t_broadcasts d)" "b = (if br_broadcast_id b0 = bid then f b0 else b0)"
      unfolding bs update_where_def by auto
    then have "counters_ok b0 (allocs_of d (br_broadcast_id b0)) (sent_count d (br_broadcast_id b0))"
      using ok by (auto simp: broadcasts_ok_def list_all_iff)
    with b0 step allocs(3) sent(3) show ?thesis by (cases "br_broadcast_id b0 = bid") (simp_all add: f)
  qed
  then have "list_all (\<lambda>b. counters_ok b (allocs_of d' (br_broadcast_id b)) (sent_count d' (br_broadcast_id b))) (t_broadcasts d')"
    by (simp add: list_all_iff)
  with ok allocs sent show ?thesis
    unfolding broadcasts_ok_def broadcast_ids_cong [OF keys] keys by simp
qed

lemma BroadcastUnlimited_63: "w \<le> BroadcastUnlimited \<longleftrightarrow> unat w < 2 ^ 63"
  by (auto simp: word_le_nat_alt BroadcastUnlimited_def)

lemma broadcasts_ok_rowD:
  assumes "broadcasts_ok d" and "sql_row (\<lambda>r. br_broadcast_id r = bid) (t_broadcasts d) = Inr b"
  shows "b \<in> set (t_broadcasts d)" "br_broadcast_id b = bid" "bid \<in> broadcast_ids d"
    "\<And>b'. b' \<in> set (t_broadcasts d) \<Longrightarrow> br_broadcast_id b' = bid \<Longrightarrow> b' = b"
proof -
  show b: "b \<in> set (t_broadcasts d)" "br_broadcast_id b = bid"
    using assms(2) by (auto simp: sql_row_eq_Inr dest!: find_SomeD)
  then show "bid \<in> broadcast_ids d" by (auto simp: broadcast_ids_def)
  fix b'
  assume "b' \<in> set (t_broadcasts d)" "br_broadcast_id b' = bid"
  with b assms(1) show "b' = b" by (auto simp: broadcasts_ok_def distinct_map inj_on_def)
qed

lemma broadcasts_ok_CreateAllocation:
  assumes ok: "broadcasts_ok d"
  shows "broadcasts_ok (snd (CreateAllocation e rnd i frac expiry d))"
  unfolding CreateAllocation_def Let_def
proof (rule runInTx_invariant [where P = broadcasts_ok, OF ok], goal_cases)
  case (1 res d')
  let ?bid = "BroadcastID_String i"
  from 1 obtain ep aid b where b: "sql_row (\<lambda>r. br_broadcast_id r = ?bid) (t_broadcasts d) = Inr b"
    and body: "(case ComputeBroadcastAllocation (br_message_limit b) (br_allocated b) (br_sent b) frac of
       (t, na) \<Rightarrow> if t = 0 then Inr (None, d) else insertAllocation ?bid aid ep expiry t na d) = Inr (res, d')"
    unfolding ebind_eq_Inr by blast
  obtain t na where cba: "ComputeBroadcastAllocation (br_message_limit b) (br_allocated b) (br_sent b) frac = (t, na)"
    by (rule prod.exhaust)
  have rest: "t = 0 \<longrightarrow> d' = d" "t \<noteq> 0 \<longrightarrow> insertAllocation ?bid aid ep expiry t na d = Inr (res, d')"
    using body cba by (auto split: if_splits)
  show ?case
  proof (cases "t = 0")
    case True
    with rest ok show ?thesis by simp
  next
    case False
    let ?a = "\<lparr>al_broadcast_id = ?bid, al_allocation_id = AllocationID_String aid, al_sent = 0,
               al_message_limit = t, al_expiration_time_seconds = Seconds ep, al_expiration_time_nanos = Nanos ep\<rparr>"
    from False rest have new: "alloc_key ?a \<notin> alloc_key ` set (t_allocations d)"
      and d': "d' = d\<lparr>t_broadcasts := update_where (\<lambda>r. br_broadcast_id r = ?bid)
                   (\<lambda>r. r\<lparr>br_allocated := na\<rparr>) (t_broadcasts d), t_allocations := t_allocations d @ [?a]\<rparr>"
      by (auto simp: sql_insert_eq_Inr insertAllocation_def)
    note bD = broadcasts_ok_rowD [OF ok b]
    show ?thesis
    proof (rule broadcasts_ok_update [OF ok, of _ ?bid "\<lambda>r. r\<lparr>br_allocated := na\<rparr>"])
      fix b'
      assume "b' \<in> set (t_broadcasts d)" "br_broadcast_id b' = ?bid"
        "counters_ok b' (allocs_of d ?bid) (sent_count d ?bid)"
      with bD(4) cba show "counters_ok (b'\<lparr>br_allocated := na\<rparr>) (allocs_of d' ?bid) (sent_count d' ?bid)"
        by (auto simp: d' allocs_of_def sent_count_def intro!: counters_alloc)
    qed (use ok new bD(3) in \<open>auto simp: d' broadcasts_ok_def allocs_of_def sent_count_def\<close>)
  qed
qed

text \<open>
  The clean-up a server does is that of an allocation with the number of messages it sent under it;
  without an allocation only unlimited broadcasts are cleaned up.
\<close>

definition cleanup_honest :: "sqldb \<Rightarrow> BroadcastID \<Rightarrow> AllocationID \<Rightarrow> u64 \<Rightarrow> bool" where
  "cleanup_honest d bID aID finalSent \<longleftrightarrow>
     (if AllocationID_Bytes aID = []
      then list_all (\<lambda>b. br_broadcast_id b = BroadcastID_String bID \<longrightarrow>
             br_message_limit b = BroadcastUnlimited \<or> br_message_limit b = 0) (t_broadcasts d)
      else list_all (\<lambda>a. alloc_key a = (BroadcastID_String bID, AllocationID_String aID) \<longrightarrow>
             al_sent a = finalSent) (t_allocations d))"

lemma sent_le_63: "sql_u64 x = Inr y \<Longrightarrow> y = x \<and> x \<le> BroadcastUnlimited"
  by (simp add: BroadcastUnlimited_63)

lemma broadcasts_ok_CleanupAllocation:
  assumes ok: "broadcasts_ok d" and honest: "cleanup_honest d bID aID finalSent"
  shows "broadcasts_ok (snd (CleanupAllocation e bID aID finalSent d))"
  unfolding CleanupAllocation_def Let_def
proof (rule runInTx_invariant [where P = broadcasts_ok, OF ok], goal_cases)
  case (1 res d')
  let ?bid = "BroadcastID_String bID"
  let ?key = "(?bid, AllocationID_String aID)"
  from 1 obtain b where b: "sql_row (\<lambda>r. br_broadcast_id r = ?bid) (t_broadcasts d) = Inr b" by auto
  note bD = broadcasts_ok_rowD [OF ok b]
  show ?case
  proof (cases "AllocationID_Bytes aID = []")
    case True
    with 1 b have s: "br_sent b + finalSent \<le> BroadcastUnlimited"
      and d': "d' = d\<lparr>t_broadcasts := update_where (\<lambda>r. br_broadcast_id r = ?bid)
           (\<lambda>r. r\<lparr>br_sent := br_sent b + finalSent\<rparr>) (t_broadcasts d)\<rparr>"
      by (auto simp: BroadcastUnlimited_63)
    have "br_message_limit b = BroadcastUnlimited \<or> br_message_limit b = 0"
      using honest True bD(1,2) by (auto simp: cleanup_honest_def list_all_iff)
    with s show ?thesis
      by (intro broadcasts_ok_update [OF ok, of _ ?bid "\<lambda>r. r\<lparr>br_sent := br_sent b + finalSent\<rparr>"])
        (use ok bD(4) in \<open>auto simp: d' broadcasts_ok_def allocs_of_def sent_count_def counters_ok_def\<close>)
  next
    case False
    show ?thesis
    proof (cases "sql_row (\<lambda>a. alloc_key a = ?key) (t_allocations d)")
      case (Inl x)
      with 1 b False ok show ?thesis by auto
    next
      case (Inr a)
      then have a: "a \<in> set (t_allocations d)" "alloc_key a = ?key"
        by (auto simp: sql_row_eq_Inr dest!: find_SomeD)
      with honest False have fs: "finalSent = al_sent a" by (auto simp: cleanup_honest_def list_all_iff)
      from 1 b False Inr obtain na where
        cl: "ComputeBroadcastAllocationCleanup (al_message_limit a) (br_allocated b) = Inr na"
        and s: "br_sent b + al_sent a \<le> BroadcastUnlimited"
        and d': "d' = d\<lparr>t_broadcasts := update_where (\<lambda>r. br_broadcast_id r = ?bid)
                     (\<lambda>r. r\<lparr>br_sent := br_sent b + al_sent a, br_allocated := na\<rparr>) (t_broadcasts d),
                   t_allocations := filter (\<lambda>a. alloc_key a \<noteq> ?key) (t_allocations d)\<rparr>"
        by (auto simp: BroadcastUnlimited_63 fs split: sum.splits)
      have here: "allocs_of d' ?bid = filter (\<lambda>r. alloc_key r \<noteq> alloc_key a) (allocs_of d ?bid)"
        by (simp add: d' allocs_of_def a(2) conj_commute)
      have aa: "a \<in> set (allocs_of d ?bid)" "distinct (map alloc_key (allocs_of d ?bid))"
        using a ok by (auto simp: allocs_of_def alloc_key_def broadcasts_ok_def distinct_map_filter)
      show ?thesis
      proof (rule broadcasts_ok_update [OF ok, of _ ?bid "\<lambda>r. r\<lparr>br_sent := br_sent b + al_sent a, br_allocated := na\<rparr>"])
        fix b'
        assume "b' \<in> set (t_broadcasts d)" "br_broadcast_id b' = ?bid"
          "counters_ok b' (allocs_of d ?bid) (sent_count d ?bid)"
        moreover from this bD(4) have "b' = b" by blast
        moreover have "sent_count d' ?bid = sent_count d ?bid" by (simp add: d' sent_count_def)
        ultimately show "counters_ok (b'\<lparr>br_sent := br_sent b + al_sent a, br_allocated := na\<rparr>)
            (allocs_of d' ?bid) (sent_count d' ?bid)"
          unfolding here using counters_cleanup [OF _ aa(2,1) cl s] by simp
      next
        fix i
        assume "i \<noteq> ?bid"
        then show "allocs_of d' i = allocs_of d i"
          by (auto simp: d' allocs_of_def alloc_key_def intro: filter_cong)
      qed (use ok in \<open>auto simp: d' broadcasts_ok_def sent_count_def distinct_map_filter list_all_iff\<close>)
    qed
  qed
qed

lemma foldE_insert_broadcast_label_same:
  assumes "foldE (insert_broadcast_label bid) ls d = Inr d'"
  shows "t_broadcasts d' = t_broadcasts d \<and> t_allocations d' = t_allocations d
    \<and> t_broadcast_sent d' = t_broadcast_sent d"
  using assms
  by (rule foldE_invariant [where P = "\<lambda>x. t_broadcasts x = t_broadcasts d \<and> t_allocations x = t_allocations d
      \<and> t_broadcast_sent x = t_broadcast_sent d"]) (auto simp: insert_broadcast_label_def)

lemma fromBroadcastProto_zero:
  "fromBroadcastProto bo = Inr r \<Longrightarrow> br_sent r = 0 \<and> br_allocated r = 0"
  by (auto simp: fromBroadcastProto_def split: option.splits)

lemma broadcasts_ok_insert:
  assumes ok: "broadcasts_ok d" and new: "br_broadcast_id b \<notin> br_broadcast_id ` set (t_broadcasts d)"
    and b: "br_message_limit b \<le> BroadcastUnlimited" "br_sent b = 0" "br_allocated b = 0"
  shows "broadcasts_ok (d\<lparr>t_broadcasts := t_broadcasts d @ [b]\<rparr>)"
proof -
  have new': "br_broadcast_id b \<notin> broadcast_ids d" using new by (simp add: broadcast_ids_def)
  have "al_broadcast_id a \<noteq> br_broadcast_id b" if "a \<in> set (t_allocations d)" for a
    using ok new' that unfolding broadcasts_ok_def list_all_iff by metis
  then have allocs: "allocs_of d (br_broadcast_id b) = []" by (simp add: allocs_of_def filter_empty_conv)
  have "fst p \<noteq> br_broadcast_id b" if "p \<in> set (t_broadcast_sent d)" for p
    using ok new' that unfolding broadcasts_ok_def list_all_iff case_prod_beta by metis
  then have sent: "sent_count d (br_broadcast_id b) = 0"
    by (simp add: sent_count_def filter_empty_conv case_prod_beta)
  let ?d = "d\<lparr>t_broadcasts := t_broadcasts d @ [b]\<rparr>"
  have same: "allocs_of ?d = allocs_of d" "sent_count ?d = sent_count d"
    by (simp_all add: allocs_of_def sent_count_def fun_eq_iff)
  have ids: "broadcast_ids ?d = insert (br_broadcast_id b) (broadcast_ids d)" by (simp add: broadcast_ids_def)
  show ?thesis
    using ok new counters_new [OF b] allocs sent
    unfolding broadcasts_ok_def same ids by (auto simp: list_all_iff)
qed

lemma broadcasts_ok_CreateBroadcast:
  assumes ok: "broadcasts_ok d"
  shows "broadcasts_ok (snd (CreateBroadcast e bo limit d))"
proof (cases "fromBroadcastProto bo")
  case (Inr dbB)
  then obtain b where b: "bo = Some b" by (cases bo) (auto simp: fromBroadcastProto_def)
  show ?thesis
    unfolding CreateBroadcast_def b option.case Inr [unfolded b] sum.case
  proof (rule runInTx_invariant [where P = broadcasts_ok, OF ok], goal_cases)
    case (1 res d')
    then have new: "br_broadcast_id dbB \<notin> br_broadcast_id ` set (t_broadcasts d)" and lim: "limit \<le> BroadcastUnlimited"
      and fold: "foldE (insert_broadcast_label (br_broadcast_id dbB)) (RequiredLabels b)
         (d\<lparr>t_broadcasts := t_broadcasts d @ [dbB\<lparr>br_message_limit := limit\<rparr>]\<rparr>) = Inr d'"
      by (auto simp: sql_insert_eq_Inr BroadcastUnlimited_63 split: if_splits)
    have "broadcasts_ok (d\<lparr>t_broadcasts := t_broadcasts d @ [dbB\<lparr>br_message_limit := limit\<rparr>]\<rparr>)"
      using new lim fromBroadcastProto_zero [OF Inr] by (intro broadcasts_ok_insert [OF ok]) simp_all
    then show ?case using foldE_insert_broadcast_label_same [OF fold] broadcasts_ok_cong by blast
  qed
qed (simp add: CreateBroadcast_def ok)

lemma broadcasts_ok_SetBroadcastLimit:
  "broadcasts_ok d \<Longrightarrow> broadcasts_ok (snd (SetBroadcastLimit e i limit d))"
  unfolding SetBroadcastLimit_def by (rule runInTx_invariant [where P = broadcasts_ok]) auto

lemma broadcasts_ok_disableOne:
  assumes ok: "broadcasts_ok d" and "disableOne bID d = Inr d'"
  shows "broadcasts_ok d'"
proof -
  let ?bid = "BroadcastID_String bID"
  let ?d = "d\<lparr>t_allocations := filter (\<lambda>a. al_broadcast_id a \<noteq> ?bid) (t_allocations d)\<rparr>"
  let ?as = "allocs_of d ?bid"
  have off: "i \<noteq> ?bid \<Longrightarrow> filter (\<lambda>a. al_broadcast_id a = i) (filter (\<lambda>a. al_broadcast_id a \<noteq> ?bid) (t_allocations d)) =
      filter (\<lambda>a. al_broadcast_id a = i) (t_allocations d)" for i
    by (auto intro: filter_cong)
  have keys: "distinct (map alloc_key (filter (\<lambda>a. al_broadcast_id a \<noteq> ?bid) (t_allocations d)))"
    "list_all (\<lambda>a. al_broadcast_id a \<in> broadcast_ids d) (filter (\<lambda>a. al_broadcast_id a \<noteq> ?bid) (t_allocations d))"
    using ok by (auto simp: broadcasts_ok_def distinct_map_filter list_all_iff)
  show ?thesis
  proof (cases "sql_row (\<lambda>r. br_broadcast_id r = ?bid) (t_broadcasts d)")
    case (Inl x)
    with assms(2) have d': "d' = ?d" by (auto simp: disableOne_def Let_def)
    have "r \<in> set (t_broadcasts d) \<Longrightarrow> br_broadcast_id r \<noteq> ?bid" for r
      using Inl by (auto simp: sql_row_eq_Inl find_None_iff)
    then have same: "update_where (\<lambda>r. br_broadcast_id r = ?bid) (\<lambda>r. r) (t_broadcasts d) = t_broadcasts d"
      by (simp add: update_where_def)
    show ?thesis
      by (rule broadcasts_ok_update [OF ok, of _ ?bid "\<lambda>r. r"])
        (use ok keys off same \<open>\<And>r. r \<in> set (t_broadcasts d) \<Longrightarrow> br_broadcast_id r \<noteq> ?bid\<close> in
          \<open>auto simp: d' broadcasts_ok_def allocs_of_def sent_count_def\<close>)
  next
    case (Inr b)
    define na where "na = (if br_allocated b \<ge> sum_list (map al_message_limit ?as)
        then br_allocated b - sum_list (map al_message_limit ?as) else 0)"
    from assms(2) Inr have s: "br_sent b + sum_list (map al_sent ?as) \<le> BroadcastUnlimited"
      and d': "d' = ?d\<lparr>t_broadcasts := update_where (\<lambda>r. br_broadcast_id r = ?bid)
          (\<lambda>r. r\<lparr>br_message_limit := 0, br_sent := br_sent b + sum_list (map al_sent ?as), br_allocated := na\<rparr>) (t_broadcasts d)\<rparr>"
      unfolding BroadcastUnlimited_63 by (auto simp: disableOne_def Let_def allocs_of_def na_def)
    note bD = broadcasts_ok_rowD [OF ok Inr]
    show ?thesis
    proof (rule broadcasts_ok_update [OF ok, of _ ?bid
          "\<lambda>r. r\<lparr>br_message_limit := 0, br_sent := br_sent b + sum_list (map al_sent ?as), br_allocated := na\<rparr>"])
      fix b'
      assume "b' \<in> set (t_broadcasts d)" "br_broadcast_id b' = ?bid" and c: "counters_ok b' ?as (sent_count d ?bid)"
      with bD(4) have "b' = b" by blast
      moreover have "allocs_of d' ?bid = []" "sent_count d' ?bid = sent_count d ?bid"
        by (simp_all add: d' allocs_of_def sent_count_def)
      ultimately show "counters_ok (b'\<lparr>br_message_limit := 0, br_sent := br_sent b + sum_list (map al_sent ?as), br_allocated := na\<rparr>)
          (allocs_of d' ?bid) (sent_count d' ?bid)"
        using counters_disable [OF c [unfolded \<open>b' = b\<close>] s na_def] by simp
    qed (use ok keys off in \<open>auto simp: d' broadcasts_ok_def allocs_of_def sent_count_def\<close>)
  qed
qed

lemma broadcasts_ok_DisableBroadcasts:
  assumes "broadcasts_ok d"
  shows "broadcasts_ok (snd (DisableBroadcasts e bIDs d))"
proof (cases "length bIDs = 0")
  case False
  then have "broadcasts_ok (snd (runInTx e (tryDisableBroadcasts bIDs) d))"
    by (intro runInTx_invariant [where P = broadcasts_ok, OF assms])
      (auto simp: tryDisableBroadcasts_def intro: assms broadcasts_ok_disableOne
        elim!: foldE_invariant [where P = broadcasts_ok])
  with False show ?thesis by (simp add: DisableBroadcasts_def)
qed (simp add: DisableBroadcasts_def assms)

text \<open>
  Saving a broadcast message without an allocation is what the server does for unlimited
  broadcasts.
\<close>

definition save_honest :: "sqldb \<Rightarrow> BroadcastID \<Rightarrow> AllocationID \<Rightarrow> bool" where
  "save_honest d bID aID \<longleftrightarrow> AllocationID_Bytes aID = [] \<longrightarrow>
     list_all (\<lambda>b. br_broadcast_id b = BroadcastID_String bID \<longrightarrow>
       br_message_limit b = BroadcastUnlimited \<or> br_message_limit b = 0) (t_broadcasts d)"

lemma tryStoreMessage_same:
  assumes "tryStoreMessage e dbm b d = Inr (u, d')"
  shows "t_broadcasts d' = t_broadcasts d" "t_allocations d' = t_allocations d"
    "t_broadcast_sent d' = t_broadcast_sent d" "t_clients d' = t_clients d"
    "t_client_labels d' = t_client_labels d" "t_client_contacts d' = t_client_contacts d"
    "t_contact_messages d' = t_contact_messages d" "t_files d' = t_files d"
    "set (t_messages d) \<subseteq> set (t_messages d')"
  using assms
  by (auto simp: tryStoreMessage_def Let_def sql_insert_or_ignore_def split: if_splits)

lemma insert_sent_eq_Inr:
  "insert_sent bID cID d = Inr d' \<longleftrightarrow> (BroadcastID_String bID, ClientID_String cID) \<notin> set (t_broadcast_sent d)
     \<and> BroadcastID_String bID \<in> broadcast_ids d \<and> ClientID_String cID \<in> client_ids d
     \<and> d' = d\<lparr>t_broadcast_sent := t_broadcast_sent d @ [(BroadcastID_String bID, ClientID_String cID)]\<rparr>"
  by (auto simp: insert_sent_def sql_insert_eq_Inr)

text \<open>What a successful save did, in the two cases.\<close>

lemma SaveBroadcastMessage_okE:
  assumes "SaveBroadcastMessage e cd msg bID cID aID d = (Inr (), d')"
  obtains dbm d1 d2 where "fromMessageProto cd msg = Inr dbm" "tryStoreMessage e dbm True d = Inr ((), d1)"
    "insert_sent bID cID d1 = Inr d2"
    "AllocationID_Bytes aID = [] \<longrightarrow> d' = d2 \<and>
       (\<exists>b. sql_row (\<lambda>r. br_broadcast_id r = BroadcastID_String bID) (t_broadcasts d) = Inr b \<and> br_message_limit b \<noteq> 0)"
    "AllocationID_Bytes aID \<noteq> [] \<longrightarrow> (\<exists>a. a \<in> set (t_allocations d)
       \<and> alloc_key a = (BroadcastID_String bID, AllocationID_String aID) \<and> al_sent a < al_message_limit a
       \<and> d' = d2\<lparr>t_allocations := update_where (\<lambda>r. alloc_key r = alloc_key a)
           (\<lambda>r. r\<lparr>al_sent := al_sent a + 1\<rparr>) (t_allocations d)\<rparr>)"
proof -
  from assms obtain dbm where dbm: "fromMessageProto cd msg = Inr dbm"
    by (cases "fromMessageProto cd msg") (auto simp: SaveBroadcastMessage_def)
  note body = runInTx_success [OF assms [unfolded SaveBroadcastMessage_def dbm sum.case]]
  from body obtain d1 where d1: "tryStoreMessage e dbm True d = Inr ((), d1)" by auto
  note same = tryStoreMessage_same [OF d1]
  show thesis
  proof (cases "AllocationID_Bytes aID = []")
    case True
    with body d1 obtain b where "sql_row (\<lambda>r. br_broadcast_id r = BroadcastID_String bID) (t_broadcasts d) = Inr b"
      "br_message_limit b \<noteq> 0" "insert_sent bID cID d1 = Inr d'"
      by (auto simp: same split: sum.splits if_splits)
    with True dbm d1 show thesis by (intro that [of dbm d1 d']) auto
  next
    case False
    with body d1 obtain a d2 where a: "sql_row (\<lambda>a. alloc_key a = (BroadcastID_String bID, AllocationID_String aID))
        (t_allocations d) = Inr a" "al_sent a < al_message_limit a"
      and d2: "insert_sent bID cID d1 = Inr d2"
        "d' = d2\<lparr>t_allocations := update_where (\<lambda>r. alloc_key r = (BroadcastID_String bID, AllocationID_String aID))
           (\<lambda>r. r\<lparr>al_sent := al_sent a + 1\<rparr>) (t_allocations d2)\<rparr>"
      by (auto simp: same Let_def not_le split: sum.splits if_splits)
    from a(1) have aD: "a \<in> set (t_allocations d)" "alloc_key a = (BroadcastID_String bID, AllocationID_String aID)"
      by (auto simp: sql_row_eq_Inr dest!: find_SomeD)
    have "t_allocations d2 = t_allocations d" using d2(1) same(2) by (auto simp: insert_sent_eq_Inr)
    with False dbm d1 d2 a aD show thesis by (intro that [of dbm d1 d2]) auto
  qed
qed

lemma broadcasts_ok_SaveBroadcastMessage:
  assumes ok: "broadcasts_ok d" and honest: "save_honest d bID aID"
  shows "broadcasts_ok (snd (SaveBroadcastMessage e cd msg bID cID aID d))"
proof (cases "SaveBroadcastMessage e cd msg bID cID aID d")
  case (Pair r d')
  show ?thesis
  proof (cases r)
    case (Inl x)
    with Pair have "d' = d"
      by (auto simp: SaveBroadcastMessage_def split: sum.splits dest: runInTx_error)
    with Pair ok show ?thesis by simp
  next
    case (Inr u)
    let ?bid = "BroadcastID_String bID"
    from Pair Inr have ok': "SaveBroadcastMessage e cd msg bID cID aID d = (Inr (), d')" by simp
    obtain dbm d1 d2 where "fromMessageProto cd msg = Inr dbm" and d1: "tryStoreMessage e dbm True d = Inr ((), d1)"
      and d2: "insert_sent bID cID d1 = Inr d2"
      and nil: "AllocationID_Bytes aID = [] \<longrightarrow> d' = d2 \<and>
       (\<exists>b. sql_row (\<lambda>r. br_broadcast_id r = ?bid) (t_broadcasts d) = Inr b \<and> br_message_limit b \<noteq> 0)"
      and al: "AllocationID_Bytes aID \<noteq> [] \<longrightarrow> (\<exists>a. a \<in> set (t_allocations d)
       \<and> alloc_key a = (?bid, AllocationID_String aID) \<and> al_sent a < al_message_limit a
       \<and> d' = d2\<lparr>t_allocations := update_where (\<lambda>r. alloc_key r = alloc_key a)
           (\<lambda>r. r\<lparr>al_sent := al_sent a + 1\<rparr>) (t_allocations d)\<rparr>)"
      using SaveBroadcastMessage_okE [OF ok'] .
    note same = tryStoreMessage_same [OF d1]
    from d2 same have d2': "t_broadcasts d2 = t_broadcasts d" "t_allocations d2 = t_allocations d"
      "t_broadcast_sent d2 = t_broadcast_sent d @ [(?bid, ClientID_String cID)]"
      "(?bid, ClientID_String cID) \<notin> set (t_broadcast_sent d)" "?bid \<in> broadcast_ids d"
      by (auto simp: insert_sent_eq_Inr broadcast_ids_def)
    have sent: "distinct (t_broadcast_sent d2)" "list_all (\<lambda>(b, c). b \<in> broadcast_ids d) (t_broadcast_sent d2)"
      "\<And>i. sent_count d2 i = sent_count d i + (if i = ?bid then 1 else 0)"
      using ok d2' by (auto simp: broadcasts_ok_def sent_count_def)
    have keep: "t_broadcasts d2 = update_where (\<lambda>r. br_broadcast_id r = ?bid) (\<lambda>r. r) (t_broadcasts d)"
      by (simp add: d2'(1) update_where_def)
    have "broadcasts_ok d'"
    proof (cases "AllocationID_Bytes aID = []")
      case True
      with nil obtain b where d': "d' = d2"
        and b: "sql_row (\<lambda>r. br_broadcast_id r = ?bid) (t_broadcasts d) = Inr b" "br_message_limit b \<noteq> 0" by blast
      note bD = broadcasts_ok_rowD [OF ok b(1)]
      from honest True b(2) bD(1,2) have "br_message_limit b = BroadcastUnlimited"
        by (auto simp: save_honest_def list_all_iff)
      then have free: "counters_ok b as m" if "counters_ok b as n" for as n m
        using that by (simp add: counters_ok_def)
      show ?thesis unfolding d'
      proof (rule broadcasts_ok_update [OF ok keep])
        fix b'
        assume b': "b' \<in> set (t_broadcasts d)" "br_broadcast_id b' = ?bid"
          "counters_ok b' (allocs_of d ?bid) (sent_count d ?bid)"
        then have "b' = b" by (intro bD(4))
        then show "counters_ok b' (allocs_of d2 ?bid) (sent_count d2 ?bid)"
          using b'(3) free d2'(2) by (simp add: allocs_of_def)
      qed (use ok sent d2'(2) in \<open>simp_all add: broadcasts_ok_def allocs_of_def\<close>)
    next
      case False
      with al obtain a where a: "a \<in> set (t_allocations d)" "alloc_key a = (?bid, AllocationID_String aID)"
        "al_sent a < al_message_limit a"
        and d': "d' = d2\<lparr>t_allocations := update_where (\<lambda>r. alloc_key r = alloc_key a)
           (\<lambda>r. r\<lparr>al_sent := al_sent a + 1\<rparr>) (t_allocations d)\<rparr>" by blast
      let ?g = "\<lambda>r. r\<lparr>al_sent := al_sent a + 1\<rparr>"
      have key: "alloc_key (?g r) = alloc_key r" "al_broadcast_id (?g r) = al_broadcast_id r" for r
        by (simp_all add: alloc_key_def)
      have allocs: "allocs_of d' i = update_where (\<lambda>r. alloc_key r = alloc_key a) ?g (allocs_of d i)" for i
        by (simp add: d' allocs_of_def update_where_def filter_map comp_def)
      have off: "allocs_of d' i = allocs_of d i" if "i \<noteq> ?bid" for i
        unfolding allocs using that a(2)
        by (auto simp: update_where_def allocs_of_def alloc_key_def intro!: map_idI)
      have aa: "a \<in> set (allocs_of d ?bid)" "distinct (map alloc_key (allocs_of d ?bid))"
        using a ok by (auto simp: allocs_of_def alloc_key_def broadcasts_ok_def distinct_map_filter)
      show ?thesis
      proof (rule broadcasts_ok_update [OF ok, of _ ?bid "\<lambda>r. r"])
        fix b
        assume c: "counters_ok b (allocs_of d ?bid) (sent_count d ?bid)"
        have "sent_count d' ?bid = sent_count d ?bid + 1" using sent(3) [of ?bid] by (simp add: d' sent_count_def)
        with counters_save [OF c aa(2,1) a(3)] show "counters_ok b (allocs_of d' ?bid) (sent_count d' ?bid)"
          by (simp add: allocs)
      next
        show "list_all (\<lambda>a. al_broadcast_id a \<in> broadcast_ids d) (t_allocations d')"
          using ok by (auto simp: d' broadcasts_ok_def intro!: list_all_update_where)
      qed (use ok sent keep off key in \<open>auto simp: d' broadcasts_ok_def sent_count_def\<close>)
    qed
    with Pair show ?thesis by simp
  qed
qed

end
