(* ===== verification/Sqlite_Files.thy ===== *)
theory Sqlite_Files
  imports Sqlite_Core
begin

text \<open>
  \<^verbatim>\<open>fleetspeak/src/server/sqlite/filestore.go\<close>: named files of a service. What \<^verbatim>\<open>io.ReadAll\<close>
  returns of the reader is the argument of \<open>StoreFile\<close>.
\<close>

definition file_key :: "file_row \<Rightarrow> string \<times> string" where
  "file_key f = (f_service f, f_name f)"

definition StoreFile :: "env \<Rightarrow> string \<Rightarrow> string \<Rightarrow> error + bytes \<Rightarrow> unit dbop" where
  "StoreFile e service name data d = (case data of
       Inl x \<Rightarrow> (Inl x, d)
     | Inr b \<Rightarrow> runInTx e (\<lambda>d. Inr ((), d\<lparr>t_files :=
         filter (\<lambda>f. file_key f \<noteq> (service, name)) (t_files d) @
         [\<lparr>f_service = service, f_name = name, f_modified_time_nanos = Now e, f_data = b\<rparr>]\<rparr>)) d)"

definition DeleteFile :: "env \<Rightarrow> string \<Rightarrow> string \<Rightarrow> unit dbop" where
  "DeleteFile e service name = runInTx e (\<lambda>d. Inr ((), d\<lparr>t_files :=
     filter (\<lambda>f. \<not> (f_service f = service \<and> f_name f = name)) (t_files d)\<rparr>))"

definition StatFile :: "env \<Rightarrow> string \<Rightarrow> string \<Rightarrow> gotime dbop" where
  "StatFile e service name = runInTx e (\<lambda>d.
     ebind (sql_row (\<lambda>f. f_service f = service \<and> f_name f = name) (t_files d)) (\<lambda>f.
       Inr (f_modified_time_nanos f, d)))"

definition ReadFile :: "env \<Rightarrow> string \<Rightarrow> string \<Rightarrow> (bytes \<times> gotime) dbop" where
  "ReadFile e service name = runInTx e (\<lambda>d.
     ebind (sql_row (\<lambda>f. f_service f = service \<and> f_name f = name) (t_files d)) (\<lambda>f.
       Inr ((f_data f, f_modified_time_nanos f), d)))"

definition files_ok :: "sqldb \<Rightarrow> bool" where
  "files_ok d \<longleftrightarrow> distinct (map file_key (t_files d))"

text \<open>The contract of a keyed store, and the files as an instance of it.\<close>

definition file_lookup :: "sqldb \<Rightarrow> string \<times> string \<Rightarrow> (bytes \<times> gotime) option" where
  "file_lookup d k = map_option (\<lambda>f. (f_data f, f_modified_time_nanos f)) (find (\<lambda>f. file_key f = k) (t_files d))"

definition file_put :: "string \<times> string \<Rightarrow> bytes \<times> gotime \<Rightarrow> sqldb \<Rightarrow> sqldb" where
  "file_put k v d = d\<lparr>t_files := filter (\<lambda>f. file_key f \<noteq> k) (t_files d) @
     [\<lparr>f_service = fst k, f_name = snd k, f_modified_time_nanos = snd v, f_data = fst v\<rparr>]\<rparr>"

definition file_drop :: "string \<times> string \<Rightarrow> sqldb \<Rightarrow> sqldb" where
  "file_drop k d = d\<lparr>t_files := filter (\<lambda>f. file_key f \<noteq> k) (t_files d)\<rparr>"

locale keyed_store =
  fixes lookup :: "'s \<Rightarrow> 'k \<Rightarrow> 'v option"
    and put :: "'k \<Rightarrow> 'v \<Rightarrow> 's \<Rightarrow> 's"
    and drop_key :: "'k \<Rightarrow> 's \<Rightarrow> 's"
    and ok :: "'s \<Rightarrow> bool"
  assumes lookup_put: "ok s \<Longrightarrow> lookup (put k v s) = (lookup s)(k \<mapsto> v)"
    and lookup_drop: "ok s \<Longrightarrow> lookup (drop_key k s) = (lookup s)(k := None)"
    and ok_put: "ok s \<Longrightarrow> ok (put k v s)"
    and ok_drop: "ok s \<Longrightarrow> ok (drop_key k s)"
begin

lemma put_put: "ok s \<Longrightarrow> lookup (put k w (put k v s)) = lookup (put k w s)"
  by (simp add: lookup_put ok_put)

lemma put_commute: "ok s \<Longrightarrow> k \<noteq> l \<Longrightarrow> lookup (put k v (put l w s)) = lookup (put l w (put k v s))"
  by (simp add: lookup_put ok_put fun_upd_twist)

lemma drop_put: "ok s \<Longrightarrow> lookup s k = None \<Longrightarrow> lookup (drop_key k (put k v s)) = lookup s"
  by (simp add: lookup_put lookup_drop ok_put fun_upd_idem)

end

lemma file_key_row [simp]:
  "file_key \<lparr>f_service = s, f_name = n, f_modified_time_nanos = t, f_data = b\<rparr> = (s, n)"
  by (simp add: file_key_def)

lemma find_filter_neq: "find (\<lambda>f. key f = k) (filter (\<lambda>f. key f \<noteq> l) rs) =
    (if k = l then None else find (\<lambda>f. key f = k) rs)"
  by (induction rs) auto

interpretation files: keyed_store file_lookup file_put file_drop files_ok
proof unfold_locales
  fix s k v
  show "file_lookup (file_put k v s) = (file_lookup s)(k \<mapsto> v)"
    by (simp add: fun_eq_iff file_lookup_def file_put_def find_append find_filter_neq split: option.split)
  show "file_lookup (file_drop k s) = (file_lookup s)(k := None)"
    by (auto simp: fun_eq_iff file_lookup_def file_drop_def find_filter_neq)
  assume "files_ok s"
  then show "files_ok (file_put k v s)" "files_ok (file_drop k s)"
    by (auto simp: files_ok_def file_put_def file_drop_def distinct_map_filter)
qed

lemma StoreFile_put:
  assumes "fst (StoreFile e s n (Inr b) d) = Inr ()"
  shows "snd (StoreFile e s n (Inr b) d) = file_put (s, n) (b, Now e) d"
  using assms
  by (cases "begin_err e"; cases "commit_err e") (simp_all add: StoreFile_def file_put_def runInTx_def)

lemma DeleteFile_drop:
  assumes "fst (DeleteFile e s n d) = Inr ()"
  shows "snd (DeleteFile e s n d) = file_drop (s, n) d"
  using assms
  by (cases "begin_err e"; cases "commit_err e") (simp_all add: DeleteFile_def file_drop_def runInTx_def file_key_def)

lemma ReadFile_lookup:
  assumes "begin_err e = None" and "commit_err e = None"
  shows "ReadFile e s n d = (case file_lookup d (s, n) of None \<Rightarrow> Inl ErrNoRows | Some v \<Rightarrow> Inr v, d)"
proof -
  have "(\<lambda>f. file_key f = (s, n)) = (\<lambda>f. f_service f = s \<and> f_name f = n)"
    by (simp add: file_key_def)
  then show ?thesis
    using assms by (cases "find (\<lambda>f. f_service f = s \<and> f_name f = n) (t_files d)")
      (simp_all add: ReadFile_def file_lookup_def runInTx_def sql_row_def)
qed

text \<open>
  After \<^verbatim>\<open>StoreFile\<close> of some bytes \<^verbatim>\<open>ReadFile\<close> returns them with the time of the store, whatever
  was stored before; every other file reads as it did; after \<^verbatim>\<open>DeleteFile\<close> the file is not found.
\<close>

lemma files_read_back:
  assumes "files_ok d" and "fst (StoreFile e s n (Inr b) d) = Inr ()" and "fst (DeleteFile e s n d) = Inr ()"
    and "begin_err e' = None" and "commit_err e' = None"
  shows "fst (ReadFile e' s n (snd (StoreFile e s n (Inr b) d))) = Inr (b, Now e)
    \<and> fst (ReadFile e' s n (snd (DeleteFile e s n d))) = Inl ErrNoRows
    \<and> ((s', n') \<noteq> (s, n) \<longrightarrow> fst (ReadFile e' s' n' (snd (StoreFile e s n (Inr b) d))) = fst (ReadFile e' s' n' d))"
  using assms(1)
  by (simp add: StoreFile_put [OF assms(2)] DeleteFile_drop [OF assms(3)] ReadFile_lookup [OF assms(4,5)] files.lookup_put files.lookup_drop)

lemma files_read_back_instance:
  "fst (ReadFile \<lparr>Now = 9, server_delay = (\<lambda>_. 0), begin_err = None, commit_err = None\<rparr> ''s'' ''f''
     (snd (StoreFile \<lparr>Now = 7, server_delay = (\<lambda>_. 0), begin_err = None, commit_err = None\<rparr> ''s'' ''f'' (Inr [1, 2]) initSchema)))
   = Inr ([1, 2], 7)"
  using files_read_back [of initSchema "\<lparr>Now = 7, server_delay = (\<lambda>_. 0), begin_err = None, commit_err = None\<rparr>"
      "''s''" "''f''" "[1, 2]" "\<lparr>Now = 9, server_delay = (\<lambda>_. 0), begin_err = None, commit_err = None\<rparr>"]
  by (simp add: files_ok_def initSchema_def StoreFile_def DeleteFile_def runInTx_def)

end
