(* ===== verification/Sqlite_Usage.thy ===== *)
theory Sqlite_Usage
  imports Sqlite_Clients Broadcast_Alloc
begin

text \<open>
  The resource-usage records of \<^verbatim>\<open>fleetspeak/src/server/sqlite/clientstore.go\<close>.

  \<^verbatim>\<open>UnixNano\<close> of the client's times is exact for the years 1678 to 2261, outside of which Go
  leaves it undefined; the model keeps the exact number. A message without its
  \<^verbatim>\<open>resource_usage\<close> part is a nil pointer that the store dereferences.
\<close>

record AggregatedResourceUsage =
  MeanUserCpuRate :: f64
  MaxUserCpuRate :: f64
  MeanSystemCpuRate :: f64
  MaxSystemCpuRate :: f64
  MeanResidentMemory :: f64
  MaxResidentMemory :: int
  MaxNumFds :: int
  MeanNumFds :: f64

record ResourceUsageData =
  Scope :: string
  Pid :: int
  ProcessStartTime :: "Timestamp option"
  DataTimestamp :: "Timestamp option"
  ResourceUsage :: "AggregatedResourceUsage option"
  ProcessTerminated :: bool

record ClientResourceUsageRecord =
  ru_Scope :: string
  ru_Pid :: int
  ru_ProcessStartTime :: Timestamp
  ru_ClientTimestamp :: Timestamp
  ru_ServerTimestamp :: Timestamp
  ru_ProcessTerminated :: bool
  ru_MeanUserCpuRate :: "f32 option"
  ru_MaxUserCpuRate :: "f32 option"
  ru_MeanSystemCpuRate :: "f32 option"
  ru_MaxSystemCpuRate :: "f32 option"
  ru_MeanResidentMemoryMib :: int
  ru_MaxResidentMemoryMib :: int
  ru_MeanNumFds :: int
  ru_MaxNumFds :: int

text \<open>\<^verbatim>\<open>float64(n)\<close> for an \<^verbatim>\<open>int64\<close>, to 53 bits, and the reading of a \<^verbatim>\<open>REAL\<close> into a \<^verbatim>\<open>float32\<close>.\<close>

definition f64_of_int :: "int \<Rightarrow> f64" where
  "f64_of_int n = (let k = bitlen \<bar>n\<bar> - 53 in
     if k = 0 then F64 n 0
     else let q = \<bar>n\<bar> div 2 ^ k; r = \<bar>n\<bar> mod 2 ^ k; half = 2 ^ (k - 1) in
       F64 (sgn n * (if r > half \<or> (r = half \<and> odd q) then q + 1 else q)) (int k))"

definition f32_of_f64 :: "f64 \<Rightarrow> f32 option" where
  "f32_of_f64 x = (case x of F64_NaN_Inf \<Rightarrow> None
     | F64 m e \<Rightarrow> Some (if m < 0 then F32 (- mantissa (round_f32 (- m) e)) (exponent (round_f32 (- m) e))
         else round_f32 m e))"

definition bytesToMIB :: "f64 \<Rightarrow> f64" where
  "bytesToMIB x = f64_scale (- 20) x"

definition usage_row_of :: "env \<Rightarrow> ClientID \<Rightarrow> ResourceUsageData \<Rightarrow> Timestamp \<Rightarrow> Timestamp \<Rightarrow>
    AggregatedResourceUsage \<Rightarrow> usage_row" where
  "usage_row_of e i rud start ts u =
     \<lparr>u_client_id = ClientID_String i, u_scope = Scope rud, u_pid = Pid rud,
      u_process_start_time = AsTime start, u_client_timestamp = AsTime ts,
      u_server_timestamp = Now e, u_process_terminated = ProcessTerminated rud,
      u_mean_user_cpu_rate = MeanUserCpuRate u, u_max_user_cpu_rate = MaxUserCpuRate u,
      u_mean_system_cpu_rate = MeanSystemCpuRate u, u_max_system_cpu_rate = MaxSystemCpuRate u,
      u_mean_resident_memory_mib = f64_int32 (bytesToMIB (MeanResidentMemory u)),
      u_max_resident_memory_mib = f64_int32 (bytesToMIB (f64_of_int (MaxResidentMemory u))),
      u_mean_num_fds = f64_int32 (MeanNumFds u), u_max_num_fds = MaxNumFds u\<rparr>"

definition RecordResourceUsageData :: "env \<Rightarrow> ClientID \<Rightarrow> ResourceUsageData \<Rightarrow> unit dbop" where
  "RecordResourceUsageData e i rud d =
     (case CheckValid (ProcessStartTime rud) of
        Inl _ \<Rightarrow> (Inl (Err ''failed to parse process start time''), d)
      | Inr start \<Rightarrow> (case CheckValid (DataTimestamp rud) of
          Inl _ \<Rightarrow> (Inl (Err ''failed to parse data timestamp''), d)
        | Inr ts \<Rightarrow> runInTx e (\<lambda>d. (case ResourceUsage rud of
            None \<Rightarrow> Inl (Fatal ''nil pointer dereference'')
          | Some u \<Rightarrow>
              if ClientID_String i \<notin> client_ids d then Inl (SqlErr ''FOREIGN KEY constraint failed'')
              else Inr ((), d\<lparr>t_usage := t_usage d @ [usage_row_of e i rud start ts u]\<rparr>))) d))"

definition timestampProto :: "int \<Rightarrow> Timestamp" where
  "timestampProto nanos = \<lparr>Seconds = go_quot nanos second, Nanos = go_rem nanos second\<rparr>"

definition usage_record :: "usage_row \<Rightarrow> ClientResourceUsageRecord" where
  "usage_record r = \<lparr>ru_Scope = u_scope r, ru_Pid = u_pid r,
     ru_ProcessStartTime = timestampProto (u_process_start_time r),
     ru_ClientTimestamp = timestampProto (u_client_timestamp r),
     ru_ServerTimestamp = timestampProto (u_server_timestamp r),
     ru_ProcessTerminated = u_process_terminated r,
     ru_MeanUserCpuRate = f32_of_f64 (u_mean_user_cpu_rate r),
     ru_MaxUserCpuRate = f32_of_f64 (u_max_user_cpu_rate r),
     ru_MeanSystemCpuRate = f32_of_f64 (u_mean_system_cpu_rate r),
     ru_MaxSystemCpuRate = f32_of_f64 (u_max_system_cpu_rate r),
     ru_MeanResidentMemoryMib = u_mean_resident_memory_mib r,
     ru_MaxResidentMemoryMib = u_max_resident_memory_mib r,
     ru_MeanNumFds = u_mean_num_fds r, ru_MaxNumFds = u_max_num_fds r\<rparr>"

definition FetchResourceUsageRecords ::
  "env \<Rightarrow> ClientID \<Rightarrow> Timestamp option \<Rightarrow> Timestamp option \<Rightarrow> ClientResourceUsageRecord list dbop" where
  "FetchResourceUsageRecords e i start finish d =
     (case CheckValid start of Inl x \<Rightarrow> (Inl x, d)
      | Inr a \<Rightarrow> (case CheckValid finish of Inl x \<Rightarrow> (Inl x, d)
        | Inr b \<Rightarrow>
          if AsTime a > AsTime b then (Inl (Err ''timerange is invalid: start timestamp is after end timestamp''), d)
          else runInTx e (\<lambda>d. Inr (map usage_record (filter (\<lambda>r. u_client_id r = ClientID_String i
                 \<and> u_server_timestamp r \<ge> AsTime a \<and> u_server_timestamp r < AsTime b) (t_usage d)), d)) d))"

lemma RecordResourceUsageData_okE:
  assumes "RecordResourceUsageData e i rud d = (Inr (), d')"
  obtains start ts u where "ProcessStartTime rud = Some start" "DataTimestamp rud = Some ts"
    "ResourceUsage rud = Some u" "d' = d\<lparr>t_usage := t_usage d @ [usage_row_of e i rud start ts u]\<rparr>"
    "ClientID_String i \<in> client_ids d"
proof -
  have valid: "t = Some ts" if "CheckValid t = Inr ts" for t ts
    using that by (auto simp: CheckValid_def split: option.splits if_splits)
  from assms obtain start ts where 1: "CheckValid (ProcessStartTime rud) = Inr start"
    "CheckValid (DataTimestamp rud) = Inr ts" by (auto simp: RecordResourceUsageData_def split: sum.splits)
  with assms have "runInTx e (\<lambda>d. (case ResourceUsage rud of
            None \<Rightarrow> Inl (Fatal ''nil pointer dereference'')
          | Some u \<Rightarrow>
              if ClientID_String i \<notin> client_ids d then Inl (SqlErr ''FOREIGN KEY constraint failed'')
              else Inr ((), d\<lparr>t_usage := t_usage d @ [usage_row_of e i rud start ts u]\<rparr>))) d = (Inr (), d')"
    by (simp add: RecordResourceUsageData_def)
  from runInTx_success [OF this] 1 [THEN valid] that show thesis
    by (auto split: option.splits if_splits)
qed

lemma RecordResourceUsageData_error:
  "RecordResourceUsageData e i rud d = (Inl x, d') \<Longrightarrow> d' = d"
  by (auto simp: RecordResourceUsageData_def split: sum.splits dest: runInTx_error)

lemma FetchResourceUsageRecords_okD:
  assumes "FetchResourceUsageRecords e j (Some a) (Some b) d = (Inr rs, d1)"
  shows "AsTime a \<le> AsTime b" "d1 = d"
    "rs = map usage_record (filter (\<lambda>r. u_client_id r = ClientID_String j
       \<and> u_server_timestamp r \<ge> AsTime a \<and> u_server_timestamp r < AsTime b) (t_usage d))"
    "CheckValid (Some a) = Inr a" "CheckValid (Some b) = Inr b" "begin_err e = None" "commit_err e = None"
  using assms
  by (auto simp: FetchResourceUsageRecords_def runInTx_def CheckValid_def split: sum.splits if_splits option.splits)

lemma FetchResourceUsageRecords_ok:
  assumes "AsTime a \<le> AsTime b" "CheckValid (Some a) = Inr a" "CheckValid (Some b) = Inr b"
    "begin_err e = None" "commit_err e = None"
  shows "FetchResourceUsageRecords e j (Some a) (Some b) d =
    (Inr (map usage_record (filter (\<lambda>r. u_client_id r = ClientID_String j
       \<and> u_server_timestamp r \<ge> AsTime a \<and> u_server_timestamp r < AsTime b) (t_usage d))), d)"
  using assms by (simp add: FetchResourceUsageRecords_def runInTx_def)

section \<open>Properties\<close>

text \<open>
  A resource-usage report that was recorded is returned by a query for its client whose time
  range contains the moment it was recorded, after the reports recorded before it, and by no other
  query.
\<close>
lemma usage_read_back:
  assumes "RecordResourceUsageData e i rud d = (Inr (), d')"
    and "FetchResourceUsageRecords e' j (Some a) (Some b) d = (Inr old, d)"
  shows "\<exists>start ts u. ProcessStartTime rud = Some start \<and> DataTimestamp rud = Some ts \<and> ResourceUsage rud = Some u
    \<and> FetchResourceUsageRecords e' j (Some a) (Some b) d' =
        (Inr (old @ (if ClientID_String j = ClientID_String i \<and> AsTime a \<le> Now e \<and> Now e < AsTime b
           then [usage_record (usage_row_of e i rud start ts u)] else [])), d')"
proof -
  obtain start ts u where *: "ProcessStartTime rud = Some start" "DataTimestamp rud = Some ts"
    "ResourceUsage rud = Some u" "d' = d\<lparr>t_usage := t_usage d @ [usage_row_of e i rud start ts u]\<rparr>"
    using assms(1) by (rule RecordResourceUsageData_okE)
  note f = FetchResourceUsageRecords_okD [OF assms(2)]
  have "u_client_id (usage_row_of e i rud start ts u) = ClientID_String i"
    "u_server_timestamp (usage_row_of e i rud start ts u) = Now e" by (simp_all add: usage_row_of_def)
  with * f FetchResourceUsageRecords_ok [OF f(1,4-7), of j d'] show ?thesis by auto
qed

definition demo_usage :: ResourceUsageData where
  "demo_usage = \<lparr>Scope = ''system'', Pid = 7, ProcessStartTime = Some \<lparr>Seconds = 900, Nanos = 0\<rparr>,
     DataTimestamp = Some \<lparr>Seconds = 950, Nanos = 0\<rparr>,
     ResourceUsage = Some \<lparr>MeanUserCpuRate = F64 1 0, MaxUserCpuRate = F64 3 (- 1), MeanSystemCpuRate = F64 0 0,
       MaxSystemCpuRate = F64 0 0, MeanResidentMemory = F64 5 20, MaxResidentMemory = 7340032, MaxNumFds = 4,
       MeanNumFds = F64 7 (- 1)\<rparr>, ProcessTerminated = False\<rparr>"

lemma usage_read_back_instance:
  "\<exists>r. FetchResourceUsageRecords demo_later demo_client (Some \<lparr>Seconds = 900, Nanos = 0\<rparr>)
     (Some \<lparr>Seconds = 2000, Nanos = 0\<rparr>) (snd (RecordResourceUsageData demo_env demo_client demo_usage demo_clients))
    = (Inr [r], snd (RecordResourceUsageData demo_env demo_client demo_usage demo_clients))"
proof -
  have "fst (RecordResourceUsageData demo_env demo_client demo_usage demo_clients) = Inr ()" by code_simp
  then have 1: "RecordResourceUsageData demo_env demo_client demo_usage demo_clients =
      (Inr (), snd (RecordResourceUsageData demo_env demo_client demo_usage demo_clients))" by (simp add: prod_eq_iff)
  have "fst (FetchResourceUsageRecords demo_later demo_client (Some \<lparr>Seconds = 900, Nanos = 0\<rparr>)
     (Some \<lparr>Seconds = 2000, Nanos = 0\<rparr>) demo_clients) = Inr []" by code_simp
  moreover have "snd (FetchResourceUsageRecords demo_later demo_client (Some \<lparr>Seconds = 900, Nanos = 0\<rparr>)
     (Some \<lparr>Seconds = 2000, Nanos = 0\<rparr>) demo_clients) = demo_clients"
    by (simp add: FetchResourceUsageRecords_def runInTx_def split: sum.split option.split)
  ultimately have 2: "FetchResourceUsageRecords demo_later demo_client (Some \<lparr>Seconds = 900, Nanos = 0\<rparr>)
     (Some \<lparr>Seconds = 2000, Nanos = 0\<rparr>) demo_clients = (Inr [], demo_clients)" by (simp add: prod_eq_iff)
  from usage_read_back [OF 1 2] show ?thesis by (auto simp: AsTime_def demo_env_def)
qed

end
