(* ===== verification/Sqlite_Store.thy ===== *)
theory Sqlite_Store
  imports Sqlite_Broadcasts Sqlite_Files Sqlite_Usage
begin

text \<open>
  The SQLite store as a whole: the state machine whose steps are the calls of the
  \<^verbatim>\<open>db.Store\<close> interface on one database, and the invariant all of them keep.

  The calls are those a Fleetspeak server makes: what it reports in \<^verbatim>\<open>CleanupAllocation\<close> is
  what it sent under the allocation, and it sends without an allocation only for unlimited
  broadcasts (\<open>cleanup_honest\<close>, \<open>save_honest\<close>). Every call may fail in any of the ways its
  environment allows and then changes nothing.
\<close>

section \<open>Frames: which tables an operation leaves alone\<close>

lemma clients_ok_mono:
  assumes ok: "clients_ok d"
    and same: "t_clients d' = t_clients d" "t_client_labels d' = t_client_labels d"
      "t_client_contacts d' = t_client_contacts d"
    and msgs: "messageID ` set (t_messages d) \<subseteq> messageID ` set (t_messages d')"
    and links: "distinct (t_contact_messages d')"
      "list_all (\<lambda>(c, i). link_fk c i d \<or> link_fk c i d') (t_contact_messages d')"
  shows "clients_ok d'"
proof -
  have "client_ids d' = client_ids d" by (simp add: client_ids_def same)
  moreover have "link_fk c i d \<Longrightarrow> link_fk c i d'" for c i
    using msgs by (auto simp: link_fk_def same)
  ultimately show ?thesis
    using ok links by (auto simp: clients_ok_def same list_all_iff)
qed

definition other_tables :: "sqldb \<Rightarrow> sqldb \<Rightarrow> bool" where
  "other_tables d d' \<longleftrightarrow> t_clients d' = t_clients d \<and> t_client_labels d' = t_client_labels d
     \<and> t_client_contacts d' = t_client_contacts d \<and> t_broadcasts d' = t_broadcasts d
     \<and> t_broadcast_labels d' = t_broadcast_labels d \<and> t_allocations d' = t_allocations d
     \<and> t_broadcast_sent d' = t_broadcast_sent d \<and> t_files d' = t_files d"

lemma other_tables_refl [simp]: "other_tables d d"
  by (simp add: other_tables_def)

lemma other_tables_trans: "other_tables a b \<Longrightarrow> other_tables b c \<Longrightarrow> other_tables a c"
  by (simp add: other_tables_def)

text \<open>The message operations only touch the message tables, and never remove a message.\<close>

definition message_frame :: "sqldb \<Rightarrow> sqldb \<Rightarrow> bool" where
  "message_frame d d' \<longleftrightarrow> other_tables d d' \<and> t_contact_messages d' = t_contact_messages d
     \<and> set (map messageID (t_messages d)) \<subseteq> set (map messageID (t_messages d'))"

lemma message_frame_refl [simp]: "message_frame d d"
  by (simp add: message_frame_def)

lemma message_frame_trans: "message_frame a b \<Longrightarrow> message_frame b c \<Longrightarrow> message_frame a c"
  by (auto simp: message_frame_def intro: other_tables_trans)

lemma message_frame_trySetMessageResult: "trySetMessageResult i r d = Inr (u, d') \<Longrightarrow> message_frame d d'"
  by (auto simp: trySetMessageResult_def Let_def message_frame_def other_tables_def simp del: set_map
      split: option.splits if_splits)

lemma message_frame_tryStoreMessage: "tryStoreMessage e m b d = Inr (u, d') \<Longrightarrow> message_frame d d'"
  by (auto simp: tryStoreMessage_def Let_def message_frame_def other_tables_def sql_insert_or_ignore_def
      split: if_splits)

lemma message_frame_storeOne:
  "storeOne e cd m (acc, d) = Inr (acc', d') \<Longrightarrow> message_frame d d'"
  by (auto simp: storeOne_def Let_def split: option.splits if_splits sum.splits
      intro: message_frame_trans message_frame_tryStoreMessage message_frame_trySetMessageResult)

lemma message_frame_reschedule: "message_frame d (reschedule e m p d)"
  by (simp add: message_frame_def other_tables_def reschedule_def Let_def)

lemma message_frame_ifp_loop:
  "ifp_loop e cd lim limits rows nread res d = Inr (r, d') \<Longrightarrow> message_frame d d'"
proof (induction e cd lim limits rows nread res d rule: ifp_loop.induct)
  case (2 e cd lim limits m p rows nread res d)
  from 2(3) show ?case
  proof (cases rule: ifp_loop_ConsE)
    case skip
    with 2(1) show ?thesis by (simp add: over_limit_def)
  next
    case (stop msg)
    then show ?thesis by (simp add: message_frame_reschedule)
  next
    case (go msg)
    then show ?thesis
      using 2(2) message_frame_trans [OF message_frame_reschedule [of d e m p]]
      by (simp add: over_limit_def count_read_def row_message_def)
  qed
qed simp

text \<open>Operations of the other components leave the message tables alone.\<close>

definition not_messages :: "sqldb \<Rightarrow> sqldb \<Rightarrow> bool" where
  "not_messages d d' \<longleftrightarrow> t_messages d' = t_messages d \<and> t_pending d' = t_pending d"

definition not_clients :: "sqldb \<Rightarrow> sqldb \<Rightarrow> bool" where
  "not_clients d d' \<longleftrightarrow> t_clients d' = t_clients d \<and> t_client_labels d' = t_client_labels d
     \<and> t_client_contacts d' = t_client_contacts d \<and> t_contact_messages d' = t_contact_messages d"

definition not_broadcasts :: "sqldb \<Rightarrow> sqldb \<Rightarrow> bool" where
  "not_broadcasts d d' \<longleftrightarrow> t_broadcasts d' = t_broadcasts d \<and> t_allocations d' = t_allocations d
     \<and> t_broadcast_sent d' = t_broadcast_sent d"

definition not_files :: "sqldb \<Rightarrow> sqldb \<Rightarrow> bool" where
  "not_files d d' \<longleftrightarrow> t_files d' = t_files d"

lemmas frame_defs = not_messages_def not_clients_def not_broadcasts_def not_files_def

lemma runInTx_frame:
  assumes "R d d" and "\<And>a d'. f d = Inr (a, d') \<Longrightarrow> R d d'"
  shows "R d (snd (runInTx e f d))"
  using assms by (cases rule: runInTx_cases [of e f d]) auto

lemma foldE_frame:
  assumes "foldE f xs d = Inr d'" and "\<And>x d d'. f x d = Inr d' \<Longrightarrow> t d' = t d"
  shows "t d' = t d"
  by (rule foldE_invariant [OF assms(1), where P = "\<lambda>x. t x = t d"]) (auto simp: assms(2))

definition client_frame :: "sqldb \<Rightarrow> sqldb \<Rightarrow> bool" where
  "client_frame d d' \<longleftrightarrow> not_messages d d' \<and> not_broadcasts d d' \<and> not_files d d'"

lemma client_frame_upd [simp]:
  "client_frame d d"
  "client_frame d (d\<lparr>t_clients := a\<rparr>)"
  "client_frame d (d\<lparr>t_client_labels := b\<rparr>)"
  "client_frame d (d\<lparr>t_client_contacts := c, t_clients := a\<rparr>)"
  "client_frame d (d\<lparr>t_contact_messages := m\<rparr>)"
  by (simp_all add: client_frame_def frame_defs)

lemma client_frame_trans: "client_frame a b \<Longrightarrow> client_frame b c \<Longrightarrow> client_frame a c"
  by (simp add: client_frame_def frame_defs)

lemma client_frame_insert_label: "insert_label sid l d = Inr d' \<Longrightarrow> client_frame d d'"
  by (auto simp: insert_label_def)

lemma client_frames:
  "client_frame d (snd (AddClient e i data d))"
  "client_frame d (snd (AddClientLabel i l d))"
  "client_frame d (snd (RemoveClientLabel i l d))"
  "client_frame d (snd (BlacklistClient i d))"
  "client_frame d (snd (RecordClientContact e con d))"
  "client_frame d (snd (LinkMessagesToContact e contact ids d))"
proof -
  show "client_frame d (snd (AddClient e i data d))"
    unfolding AddClient_def Let_def
  proof (rule runInTx_frame, goal_cases)
    case (2 a d')
    then obtain cs where fold: "foldE (insert_label (ClientID_String i)) (cd_Labels data) (d\<lparr>t_clients := cs\<rparr>) = Inr d'"
      by auto
    show ?case
      by (rule foldE_invariant [OF fold, where P = "client_frame d"])
        (auto dest: client_frame_insert_label elim: client_frame_trans)
  qed simp
  show "client_frame d (snd (AddClientLabel i l d))"
    unfolding AddClientLabel_def
    by (rule execStmt_invariant [where P = "client_frame d"])
      (auto dest: client_frame_insert_label)
  show "client_frame d (snd (RemoveClientLabel i l d))"
    by (simp add: RemoveClientLabel_def execStmt_def)
  show "client_frame d (snd (BlacklistClient i d))"
    by (simp add: BlacklistClient_def execStmt_def)
  show "client_frame d (snd (RecordClientContact e con d))"
    unfolding RecordClientContact_def Let_def by (rule runInTx_frame) auto
  show "client_frame d (snd (LinkMessagesToContact e contact ids d))"
  proof (cases "ParseUint16 contact")
    case (Inr c)
    show ?thesis
      unfolding LinkMessagesToContact_def Inr sum.case
    proof (rule runInTx_frame, goal_cases)
      case (2 a d')
      then have fold: "foldE (\<lambda>i d. ebind (sql_u64 c) (\<lambda>c.
              ebind (sql_insert (\<lambda>x. x) (link_fk c (MessageID_String i) d) (c, MessageID_String i)
                (t_contact_messages d)) (\<lambda>cm. Inr (d\<lparr>t_contact_messages := cm\<rparr>)))) ids d = Inr d'" by auto
      show ?case
        by (rule foldE_invariant [OF fold, where P = "client_frame d"]) (auto elim: client_frame_trans)
    qed simp
  qed (simp add: LinkMessagesToContact_def)
qed

definition broadcast_frame :: "sqldb \<Rightarrow> sqldb \<Rightarrow> bool" where
  "broadcast_frame d d' \<longleftrightarrow> not_messages d d' \<and> not_clients d d' \<and> not_files d d'"

lemma broadcast_frame_upd [simp]:
  "broadcast_frame d d"
  "broadcast_frame d (d\<lparr>t_broadcasts := a\<rparr>)"
  "broadcast_frame d (d\<lparr>t_allocations := b\<rparr>)"
  "broadcast_frame d (d\<lparr>t_broadcasts := a, t_allocations := b\<rparr>)"
  "broadcast_frame d (d\<lparr>t_allocations := b, t_broadcasts := a\<rparr>)"
  "broadcast_frame d (d\<lparr>t_broadcast_labels := l\<rparr>)"
  by (simp_all add: broadcast_frame_def frame_defs)

lemma broadcast_frame_trans: "broadcast_frame a b \<Longrightarrow> broadcast_frame b c \<Longrightarrow> broadcast_frame a c"
  by (simp add: broadcast_frame_def frame_defs)

lemma broadcast_frame_disableOne: "disableOne i d = Inr d' \<Longrightarrow> broadcast_frame d d'"
  by (auto simp: disableOne_def Let_def split: sum.splits)

lemma broadcast_frame_label: "insert_broadcast_label bid l d = Inr d' \<Longrightarrow> broadcast_frame d d'"
  by (auto simp: insert_broadcast_label_def)

lemma broadcast_frame_CreateBroadcast: "broadcast_frame d (snd (CreateBroadcast e bo limit d))"
proof (cases bo)
  case (Some b)
  have "broadcast_frame d (snd (runInTx e (\<lambda>d.
           if GroupName b \<noteq> [] then Inl ErrNotSupported
           else ebind (sql_u64 limit) (\<lambda>limit.
             ebind (sql_insert br_broadcast_id True (dbB\<lparr>br_message_limit := limit\<rparr>) (t_broadcasts d)) (\<lambda>bs.
             ebind (foldE (insert_broadcast_label (br_broadcast_id dbB)) (RequiredLabels b)
                (d\<lparr>t_broadcasts := bs\<rparr>)) (\<lambda>d'. Inr ((), d'))))) d))" for dbB
  proof (rule runInTx_frame, goal_cases)
    case (2 a d')
    then obtain bs where fold: "foldE (insert_broadcast_label (br_broadcast_id dbB)) (RequiredLabels b)
          (d\<lparr>t_broadcasts := bs\<rparr>) = Inr d'" by (auto split: if_splits)
    show ?case
      by (rule foldE_invariant [OF fold, where P = "broadcast_frame d"])
        (auto dest: broadcast_frame_label elim: broadcast_frame_trans)
  qed simp
  then show ?thesis by (simp add: CreateBroadcast_def Some split: sum.split)
qed (simp add: CreateBroadcast_def fromBroadcastProto_def)

lemma broadcast_frame_DisableBroadcasts: "broadcast_frame d (snd (DisableBroadcasts e bids d))"
proof -
  have "broadcast_frame d (snd (runInTx e (tryDisableBroadcasts bids) d))"
  proof (rule runInTx_frame, goal_cases)
    case (2 a d')
    then have fold: "foldE disableOne bids d = Inr d'" by (auto simp: tryDisableBroadcasts_def)
    show ?case
      by (rule foldE_invariant [OF fold, where P = "broadcast_frame d"])
        (auto dest: broadcast_frame_disableOne elim: broadcast_frame_trans)
  qed simp
  then show ?thesis by (simp add: DisableBroadcasts_def)
qed

lemma broadcast_frame_CreateAllocation: "broadcast_frame d (snd (CreateAllocation e rnd i frac expiry d))"
  unfolding CreateAllocation_def Let_def
  by (rule runInTx_frame) (auto simp: insertAllocation_def case_prod_beta split: if_splits)

lemma broadcast_frame_CleanupAllocation: "broadcast_frame d (snd (CleanupAllocation e i aid fs d))"
  unfolding CleanupAllocation_def Let_def
proof (rule runInTx_frame, goal_cases)
  case (2 a d')
  then obtain b where b: "sql_row (\<lambda>r. br_broadcast_id r = BroadcastID_String i) (t_broadcasts d) = Inr b" by auto
  show ?case
  proof (cases "sql_row (\<lambda>a. alloc_key a = (BroadcastID_String i, AllocationID_String aid)) (t_allocations d)")
    case (Inl x)
    with 2 b show ?thesis by (auto split: if_splits)
  next
    case (Inr r)
    with 2 b show ?thesis
      by (cases "ComputeBroadcastAllocationCleanup (al_message_limit r) (br_allocated b)") (auto split: if_splits)
  qed
qed simp

lemma broadcast_frame_SetBroadcastLimit: "broadcast_frame d (snd (SetBroadcastLimit e i limit d))"
  unfolding SetBroadcastLimit_def by (rule runInTx_frame) auto

section \<open>The calls of the store interface\<close>

datatype store_op =
    OpStoreMessages "Message list" string
  | OpSetMessageResult ClientID MessageID MessageResult
  | OpDeletePendingMessages "ClientID list"
  | OpClientMessagesForProcessing ClientID u64 "(string, u64) gomap option"
  | OpServerMessagesForProcessing u64
  | OpAddClient ClientID ClientData
  | OpAddClientLabel ClientID Label
  | OpRemoveClientLabel ClientID Label
  | OpBlacklistClient ClientID
  | OpRecordClientContact dbContactData
  | OpLinkMessagesToContact string "MessageID list"
  | OpCreateBroadcast "Broadcast option" u64
  | OpSetBroadcastLimit BroadcastID u64
  | OpDisableBroadcasts "BroadcastID list"
  | OpSaveBroadcastMessage Message BroadcastID ClientID AllocationID
  | OpCreateAllocation "error + bytes" BroadcastID f32 gotime
  | OpCleanupAllocation BroadcastID AllocationID u64
  | OpRecordResourceUsageData ClientID ResourceUsageData
  | OpStoreFile string string "error + bytes"
  | OpDeleteFile string string

fun apply_op :: "env \<Rightarrow> codec \<Rightarrow> store_op \<Rightarrow> sqldb \<Rightarrow> sqldb" where
  "apply_op e cd (OpStoreMessages ms c) d = snd (StoreMessages e cd ms c d)"
| "apply_op e cd (OpSetMessageResult c i r) d = snd (SetMessageResult e c i r d)"
| "apply_op e cd (OpDeletePendingMessages cs) d = snd (DeletePendingMessages e cs d)"
| "apply_op e cd (OpClientMessagesForProcessing c lim l) d = snd (ClientMessagesForProcessing e cd c lim l d)"
| "apply_op e cd (OpServerMessagesForProcessing lim) d = snd (internalMessagesForProcessing e cd (ClientID []) lim None d)"
| "apply_op e cd (OpAddClient i x) d = snd (AddClient e i x d)"
| "apply_op e cd (OpAddClientLabel i l) d = snd (AddClientLabel i l d)"
| "apply_op e cd (OpRemoveClientLabel i l) d = snd (RemoveClientLabel i l d)"
| "apply_op e cd (OpBlacklistClient i) d = snd (BlacklistClient i d)"
| "apply_op e cd (OpRecordClientContact x) d = snd (RecordClientContact e x d)"
| "apply_op e cd (OpLinkMessagesToContact c is) d = snd (LinkMessagesToContact e c is d)"
| "apply_op e cd (OpCreateBroadcast b lim) d = snd (CreateBroadcast e b lim d)"
| "apply_op e cd (OpSetBroadcastLimit i lim) d = snd (SetBroadcastLimit e i lim d)"
| "apply_op e cd (OpDisableBroadcasts is) d = snd (DisableBroadcasts e is d)"
| "apply_op e cd (OpSaveBroadcastMessage m b c a) d = snd (SaveBroadcastMessage e cd m b c a d)"
| "apply_op e cd (OpCreateAllocation r i f x) d = snd (CreateAllocation e r i f x d)"
| "apply_op e cd (OpCleanupAllocation b a n) d = snd (CleanupAllocation e b a n d)"
| "apply_op e cd (OpRecordResourceUsageData i u) d = snd (RecordResourceUsageData e i u d)"
| "apply_op e cd (OpStoreFile s n b) d = snd (StoreFile e s n b d)"
| "apply_op e cd (OpDeleteFile s n) d = snd (DeleteFile e s n d)"

fun op_honest :: "sqldb \<Rightarrow> store_op \<Rightarrow> bool" where
  "op_honest d (OpSaveBroadcastMessage m b c a) = save_honest d b a"
| "op_honest d (OpCleanupAllocation b a n) = cleanup_honest d b a n"
| "op_honest d _ = True"

inductive store_step :: "sqldb \<Rightarrow> sqldb \<Rightarrow> bool" where
  store_stepI: "op_honest d op \<Longrightarrow> d' = apply_op e cd op d \<Longrightarrow> store_step d d'"

inductive_cases store_stepE: "store_step d d'"

fun store_run :: "(env \<times> codec \<times> store_op) list \<Rightarrow> sqldb \<Rightarrow> sqldb option" where
  "store_run [] d = Some d"
| "store_run ((e, cd, op) # ops) d = (if op_honest d op then store_run ops (apply_op e cd op d) else None)"

lemma store_run_reach: "store_run ops d = Some d' \<Longrightarrow> reach store_step d d'"
proof (induction ops d rule: store_run.induct)
  case (2 e cd op ops d)
  then have "store_step d (apply_op e cd op d)" "reach store_step (apply_op e cd op d) d'"
    by (auto intro: store_stepI split: if_splits)
  then show ?case by (rule reach_Cons)
qed auto

section \<open>The invariant\<close>

definition store_ok :: "sqldb \<Rightarrow> bool" where
  "store_ok d \<longleftrightarrow> messages_ok d \<and> clients_ok d \<and> broadcasts_ok d \<and> files_ok d"

lemma not_messages_ok: "not_messages d d' \<Longrightarrow> messages_ok d \<Longrightarrow> messages_ok d'"
  using messages_ok_cong [of d' d] by (simp add: not_messages_def)

lemma not_broadcasts_ok: "not_broadcasts d d' \<Longrightarrow> broadcasts_ok d \<Longrightarrow> broadcasts_ok d'"
  using broadcasts_ok_cong [of d' d] by (simp add: not_broadcasts_def)

lemma not_files_ok: "not_files d d' \<Longrightarrow> files_ok d \<Longrightarrow> files_ok d'"
  by (simp add: not_files_def files_ok_def)

lemma not_clients_ok: "not_clients d d' \<Longrightarrow> not_messages d d' \<Longrightarrow> clients_ok d \<Longrightarrow> clients_ok d'"
  by (rule clients_ok_contacts [where new = "[]"]) (simp_all add: not_clients_def not_messages_def)

lemma client_frame_ok: "client_frame d d' \<Longrightarrow> store_ok d \<Longrightarrow> clients_ok d' \<Longrightarrow> store_ok d'"
  using not_messages_ok [of d d'] not_broadcasts_ok [of d d'] not_files_ok [of d d']
  by (simp add: client_frame_def store_ok_def)

lemma broadcast_frame_ok: "broadcast_frame d d' \<Longrightarrow> store_ok d \<Longrightarrow> broadcasts_ok d' \<Longrightarrow> store_ok d'"
  using not_clients_ok [of d d'] not_messages_ok [of d d'] not_files_ok [of d d']
  by (simp add: broadcast_frame_def store_ok_def)

lemma message_frame_ok:
  assumes fr: "message_frame d d'" and ok: "store_ok d" and "messages_ok d'"
  shows "store_ok d'"
proof -
  note frD = fr [unfolded message_frame_def other_tables_def]
  have links: "distinct (t_contact_messages d)" "list_all (\<lambda>(c, i). link_fk c i d) (t_contact_messages d)"
    "clients_ok d"
    using ok by (simp_all add: store_ok_def clients_ok_def)
  have "clients_ok d'"
  proof (rule clients_ok_mono [OF links(3)])
    show "messageID ` set (t_messages d) \<subseteq> messageID ` set (t_messages d')" using frD by (simp only: set_map)
    show "list_all (\<lambda>(c, i). link_fk c i d \<or> link_fk c i d') (t_contact_messages d')"
      using links(2) frD by (auto simp: list_all_iff)
  qed (use links frD in simp_all)
  moreover have "not_broadcasts d d'" "not_files d d'" using frD by (simp_all add: frame_defs)
  ultimately show ?thesis
    using ok assms(3) not_broadcasts_ok not_files_ok by (simp add: store_ok_def)
qed

lemma message_op_ok:
  assumes "store_ok d" and "messages_ok (snd (runInTx e f d))"
    and "\<And>a d'. f d = Inr (a, d') \<Longrightarrow> message_frame d d'"
  shows "store_ok (snd (runInTx e f d))"
  using assms(1,2) by (intro message_frame_ok [OF runInTx_frame [where R = message_frame]]) (auto intro: assms(3))

lemma store_ok_StoreMessages:
  assumes "store_ok d"
  shows "store_ok (snd (StoreMessages e cd ms contact d))"
proof -
  have m: "messages_ok d" using assms by (simp add: store_ok_def)
  show ?thesis
  proof (cases rule: runInTx_cases [of e "\<lambda>d. ebind (foldE (storeOne e cd) ms ([], d)) (\<lambda>(ids, d1).
       if contact = [] then Inr ((), d1)
       else (case ParseUint16 contact of
           Inl _ \<Rightarrow> Inl (Err ''unable to parse ContactID'')
         | Inr c \<Rightarrow> ebind (foldE (linkIgnore c) ids d1) (\<lambda>d2. Inr ((), d2))))" d])
    case (err x)
    then show ?thesis using assms by (simp add: StoreMessages_def)
  next
    case (ok a d')
    then have run: "StoreMessages e cd ms contact d = (Inr (), d')" by (simp add: StoreMessages_def)
    obtain ids d1 where 1: "foldE (storeOne e cd) ms ([], d) = Inr (ids, d1)"
      "contact = [] \<Longrightarrow> d' = d1"
      "contact \<noteq> [] \<Longrightarrow> \<exists>c. ParseUint16 contact = Inr c \<and> foldE (linkIgnore c) ids d1 = Inr d'"
      using StoreMessages_okE [OF run] by blast
    have "message_frame d (snd (ids, d1))"
    proof (rule foldE_invariant [OF 1(1), where P = "\<lambda>s. message_frame d (snd s)"], goal_cases)
      case (2 m s s')
      then show ?case using message_frame_storeOne [of e cd m "fst s" "snd s" "fst s'" "snd s'"]
        by (auto intro: message_frame_trans)
    qed simp
    moreover have "messages_ok (snd (ids, d1))"
      by (rule foldE_invariant [OF 1(1), where P = "\<lambda>s. messages_ok (snd s)"])
        (use m messages_ok_storeOne in auto)
    ultimately have ok1: "store_ok d1" using message_frame_ok assms by simp
    have "store_ok d'"
    proof (cases "contact = []")
      case False
      with 1(3) obtain c where "foldE (linkIgnore c) ids d1 = Inr d'" by blast
      then show ?thesis using ok1
      proof (rule foldE_invariant [where P = store_ok], goal_cases)
        case (1 i x y)
        then have fr: "not_messages x y" "not_broadcasts x y" "not_files x y" and t: "t_clients y = t_clients x"
          "t_client_labels y = t_client_labels x" "t_client_contacts y = t_client_contacts x" "t_messages y = t_messages x"
          "t_contact_messages y = t_contact_messages x \<or>
             ((c, i) \<notin> set (t_contact_messages x) \<and> link_fk c i x \<and> t_contact_messages y = t_contact_messages x @ [(c, i)])"
          by (auto simp: linkIgnore_def sql_insert_or_ignore_def frame_defs split: if_splits)
        have links: "distinct (t_contact_messages x)" "list_all (\<lambda>(c, i). link_fk c i x) (t_contact_messages x)"
          using 1(2) by (simp_all add: store_ok_def clients_ok_def)
        have "clients_ok y"
          by (rule clients_ok_mono [of x]) (use t links 1(2) in \<open>auto simp: store_ok_def list_all_iff\<close>)
        with 1(2) show ?case
          using not_messages_ok [OF fr(1)] not_broadcasts_ok [OF fr(2)] not_files_ok [OF fr(3)]
          by (simp add: store_ok_def)
      qed
    qed (use 1(2) ok1 in simp)
    with run show ?thesis by simp
  qed
qed

lemma SaveBroadcastMessage_error: "SaveBroadcastMessage e cd m b c a d = (Inl x, d') \<Longrightarrow> d' = d"
  by (auto simp: SaveBroadcastMessage_def split: sum.splits dest: runInTx_error)

lemma store_ok_SaveBroadcastMessage:
  assumes ok: "store_ok d" and honest: "save_honest d b a"
  shows "store_ok (snd (SaveBroadcastMessage e cd m b c a d))"
proof (cases "SaveBroadcastMessage e cd m b c a d")
  case (Pair r d')
  show ?thesis
  proof (cases r)
    case (Inl x)
    with Pair SaveBroadcastMessage_error ok show ?thesis by fastforce
  next
    case (Inr u)
    with Pair have run: "SaveBroadcastMessage e cd m b c a d = (Inr (), d')" by simp
    obtain dbm d1 d2 where dbm: "fromMessageProto cd m = Inr dbm" and d1: "tryStoreMessage e dbm True d = Inr ((), d1)"
      and d2: "insert_sent b c d1 = Inr d2"
      and tail: "AllocationID_Bytes a = [] \<longrightarrow> d' = d2 \<and>
       (\<exists>b'. sql_row (\<lambda>r. br_broadcast_id r = BroadcastID_String b) (t_broadcasts d) = Inr b' \<and> br_message_limit b' \<noteq> 0)"
       "AllocationID_Bytes a \<noteq> [] \<longrightarrow> (\<exists>x. x \<in> set (t_allocations d)
       \<and> alloc_key x = (BroadcastID_String b, AllocationID_String a) \<and> al_sent x < al_message_limit x
       \<and> d' = d2\<lparr>t_allocations := update_where (\<lambda>r. alloc_key r = alloc_key x)
           (\<lambda>r. r\<lparr>al_sent := al_sent x + 1\<rparr>) (t_allocations d)\<rparr>)"
      using SaveBroadcastMessage_okE [OF run] .
    have "messages_ok d" using ok by (simp add: store_ok_def)
    then have "messages_ok d1" using messages_ok_tryStoreMessage [OF _ fromMessageProto_wf [OF dbm] d1] by blast
    then have ok1: "store_ok d1" using message_frame_ok [OF message_frame_tryStoreMessage [OF d1] ok] by blast
    have "broadcast_frame d1 d2" using d2 by (auto simp: insert_sent_eq_Inr broadcast_frame_def frame_defs)
    moreover have "broadcast_frame d2 d'" using tail by (cases "AllocationID_Bytes a = []") auto
    ultimately have "broadcast_frame d1 d'" by (rule broadcast_frame_trans)
    moreover have "broadcasts_ok d'"
      using broadcasts_ok_SaveBroadcastMessage [OF _ honest, of e cd m c] ok Pair by (simp add: store_ok_def)
    ultimately have "store_ok d'" using ok1 broadcast_frame_ok by blast
    with Pair show ?thesis by simp
  qed
qed

lemma file_frame_ok:
  assumes "store_ok d" and "d' = d\<lparr>t_files := fs\<rparr>" and "files_ok d'"
  shows "store_ok d'"
proof -
  have "not_messages d d'" "not_broadcasts d d'" "not_clients d d'" using assms(2) by (simp_all add: frame_defs)
  then show ?thesis
    using assms(1,3) not_messages_ok [of d d'] not_broadcasts_ok [of d d'] not_clients_ok [of d d']
    by (simp add: store_ok_def)
qed

lemma store_ok_files:
  assumes "store_ok d"
  shows "store_ok (snd (StoreFile e s n b d))" "store_ok (snd (DeleteFile e s n d))"
proof -
  have ok: "files_ok d" using assms by (simp add: store_ok_def)
  have put: "store_ok (file_put k v d)" for k v
    by (rule file_frame_ok [OF assms file_put_def]) (rule files.ok_put [OF ok])
  have drop: "store_ok (file_drop k d)" for k
    by (rule file_frame_ok [OF assms file_drop_def]) (rule files.ok_drop [OF ok])
  show "store_ok (snd (StoreFile e s n b d))"
  proof (cases b)
    case (Inr v)
    show ?thesis
    proof (cases "fst (StoreFile e s n (Inr v) d) = Inr ()")
      case True
      with Inr put show ?thesis by (simp add: StoreFile_put)
    next
      case False
      then have "snd (StoreFile e s n (Inr v) d) = d"
        by (cases "begin_err e"; cases "commit_err e") (simp_all add: StoreFile_def runInTx_def)
      with Inr assms show ?thesis by simp
    qed
  qed (simp add: StoreFile_def assms)
  show "store_ok (snd (DeleteFile e s n d))"
  proof (cases "fst (DeleteFile e s n d) = Inr ()")
    case True
    with drop show ?thesis by (simp add: DeleteFile_drop)
  next
    case False
    then have "snd (DeleteFile e s n d) = d"
      by (cases "begin_err e"; cases "commit_err e") (simp_all add: DeleteFile_def runInTx_def)
    with assms show ?thesis by simp
  qed
qed

lemma RecordResourceUsageData_snd:
  obtains "snd (RecordResourceUsageData e i u d) = d"
  | rs where "snd (RecordResourceUsageData e i u d) = d\<lparr>t_usage := rs\<rparr>"
proof (cases "fst (RecordResourceUsageData e i u d)")
  case (Inl x)
  then have "snd (RecordResourceUsageData e i u d) = d"
    by (intro RecordResourceUsageData_error [of e i u d x]) (simp add: prod_eq_iff)
  then show thesis by (rule that(1))
next
  case (Inr x)
  then have "RecordResourceUsageData e i u d = (Inr (), snd (RecordResourceUsageData e i u d))"
    by (simp add: prod_eq_iff)
  then show thesis by (elim RecordResourceUsageData_okE) (rule that(2))
qed

lemma store_ok_usage [simp]: "store_ok (d\<lparr>t_usage := rs\<rparr>) = store_ok d"
  by (simp add: store_ok_def messages_ok_def clients_ok_def broadcasts_ok_def files_ok_def client_ids_def
      link_fk_def broadcast_ids_def allocs_of_def sent_count_def)

lemma store_ok_RecordResourceUsageData: "store_ok d \<Longrightarrow> store_ok (snd (RecordResourceUsageData e i u d))"
  by (cases rule: RecordResourceUsageData_snd [of e i u d]) simp_all

lemma store_ok_apply:
  assumes ok: "store_ok d" and honest: "op_honest d op"
  shows "store_ok (apply_op e cd op d)"
proof -
  have parts: "messages_ok d" "clients_ok d" "broadcasts_ok d" using ok by (simp_all add: store_ok_def)
  note client = client_frame_ok [OF client_frames(1) ok] client_frame_ok [OF client_frames(2) ok]
    client_frame_ok [OF client_frames(3) ok] client_frame_ok [OF client_frames(4) ok]
    client_frame_ok [OF client_frames(5) ok] client_frame_ok [OF client_frames(6) ok]
  have internal: "store_ok (snd (internalMessagesForProcessing e cd c lim l d))" for c lim l
    unfolding internalMessagesForProcessing_def
    by (rule message_op_ok [OF ok messages_ok_internalMessagesForProcessing [OF parts(1), unfolded internalMessagesForProcessing_def]])
      (auto intro: message_frame_ifp_loop)
  show ?thesis
  proof (cases op)
    case (OpSetMessageResult c i r)
    have "store_ok (snd (runInTx e (trySetMessageResult i r) d))"
      by (rule message_op_ok [OF ok messages_ok_SetMessageResult [OF parts(1), unfolded SetMessageResult_def]])
        (rule message_frame_trySetMessageResult)
    with OpSetMessageResult show ?thesis by (simp add: SetMessageResult_def)
  next
    case (OpDeletePendingMessages cs)
    have "store_ok (snd (DeletePendingMessages e cs d))"
      unfolding DeletePendingMessages_def
      by (rule message_op_ok [OF ok messages_ok_DeletePendingMessages [OF parts(1), unfolded DeletePendingMessages_def]])
        (auto simp: Let_def message_frame_def other_tables_def simp del: set_map split: if_splits)
    with OpDeletePendingMessages show ?thesis by simp
  next
    case (OpClientMessagesForProcessing c lim l)
    then show ?thesis using internal ok by (simp add: ClientMessagesForProcessing_def)
  next
    case (OpServerMessagesForProcessing lim)
    then show ?thesis using internal by simp
  qed (use ok honest parts in \<open>simp_all add: store_ok_StoreMessages store_ok_SaveBroadcastMessage store_ok_files
      store_ok_RecordResourceUsageData
      client clients_ok_AddClient clients_ok_AddClientLabel clients_ok_RemoveClientLabel clients_ok_BlacklistClient
      clients_ok_RecordClientContact clients_ok_LinkMessagesToContact
      broadcast_frame_ok [OF broadcast_frame_CreateBroadcast] broadcasts_ok_CreateBroadcast
      broadcast_frame_ok [OF broadcast_frame_SetBroadcastLimit] broadcasts_ok_SetBroadcastLimit
      broadcast_frame_ok [OF broadcast_frame_DisableBroadcasts] broadcasts_ok_DisableBroadcasts
      broadcast_frame_ok [OF broadcast_frame_CreateAllocation] broadcasts_ok_CreateAllocation
      broadcast_frame_ok [OF broadcast_frame_CleanupAllocation] broadcasts_ok_CleanupAllocation\<close>)
qed

interpretation store: step_invariant "\<lambda>d. d = initSchema" store_step store_ok
proof unfold_locales
  show "store_ok d" if "d = initSchema" for d
    using that messages_ok_init clients_ok_init broadcasts_ok_init
    by (simp add: store_ok_def files_ok_def initSchema_def)
  show "store_ok d'" if "store_ok d" "store_step d d'" for d d'
    using that store_ok_apply by (auto elim: store_stepE)
qed

section \<open>Blacklisting is permanent\<close>

definition is_blacklisted :: "sqldb \<Rightarrow> ClientID \<Rightarrow> bool" where
  "is_blacklisted d i \<longleftrightarrow> list_ex (\<lambda>r. cl_client_id r = ClientID_String i \<and> cl_blacklisted r) (t_clients d)"

lemma is_blacklisted_same: "t_clients d' = t_clients d \<Longrightarrow> is_blacklisted d' i = is_blacklisted d i"
  by (simp add: is_blacklisted_def)

lemma list_ex_update_where:
  "list_ex P rs \<Longrightarrow> (\<And>r. P r \<Longrightarrow> P (f r)) \<Longrightarrow> list_ex P (update_where p f rs)"
  by (induction rs) (auto simp: update_where_def)

lemma is_blacklisted_update:
  assumes "is_blacklisted d i" and "t_clients d' = update_where p f (t_clients d)"
    and "\<And>r. cl_client_id (f r) = cl_client_id r" "\<And>r. cl_blacklisted r \<Longrightarrow> cl_blacklisted (f r)"
  shows "is_blacklisted d' i"
  using assms(1) unfolding is_blacklisted_def assms(2)
  by (rule list_ex_update_where) (simp add: assms(3,4))

lemma blacklisted_AddClient:
  "is_blacklisted d i \<Longrightarrow> is_blacklisted (snd (AddClient e j x d)) i"
  unfolding AddClient_def Let_def
proof (rule runInTx_invariant [where P = "\<lambda>d. is_blacklisted d i"], goal_cases)
  case (2 a d')
  then obtain c where "foldE (insert_label (ClientID_String j)) (cd_Labels x) (d\<lparr>t_clients := t_clients d @ [c]\<rparr>) = Inr d'"
    by (auto simp: sql_insert_eq_Inr)
  from foldE_insert_label [OF this] 2(1) show ?case by (simp add: is_blacklisted_def)
qed simp

lemma blacklisted_RecordClientContact:
  "is_blacklisted d i \<Longrightarrow> is_blacklisted (snd (RecordClientContact e x d)) i"
  unfolding RecordClientContact_def Let_def
proof (rule runInTx_invariant [where P = "\<lambda>d. is_blacklisted d i"], goal_cases)
  case (2 a d')
  let ?f = "\<lambda>r. r\<lparr>cl_last_contact_time := Now e,
         cl_last_contact_streaming_to := (if con_StreamingTo x \<noteq> [] then Some (con_StreamingTo x) else None),
         cl_last_contact_address := Some (con_Addr x),
         cl_last_clock_seconds := map_option Seconds (con_ClientClock x),
         cl_last_clock_nanos := map_option Nanos (con_ClientClock x)\<rparr>"
  have "t_clients d' = update_where (\<lambda>r. cl_client_id r = ClientID_String (con_ClientID x)) ?f (t_clients d)"
    using 2(2) by auto
  with 2(1) show ?case by (rule is_blacklisted_update) simp_all
qed simp

lemma blacklisted_BlacklistClient: "is_blacklisted d i \<Longrightarrow> is_blacklisted (snd (BlacklistClient j d)) i"
  unfolding BlacklistClient_def execStmt_def
  by (rule is_blacklisted_update [where d = d and f = "\<lambda>r. r\<lparr>cl_blacklisted := True\<rparr>"
        and p = "\<lambda>r. cl_client_id r = ClientID_String j"]) simp_all

lemma message_frame_clients: "message_frame d d' \<Longrightarrow> t_clients d' = t_clients d"
  by (simp add: message_frame_def other_tables_def)

lemma broadcast_frame_clients: "broadcast_frame d d' \<Longrightarrow> t_clients d' = t_clients d"
  by (simp add: broadcast_frame_def frame_defs)

lemma runInTx_clients:
  "(\<And>a d'. f d = Inr (a, d') \<Longrightarrow> t_clients d' = t_clients d) \<Longrightarrow> t_clients (snd (runInTx e f d)) = t_clients d"
  by (rule runInTx_frame [where R = "\<lambda>d d'. t_clients d' = t_clients d"]) auto

lemma StoreMessages_clients: "t_clients (snd (StoreMessages e cd ms c d)) = t_clients d"
  unfolding StoreMessages_def
proof (rule runInTx_clients, goal_cases)
  case (1 a d')
  then obtain ids d1 where d1: "foldE (storeOne e cd) ms ([], d) = Inr (ids, d1)" by auto
  have "t_clients (snd (ids, d1)) = t_clients d"
  proof (rule foldE_invariant [OF d1, where P = "\<lambda>s. t_clients (snd s) = t_clients d"], goal_cases)
    case (2 m s s')
    then show ?case using message_frame_storeOne [of e cd m "fst s" "snd s" "fst s'" "snd s'"]
      by (simp add: message_frame_clients)
  qed simp
  moreover have "t_clients d' = t_clients d1" if "foldE (linkIgnore w) ids d1 = Inr d'" for w
    by (rule foldE_frame [OF that]) (auto simp: linkIgnore_def)
  ultimately show ?case using 1 d1 by (auto split: if_splits sum.splits)
qed

lemma SaveBroadcastMessage_clients: "t_clients (snd (SaveBroadcastMessage e cd m b c a d)) = t_clients d"
proof (cases "SaveBroadcastMessage e cd m b c a d")
  case (Pair r d')
  show ?thesis
  proof (cases r)
    case (Inr u)
    with Pair have run: "SaveBroadcastMessage e cd m b c a d = (Inr (), d')" by simp
    show ?thesis
      by (rule SaveBroadcastMessage_okE [OF run])
        (cases "AllocationID_Bytes a = []"; auto simp: Pair insert_sent_eq_Inr dest: tryStoreMessage_same(4))
  qed (use Pair SaveBroadcastMessage_error in force)
qed

lemma blacklisted_apply:
  assumes "is_blacklisted d i"
  shows "is_blacklisted (apply_op e cd op d) i"
proof -
  have ifp: "t_clients (snd (internalMessagesForProcessing e cd c lim l d)) = t_clients d" for c lim l
    unfolding internalMessagesForProcessing_def
    by (rule runInTx_clients) (auto dest: message_frame_ifp_loop message_frame_clients)
  have same: "t_clients d' = t_clients d \<Longrightarrow> is_blacklisted d' i" for d'
    using assms is_blacklisted_same by blast
  have "t_clients (snd (AddClientLabel j l d)) = t_clients d" for j l
    by (cases "insert_label (ClientID_String j) l d") (auto simp: AddClientLabel_def execStmt_def insert_label_def)
  moreover have "t_clients (snd (SetMessageResult e c j r d)) = t_clients d" for c j r
    unfolding SetMessageResult_def
    by (rule runInTx_clients) (auto dest: message_frame_trySetMessageResult message_frame_clients)
  moreover have "t_clients (snd (DeletePendingMessages e cs d)) = t_clients d" for cs
    unfolding DeletePendingMessages_def by (rule runInTx_clients) (auto simp: Let_def split: if_splits)
  moreover have "t_clients (snd (LinkMessagesToContact e c is d)) = t_clients d" for c "is"
  proof (cases "ParseUint16 c")
    case (Inr w)
    show ?thesis
      unfolding LinkMessagesToContact_def Inr sum.case
      by (rule runInTx_clients) (auto elim!: foldE_frame)
  qed (simp add: LinkMessagesToContact_def)
  moreover have "t_clients (snd (RecordResourceUsageData e j u d)) = t_clients d" for j u
    by (cases rule: RecordResourceUsageData_snd [of e j u d]) simp_all
  moreover have "t_clients (snd (StoreFile e s n b d)) = t_clients d" for s n b
    by (cases b; cases "begin_err e"; cases "commit_err e") (simp_all add: StoreFile_def runInTx_def)
  moreover have "t_clients (snd (DeleteFile e s n d)) = t_clients d" for s n
    by (cases "begin_err e"; cases "commit_err e") (simp_all add: DeleteFile_def runInTx_def)
  ultimately show ?thesis
    using assms ifp
    by (cases op) (auto intro!: same simp: blacklisted_AddClient blacklisted_RecordClientContact blacklisted_BlacklistClient
        StoreMessages_clients SaveBroadcastMessage_clients RemoveClientLabel_def execStmt_def ClientMessagesForProcessing_def
        broadcast_frame_clients [OF broadcast_frame_CreateBroadcast] broadcast_frame_clients [OF broadcast_frame_SetBroadcastLimit]
        broadcast_frame_clients [OF broadcast_frame_DisableBroadcasts] broadcast_frame_clients [OF broadcast_frame_CreateAllocation]
        broadcast_frame_clients [OF broadcast_frame_CleanupAllocation])
qed

section \<open>Properties of every reachable database\<close>

text \<open>
  C16. In every database reachable by calls of the store interface a message is pending exactly when
  it is stored and has no result, with one pending row and one message row for each id; so a
  message's payload, which only the pending row has, is dropped exactly when it gets its result.
\<close>

theorem pending_iff_no_result:
  assumes "reach store_step initSchema d"
  shows "(i \<in> p_message_id ` set (t_pending d) \<longleftrightarrow> result_of d i = Some None)
    \<and> distinct (map p_message_id (t_pending d)) \<and> distinct (map messageID (t_messages d))"
proof -
  have ok: "messages_ok d" using store.reachable_inv [OF refl assms] by (simp add: store_ok_def)
  note okD = messages_okD [OF ok]
  have "i \<in> p_message_id ` set (t_pending d) \<longleftrightarrow> i \<in> unprocessed (t_messages d)" using okD(3) by simp
  also have "\<dots> \<longleftrightarrow> (\<exists>m \<in> set (t_messages d). messageID m = i \<and> processedTimeSeconds m = None)"
    by (auto simp: unprocessed_def)
  also have "\<dots> \<longleftrightarrow> result_of d i = Some None"
  proof
    assume "\<exists>m \<in> set (t_messages d). messageID m = i \<and> processedTimeSeconds m = None"
    then obtain m where m: "m \<in> set (t_messages d)" "messageID m = i" "processedTimeSeconds m = None" by blast
    then show "result_of d i = Some None"
      using find_key_unique [OF okD(1) m(1)] by (simp add: result_of_def toMessageResultProto_def)
  next
    assume "result_of d i = Some None"
    then show "\<exists>m \<in> set (t_messages d). messageID m = i \<and> processedTimeSeconds m = None"
      by (auto simp: result_of_def toMessageResultProto_def dest!: find_SomeD split: option.splits)
  qed
  finally show ?thesis using okD by blast
qed

text \<open>
  C32. In every reachable database a client got each broadcast at most once, and a broadcast with a
  positive finite limit has gone to at most twice as many clients as its limit; what is allocated
  of it is the sum of its outstanding allocations and within the limit.
\<close>

theorem broadcast_limit_factor_two:
  assumes "reach store_step initSchema d" and "b \<in> set (t_broadcasts d)"
    and "br_message_limit b \<noteq> 0" and "br_message_limit b \<noteq> BroadcastUnlimited"
  shows "distinct (t_broadcast_sent d)
    \<and> sent_count d (br_broadcast_id b) \<le> 2 * unat (br_message_limit b)
    \<and> unat (br_allocated b) = alloc_sum al_message_limit (allocs_of d (br_broadcast_id b))
    \<and> br_allocated b \<le> br_message_limit b"
proof -
  have ok: "broadcasts_ok d" using store.reachable_inv [OF refl assms(1)] by (simp add: store_ok_def)
  then have c: "counters_ok b (allocs_of d (br_broadcast_id b)) (sent_count d (br_broadcast_id b))"
    using assms(2) by (auto simp: broadcasts_ok_def list_all_iff)
  have "alloc_sum al_sent (allocs_of d (br_broadcast_id b)) \<le> alloc_sum al_message_limit (allocs_of d (br_broadcast_id b))"
    using c by (intro alloc_sum_mono) (simp add: counters_ok_def)
  with c assms(3,4) ok show ?thesis by (simp add: counters_ok_def broadcasts_ok_def)
qed

text \<open>
  C35. A blacklisted client id stays blacklisted: no sequence of store calls makes it trusted again.
\<close>

theorem blacklisted_forever:
  assumes "reach store_step d d'" and "is_blacklisted d i"
  shows "is_blacklisted d' i"
  using assms by (induction rule: reach.induct) (auto elim!: store_stepE intro: blacklisted_apply)

section \<open>A run that sends more than the limit\<close>

definition demo_cid :: "u8 \<Rightarrow> ClientID" where
  "demo_cid n = ClientID (replicate 8 n)"

definition demo_bid :: BroadcastID where
  "demo_bid = BroadcastID (replicate 8 9)"

definition demo_broadcast :: Broadcast where
  "demo_broadcast = \<lparr>BroadcastId = Some (replicate 8 9), b_Source = Some \<lparr>ClientId = None, ServiceName = ''s''\<rparr>,
     b_Destination = None, b_MessageType = ''m'', RequiredLabels = [], ExpirationTime = None,
     b_Data = None, GroupName = []\<rparr>"

definition demo_bmsg :: "u8 \<Rightarrow> Message" where
  "demo_bmsg n = empty_Message\<lparr>MessageId := Some (replicate 32 n),
     Source := Some \<lparr>ClientId = None, ServiceName = ''s''\<rparr>,
     Destination := Some \<lparr>ClientId = ClientID_Bytes (demo_cid n), ServiceName = ''s''\<rparr>,
     CreationTime := Some \<lparr>Seconds = 900, Nanos = 7\<rparr>\<rparr>"

definition demo_alloc :: "u8 \<Rightarrow> AllocationID" where
  "demo_alloc n = AllocationID (replicate 8 n)"

definition demo_ops :: "(env \<times> codec \<times> store_op) list" where
  "demo_ops = map (\<lambda>op. (demo_env, demo_codec, op))
     [OpAddClient (demo_cid 1) demo_data, OpAddClient (demo_cid 2) demo_data, OpAddClient (demo_cid 3) demo_data,
      OpBlacklistClient (demo_cid 3),
      OpCreateBroadcast (Some demo_broadcast) 2,
      OpCreateAllocation (Inr (replicate 8 1)) demo_bid f32_0_2 (2000 * second),
      OpSaveBroadcastMessage (demo_bmsg 1) demo_bid (demo_cid 1) (demo_alloc 1),
      OpCreateAllocation (Inr (replicate 8 2)) demo_bid f32_0_2 (2000 * second),
      OpCleanupAllocation demo_bid (demo_alloc 1) 1,
      OpSaveBroadcastMessage (demo_bmsg 2) demo_bid (demo_cid 2) (demo_alloc 2),
      OpCreateAllocation (Inr (replicate 8 3)) demo_bid f32_0_2 (2000 * second),
      OpCleanupAllocation demo_bid (demo_alloc 2) 1,
      OpSaveBroadcastMessage (demo_bmsg 3) demo_bid (demo_cid 3) (demo_alloc 3)]"

definition demo_end :: sqldb where
  "demo_end = the (store_run demo_ops initSchema)"

lemma demo_run_sent:
  "map_option (\<lambda>d. (map br_message_limit (t_broadcasts d), sent_count d (BroadcastID_String demo_bid)))
     (store_run demo_ops initSchema) = Some ([2], 3)"
  by code_simp

lemma demo_end_run: "store_run demo_ops initSchema = Some demo_end"
  using demo_run_sent by (auto simp: demo_end_def)

lemma demo_end_reach: "reach store_step initSchema demo_end"
  by (rule store_run_reach [OF demo_end_run])

lemma demo_end_sent:
  "map br_message_limit (t_broadcasts demo_end) = [2]" "sent_count demo_end (BroadcastID_String demo_bid) = 3"
  using demo_run_sent by (auto simp: demo_end_run)

text \<open>
  C34. The limit itself is not kept: since an allocation is granted against the larger of the sent and
  the allocated count instead of their sum, some sequence of calls reaches a database in which a
  broadcast with limit 2 has been sent to 3 clients.
\<close>

theorem broadcast_limit_exceeded:
  "\<exists>d. reach store_step initSchema d \<and> (\<exists>b \<in> set (t_broadcasts d).
     br_message_limit b = 2 \<and> br_broadcast_id b = BroadcastID_String demo_bid)
     \<and> sent_count d (BroadcastID_String demo_bid) = 3"
proof -
  have "map (\<lambda>b. (br_message_limit b, br_broadcast_id b)) (t_broadcasts (the (store_run demo_ops initSchema))) =
      [(2, BroadcastID_String demo_bid)]" by code_simp
  then have rows: "map (\<lambda>b. (br_message_limit b, br_broadcast_id b)) (t_broadcasts demo_end) =
      [(2, BroadcastID_String demo_bid)]" by (simp add: demo_end_def)
  then obtain b where "t_broadcasts demo_end = [b]" "br_message_limit b = 2"
    "br_broadcast_id b = BroadcastID_String demo_bid" by auto
  with demo_end_reach demo_end_sent(2) show ?thesis by auto
qed

theorem broadcast_limit_factor_two_witness:
  "sent_count demo_end (br_broadcast_id (hd (t_broadcasts demo_end))) \<le> 2 * unat (br_message_limit (hd (t_broadcasts demo_end)))
   \<and> br_message_limit (hd (t_broadcasts demo_end)) = 2"
proof -
  obtain b where b: "t_broadcasts demo_end = [b]" "br_message_limit b = 2"
    using demo_end_sent(1) by auto
  from broadcast_limit_factor_two [OF demo_end_reach, of b] b show ?thesis
    by (simp add: BroadcastUnlimited_def)
qed

theorem pending_iff_no_result_witness:
  "distinct (map p_message_id (t_pending demo_end)) \<and> length (t_pending demo_end) = 3"
proof -
  have "length (t_pending (the (store_run demo_ops initSchema))) = 3" by code_simp
  with pending_iff_no_result [OF demo_end_reach] show ?thesis by (simp add: demo_end_def)
qed

theorem blacklisted_forever_witness:
  "is_blacklisted demo_end (demo_cid 3)"
proof (rule blacklisted_forever)
  have run: "store_run demo_ops initSchema =
      store_run (drop 4 demo_ops) (the (store_run (take 4 demo_ops) initSchema))" by code_simp
  then show "reach store_step (the (store_run (take 4 demo_ops) initSchema)) demo_end"
    using demo_end_run by (intro store_run_reach) simp
  show "is_blacklisted (the (store_run (take 4 demo_ops) initSchema)) (demo_cid 3)" by code_simp
qed

end
