(* ===== verification/Client_Cache.thy ===== *)
theory Client_Cache
  imports Sqlite_Clients
begin

text \<open>
  \<^verbatim>\<open>fleetspeak/src/server/internal/cache/cache.go\<close>: the cache of recently connected clients.

  The state is the map \<^verbatim>\<open>m\<close>; every method holds the lock for its whole body, so one call is
  one step, and the clock is read once per call. \<^verbatim>\<open>expireLoop\<close> runs \<open>expire\<close> at times of its
  choosing; \<^verbatim>\<open>Stop\<close> only ends that loop. The contract is a map that remembers the last write
  for every client, read with a freshness test: \<open>expire\<close> must not be observable.
\<close>

section \<open>The cache\<close>

record clientEntry =
  ce_u :: gotime
  ce_d :: ClientData

type_synonym Clients = "(ClientID, clientEntry) gomap"

definition MaxAge :: int where
  "MaxAge = 45 * second"

definition NewClients :: Clients where
  "NewClients = []"

definition cache_Get :: "gotime \<Rightarrow> ClientID \<Rightarrow> Clients \<Rightarrow> ClientData option" where
  "cache_Get now i c = (case map_of c i of
       None \<Rightarrow> None
     | Some en \<Rightarrow> if now - ce_u en > MaxAge then None else Some (ClientData_Clone (ce_d en)))"

definition cache_Update :: "gotime \<Rightarrow> ClientID \<Rightarrow> ClientData option \<Rightarrow> Clients \<Rightarrow> Clients" where
  "cache_Update now i data c = (case data of
       None \<Rightarrow> gomap_del i c
     | Some d \<Rightarrow> gomap_upd i \<lparr>ce_u = now, ce_d = ClientData_Clone d\<rparr> c)"

text \<open>
  The datastore is the argument \<open>read\<close>, its \<^verbatim>\<open>GetClientData\<close> for this client, on a state
  \<open>w\<close>. A successful read is never nil.
\<close>

definition GetOrRead :: "gotime \<Rightarrow> ClientID \<Rightarrow> ('w \<Rightarrow> (error + ClientData) \<times> 'w) \<Rightarrow>
    Clients \<Rightarrow> 'w \<Rightarrow> (error + ClientData \<times> bool) \<times> Clients \<times> 'w" where
  "GetOrRead now i read c w = (case cache_Get now i c of
       Some ret \<Rightarrow> (Inr (ret, True), c, w)
     | None \<Rightarrow> (case read w of
           (Inl err, w') \<Rightarrow> (Inl err, c, w')
         | (Inr ret, w') \<Rightarrow> (Inr (ret, False), cache_Update now i (Some ret) c, w')))"

definition cache_Clear :: "Clients \<Rightarrow> Clients" where
  "cache_Clear c = []"

definition cache_Size :: "Clients \<Rightarrow> nat" where
  "cache_Size c = length c"

text \<open>Go permits deleting the current key while ranging over the map.\<close>

definition cache_expire :: "gotime \<Rightarrow> Clients \<Rightarrow> Clients" where
  "cache_expire now c = fold (\<lambda>(k, en) c. if now - ce_u en > MaxAge then gomap_del k c else c) c c"

section \<open>Runs and their specification\<close>

datatype cache_op =
    OpUpdate ClientID "ClientData option"
  | OpGetOrRead ClientID "error + ClientData"
  | OpClear
  | OpExpire

fun cache_step :: "gotime \<times> cache_op \<Rightarrow> Clients \<Rightarrow> Clients" where
  "cache_step (now, OpUpdate i data) c = cache_Update now i data c"
| "cache_step (now, OpGetOrRead i r) c = fst (snd (GetOrRead now i (Pair r) c ()))"
| "cache_step (now, OpClear) c = cache_Clear c"
| "cache_step (now, OpExpire) c = cache_expire now c"

definition cache_run :: "(gotime \<times> cache_op) list \<Rightarrow> Clients" where
  "cache_run tr = fold cache_step tr NewClients"

type_synonym cache_spec = "ClientID \<rightharpoonup> gotime \<times> ClientData"

definition spec_Get :: "gotime \<Rightarrow> ClientID \<Rightarrow> cache_spec \<Rightarrow> ClientData option" where
  "spec_Get now i s = (case s i of
       None \<Rightarrow> None
     | Some (u, d) \<Rightarrow> if now - u \<le> MaxAge then Some d else None)"

fun spec_step :: "gotime \<times> cache_op \<Rightarrow> cache_spec \<Rightarrow> cache_spec" where
  "spec_step (now, OpUpdate i data) s = s(i := map_option (Pair now) data)"
| "spec_step (now, OpGetOrRead i r) s =
     (case (spec_Get now i s, r) of (None, Inr d) \<Rightarrow> s(i \<mapsto> (now, d)) | _ \<Rightarrow> s)"
| "spec_step (now, OpClear) s = Map.empty"
| "spec_step (now, OpExpire) s = s"

definition last_write :: "(gotime \<times> cache_op) list \<Rightarrow> cache_spec" where
  "last_write tr = fold spec_step tr Map.empty"

section \<open>Refinement\<close>

lemma ClientData_Clone_id [simp]: "ClientData_Clone d = d"
proof -
  have "foldl (\<lambda>ls l. ls @ [l]) acc xs = acc @ xs" for acc xs :: "Label list"
    by (induction xs arbitrary: acc) auto
  then show ?thesis by (simp add: ClientData_Clone_def)
qed

lemma map_of_fold_del:
  "map_of (fold (\<lambda>(k, en) c. if P en then gomap_del k c else c) xs c) i =
     (if \<exists>en. (i, en) \<in> set xs \<and> P en then None else map_of c i)"
  by (induction xs arbitrary: c) auto

lemma map_of_expire:
  assumes "gomap_ok c"
  shows "map_of (cache_expire now c) i = (case map_of c i of
      None \<Rightarrow> None | Some en \<Rightarrow> if now - ce_u en > MaxAge then None else Some en)"
proof -
  have "(i, en) \<in> set c \<longleftrightarrow> map_of c i = Some en" for en
    using assms by (simp add: gomap_ok_def)
  then show ?thesis
    unfolding cache_expire_def map_of_fold_del by (auto split: option.split)
qed

lemma gomap_ok_expire: "gomap_ok c \<Longrightarrow> gomap_ok (cache_expire now c)"
proof -
  have "gomap_ok (fold (\<lambda>(k, en) c. if now - ce_u en > MaxAge then gomap_del k c else c) xs c)"
    if "gomap_ok c" for xs and c :: Clients
    using that by (induction xs arbitrary: c) auto
  then show "gomap_ok c \<Longrightarrow> gomap_ok (cache_expire now c)" by (simp add: cache_expire_def)
qed

text \<open>
  At time \<open>t\<close> the cache holds what the specification holds, save for entries that are stale by
  \<open>t\<close>.
\<close>

definition entry_rel :: "gotime \<Rightarrow> clientEntry option \<Rightarrow> (gotime \<times> ClientData) option \<Rightarrow> bool" where
  "entry_rel t en w = (case (en, w) of
       (None, None) \<Rightarrow> True
     | (Some en, Some (u, d)) \<Rightarrow> u = ce_u en \<and> d = ce_d en
     | (None, Some (u, d)) \<Rightarrow> t - u > MaxAge
     | (Some _, None) \<Rightarrow> False)"

definition cache_rel :: "gotime \<Rightarrow> Clients \<Rightarrow> cache_spec \<Rightarrow> bool" where
  "cache_rel t c s \<longleftrightarrow> gomap_ok c \<and> (\<forall>i. entry_rel t (map_of c i) (s i))"

lemma entry_rel_later: "entry_rel t en w \<Longrightarrow> t \<le> t' \<Longrightarrow> entry_rel t' en w"
  by (auto simp: entry_rel_def split: option.splits)

lemma cache_rel_later: "cache_rel t c s \<Longrightarrow> t \<le> t' \<Longrightarrow> cache_rel t' c s"
  unfolding cache_rel_def by (blast intro: entry_rel_later)

lemma cache_rel_Get: "cache_rel t c s \<Longrightarrow> cache_Get t i c = spec_Get t i s"
  unfolding cache_rel_def cache_Get_def spec_Get_def
  by (elim conjE allE [of _ i]) (auto simp: entry_rel_def split: option.splits)

lemma cache_rel_Update:
  "cache_rel t c s \<Longrightarrow> cache_rel t (cache_Update t i data c) (s(i := map_option (Pair t) data))"
  by (auto simp: cache_rel_def entry_rel_def cache_Update_def split: option.split)

lemma cache_rel_step:
  assumes "cache_rel t c s"
  shows "cache_rel t (cache_step (t, p) c) (spec_step (t, p) s)"
proof (cases p)
  case (OpUpdate i data)
  with cache_rel_Update [OF assms] show ?thesis by simp
next
  case (OpGetOrRead i r)
  with cache_rel_Get [OF assms, of i] cache_rel_Update [OF assms, of i "Some _"] assms show ?thesis
    by (auto simp: GetOrRead_def split: option.split sum.split)
next
  case OpClear
  then show ?thesis by (simp add: cache_rel_def entry_rel_def cache_Clear_def)
next
  case OpExpire
  from assms have ok: "gomap_ok c" by (simp add: cache_rel_def)
  have "entry_rel t (map_of (cache_expire t c) i) (s i)" for i
    using assms unfolding cache_rel_def map_of_expire [OF ok]
    by (elim conjE allE [of _ i]) (auto simp: entry_rel_def split: option.splits)
  with gomap_ok_expire [OF ok] show ?thesis by (simp add: OpExpire cache_rel_def)
qed

lemma cache_rel_run:
  assumes "sorted (map fst tr)" and "\<And>t p. (t, p) \<in> set tr \<Longrightarrow> t0 \<le> t \<and> t \<le> now"
    and "cache_rel t0 c s" and "t0 \<le> now"
  shows "cache_rel now (fold cache_step tr c) (fold spec_step tr s)"
  using assms
proof (induction tr arbitrary: t0 c s)
  case Nil
  then show ?case by (simp add: cache_rel_later)
next
  case (Cons tp tr)
  obtain t p where tp: "tp = (t, p)" by force
  from Cons.prems(2) have le: "t0 \<le> t" "t \<le> now" by (auto simp: tp)
  have "cache_rel t (cache_step (t, p) c) (spec_step (t, p) s)"
    by (rule cache_rel_step [OF cache_rel_later [OF Cons.prems(3) le(1)]])
  moreover have "t \<le> t' \<and> t' \<le> now" if "(t', p') \<in> set tr" for t' p'
    using that Cons.prems(1,2) by (auto simp: tp)
  ultimately show ?case using Cons.IH [of t] Cons.prems(1) le(2) by (simp add: tp)
qed

section \<open>Properties\<close>

text \<open>
  C39. The client cache is a map of last writes with a freshness bound: after any sequence of
  updates, reads through the cache, clearings and expirations under a clock that does not run
  backwards, looking up a client gives the data last written or read for it if that was at most
  \<^verbatim>\<open>MaxAge\<close> (45 seconds) ago, and nothing otherwise; pruning is not observable.
\<close>
theorem cache_refines:
  assumes "sorted (map fst tr)" and "list_all (\<lambda>tp. fst tp \<le> now) tr"
  shows "cache_Get now i (cache_run tr) = spec_Get now i (last_write tr)"
proof -
  define t0 where "t0 = Min (insert now (fst ` set tr))"
  have "t0 \<le> t \<and> t \<le> now" if "(t, p) \<in> set tr" for t p
    using that assms(2) by (force simp: t0_def list_all_iff intro: Min_le)
  moreover have "t0 \<le> now" by (simp add: t0_def)
  moreover have "cache_rel t0 NewClients Map.empty" by (simp add: cache_rel_def entry_rel_def NewClients_def)
  ultimately have "cache_rel now (cache_run tr) (last_write tr)"
    unfolding cache_run_def last_write_def by (intro cache_rel_run [OF assms(1)])
  then show ?thesis by (rule cache_rel_Get)
qed

definition demo_trace :: "(gotime \<times> cache_op) list" where
  "demo_trace = [(0, OpGetOrRead demo_client (Inr demo_data)), (10 * second, OpUpdate (ClientID []) (Some demo_data)),
     (50 * second, OpExpire)]"

theorem cache_refines_witness:
  "cache_Get (50 * second) demo_client (cache_run demo_trace) = None
   \<and> cache_Get (50 * second) (ClientID []) (cache_run demo_trace) = Some demo_data"
proof -
  have "sorted (map fst demo_trace)" "list_all (\<lambda>tp. fst tp \<le> 50 * second) demo_trace"
    by (simp_all add: demo_trace_def)
  note * = cache_refines [OF this]
  show ?thesis unfolding *
    by (simp add: demo_trace_def last_write_def spec_Get_def MaxAge_def demo_client_def)
qed

end
