(* ===== verification/System_Service.thy ===== *)
theory System_Service
  imports Sqlite_Store Client_Cache
begin

text \<open>
  \<^verbatim>\<open>fleetspeak/src/server/internal/services/system_service.go\<close>: the service that handles the
  messages Fleetspeak clients send to Fleetspeak itself, and the part of the server its services
  work on: the datastore, the client cache and the statistics collector.

  A function of type \<open>gofn\<close> either ends the process (\<open>Inl\<close>, a panic or \<^verbatim>\<open>log.Fatal\<close>) or
  returns a value, which may be a Go error, and the new state of the server. Protocol buffer
  decoding is an argument of the functions that use it.
\<close>

section \<open>The server as its services see it\<close>

text \<open>The calls of \<^verbatim>\<open>stats.Collector\<close>, in the order they are made.\<close>

datatype stat =
    MessageIngested bool Message "ClientData option"
  | MessageSaved bool Message "ClientData option"
  | MessageProcessed gotime gotime Message bool "ClientData option"
  | MessageErrored gotime gotime bool Message bool "ClientData option"
  | MessageDropped Message bool "ClientData option"
  | ResourceUsageDataReceived ClientData ResourceUsageData "ValidationInfoData option"
  | KillNotificationReceived ClientData bytes

record 's world =
  w_db :: sqldb
  w_cache :: Clients
  w_stats :: "stat list"
  w_user :: 's

type_synonym ('s, 'a) action = "('s world, 'a) gofn"

definition collect :: "stat \<Rightarrow> ('s, unit) action" where
  "collect s w = Inr ((), w\<lparr>w_stats := w_stats w @ [s]\<rparr>)"

text \<open>A call of the datastore; a panic inside it ends the process.\<close>

definition db_call :: "'a dbop \<Rightarrow> ('s, error + 'a) action" where
  "db_call f w = (case f (w_db w) of
       (Inl (Fatal x), d) \<Rightarrow> Inl (Fatal x)
     | (r, d) \<Rightarrow> Inr (r, w\<lparr>w_db := d\<rparr>))"

definition get_or_read :: "env \<Rightarrow> ClientID \<Rightarrow> ('s, error + ClientData \<times> bool) action" where
  "get_or_read e i w = (case GetOrRead (Now e) i (GetClientData e i) (w_cache w) (w_db w) of
       (r, c, d) \<Rightarrow> Inr (r, w\<lparr>w_cache := c, w_db := d\<rparr>))"

text \<open>\<^verbatim>\<open>liveService.GetClientData\<close>.\<close>

definition sctx_GetClientData :: "env \<Rightarrow> ClientID \<Rightarrow> ('s, error + ClientData) action" where
  "sctx_GetClientData e i = abind (get_or_read e i) (\<lambda>r. aret (case r of
       Inl x \<Rightarrow> Inl x | Inr (cd, _) \<Rightarrow> Inr cd))"

section \<open>Messages of the system service\<close>

record sys_codec =
  unmarshal_MessageAckData :: "AnyData \<Rightarrow> error + gobytes list"
  unmarshal_MessageErrorData :: "AnyData \<Rightarrow> error + gobytes \<times> string"
  unmarshal_ClientInfoData :: "AnyData \<Rightarrow> error + Label list"
  unmarshal_ResourceUsageData :: "AnyData \<Rightarrow> error + ResourceUsageData"
  unmarshal_KillNotification :: "AnyData \<Rightarrow> error + bytes"

definition clientServiceName :: string where
  "clientServiceName = ''client''"

definition success_result :: "env \<Rightarrow> MessageResult" where
  "success_result e = \<lparr>ProcessedTime = Some (NowProto e), Failed = False, FailedReason = []\<rparr>"

text \<open>One round of the loop over the messages to acknowledge; \<^verbatim>\<open>continue\<close> is \<open>aret ()\<close>.\<close>

definition ack_one :: "env \<Rightarrow> ClientID \<Rightarrow> Message \<Rightarrow> ('s, unit) action" where
  "ack_one e cid msg =
     (if Result msg \<noteq> None then aret ()
      else case BytesToMessageID (MessageId msg) of
          Inl _ \<Rightarrow> aret ()
        | Inr mmid \<Rightarrow> (case Destination msg of
            None \<Rightarrow> (\<lambda>w. Inl (Fatal ''nil pointer dereference''))
          | Some dest \<Rightarrow> (case BytesToClientID (ClientId dest) of
              Inl _ \<Rightarrow> aret ()
            | Inr mcid \<Rightarrow>
                if cid \<noteq> mcid \<and> \<not> (Source msg \<noteq> None \<and> addr_service (Source msg) = ''system''
                     \<and> MessageType msg = ''RekeyRequest'') then aret ()
                else abind (db_call (SetMessageResult e mcid mmid (success_result e))) (\<lambda>_. aret ()))))"

definition processMessageAck :: "env \<Rightarrow> codec \<Rightarrow> sys_codec \<Rightarrow> ClientID \<Rightarrow> AnyData \<Rightarrow> ('s, error option) action" where
  "processMessageAck e cd sc cid a = (case unmarshal_MessageAckData sc a of
       Inl _ \<Rightarrow> aret (Some (Err ''unable to unmarshal data as MessageAckData''))
     | Inr bs \<Rightarrow> (case mapE BytesToMessageID bs of
         Inl _ \<Rightarrow> aret (Some (Err ''MessageAckData contains invalid message id''))
       | Inr ids \<Rightarrow> abind (db_call (GetMessages e cd ids False)) (\<lambda>r. case r of
             Inl _ \<Rightarrow> aret (Some (TemporaryError (Err ''unable to retrieve messages to ack'')))
           | Inr msgs \<Rightarrow> abind (aloop (ack_one e cid) msgs) (\<lambda>_. aret None))))"

definition processMessageError :: "env \<Rightarrow> codec \<Rightarrow> sys_codec \<Rightarrow> ClientID \<Rightarrow> AnyData \<Rightarrow> ('s, error option) action" where
  "processMessageError e cd sc cid a = (case unmarshal_MessageErrorData sc a of
       Inl _ \<Rightarrow> aret (Some (Err ''unable to unmarshal data as MessageErrorData''))
     | Inr (b, errstr) \<Rightarrow> (case BytesToMessageID b of
         Inl _ \<Rightarrow> aret (Some (Err ''MessageErr Data contains bad message id''))
       | Inr i \<Rightarrow> abind (db_call (GetMessages e cd [i] False)) (\<lambda>r. case r of
             Inl _ \<Rightarrow> aret (Some (TemporaryError (Err ''error from GetMessage'')))
           | Inr msgs \<Rightarrow>
               if length msgs \<noteq> 1 then aret (Some (Err ''expected one result from GetMessages''))
               else (case Destination (hd msgs) of
                   None \<Rightarrow> (\<lambda>w. Inl (Fatal ''nil pointer dereference''))
                 | Some dest \<Rightarrow> (case BytesToClientID (ClientId dest) of
                     Inl _ \<Rightarrow> aret (Some (Err ''retrieved message has bad client id''))
                   | Inr mcid \<Rightarrow>
                       if mcid \<noteq> cid then aret (Some (Err ''attempt to ack a message meant for another client''))
                       else abind (db_call (SetMessageResult e mcid i
                              \<lparr>ProcessedTime = Some (NowProto e), Failed = True, FailedReason = errstr\<rparr>)) (\<lambda>r.
                          case r of Inl _ \<Rightarrow> aret (Some (TemporaryError (Err ''unable to mark message as failed'')))
                            | Inr _ \<Rightarrow> aret None))))))"

text \<open>The loops of \<open>processClientInfo\<close>: removing labels that are gone, then adding new ones.\<close>

fun remove_labels :: "ClientID \<Rightarrow> string list \<Rightarrow> Label list \<Rightarrow> string list \<Rightarrow> ('s, error + string list) action" where
  "remove_labels cid nl [] ol = aret (Inr ol)"
| "remove_labels cid nl (l # ls) ol =
     (if lbl_service l = clientServiceName then
        if lbl_label l \<notin> set nl then
          abind (db_call (RemoveClientLabel cid l)) (\<lambda>r. case r of
              Inl _ \<Rightarrow> aret (Inl (TemporaryError (Err ''unable to remove label'')))
            | Inr _ \<Rightarrow> remove_labels cid nl ls ol)
        else remove_labels cid nl ls (lbl_label l # ol)
      else remove_labels cid nl ls ol)"

fun add_labels :: "ClientID \<Rightarrow> string list \<Rightarrow> Label list \<Rightarrow> ('s, error option) action" where
  "add_labels cid ol [] = aret None"
| "add_labels cid ol (l # ls) =
     (if lbl_service l \<noteq> clientServiceName then add_labels cid ol ls
      else if lbl_label l \<notin> set ol then
        abind (db_call (AddClientLabel cid l)) (\<lambda>r. case r of
            Inl _ \<Rightarrow> aret (Some (TemporaryError (Err ''unable to add label'')))
          | Inr _ \<Rightarrow> add_labels cid ol ls)
      else add_labels cid ol ls)"

definition client_label_names :: "Label list \<Rightarrow> string list" where
  "client_label_names ls = map lbl_label (filter (\<lambda>l. lbl_service l = clientServiceName) ls)"

definition processClientInfo :: "env \<Rightarrow> sys_codec \<Rightarrow> ClientID \<Rightarrow> AnyData \<Rightarrow> ('s, error option) action" where
  "processClientInfo e sc cid a = (case unmarshal_ClientInfoData sc a of
       Inl _ \<Rightarrow> aret (Some (Err ''unable to unmarshal data as ClientInfoData''))
     | Inr labels \<Rightarrow> abind (db_call (GetClientData e cid)) (\<lambda>r. case r of
           Inl _ \<Rightarrow> aret (Some (TemporaryError (Err ''GetClientData failed'')))
         | Inr d \<Rightarrow> abind (remove_labels cid (client_label_names labels) (cd_Labels d) []) (\<lambda>r. case r of
               Inl x \<Rightarrow> aret (Some x)
             | Inr ol \<Rightarrow> abind (add_labels cid ol labels) (\<lambda>r. case r of
                   Some x \<Rightarrow> aret (Some x)
                 | None \<Rightarrow> (\<lambda>w. Inr (None, w\<lparr>w_cache := cache_Update (Now e) cid None (w_cache w)\<rparr>))))))"

definition processResourceUsage ::
  "env \<Rightarrow> sys_codec \<Rightarrow> ClientID \<Rightarrow> AnyData \<Rightarrow> ValidationInfoData option \<Rightarrow> ('s, error option) action" where
  "processResourceUsage e sc cid a v = (case unmarshal_ResourceUsageData sc a of
       Inl _ \<Rightarrow> aret (Some (Err ''unable to unmarshal data as ResourceUsageData''))
     | Inr rud \<Rightarrow> abind (sctx_GetClientData e cid) (\<lambda>r. case r of
           Inl _ \<Rightarrow> aret (Some (Err ''failed to get client data''))
         | Inr d \<Rightarrow> abind (collect (ResourceUsageDataReceived d rud v)) (\<lambda>_.
             abind (db_call (RecordResourceUsageData e cid rud)) (\<lambda>r. case r of
                 Inl _ \<Rightarrow> aret (Some (Err ''failed to write resource-usage data''))
               | Inr _ \<Rightarrow> aret None))))"

definition processKillNotification :: "env \<Rightarrow> sys_codec \<Rightarrow> ClientID \<Rightarrow> AnyData \<Rightarrow> ('s, error option) action" where
  "processKillNotification e sc cid a = (case unmarshal_KillNotification sc a of
       Inl _ \<Rightarrow> aret (Some (Err ''unable to unmarshal KillNotification''))
     | Inr kn \<Rightarrow> abind (sctx_GetClientData e cid) (\<lambda>r. case r of
           Inl _ \<Rightarrow> aret (Some (Err ''failed to get client data''))
         | Inr d \<Rightarrow> abind (collect (KillNotificationReceived d kn)) (\<lambda>_. aret None)))"

definition system_ProcessMessage :: "env \<Rightarrow> codec \<Rightarrow> sys_codec \<Rightarrow> Message \<Rightarrow> ('s, error option) action" where
  "system_ProcessMessage e cd sc m = (case Source m of
       None \<Rightarrow> aret (Some (Err ''source is nil''))
     | Some src \<Rightarrow> (case BytesToClientID (ClientId src) of
         Inl _ \<Rightarrow> aret (Some (Err ''invalid source client id''))
       | Inr cid \<Rightarrow>
           if ClientID_IsNil cid then aret (Some (Err ''invalid source client id''))
           else (case Data m of
               None \<Rightarrow> aret (Some (Err ''no Data present''))
             | Some a \<Rightarrow>
                 if MessageType m = ''MessageAck'' then processMessageAck e cd sc cid a
                 else if MessageType m = ''MessageError'' then processMessageError e cd sc cid a
                 else if MessageType m = ''ClientInfo'' then processClientInfo e sc cid a
                 else if MessageType m = ''ResourceUsage'' then processResourceUsage e sc cid a (ValidationInfo m)
                 else if MessageType m = ''KillNotification'' then processKillNotification e sc cid a
                 else aret (Some (Err ''unknown system message type'')))))"

section \<open>Sequencing\<close>

lemma db_call_eq_Inr:
  "db_call f w = Inr (r, w') \<longleftrightarrow> (\<exists>d. f (w_db w) = (r, d) \<and> w' = w\<lparr>w_db := d\<rparr> \<and> (\<nexists>x. r = Inl (Fatal x)))"
  by (auto simp: db_call_def split: prod.splits sum.splits error.splits)

lemma GetClientData_same: "snd (GetClientData e i d) = d"
  unfolding GetClientData_def by (rule runInTx_invariant) (auto simp: Let_def)

lemma GetMessages_same: "snd (GetMessages e cd ids b d) = d"
  unfolding GetMessages_def by (rule runInTx_invariant) auto

lemma get_or_read_db: "get_or_read e i w = Inr (r, w') \<Longrightarrow> w_db w' = w_db w"
  using GetClientData_same [of e i "w_db w"]
  by (auto simp: get_or_read_def GetOrRead_def split: option.splits prod.splits sum.splits)

section \<open>Acknowledgements\<close>

definition ackable :: "ClientID \<Rightarrow> dbMessage \<Rightarrow> bool" where
  "ackable cid r \<longleftrightarrow> destinationClientID r = ClientID_String cid
     \<or> sourceServiceName r = ''system'' \<and> messageType r = ''RekeyRequest''"

lemma stored_success [simp]: "stored_result (success_result e) = success_result e"
  by (simp add: stored_result_def success_result_def)

lemma read_client_column:
  assumes "toClientIDString b = Inr s" and "fromClientIDString s = Inr c"
  obtains i where "BytesToClientID c = Inr i" "s = (if ClientID_IsNil i then [] else ClientID_String i)"
proof (cases "length (raw b) = 0")
  case True
  with assms have "s = []" "c = None" by (simp_all add: toClientIDString_def fromClientIDString_def)
  then show thesis by (intro that [of "ClientID []"]) (simp_all add: BytesToClientID_def ClientID_IsNil_def)
next
  case False
  with assms(1) obtain i where i: "BytesToClientID b = Inr i" "s = ClientID_String i"
    by (auto simp: toClientIDString_def split: sum.splits)
  have "ClientID_ok i" using i(1) by (rule client_id.of_bytes_wf)
  with assms(2) i(2) have "c = ClientID_Bytes i"
    by (simp add: fromClientIDString_def client_id.of_string_to_string)
  moreover have "\<not> ClientID_IsNil i"
    using client_id.of_bytes_raw [OF i(1)] False by (auto simp: ClientID_IsNil_def ClientID_Bytes_def split: if_splits)
  ultimately show thesis
    using that i(2) client_id.of_bytes_to_bytes [OF \<open>ClientID_ok i\<close>] by simp
qed

lemma getMessage_facts:
  assumes ok: "messages_ok d" and "getMessage cd False d i = Inr m"
  obtains row dest mmid mcid where "row \<in> set (t_messages d)" "messageID row = MessageID_String i"
    "Destination m = Some dest" "BytesToMessageID (MessageId m) = Inr mmid" "MessageID_String mmid = messageID row"
    "Result m = None \<longleftrightarrow> result_of d (messageID row) = Some None"
    "BytesToClientID (ClientId dest) = Inr mcid"
    "destinationClientID row = (if ClientID_IsNil mcid then [] else ClientID_String mcid)"
    "Source m \<noteq> None" "addr_service (Source m) = sourceServiceName row" "MessageType m = messageType row"
proof -
  from assms(2) obtain row where row: "find (\<lambda>r. messageID r = MessageID_String i) (t_messages d) = Some row"
    and p: "toMessageProto cd (row\<lparr>failed := None, failedReason := None\<rparr>) = Inr m"
    by (auto simp: getMessage_def sql_row_eq_Inr)
  then have mem: "row \<in> set (t_messages d)" "messageID row = MessageID_String i" by (auto dest: find_SomeD)
  obtain mid where mid: "MessageID_ok mid" "messageID row = MessageID_String mid"
    "StringToMessageID (messageID row) = Inr mid" using messages_ok_id [OF ok mem(1)] .
  have "dbMessage_wf row" using messages_okD(4) [OF ok] mem(1) by (simp add: list_all_iff)
  then obtain b where b: "toClientIDString b = Inr (destinationClientID row)" by (auto simp: dbMessage_wf_def)
  from p mid(3) obtain dc where dc: "fromClientIDString (destinationClientID row) = Inr dc"
    and m: "MessageId m = MessageID_Bytes mid" "Destination m = Some \<lparr>ClientId = dc, ServiceName = destinationServiceName row\<rparr>"
      "Result m = toMessageResultProto (row\<lparr>failed := None, failedReason := None\<rparr>)"
      "Source m \<noteq> None" "addr_service (Source m) = sourceServiceName row" "MessageType m = messageType row"
    by (auto simp: toMessageProto_def)
  obtain mcid where mcid: "BytesToClientID dc = Inr mcid"
    "destinationClientID row = (if ClientID_IsNil mcid then [] else ClientID_String mcid)"
    using read_client_column [OF b dc] .
  have "result_of d (messageID row) = Some (toMessageResultProto row)" using row mem(2) by (simp add: result_of_def)
  then have "Result m = None \<longleftrightarrow> result_of d (messageID row) = Some None"
    using m(3) by (auto simp: toMessageResultProto_def split: option.splits)
  with that [OF mem(1,2) m(2) _ _ _ _ mcid(2) m(4-6), of mid] mid mcid(1) m(1) message_id.of_bytes_to_bytes [OF mid(1)]
  show thesis by simp
qed

text \<open>
  Marking the messages with ids in \<open>S\<close> as processed with success and nothing else, and the messages that \<open>cid\<close> can
  acknowledge.
\<close>

definition settle :: "env \<Rightarrow> string set \<Rightarrow> sqldb \<Rightarrow> sqldb" where
  "settle e S d = d\<lparr>
     t_messages := update_where (\<lambda>r. messageID r \<in> S)
       (\<lambda>r. r\<lparr>failed := None, failedReason := None, processedTimeSeconds := Some (Seconds (NowProto e)),
              processedTimeNanos := Some (Nanos (NowProto e))\<rparr>) (t_messages d),
     t_pending := filter (\<lambda>p. p_message_id p \<notin> S) (t_pending d)\<rparr>"

definition awaits_ack :: "ClientID \<Rightarrow> sqldb \<Rightarrow> string \<Rightarrow> bool" where
  "awaits_ack cid d i \<longleftrightarrow>
     list_ex (\<lambda>row. messageID row = i \<and> ackable cid row \<and> processedTimeSeconds row = None) (t_messages d)"

lemma settle_empty [simp]: "settle e {} d = d"
  by (simp add: settle_def update_where_def)

lemma settle_settle: "settle e S (settle e T d) = settle e (S \<union> T) d"
  by (rule sqldb.equality) (auto simp: settle_def update_where_def intro!: filter_cong)

lemma SetMessageResult_settles:
  assumes "SetMessageResult e c i (success_result e) d = (x, d')"
  shows "x = Inr () \<and> d' = settle e {MessageID_String i} d \<or> (\<exists>err. x = Inl err) \<and> d' = d"
    "begin_err e = None \<Longrightarrow> commit_err e = None \<Longrightarrow> x = Inr ()"
  using assms
  by (auto simp: SetMessageResult_def runInTx_def trySetMessageResult_def success_result_def settle_def Let_def split: option.splits)

lemma ack_one_settles:
  assumes ok: "messages_ok d0" and m: "getMessage cd False d0 i = Inr m" and nn: "\<not> ClientID_IsNil cid"
    and run: "ack_one e cid m w = Inr (u, w')"
  shows "\<exists>S. w' = w\<lparr>w_db := settle e S (w_db w)\<rparr> \<and> S \<subseteq> {j \<in> {MessageID_String i}. awaits_ack cid d0 j}
    \<and> (begin_err e = None \<longrightarrow> commit_err e = None \<longrightarrow> S = {j \<in> {MessageID_String i}. awaits_ack cid d0 j})"
proof -
  obtain row dest mmid mcid where f: "row \<in> set (t_messages d0)" "messageID row = MessageID_String i"
    "Destination m = Some dest" "BytesToMessageID (MessageId m) = Inr mmid" "MessageID_String mmid = messageID row"
    "Result m = None \<longleftrightarrow> result_of d0 (messageID row) = Some None"
    "BytesToClientID (ClientId dest) = Inr mcid"
    "destinationClientID row = (if ClientID_IsNil mcid then [] else ClientID_String mcid)"
    "Source m \<noteq> None" "addr_service (Source m) = sourceServiceName row" "MessageType m = messageType row"
    using getMessage_facts [OF ok m] .
  let ?skip = "cid \<noteq> mcid \<and> \<not> (sourceServiceName row = ''system'' \<and> messageType row = ''RekeyRequest'')"
  have unique: "r = row" if "r \<in> set (t_messages d0)" "messageID r = MessageID_String i" for r
    using messages_okD(1) [OF ok] that f(1,2) by (auto simp: distinct_map inj_on_def)
  have res: "Result m = None \<longleftrightarrow> processedTimeSeconds row = None"
    using f(1,6) messages_okD(1) [OF ok] by (auto simp: result_of_def find_key_unique toMessageResultProto_def split: option.splits)
  have ack: "ackable cid row \<longleftrightarrow> \<not> ?skip"
  proof
    show "ackable cid row" if "\<not> ?skip" using that f(8) nn by (auto simp: ackable_def)
    show "\<not> ?skip" if "ackable cid row"
      using that f(8) by (auto simp: ackable_def ClientID_String_inj not_sym [OF ClientID_String_neq_Nil] split: if_splits)
  qed
  have "awaits_ack cid d0 (MessageID_String i) \<longleftrightarrow> ackable cid row \<and> processedTimeSeconds row = None"
    unfolding awaits_ack_def list_ex_iff using f(1,2) unique by blast
  then have await: "awaits_ack cid d0 (MessageID_String i) \<longleftrightarrow> Result m = None \<and> \<not> ?skip"
    unfolding res ack by (simp only: conj_commute)
  show ?thesis
  proof (cases "Result m = None \<and> \<not> ?skip")
    case True
    then obtain x d' where "SetMessageResult e mcid mmid (success_result e) (w_db w) = (x, d')" "w' = w\<lparr>w_db := d'\<rparr>"
      using run f by (fastforce simp: ack_one_def db_call_eq_Inr split: if_splits)
    then show ?thesis using SetMessageResult_settles [of e mcid mmid "w_db w" x d'] f(2,5) True await
      by (intro exI [of _ "if x = Inr () then {MessageID_String i} else {}"]) auto
  next
    case False
    then have "w' = w" using run f by (auto simp: ack_one_def split: if_splits)
    then show ?thesis using False await by (intro exI [of _ "{}"]) auto
  qed
qed

lemma aloop_settles:
  assumes ok: "messages_ok d0" and nn: "\<not> ClientID_IsNil cid"
    and "list_all2 (\<lambda>i m. getMessage cd False d0 i = Inr m) ids msgs" and "aloop (ack_one e cid) msgs w = Inr (u, w')"
  shows "\<exists>S. w' = w\<lparr>w_db := settle e S (w_db w)\<rparr> \<and> S \<subseteq> {j \<in> MessageID_String ` set ids. awaits_ack cid d0 j}
    \<and> (begin_err e = None \<longrightarrow> commit_err e = None \<longrightarrow> S = {j \<in> MessageID_String ` set ids. awaits_ack cid d0 j})"
  using assms(3,4)
proof (induction ids msgs arbitrary: w rule: list_all2_induct)
  case Nil
  then show ?case by (intro exI [of _ "{}"]) simp
next
  case (Cons i ids m ms)
  from Cons.prems obtain w1 where w1: "ack_one e cid m w = Inr ((), w1)" "aloop (ack_one e cid) ms w1 = Inr (u, w')" by auto
  obtain S where S: "w1 = w\<lparr>w_db := settle e S (w_db w)\<rparr> \<and> S \<subseteq> {j \<in> {MessageID_String i}. awaits_ack cid d0 j}
    \<and> (begin_err e = None \<longrightarrow> commit_err e = None \<longrightarrow> S = {j \<in> {MessageID_String i}. awaits_ack cid d0 j})"
    using ack_one_settles [OF ok Cons.hyps(1) nn w1(1)] ..
  obtain T where T: "w' = w1\<lparr>w_db := settle e T (w_db w1)\<rparr> \<and> T \<subseteq> {j \<in> MessageID_String ` set ids. awaits_ack cid d0 j}
    \<and> (begin_err e = None \<longrightarrow> commit_err e = None \<longrightarrow> T = {j \<in> MessageID_String ` set ids. awaits_ack cid d0 j})"
    using Cons.IH [OF w1(2)] ..
  have "w' = w\<lparr>w_db := settle e (T \<union> S) (w_db w)\<rparr>" using S T by (simp add: settle_settle)
  then show ?case using S T by (intro exI [of _ "T \<union> S"]) auto
qed

lemma GetMessages_okD:
  assumes "GetMessages e cd ids wantData d = (Inr msgs, d')"
  shows "d' = d" "list_all2 (\<lambda>i m. getMessage cd wantData d i = Inr m) ids msgs"
  using runInTx_success [OF assms [unfolded GetMessages_def]] by (auto simp: getMessages_def mapE_eq_Inr)

lemma GetMessages_error: "GetMessages e cd ids wantData d = (Inl x, d') \<Longrightarrow> d' = d"
  unfolding GetMessages_def by (rule runInTx_error)

section \<open>Labels\<close>

lemma db_AddClientLabel:
  assumes "db_call (AddClientLabel cid l) w = Inr (r, w')"
  shows "if l \<notin> labels_of (w_db w) cid \<and> ClientID_String cid \<in> client_ids (w_db w)
    then r = Inr () \<and> w' = w\<lparr>w_db := (w_db w)\<lparr>t_client_labels := t_client_labels (w_db w) @ [label_row_of (ClientID_String cid) l]\<rparr>\<rparr>
    else w' = w \<and> (\<exists>x. r = Inl x)"
proof (cases "insert_label (ClientID_String cid) l (w_db w)")
  case (Inl x)
  then have "\<not> (l \<notin> labels_of (w_db w) cid \<and> ClientID_String cid \<in> client_ids (w_db w))"
    using insert_label_eq_Inr [of "ClientID_String cid" l "w_db w"] by (auto simp: labels_of_mem)
  with assms Inl show ?thesis by (auto simp: db_call_eq_Inr AddClientLabel_def execStmt_def)
next
  case (Inr d)
  with assms show ?thesis
    by (auto simp: db_call_eq_Inr AddClientLabel_def execStmt_def insert_label_eq_Inr labels_of_mem)
qed

text \<open>\<open>w'\<close> differs from \<open>w\<close> at most in the labels of \<open>cid\<close>, which are \<open>L\<close>.\<close>

definition relabelled :: "ClientID \<Rightarrow> Label set \<Rightarrow> 's world \<Rightarrow> 's world \<Rightarrow> bool" where
  "relabelled cid L w w' \<longleftrightarrow> labels_of (w_db w') cid = L \<and> (\<forall>j. j \<noteq> cid \<longrightarrow> labels_of (w_db w') j = labels_of (w_db w) j)
     \<and> (\<exists>rows. w' = w\<lparr>w_db := (w_db w)\<lparr>t_client_labels := rows\<rparr>\<rparr>)"

lemma relabelled_refl: "relabelled cid (labels_of (w_db w) cid) w w"
  unfolding relabelled_def by (intro conjI exI [of _ "t_client_labels (w_db w)"]) simp_all

lemma relabelled_trans:
  "relabelled cid L w w' \<Longrightarrow> relabelled cid L' w' w'' \<Longrightarrow> relabelled cid L' w w''"
  by (auto simp: relabelled_def)

lemma relabelled_Remove:
  assumes "db_call (RemoveClientLabel cid l) w = Inr (r, w')"
  shows "r = Inr () \<and> relabelled cid (labels_of (w_db w) cid - {l}) w w'"
proof -
  let ?rows = "filter (\<lambda>r. \<not> (l_client_id r = ClientID_String cid \<and> l_service_name r = lbl_service l
       \<and> l_label r = lbl_label l)) (t_client_labels (w_db w))"
  have w': "r = Inr ()" "w' = w\<lparr>w_db := (w_db w)\<lparr>t_client_labels := ?rows\<rparr>\<rparr>"
    using assms by (auto simp: db_call_eq_Inr RemoveClientLabel_def execStmt_def)
  have "k \<in> labels_of (w_db w') j \<longleftrightarrow> k \<in> labels_of (w_db w) j \<and> (j = cid \<longrightarrow> k \<noteq> l)" for j k
    by (cases k; cases l) (auto simp: w'(2) labels_of_mem label_row_of_def ClientID_String_inj)
  then show ?thesis using w' by (auto simp: relabelled_def)
qed

lemma relabelled_Add:
  assumes "db_call (AddClientLabel cid l) w = Inr (Inr (), w')"
  shows "l \<notin> labels_of (w_db w) cid \<and> relabelled cid (insert l (labels_of (w_db w) cid)) w w'"
proof -
  from db_AddClientLabel [OF assms] have new: "l \<notin> labels_of (w_db w) cid"
    and w': "w' = w\<lparr>w_db := (w_db w)\<lparr>t_client_labels := t_client_labels (w_db w) @ [label_row_of (ClientID_String cid) l]\<rparr>\<rparr>"
    by (auto split: if_splits)
  have "k \<in> labels_of (w_db w') j \<longleftrightarrow> k \<in> labels_of (w_db w) j \<or> (j = cid \<and> k = l)" for j k
    by (auto simp: w' labels_of_mem label_row_of_inj ClientID_String_inj)
  then show ?thesis using new w' by (auto simp: relabelled_def)
qed

definition client_labels :: "string set \<Rightarrow> Label set" where
  "client_labels S = (\<lambda>l. \<lparr>lbl_service = clientServiceName, lbl_label = l\<rparr>) ` S"

lemma client_labels_mem: "l \<in> client_labels S \<longleftrightarrow> lbl_service l = clientServiceName \<and> lbl_label l \<in> S"
  by (cases l) (auto simp: client_labels_def)

lemma remove_labels_effect:
  assumes "remove_labels cid nl ls ol w = Inr (r, w')"
  shows "\<exists>ol'. r = Inr ol' \<and> set ol' = set ol \<union> {x \<in> set nl. \<lparr>lbl_service = clientServiceName, lbl_label = x\<rparr> \<in> set ls}
    \<and> relabelled cid {l \<in> labels_of (w_db w) cid. l \<in> set ls \<longrightarrow> lbl_service l = clientServiceName \<longrightarrow> lbl_label l \<in> set nl} w w'"
  using assms
proof (induction cid nl ls ol arbitrary: w rule: remove_labels.induct)
  case (1 cid nl ol)
  then show ?case using relabelled_refl [of cid w] by auto
next
  case (2 cid nl l ls ol)
  let ?keep = "\<lambda>ls w. {l \<in> labels_of (w_db w) cid. l \<in> set ls \<longrightarrow> lbl_service l = clientServiceName \<longrightarrow> lbl_label l \<in> set nl}"
  have l: "lbl_service l = clientServiceName \<Longrightarrow> \<lparr>lbl_service = clientServiceName, lbl_label = x\<rparr> = l \<longleftrightarrow> x = lbl_label l" for x
    by (cases l) auto
  consider (gone) "lbl_service l = clientServiceName" "lbl_label l \<notin> set nl"
    | (keep) "lbl_service l = clientServiceName" "lbl_label l \<in> set nl" | (other) "lbl_service l \<noteq> clientServiceName" by blast
  then show ?case
  proof cases
    case gone
    with "2.prems" obtain r1 w1 where w1: "db_call (RemoveClientLabel cid l) w = Inr (r1, w1)"
      and rest: "(case r1 of Inl _ \<Rightarrow> aret (Inl (TemporaryError (Err ''unable to remove label'')))
            | Inr _ \<Rightarrow> remove_labels cid nl ls ol) w1 = Inr (r, w')" by auto
    from relabelled_Remove [OF w1] have r1: "r1 = Inr ()" and rel: "relabelled cid (labels_of (w_db w) cid - {l}) w w1" by auto
    from rest r1 have "remove_labels cid nl ls ol w1 = Inr (r, w')" by simp
    from "2.IH"(1) [OF gone this] obtain ol' where ol': "r = Inr ol'"
      "set ol' = set ol \<union> {x \<in> set nl. \<lparr>lbl_service = clientServiceName, lbl_label = x\<rparr> \<in> set ls}"
      "relabelled cid (?keep ls w1) w1 w'" by blast
    have "?keep ls w1 = ?keep (l # ls) w" using rel gone by (auto simp: relabelled_def)
    moreover have "{x \<in> set nl. \<lparr>lbl_service = clientServiceName, lbl_label = x\<rparr> \<in> set (l # ls)} =
        {x \<in> set nl. \<lparr>lbl_service = clientServiceName, lbl_label = x\<rparr> \<in> set ls}"
      unfolding list.set insert_iff l [OF gone(1)] using gone(2) by blast
    ultimately show ?thesis using relabelled_trans [OF rel ol'(3)] ol'(1,2) by simp
  next
    case keep
    with "2.prems" have "remove_labels cid nl ls (lbl_label l # ol) w = Inr (r, w')" by simp
    from "2.IH"(2) [OF keep(1) _ this] keep(2) obtain ol' where ol': "r = Inr ol'"
      "set ol' = set (lbl_label l # ol) \<union> {x \<in> set nl. \<lparr>lbl_service = clientServiceName, lbl_label = x\<rparr> \<in> set ls}"
      "relabelled cid (?keep ls w) w w'" by blast
    have "?keep ls w = ?keep (l # ls) w" using keep by auto
    moreover have "{x \<in> set nl. \<lparr>lbl_service = clientServiceName, lbl_label = x\<rparr> \<in> set (l # ls)} =
        insert (lbl_label l) {x \<in> set nl. \<lparr>lbl_service = clientServiceName, lbl_label = x\<rparr> \<in> set ls}"
      unfolding list.set insert_iff l [OF keep(1)] using keep(2) by blast
    ultimately show ?thesis using ol' by (simp del: insert_iff)
  next
    case other
    with "2.prems" have "remove_labels cid nl ls ol w = Inr (r, w')" by simp
    from "2.IH"(3) [OF other this] obtain ol' where ol': "r = Inr ol'"
      "set ol' = set ol \<union> {x \<in> set nl. \<lparr>lbl_service = clientServiceName, lbl_label = x\<rparr> \<in> set ls}"
      "relabelled cid (?keep ls w) w w'" by blast
    have "?keep ls w = ?keep (l # ls) w" using other by auto
    moreover have "\<lparr>lbl_service = clientServiceName, lbl_label = x\<rparr> \<noteq> l" for x using other by auto
    ultimately show ?thesis using ol' by simp
  qed
qed

lemma add_labels_effect:
  assumes "add_labels cid ol ls w = Inr (None, w')"
  shows "relabelled cid (labels_of (w_db w) cid \<union> {l \<in> set ls. lbl_service l = clientServiceName \<and> lbl_label l \<notin> set ol}) w w'"
  using assms
proof (induction cid ol ls arbitrary: w rule: add_labels.induct)
  case (1 cid ol)
  then show ?case using relabelled_refl [of cid w] by simp
next
  case (2 cid ol l ls)
  let ?new = "\<lambda>ls. {l \<in> set ls. lbl_service l = clientServiceName \<and> lbl_label l \<notin> set ol}"
  consider (other) "lbl_service l \<noteq> clientServiceName" | (old) "lbl_service l = clientServiceName" "lbl_label l \<in> set ol"
    | (new) "lbl_service l = clientServiceName" "lbl_label l \<notin> set ol" by blast
  then show ?case
  proof cases
    case other
    then have "?new (l # ls) = ?new ls" by auto
    with other 2 show ?thesis by simp
  next
    case old
    then have "?new (l # ls) = ?new ls" by auto
    with old 2 show ?thesis by simp
  next
    case new
    with "2.prems" obtain r1 w0 where r1: "db_call (AddClientLabel cid l) w = Inr (r1, w0)"
      "(case r1 of Inl _ \<Rightarrow> aret (Some (TemporaryError (Err ''unable to add label'')))
          | Inr _ \<Rightarrow> add_labels cid ol ls) w0 = Inr (None, w')" by auto
    then obtain w1 where w1: "db_call (AddClientLabel cid l) w = Inr (Inr (), w1)"
      "add_labels cid ol ls w1 = Inr (None, w')" by (cases r1) auto
    note rel = relabelled_Add [OF w1(1), THEN conjunct2]
    have "labels_of (w_db w1) cid \<union> ?new ls = labels_of (w_db w) cid \<union> ?new (l # ls)"
      using rel new by (auto simp: relabelled_def)
    with relabelled_trans [OF rel "2.IH"(2) [OF _ _ w1(2)]] new show ?thesis by simp
  qed
qed

lemma client_label_names_mem:
  assumes "lbl_service l = clientServiceName"
  shows "lbl_label l \<in> set (client_label_names ls) \<longleftrightarrow> l \<in> set ls"
proof -
  have same: "l = k" if "lbl_service k = clientServiceName" "lbl_label l = lbl_label k" for k
    using that assms by (cases k; cases l) simp
  show ?thesis
  proof
    assume "lbl_label l \<in> set (client_label_names ls)"
    then obtain k where "k \<in> set ls" "lbl_service k = clientServiceName" "lbl_label l = lbl_label k"
      by (auto simp: client_label_names_def)
    with same show "l \<in> set ls" by blast
  qed (use assms in \<open>auto simp: client_label_names_def\<close>)
qed

lemma GetClientData_labels:
  assumes "GetClientData e i d = (Inr c, d')"
  shows "d' = d" "set (cd_Labels c) = labels_of d i"
  using runInTx_success [OF assms [unfolded GetClientData_def]] by (auto simp: Let_def labels_of_def)

section \<open>Properties\<close>

text \<open>
  C37. What a client can acknowledge: processing an acknowledgement from a client either fails and changes nothing, or marks a set of
  messages as processed with success, takes them from the pending ones, and changes nothing else of the datastore, the cache, the statistics and the
  services' state. These messages are among those it lists, had no result, and were addressed to that client or are rekey requests of the system; and
  unless the database refuses a transaction they are all of these.
\<close>
theorem processMessageAck_effect:
  assumes "messages_ok (w_db w)" and "\<not> ClientID_IsNil cid"
    and "processMessageAck e cd sc cid a w = Inr (r, w')"
  shows "case r of
      Some x \<Rightarrow> w' = w
    | None \<Rightarrow> \<exists>bs ids S. unmarshal_MessageAckData sc a = Inr bs \<and> mapE BytesToMessageID bs = Inr ids
        \<and> w' = w\<lparr>w_db := settle e S (w_db w)\<rparr>
        \<and> S \<subseteq> {j \<in> MessageID_String ` set ids. awaits_ack cid (w_db w) j}
        \<and> (begin_err e = None \<longrightarrow> commit_err e = None \<longrightarrow> S = {j \<in> MessageID_String ` set ids. awaits_ack cid (w_db w) j})"
proof (cases "unmarshal_MessageAckData sc a")
  case bs: (Inr bs)
  show ?thesis
  proof (cases "mapE BytesToMessageID bs")
    case ids: (Inr ids)
    from assms(3) bs ids obtain y w1 where y: "db_call (GetMessages e cd ids False) w = Inr (y, w1)"
      and rest: "(case y of
           Inl _ \<Rightarrow> aret (Some (TemporaryError (Err ''unable to retrieve messages to ack'')))
         | Inr msgs \<Rightarrow> abind (aloop (ack_one e cid) msgs) (\<lambda>_. aret None)) w1 = Inr (r, w')"
      by (auto simp: processMessageAck_def)
    have w1: "w1 = w" using y GetMessages_same [of e cd ids False "w_db w"] by (auto simp: db_call_eq_Inr)
    show ?thesis
    proof (cases y)
      case (Inr msgs)
      then have "GetMessages e cd ids False (w_db w) = (Inr msgs, w_db w)" using y GetMessages_same [of e cd ids False "w_db w"]
        by (cases "GetMessages e cd ids False (w_db w)") (auto simp: db_call_eq_Inr)
      note g = GetMessages_okD(2) [OF this]
      have "aloop (ack_one e cid) msgs w = Inr ((), w')" "r = None" using rest Inr w1 by auto
      with aloop_settles [OF assms(1,2) g] bs ids show ?thesis by simp
    qed (use rest w1 in auto)
  qed (use assms(3) bs in \<open>auto simp: processMessageAck_def\<close>)
qed (use assms(3) in \<open>auto simp: processMessageAck_def\<close>)

text \<open>
  The labels a client reports are the labels it has: after a \<^verbatim>\<open>ClientInfo\<close> message was
  processed successfully, the labels of the client under the service name \<^verbatim>\<open>client\<close> are exactly
  those of the message, its labels under other services and the labels of all other clients are
  untouched, and the cache holds nothing about the client.
\<close>
lemma processClientInfo_sync:
  assumes "processClientInfo e sc cid a w = Inr (None, w')"
  shows "\<exists>labels. unmarshal_ClientInfoData sc a = Inr labels
    \<and> labels_of (w_db w') cid = {l \<in> labels_of (w_db w) cid. lbl_service l \<noteq> clientServiceName}
        \<union> {l \<in> set labels. lbl_service l = clientServiceName}
    \<and> (\<forall>j. j \<noteq> cid \<longrightarrow> labels_of (w_db w') j = labels_of (w_db w) j)
    \<and> cache_Get now cid (w_cache w') = None"
proof -
  from assms obtain labels where labels: "unmarshal_ClientInfoData sc a = Inr labels"
    by (auto simp: processClientInfo_def split: sum.splits)
  with assms obtain r1 w1 where w1: "db_call (GetClientData e cid) w = Inr (r1, w1)"
    and r1: "(case r1 of
           Inl _ \<Rightarrow> aret (Some (TemporaryError (Err ''GetClientData failed'')))
         | Inr d \<Rightarrow> abind (remove_labels cid (client_label_names labels) (cd_Labels d) []) (\<lambda>r. case r of
               Inl x \<Rightarrow> aret (Some x)
             | Inr ol \<Rightarrow> abind (add_labels cid ol labels) (\<lambda>r. case r of
                   Some x \<Rightarrow> aret (Some x)
                 | None \<Rightarrow> (\<lambda>w. Inr (None, w\<lparr>w_cache := cache_Update (Now e) cid None (w_cache w)\<rparr>))))) w1 = Inr (None, w')"
    by (auto simp: processClientInfo_def)
  then obtain c where c: "r1 = Inr c" by (cases r1) auto
  from w1 c have get: "GetClientData e cid (w_db w) = (Inr c, w_db w1)" "w1 = w\<lparr>w_db := w_db w1\<rparr>"
    by (auto simp: db_call_eq_Inr)
  have ww: "w1 = w" and cl: "set (cd_Labels c) = labels_of (w_db w) cid"
    using GetClientData_labels [OF get(1)] get(2) by auto
  from r1 c ww obtain r2 w2 where w2: "remove_labels cid (client_label_names labels) (cd_Labels c) [] w = Inr (r2, w2)"
    and r2: "(case r2 of Inl x \<Rightarrow> aret (Some x)
             | Inr ol \<Rightarrow> abind (add_labels cid ol labels) (\<lambda>r. case r of
                   Some x \<Rightarrow> aret (Some x)
                 | None \<Rightarrow> (\<lambda>w. Inr (None, w\<lparr>w_cache := cache_Update (Now e) cid None (w_cache w)\<rparr>)))) w2 = Inr (None, w')"
    by auto
  obtain ol where ol: "r2 = Inr ol" "set ol = {x \<in> set (client_label_names labels).
      \<lparr>lbl_service = clientServiceName, lbl_label = x\<rparr> \<in> labels_of (w_db w) cid}"
    and rel2: "relabelled cid {l \<in> labels_of (w_db w) cid. lbl_service l = clientServiceName \<longrightarrow>
        lbl_label l \<in> set (client_label_names labels)} w w2"
  proof -
    have "{l \<in> L. l \<in> L \<longrightarrow> P l} = {l \<in> L. P l}" for L :: "Label set" and P by blast
    with remove_labels_effect [OF w2] that show thesis unfolding cl by auto
  qed
  from r2 ol(1) obtain w3 where w3: "add_labels cid ol labels w2 = Inr (None, w3)"
    and w': "w' = w3\<lparr>w_cache := cache_Update (Now e) cid None (w_cache w3)\<rparr>"
    by (auto split: option.splits)
  note rel = relabelled_trans [OF rel2 add_labels_effect [OF w3]]
  have eta: "\<lparr>lbl_service = clientServiceName, lbl_label = lbl_label l\<rparr> = l" if "lbl_service l = clientServiceName" for l
    using that by (cases l) simp
  have "labels_of (w_db w3) cid = {l \<in> labels_of (w_db w) cid. lbl_service l \<noteq> clientServiceName}
        \<union> {l \<in> set labels. lbl_service l = clientServiceName}"
  proof (rule set_eqI)
    fix l
    have l3: "labels_of (w_db w3) cid = {l \<in> labels_of (w_db w) cid. lbl_service l = clientServiceName \<longrightarrow>
        lbl_label l \<in> set (client_label_names labels)} \<union> {l \<in> set labels. lbl_service l = clientServiceName \<and> lbl_label l \<notin> set ol}"
      using rel rel2 by (simp add: relabelled_def)
    show "l \<in> labels_of (w_db w3) cid \<longleftrightarrow> l \<in> {l \<in> labels_of (w_db w) cid. lbl_service l \<noteq> clientServiceName}
        \<union> {l \<in> set labels. lbl_service l = clientServiceName}"
    proof (cases "lbl_service l = clientServiceName")
      case True
      have "lbl_label l \<in> set ol \<longleftrightarrow> l \<in> set labels \<and> l \<in> labels_of (w_db w) cid"
        using client_label_names_mem [OF True, of labels] eta [OF True] by (simp add: ol(2))
      with True client_label_names_mem [OF True, of labels] show ?thesis unfolding l3 by blast
    qed (simp add: l3)
  qed
  with labels w' rel show ?thesis
    by (auto simp: relabelled_def cache_Get_def cache_Update_def)
qed

lemma get_or_read_eq:
  "get_or_read e i w = Inr (r, w') \<longleftrightarrow>
     (\<exists>c d. GetOrRead (Now e) i (GetClientData e i) (w_cache w) (w_db w) = (r, c, d) \<and> w' = w\<lparr>w_cache := c, w_db := d\<rparr>)"
  by (auto simp: get_or_read_def split: prod.splits)

text \<open>
  A known client can end the server process: a \<^verbatim>\<open>ResourceUsage\<close> message with valid time
  stamps and without the \<^verbatim>\<open>resource_usage\<close> part makes the system service dereference a nil
  pointer, whatever the state of the server.
\<close>
lemma ResourceUsage_nil_panics:
  assumes "Source m = Some src" and "BytesToClientID (ClientId src) = Inr cid" and "\<not> ClientID_IsNil cid"
    and "Data m = Some a" and "MessageType m = ''ResourceUsage''"
    and "unmarshal_ResourceUsageData sc a = Inr rud" and "ResourceUsage rud = None"
    and "CheckValid (ProcessStartTime rud) = Inr start" and "CheckValid (DataTimestamp rud) = Inr ts"
    and "get_or_read e cid w = Inr (Inr (c, hit), w1)" and "begin_err e = None"
  shows "system_ProcessMessage e cd sc m w = Inl (Fatal ''nil pointer dereference'')"
proof -
  have "db_call (RecordResourceUsageData e cid rud) w2 = Inl (Fatal ''nil pointer dereference'')" for w2 :: "'a world"
    using assms(7-9,11) by (simp add: db_call_def RecordResourceUsageData_def runInTx_def)
  with assms show ?thesis
    by (simp add: system_ProcessMessage_def processResourceUsage_def sctx_GetClientData_def abind_def aret_def collect_def)
qed

section \<open>Witnesses\<close>

definition demo_world :: "unit world" where
  "demo_world = \<lparr>w_db = demo_clients, w_cache = NewClients, w_stats = [], w_user = ()\<rparr>"

definition demo_label :: "string \<Rightarrow> Label" where
  "demo_label s = \<lparr>lbl_service = ''client'', lbl_label = s\<rparr>"

definition demo_sys :: sys_codec where
  "demo_sys = \<lparr>unmarshal_MessageAckData = (\<lambda>_. Inr [Some (replicate 32 1)]),
     unmarshal_MessageErrorData = (\<lambda>_. Inr (Some (replicate 32 1), ''e'')),
     unmarshal_ClientInfoData = (\<lambda>_. Inr [demo_label ''windows'']),
     unmarshal_ResourceUsageData = (\<lambda>_. Inr (demo_usage\<lparr>ResourceUsage := None\<rparr>)),
     unmarshal_KillNotification = (\<lambda>_. Inr [])\<rparr>"

definition demo_any :: AnyData where
  "demo_any = \<lparr>TypeUrl = ''t'', Value = []\<rparr>"

definition acked_world :: "unit world" where
  "acked_world = snd (projr (processMessageAck demo_env demo_codec demo_sys demo_client demo_any demo_world))"

theorem processMessageAck_effect_witness:
  "awaits_ack demo_client (w_db demo_world) (MessageID_String (MessageID (replicate 32 1)))
   \<and> acked_world = demo_world\<lparr>w_db := settle demo_env {MessageID_String (MessageID (replicate 32 1))} (w_db demo_world)\<rparr>"
proof -
  let ?i = "MessageID_String (MessageID (replicate 32 1))"
  have "t_messages demo_clients = t_messages demo_db" "t_pending demo_clients = t_pending demo_db" by code_simp+
  then have ok: "messages_ok (w_db demo_world)" using demo_db_ok by (simp add: messages_ok_def demo_world_def)
  have nn: "\<not> ClientID_IsNil demo_client" by code_simp
  have "map_sum (\<lambda>e. e) fst (processMessageAck demo_env demo_codec demo_sys demo_client demo_any demo_world) = Inr None" by code_simp
  then have run: "processMessageAck demo_env demo_codec demo_sys demo_client demo_any demo_world = Inr (None, acked_world)"
    by (cases "processMessageAck demo_env demo_codec demo_sys demo_client demo_any demo_world") (auto simp: acked_world_def)
  have await: "awaits_ack demo_client (w_db demo_world) ?i" by code_simp
  have "mapE BytesToMessageID [Some (replicate 32 1)] = Inr [MessageID (replicate 32 1)]" by code_simp
  moreover have "begin_err demo_env = None" "commit_err demo_env = None" by code_simp+
  moreover have "unmarshal_MessageAckData demo_sys demo_any = Inr [Some (replicate 32 1)]" by (simp add: demo_sys_def)
  moreover have "{j \<in> {?i}. awaits_ack demo_client (w_db demo_world) j} = {?i}" using await by auto
  ultimately show ?thesis using processMessageAck_effect [OF ok nn run] await by auto
qed

definition relabelled_world :: "unit world" where
  "relabelled_world = snd (projr (processClientInfo demo_env demo_sys demo_client demo_any demo_world))"

lemma processClientInfo_sync_instance:
  "labels_of (w_db relabelled_world) demo_client = {demo_label ''windows''}"
proof -
  have "map_sum (\<lambda>e. e) fst (processClientInfo demo_env demo_sys demo_client demo_any demo_world) = Inr None" by code_simp
  then have "processClientInfo demo_env demo_sys demo_client demo_any demo_world = Inr (None, relabelled_world)"
    by (cases "processClientInfo demo_env demo_sys demo_client demo_any demo_world") (auto simp: relabelled_world_def)
  from processClientInfo_sync [OF this]
  obtain labels where labels: "unmarshal_ClientInfoData demo_sys demo_any = Inr labels"
    and sync: "labels_of (w_db relabelled_world) demo_client =
      {l \<in> labels_of (w_db demo_world) demo_client. lbl_service l \<noteq> clientServiceName}
        \<union> {l \<in> set labels. lbl_service l = clientServiceName}" by blast
  have "labels_of (w_db demo_world) demo_client = {demo_label ''linux''}" by code_simp
  moreover have "labels = [demo_label ''windows'']" using labels by (simp add: demo_sys_def)
  moreover have "lbl_service (demo_label s) = clientServiceName" for s by (simp add: demo_label_def clientServiceName_def)
  ultimately show ?thesis unfolding sync by auto
qed

definition demo_usage_msg :: Message where
  "demo_usage_msg = empty_Message\<lparr>Source := Some \<lparr>ClientId = ClientID_Bytes demo_client, ServiceName = ''system''\<rparr>,
     MessageType := ''ResourceUsage'', Data := Some demo_any\<rparr>"

lemma ResourceUsage_nil_panics_instance:
  "system_ProcessMessage demo_env demo_codec demo_sys demo_usage_msg demo_world = Inl (Fatal ''nil pointer dereference'')"
proof -
  obtain r w where get: "get_or_read demo_env demo_client demo_world = Inr (r, w)"
    by (cases "GetOrRead (Now demo_env) demo_client (GetClientData demo_env demo_client) (w_cache demo_world) (w_db demo_world)")
      (auto simp: get_or_read_def)
  have "map_sum (\<lambda>e. e) (\<lambda>x. case fst x of Inl _ \<Rightarrow> False | Inr _ \<Rightarrow> True) (get_or_read demo_env demo_client demo_world) = Inr True" by code_simp
  with get obtain c hit where r: "r = Inr (c, hit)" by (cases r) auto
  have "BytesToClientID (ClientID_Bytes demo_client) = Inr demo_client" "\<not> ClientID_IsNil demo_client" by code_simp+
  then show ?thesis
    by (intro ResourceUsage_nil_panics [where src = "\<lparr>ClientId = ClientID_Bytes demo_client, ServiceName = ''system''\<rparr>"
          and a = demo_any and rud = "demo_usage\<lparr>ResourceUsage := None\<rparr>" and c = c and hit = hit,
          OF _ _ _ _ _ _ _ _ _ get [unfolded r]])
      (simp_all add: demo_usage_msg_def demo_sys_def demo_usage_def CheckValid_def)
qed

end
