(* ===== verification/Server_Services.thy ===== *)
theory Server_Services
  imports System_Service
begin

text \<open>
  \<^verbatim>\<open>fleetspeak/src/server/internal/services/manager.go\<close>: the services of a server and how
  messages for the server are given to them.

  A service is a record of the functions of the interface \<^verbatim>\<open>service.Service\<close>, acting on the
  server's state and returning, besides the error, whether it set \<^verbatim>\<open>m.Data\<close> to nil, the one
  change to a message the interface allows. The goroutines that process messages in parallel are
  run one after the other, in the order an argument chooses; the value a goroutine reads from the
  shared counter of running calls is also an argument, and the counter itself is the state machine
  at the end of the theory.
\<close>

section \<open>Services\<close>

record 's service_impl =
  svc_Start :: "error option"
  svc_ProcessMessage :: "Message \<Rightarrow> ('s, error option \<times> bool) action"
  svc_ProcessMessageBatch :: "(Message list \<Rightarrow> ('s, error option) action) option"

text \<open>\<^verbatim>\<open>service.NOOPFactory\<close>.\<close>

definition noopService :: "'s service_impl" where
  "noopService = \<lparr>svc_Start = None, svc_ProcessMessage = (\<lambda>m. aret (None, False)), svc_ProcessMessageBatch = None\<rparr>"

record 's liveService =
  ls_name :: string
  ls_service :: "'s service_impl"
  ls_maxParallelism :: u32

record 's Manager =
  mg_services :: "(string, 's liveService) gomap"
  mg_serviceRegistry :: "(string, string \<times> u32 \<Rightarrow> error + 's service_impl) gomap"

record ServiceConfig =
  sc_Name :: string
  sc_Factory :: string
  sc_MaxParallelism :: u32

definition systemService :: "env \<Rightarrow> codec \<Rightarrow> sys_codec \<Rightarrow> 's service_impl" where
  "systemService e cd sc = \<lparr>svc_Start = None,
     svc_ProcessMessage = (\<lambda>m. abind (system_ProcessMessage e cd sc m) (\<lambda>r. aret (r, False))),
     svc_ProcessMessageBatch = None\<rparr>"

definition NewManager :: "'s service_impl \<Rightarrow> (string, string \<times> u32 \<Rightarrow> error + 's service_impl) gomap \<Rightarrow> 's Manager" where
  "NewManager sys registry = \<lparr>mg_services = [(''system'', \<lparr>ls_name = ''system'', ls_service = sys, ls_maxParallelism = 100\<rparr>)],
     mg_serviceRegistry = registry\<rparr>"

definition Manager_Install :: "ServiceConfig \<Rightarrow> 's Manager \<Rightarrow> error + 's Manager" where
  "Manager_Install cfg c = (case map_of (mg_serviceRegistry c) (sc_Factory cfg) of
       None \<Rightarrow> Inl (Err ''unable to find factory'')
     | Some f \<Rightarrow>
         if sc_Name cfg = [] \<or> sc_Name cfg = ''system'' \<or> sc_Name cfg = ''client'' then Inl (Err ''illegal service name'')
         else ebind (f (sc_Name cfg, sc_MaxParallelism cfg)) (\<lambda>s.
           (let mp = (if sc_MaxParallelism cfg = 0 then 100 else sc_MaxParallelism cfg);
                d = \<lparr>ls_name = sc_Name cfg, ls_service = s, ls_maxParallelism = mp\<rparr>
            in case svc_Start s of
                 Some x \<Rightarrow> Inl x
               | None \<Rightarrow> Inr (c\<lparr>mg_services := gomap_upd (sc_Name cfg) d (mg_services c)\<rparr>))))"

definition Manager_Stop :: "'s Manager \<Rightarrow> 's Manager" where
  "Manager_Stop c = c\<lparr>mg_services := []\<rparr>"

definition ShouldProcessMessageBatches :: "'s Manager \<Rightarrow> string \<Rightarrow> bool" where
  "ShouldProcessMessageBatches c serviceName = (case map_of (mg_services c) serviceName of
       None \<Rightarrow> False
     | Some svc \<Rightarrow> svc_ProcessMessageBatch (ls_service svc) \<noteq> None)"

text \<open>The second log statement lacks its \<^verbatim>\<open>return\<close>: a service that does not batch is called through a nil interface.\<close>

definition Manager_ProcessMessageBatch :: "'s Manager \<Rightarrow> string \<Rightarrow> Message list \<Rightarrow> ('s, unit) action" where
  "Manager_ProcessMessageBatch c serviceName msgs = (case map_of (mg_services c) serviceName of
       None \<Rightarrow> aret ()
     | Some svc \<Rightarrow> (case svc_ProcessMessageBatch (ls_service svc) of
           None \<Rightarrow> (\<lambda>w. Inl (Fatal ''nil pointer dereference''))
         | Some f \<Rightarrow> abind (f msgs) (\<lambda>_. aret ())))"

section \<open>Processing one message\<close>

definition Manager_clientData :: "env \<Rightarrow> Message \<Rightarrow> ('s, error + ClientData) action" where
  "Manager_clientData e m = (case Source m of
       None \<Rightarrow> (\<lambda>w. Inl (Fatal ''nil pointer dereference''))
     | Some src \<Rightarrow> (case BytesToClientID (ClientId src) of
         Inl _ \<Rightarrow> aret (Inl (Err ''invalid source client id''))
       | Inr cID \<Rightarrow>
           if ClientID_IsNil cID then aret (Inl (Err ''invalid source client id''))
           else abind (get_or_read e cID) (\<lambda>r. case r of
               Inl _ \<Rightarrow> aret (Inl (Err ''cannot get client data''))
             | Inr (cData, _) \<Rightarrow> aret (Inr cData))))"

definition MaxServiceFailureReasonLength :: nat where
  "MaxServiceFailureReasonLength = 900"

definition failure_reason :: "string \<Rightarrow> string" where
  "failure_reason s = (if length s > MaxServiceFailureReasonLength
     then take (MaxServiceFailureReasonLength - 3) s @ ''...'' else s)"

definition service_result :: "env \<Rightarrow> error option \<Rightarrow> MessageResult option" where
  "service_result e r = (case r of
       None \<Rightarrow> Some \<lparr>ProcessedTime = Some (NowProto e), Failed = False, FailedReason = []\<rparr>
     | Some x \<Rightarrow> if IsTemporary x then None
         else Some \<lparr>ProcessedTime = Some (NowProto e), Failed = True, FailedReason = failure_reason (Error x)\<rparr>)"

definition service_stat :: "env \<Rightarrow> Message \<Rightarrow> bool \<Rightarrow> ClientData option \<Rightarrow> error option \<Rightarrow> stat" where
  "service_stat e m isFirstTry cData r = (case r of
       None \<Rightarrow> MessageProcessed (Now e) (Now e) m isFirstTry cData
     | Some x \<Rightarrow> MessageErrored (Now e) (Now e) (IsTemporary x) m isFirstTry cData)"

text \<open>
  \<open>running\<close> is the value of \<^verbatim>\<open>s.parallelism\<close> before this call is counted. The result carries the
  message as the call leaves it.
\<close>

definition serve_message :: "env \<Rightarrow> 's liveService \<Rightarrow> u32 \<Rightarrow> bool \<Rightarrow> ClientData option \<Rightarrow> Message \<Rightarrow>
    ('s, MessageResult option \<times> Message) action" where
  "serve_message e s running isFirstTry cData m =
     (if running + 1 > ls_maxParallelism s
      then abind (collect (MessageDropped m isFirstTry cData)) (\<lambda>_. aret (None, m))
      else if (case BytesToMessageID (MessageId m) of Inl _ \<Rightarrow> True | Inr mid \<Rightarrow> MessageID_IsNil mid)
      then (\<lambda>w. Inl (Fatal ''Invalid message id presented for processing''))
      else abind (svc_ProcessMessage (ls_service s) m) (\<lambda>(r, dropped).
        (let m = (if dropped then m\<lparr>Data := None\<rparr> else m) in
         abind (collect (service_stat e m isFirstTry cData r)) (\<lambda>_. aret (service_result e r, m)))))"

definition annotate_source :: "ClientData option \<Rightarrow> Message \<Rightarrow> Message" where
  "annotate_source cData m = (case cData of None \<Rightarrow> m | Some c \<Rightarrow> m\<lparr>IsBlocklistedSource := cd_Blacklisted c\<rparr>)"

definition processMessage :: "env \<Rightarrow> 's liveService \<Rightarrow> u32 \<Rightarrow> Message \<Rightarrow> bool \<Rightarrow> ('s, MessageResult option \<times> Message) action" where
  "processMessage e s running m isFirstTry =
     abind (Manager_clientData e m) (\<lambda>r.
       (let cData = (case r of Inl _ \<Rightarrow> None | Inr c \<Rightarrow> Some c) in
        serve_message e s running isFirstTry cData (annotate_source cData m)))"

section \<open>Processing many messages\<close>

text \<open>
  The goroutines of a batch: \<open>sched\<close> lists the indexes of the messages in the order they run.
\<close>

record gosched =
  gs_order :: "nat list"
  gs_running :: "nat \<Rightarrow> u32"

fun run_goroutines :: "(nat \<Rightarrow> 'm \<Rightarrow> ('s, 'm) action) \<Rightarrow> nat list \<Rightarrow> 'm list \<Rightarrow> ('s, 'm list) action" where
  "run_goroutines f [] ms = aret ms"
| "run_goroutines f (i # is) ms = abind (f i (ms ! i)) (\<lambda>m. run_goroutines f is (ms[i := m]))"

text \<open>
  The verb \<^verbatim>\<open>%q\<close> of \<^verbatim>\<open>fmt\<close> on a string, \<^verbatim>\<open>strconv.Quote\<close>; characters beyond ASCII are taken to be printable and stand for themselves.
\<close>

definition quote_char :: "char \<Rightarrow> string" where
  "quote_char c = (let n = (of_char c :: nat); esc = (\<lambda>x. [CHR 0x5C, x]) in
     if n = 34 \<or> n = 92 then esc c
     else if n = 7 then esc (CHR ''a'') else if n = 8 then esc (CHR ''b'') else if n = 9 then esc (CHR ''t'')
     else if n = 10 then esc (CHR ''n'') else if n = 11 then esc (CHR ''v'') else if n = 12 then esc (CHR ''f'')
     else if n = 13 then esc (CHR ''r'')
     else if n < 32 \<or> n = 127 then esc (CHR ''x'') @ EncodeToString [byte_of_char c]
     else [c])"

definition go_quote :: "string \<Rightarrow> string" where
  "go_quote s = CHR 0x22 # concat (map quote_char s) @ [CHR 0x22]"

definition unknown_service_result :: "env \<Rightarrow> string \<Rightarrow> MessageResult" where
  "unknown_service_result e svc = \<lparr>ProcessedTime = Some (NowProto e), Failed = True,
     FailedReason = ''unknown service '' @ go_quote svc\<rparr>"

text \<open>The body of the goroutine of \<^verbatim>\<open>ProcessMessages\<close>; the flag is \<^verbatim>\<open>hasResult[i]\<close>.\<close>

definition process_backlogged :: "env \<Rightarrow> 's Manager \<Rightarrow> u32 \<Rightarrow> Message \<times> bool \<Rightarrow> ('s, Message \<times> bool) action" where
  "process_backlogged e c running mh = (case mh of (m, _) \<Rightarrow> (case Destination m of
       None \<Rightarrow> (\<lambda>w. Inl (Fatal ''nil pointer dereference''))
     | Some dest \<Rightarrow> (case map_of (mg_services c) (ServiceName dest) of
         None \<Rightarrow> (let m = m\<lparr>Result := Some (unknown_service_result e (ServiceName dest))\<rparr> in
           abind (collect (MessageErrored (Now e) (Now e) True m False None)) (\<lambda>_. aret (m, True)))
       | Some l \<Rightarrow> abind (Manager_clientData e m) (\<lambda>r.
           abind (collect (MessageIngested True m (case r of Inl _ \<Rightarrow> None | Inr x \<Rightarrow> Some x))) (\<lambda>_.
           abind (processMessage e l running m False) (\<lambda>(res, m). aret (case res of
               None \<Rightarrow> (m, False)
             | Some x \<Rightarrow> (m\<lparr>Result := Some x\<rparr>, True))))))))"

definition ProcessMessages :: "env \<Rightarrow> codec \<Rightarrow> 's Manager \<Rightarrow> gosched \<Rightarrow> Message list \<Rightarrow> ('s, unit) action" where
  "ProcessMessages e cd c g msgs =
     abind (run_goroutines (\<lambda>i. process_backlogged e c (gs_running g i)) (gs_order g) (map (\<lambda>m. (m, False)) msgs)) (\<lambda>mhs.
       (let toSave = map fst (filter snd mhs) in
        if toSave = [] then aret ()
        else abind (db_call (StoreMessages e cd toSave [])) (\<lambda>_. aret ())))"

text \<open>The body of the goroutine of \<^verbatim>\<open>HandleNewMessages\<close>.\<close>

definition process_new :: "env \<Rightarrow> 's Manager \<Rightarrow> u32 \<Rightarrow> Message \<Rightarrow> ('s, Message) action" where
  "process_new e c running m = (case Destination m of
       None \<Rightarrow> (\<lambda>w. Inl (Fatal ''nil pointer dereference''))
     | Some dest \<Rightarrow> (case map_of (mg_services c) (ServiceName dest) of
         None \<Rightarrow> (let m = m\<lparr>Result := Some (unknown_service_result e (ServiceName dest)), Data := None\<rparr> in
           abind (collect (MessageErrored (Now e) (Now e) True m True None)) (\<lambda>_. aret m))
       | Some l \<Rightarrow> abind (Manager_clientData e m) (\<lambda>r.
           abind (collect (MessageIngested False m (case r of Inl _ \<Rightarrow> None | Inr x \<Rightarrow> Some x))) (\<lambda>_.
           abind (processMessage e l running m True) (\<lambda>(res, m). aret (case res of
               None \<Rightarrow> m
             | Some x \<Rightarrow> m\<lparr>Result := Some x, Data := None\<rparr>))))))"

definition bad_destination :: "Message \<Rightarrow> bool" where
  "bad_destination m \<longleftrightarrow> (case Destination m of None \<Rightarrow> True | Some dest \<Rightarrow> length (raw (ClientId dest)) \<noteq> 0)"

definition record_saved :: "env \<Rightarrow> Message \<Rightarrow> ('s, unit) action" where
  "record_saved e m = abind (Manager_clientData e m) (\<lambda>r.
     collect (MessageSaved False m (case r of Inl _ \<Rightarrow> None | Inr x \<Rightarrow> Some x)))"

definition HandleNewMessages :: "env \<Rightarrow> codec \<Rightarrow> 's Manager \<Rightarrow> gosched \<Rightarrow> error option \<Rightarrow> Message list \<Rightarrow> string \<Rightarrow>
    ('s, error option) action" where
  "HandleNewMessages e cd c g ctx_err msgs contact =
     (if list_ex bad_destination msgs then aret (Some (Err ''HandleNewMessage called with bad Destination''))
      else abind (run_goroutines (\<lambda>i. process_new e c (gs_running g i)) (gs_order g)
               (map (\<lambda>m. m\<lparr>CreationTime := Some (NowProto e)\<rparr>) msgs)) (\<lambda>msgs.
        case ctx_err of Some x \<Rightarrow> aret (Some x)
        | None \<Rightarrow> abind (aloop (record_saved e) msgs) (\<lambda>_.
            abind (db_call (StoreMessages e cd msgs contact)) (\<lambda>r. aret (case r of Inl x \<Rightarrow> Some x | Inr _ \<Rightarrow> None)))))"

definition liveService_Send :: "env \<Rightarrow> codec \<Rightarrow> 's Manager \<Rightarrow> gosched \<Rightarrow> error option \<Rightarrow> 's liveService \<Rightarrow> Message \<Rightarrow>
    ('s, error option) action" where
  "liveService_Send e cd c g ctx_err s m =
     (let m = m\<lparr>Source := Some \<lparr>ClientId = None, ServiceName = ls_name s\<rparr>\<rparr> in
      case Destination m of
        None \<Rightarrow> (\<lambda>w. Inl (Fatal ''nil pointer dereference''))
      | Some dest \<Rightarrow>
          if length (raw (ClientId dest)) = 0 then HandleNewMessages e cd c g ctx_err [m] []
          else abind (db_call (StoreMessages e cd [m] [])) (\<lambda>r. aret (case r of Inl x \<Rightarrow> Some x | Inr _ \<Rightarrow> None)))"

section \<open>Load shedding\<close>

text \<open>
  The counter \<^verbatim>\<open>s.parallelism\<close> under all interleavings of \<^verbatim>\<open>processMessage\<close> calls: a call adds
  one and either enters the service or is dropped, and subtracts one when it returns.
\<close>

record par_state =
  ps_parallelism :: u32
  ps_serving :: nat
  ps_dropping :: nat

inductive par_step :: "u32 \<Rightarrow> par_state \<Rightarrow> par_state \<Rightarrow> bool" for maxP where
  par_enter: "ps_serving s + ps_dropping s < 2 ^ 32 - 1 \<Longrightarrow> \<not> ps_parallelism s + 1 > maxP \<Longrightarrow>
    par_step maxP s (s\<lparr>ps_parallelism := ps_parallelism s + 1, ps_serving := ps_serving s + 1\<rparr>)"
| par_drop: "ps_serving s + ps_dropping s < 2 ^ 32 - 1 \<Longrightarrow> ps_parallelism s + 1 > maxP \<Longrightarrow>
    par_step maxP s (s\<lparr>ps_parallelism := ps_parallelism s + 1, ps_dropping := ps_dropping s + 1\<rparr>)"
| par_return: "ps_serving s > 0 \<Longrightarrow>
    par_step maxP s (s\<lparr>ps_parallelism := ps_parallelism s + (- 1), ps_serving := ps_serving s - 1\<rparr>)"
| par_dropped: "ps_dropping s > 0 \<Longrightarrow>
    par_step maxP s (s\<lparr>ps_parallelism := ps_parallelism s + (- 1), ps_dropping := ps_dropping s - 1\<rparr>)"

definition par_init :: par_state where
  "par_init = \<lparr>ps_parallelism = 0, ps_serving = 0, ps_dropping = 0\<rparr>"

definition par_ok :: "u32 \<Rightarrow> par_state \<Rightarrow> bool" where
  "par_ok maxP s \<longleftrightarrow> unat (ps_parallelism s) = ps_serving s + ps_dropping s \<and> ps_serving s \<le> unat maxP"

lemma unat_add_one: "unat (w :: u32) < 2 ^ 32 - 1 \<Longrightarrow> unat (w + 1) = unat w + 1"
  by (simp add: unat_word_ariths(1))

lemma unat_add_minus_one: "(w :: u32) \<noteq> 0 \<Longrightarrow> unat (w + (- 1)) = unat w - 1"
  using unat_minus_one [of w] by simp

lemma par_ok_step:
  assumes "par_ok maxP s" and "par_step maxP s t"
  shows "par_ok maxP t"
  using assms(2,1)
proof cases
  case par_enter
  then have "unat (ps_parallelism s) < 2 ^ 32 - 1" using assms(1) by (simp add: par_ok_def)
  then have one: "unat (ps_parallelism s + 1) = unat (ps_parallelism s) + 1" by (rule unat_add_one)
  moreover have "unat (ps_parallelism s + 1) \<le> unat maxP" using par_enter by (simp add: word_le_nat_alt not_less)
  ultimately show ?thesis using assms(1) par_enter(1) by (simp add: par_ok_def)
next
  case par_drop
  then have "unat (ps_parallelism s) < 2 ^ 32 - 1" using assms(1) by (simp add: par_ok_def)
  then have one: "unat (ps_parallelism s + 1) = unat (ps_parallelism s) + 1" by (rule unat_add_one)
  then show ?thesis using assms(1) par_drop(1) by (simp add: par_ok_def)
next
  case par_return
  have "ps_parallelism s \<noteq> 0" using par_return(2) assms(1) by (auto simp: par_ok_def)
  then show ?thesis using assms(1) par_return by (auto simp: par_ok_def unat_add_minus_one simp del: add_uminus_conv_diff)
next
  case par_dropped
  have "ps_parallelism s \<noteq> 0" using par_dropped(2) assms(1) by (auto simp: par_ok_def)
  then show ?thesis using assms(1) par_dropped by (auto simp: par_ok_def unat_add_minus_one simp del: add_uminus_conv_diff)
qed

lemma par_ok_init: "par_ok maxP par_init"
  by (simp add: par_init_def par_ok_def)

interpretation load: step_invariant "\<lambda>s. s = par_init" "par_step maxP" "par_ok maxP" for maxP
  by unfold_locales (auto intro: par_ok_init par_ok_step)

section \<open>Results of processing\<close>

lemma length_failure_reason: "length (failure_reason s) \<le> MaxServiceFailureReasonLength"
  by (simp add: failure_reason_def MaxServiceFailureReasonLength_def)

lemma collect_eq_Inr [simp]: "collect s w = Inr (u, w') \<longleftrightarrow> w' = w\<lparr>w_stats := w_stats w @ [s]\<rparr>"
  by (auto simp: collect_def)

lemma get_or_read_stats: "get_or_read e i w = Inr (r, w') \<Longrightarrow> w_stats w' = w_stats w"
  by (auto simp: get_or_read_def split: prod.splits)

lemma Manager_clientData_keeps: "Manager_clientData e m w = Inr (r, w') \<Longrightarrow> w_db w' = w_db w \<and> w_stats w' = w_stats w"
proof -
  assume run: "Manager_clientData e m w = Inr (r, w')"
  then obtain src where src: "Source m = Some src" by (auto simp: Manager_clientData_def split: option.splits)
  show "w_db w' = w_db w \<and> w_stats w' = w_stats w"
  proof (cases "BytesToClientID (ClientId src)")
    case (Inr cID)
    show ?thesis
    proof (cases "ClientID_IsNil cID")
      case False
      then obtain g w1 where g: "get_or_read e cID w = Inr (g, w1)" and rest:
          "(case g of Inl _ \<Rightarrow> aret (Inl (Err ''cannot get client data'')) | Inr (cData, _) \<Rightarrow> aret (Inr cData)) w1 = Inr (r, w')"
        using run src Inr by (auto simp: Manager_clientData_def)
      from rest have "w' = w1" by (cases g) auto
      with get_or_read_db [OF g] get_or_read_stats [OF g] show ?thesis by simp
    qed (use run src Inr in \<open>simp add: Manager_clientData_def\<close>)
  qed (use run src in \<open>simp add: Manager_clientData_def\<close>)
qed

lemmas Manager_clientData_db = Manager_clientData_keeps [THEN conjunct1]

lemmas Manager_clientData_stats = Manager_clientData_keeps [THEN conjunct2]

lemma aloop_record_saved_db: "aloop (record_saved e) ms w = Inr (u, w') \<Longrightarrow> w_db w' = w_db w"
  by (induction ms arbitrary: w) (auto simp: record_saved_def dest!: Manager_clientData_db)

text \<open>What a call leaves of the message: only the blocklist annotation and, if the service says so, the data change.\<close>

definition same_message :: "Message \<Rightarrow> Message \<Rightarrow> bool" where
  "same_message m m' \<longleftrightarrow> (\<exists>b x. m' = m\<lparr>IsBlocklistedSource := b, Data := x\<rparr> \<and> (x = Data m \<or> x = None))"

lemma same_message_simps:
  assumes "same_message m m'"
  shows "MessageId m' = MessageId m" "Source m' = Source m" "Destination m' = Destination m"
    "SourceMessageId m' = SourceMessageId m" "MessageType m' = MessageType m" "Result m' = Result m"
    "CreationTime m' = CreationTime m" "ValidationInfo m' = ValidationInfo m" "Annotations m' = Annotations m"
    "Data m' = Data m \<or> Data m' = None"
  using assms by (auto simp: same_message_def)

lemma same_messageI: "same_message m m" "same_message m (m\<lparr>IsBlocklistedSource := b\<rparr>)"
  "same_message m (m\<lparr>Data := None\<rparr>)" "same_message m (m\<lparr>IsBlocklistedSource := b, Data := None\<rparr>)"
  unfolding same_message_def
  by (intro exI [of _ "IsBlocklistedSource m"] exI [of _ "Data m"], simp,
      intro exI [of _ b] exI [of _ "Data m"], simp,
      intro exI [of _ "IsBlocklistedSource m"] exI [of _ None], simp,
      intro exI [of _ b] exI [of _ None], simp)

text \<open>
  The two ways a call ends: it is dropped without reaching the service, or the service answers and
  result and statistics follow its answer.
\<close>

lemma processMessage_cases:
  assumes "processMessage e s running m isFirstTry w = Inr ((res, m'), w')"
  obtains (dropped) found cData w1 where "running + 1 > ls_maxParallelism s" "Manager_clientData e m w = Inr (found, w1)"
      "cData = (case found of Inl _ \<Rightarrow> None | Inr c \<Rightarrow> Some c)" "res = None" "m' = annotate_source cData m"
      "w' = w1\<lparr>w_stats := w_stats w1 @ [MessageDropped m' isFirstTry cData]\<rparr>"
  | (served) found cData m1 r dropData w1 w2 where "running + 1 \<le> ls_maxParallelism s" "Manager_clientData e m w = Inr (found, w1)"
      "cData = (case found of Inl _ \<Rightarrow> None | Inr c \<Rightarrow> Some c)" "m1 = annotate_source cData m"
      "svc_ProcessMessage (ls_service s) m1 w1 = Inr ((r, dropData), w2)" "m' = (if dropData then m1\<lparr>Data := None\<rparr> else m1)"
      "w' = w2\<lparr>w_stats := w_stats w2 @ [service_stat e m' isFirstTry cData r]\<rparr>" "res = service_result e r"
proof -
  from assms obtain found w1 where w1: "Manager_clientData e m w = Inr (found, w1)"
    and rest: "serve_message e s running isFirstTry (case found of Inl _ \<Rightarrow> None | Inr c \<Rightarrow> Some c)
        (annotate_source (case found of Inl _ \<Rightarrow> None | Inr c \<Rightarrow> Some c) m) w1 = Inr ((res, m'), w')"
    by (auto simp: processMessage_def Let_def)
  obtain cData where cData: "(case found of Inl _ \<Rightarrow> None | Inr c \<Rightarrow> Some c) = cData" by blast
  obtain m1 where m1: "annotate_source cData m = m1" by blast
  note rest = rest [unfolded cData m1]
  show thesis
  proof (cases "running + 1 > ls_maxParallelism s")
    case True
    with rest have "res = None" "m' = m1" "w' = w1\<lparr>w_stats := w_stats w1 @ [MessageDropped m1 isFirstTry cData]\<rparr>"
      by (simp_all add: serve_message_def)
    with True w1 cData m1 show thesis by (intro dropped [of found w1 cData]) simp_all
  next
    case False
    then have "\<not> (case BytesToMessageID (MessageId m1) of Inl _ \<Rightarrow> True | Inr mid \<Rightarrow> MessageID_IsNil mid)"
      using rest unfolding serve_message_def by (intro notI) simp
    with False have "serve_message e s running isFirstTry cData m1 =
        abind (svc_ProcessMessage (ls_service s) m1) (\<lambda>(r, dropped).
        (let m = (if dropped then m1\<lparr>Data := None\<rparr> else m1) in
         abind (collect (service_stat e m isFirstTry cData r)) (\<lambda>_. aret (service_result e r, m))))"
      unfolding serve_message_def by (simp only: if_False)
    with rest obtain x w2 where svc: "svc_ProcessMessage (ls_service s) m1 w1 = Inr (x, w2)"
      and x: "(case x of (r, dropped) \<Rightarrow>
        (let m = (if dropped then m1\<lparr>Data := None\<rparr> else m1) in
         abind (collect (service_stat e m isFirstTry cData r)) (\<lambda>_. aret (service_result e r, m)))) w2 = Inr ((res, m'), w')"
      by (auto simp del: split_paired_Ex)
    obtain r d where rd: "x = (r, d)" by force
    from x have m': "m' = (if d then m1\<lparr>Data := None\<rparr> else m1)" and res: "res = service_result e r"
      and w': "w' = w2\<lparr>w_stats := w_stats w2 @ [service_stat e m' isFirstTry cData r]\<rparr>"
      by (simp_all only: rd prod.case Let_def abind_eq_Inr collect_eq_Inr aret_eq_Inr prod.inject) auto
    show thesis using False w1 svc [unfolded rd] m' w' res cData m1 by (intro served [of found w1 cData m1 r d w2]) simp_all
  qed
qed

section \<open>Batches\<close>

definition gosched_ok :: "gosched \<Rightarrow> nat \<Rightarrow> bool" where
  "gosched_ok g n \<longleftrightarrow> distinct (gs_order g) \<and> set (gs_order g) = {..<n}"

text \<open>Every goroutine of a batch runs once, on its own message.\<close>

lemma run_goroutines_each:
  assumes "run_goroutines f order ms w = Inr (ms', w')" and "distinct order" and "set order \<subseteq> {..<length ms}"
  shows "length ms' = length ms \<and> (\<forall>i < length ms. if i \<in> set order then \<exists>w1 w2. f i (ms ! i) w1 = Inr (ms' ! i, w2)
    else ms' ! i = ms ! i)"
  using assms
proof (induction order arbitrary: ms w)
  case (Cons k order)
  from Cons.prems(1) obtain m w1 where 1: "f k (ms ! k) w = Inr (m, w1)" "run_goroutines f order (ms[k := m]) w1 = Inr (ms', w')"
    by auto
  from Cons.IH [OF 1(2)] Cons.prems(2,3) have IH: "length ms' = length ms"
    "\<And>i. i < length ms \<Longrightarrow> if i \<in> set order then \<exists>w1 w2. f i (ms[k := m] ! i) w1 = Inr (ms' ! i, w2) else ms' ! i = ms[k := m] ! i"
    by auto
  have "if i \<in> set (k # order) then \<exists>w1 w2. f i (ms ! i) w1 = Inr (ms' ! i, w2) else ms' ! i = ms ! i"
    if "i < length ms" for i
  proof (cases "i = k")
    case True
    with Cons.prems(2) IH(2) [OF that] 1(1) that show ?thesis by auto
  next
    case False
    with IH(2) [OF that] show ?thesis by (auto split: if_splits)
  qed
  with IH(1) show ?case by blast
qed simp

text \<open>What becomes of a new message.\<close>

definition handled :: "env \<Rightarrow> 's Manager \<Rightarrow> Message \<Rightarrow> Message \<Rightarrow> bool" where
  "handled e c m m' \<longleftrightarrow> MessageId m' = MessageId m \<and> Source m' = Source m \<and> Destination m' = Destination m
     \<and> SourceMessageId m' = SourceMessageId m \<and> MessageType m' = MessageType m \<and> ValidationInfo m' = ValidationInfo m
     \<and> Annotations m' = Annotations m \<and> (Data m' = Data m \<or> Data m' = None)
     \<and> CreationTime m' = Some (NowProto e)
     \<and> (if map_of (mg_services c) (addr_service (Destination m)) = None
        then Result m' = Some (unknown_service_result e (addr_service (Destination m))) \<and> Data m' = None
        else Result m' = Result m \<or> (\<exists>x. Result m' = Some x \<and> ProcessedTime x = Some (NowProto e) \<and> Data m' = None
          \<and> length (FailedReason x) \<le> MaxServiceFailureReasonLength))"

lemma service_result_Some:
  "service_result e r = Some x \<Longrightarrow> ProcessedTime x = Some (NowProto e) \<and> length (FailedReason x) \<le> MaxServiceFailureReasonLength"
  by (auto simp: service_result_def length_failure_reason split: option.splits if_splits)

lemma processMessage_result:
  assumes "processMessage e s running m isFirstTry w = Inr ((res, m'), w')"
  shows "same_message m m'" "res = Some x \<Longrightarrow> ProcessedTime x = Some (NowProto e) \<and> length (FailedReason x) \<le> MaxServiceFailureReasonLength"
proof -
  show "same_message m m'" using assms
    by (cases rule: processMessage_cases) (auto simp: annotate_source_def Let_def intro: same_messageI split: option.splits)
  show "res = Some x \<Longrightarrow> ProcessedTime x = Some (NowProto e) \<and> length (FailedReason x) \<le> MaxServiceFailureReasonLength"
    using assms by (cases rule: processMessage_cases) (auto dest: service_result_Some)
qed

lemma process_new_handled:
  assumes "process_new e c running (m\<lparr>CreationTime := Some (NowProto e)\<rparr>) w = Inr (m', w')"
  shows "handled e c m m'"
proof -
  let ?m = "m\<lparr>CreationTime := Some (NowProto e)\<rparr>"
  from assms obtain dest where dest: "Destination m = Some dest"
    by (cases "Destination m") (auto simp: process_new_def)
  show ?thesis
  proof (cases "map_of (mg_services c) (ServiceName dest)")
    case None
    with assms dest show ?thesis by (auto simp: process_new_def handled_def Let_def)
  next
    case (Some l)
    with assms dest obtain res m1 w1 w2 where p: "processMessage e l running ?m True w1 = Inr ((res, m1), w2)"
      and m': "m' = (case res of None \<Rightarrow> m1 | Some x \<Rightarrow> m1\<lparr>Result := Some x, Data := None\<rparr>)"
      by (auto simp: process_new_def)
    note r = processMessage_result [OF p]
    show ?thesis
      using same_message_simps [OF r(1)] r(2) dest Some m' by (cases res) (auto simp: handled_def)
  qed
qed

lemma run_goroutines_handled:
  assumes "run_goroutines (\<lambda>i. process_new e c (gs_running g i)) (gs_order g)
      (map (\<lambda>m. m\<lparr>CreationTime := Some (NowProto e)\<rparr>) msgs) w = Inr (ms', w')" and "gosched_ok g (length msgs)"
  shows "list_all2 (handled e c) msgs ms'"
proof (rule list_all2_all_nthI)
  have each: "length ms' = length msgs" "\<And>i. i < length msgs \<Longrightarrow> \<exists>w1 w2. process_new e c (gs_running g i)
      (map (\<lambda>m. m\<lparr>CreationTime := Some (NowProto e)\<rparr>) msgs ! i) w1 = Inr (ms' ! i, w2)"
    using run_goroutines_each [OF assms(1)] assms(2) by (auto simp: gosched_ok_def)
  show "length msgs = length ms'" using each by simp
  fix i
  assume "i < length msgs"
  with each(2) [OF this] show "handled e c (msgs ! i) (ms' ! i)" by (auto intro: process_new_handled)
qed

lemma handled_timed: "handled e c m m' \<Longrightarrow> Result m = None \<Longrightarrow> results_timed m'"
  by (auto simp: handled_def results_timed_def unknown_service_result_def split: if_splits option.splits)

lemma StoreMessages_results:
  assumes "StoreMessages e cd msgs contact d = (Inr u, d')" and "list_all results_timed msgs"
  shows "result_of d' = fold spec_store msgs (result_of d)"
proof -
  obtain ids d1 where 1: "foldE (storeOne e cd) msgs ([], d) = Inr (ids, d1)"
    "contact = [] \<Longrightarrow> d' = d1"
    "contact \<noteq> [] \<Longrightarrow> \<exists>c. ParseUint16 contact = Inr c \<and> foldE (linkIgnore c) ids d1 = Inr d'"
    using StoreMessages_okE [OF assms(1)] by blast
  have "result_of d' = result_of d1"
  proof (cases "contact = []")
    case False
    with 1(3) obtain c where "foldE (linkIgnore c) ids d1 = Inr d'" by blast
    then show ?thesis
      by (rule foldE_invariant [where P = "\<lambda>x. result_of x = result_of d1"]) (simp_all add: result_of_linkIgnore)
  qed (simp add: 1(2))
  with result_of_storeAll [OF 1(1) assms(2)] show ?thesis by simp
qed

section \<open>Installed services\<close>

inductive manager_step :: "'s Manager \<Rightarrow> 's Manager \<Rightarrow> bool" where
  "Manager_Install cfg c = Inr c' \<Longrightarrow> manager_step c c'"

definition manager_ok :: "'s liveService \<Rightarrow> 's Manager \<Rightarrow> bool" where
  "manager_ok sys c \<longleftrightarrow> gomap_ok (mg_services c) \<and> map_of (mg_services c) ''system'' = Some sys
     \<and> map_of (mg_services c) [] = None \<and> map_of (mg_services c) ''client'' = None
     \<and> (\<forall>n s. map_of (mg_services c) n = Some s \<longrightarrow> ls_name s = n \<and> ls_maxParallelism s > 0)"

lemma Manager_Install_okE:
  assumes "Manager_Install cfg c = Inr c'"
  obtains s where "sc_Name cfg \<noteq> []" "sc_Name cfg \<noteq> ''system''" "sc_Name cfg \<noteq> ''client''"
    "c' = c\<lparr>mg_services := gomap_upd (sc_Name cfg) \<lparr>ls_name = sc_Name cfg, ls_service = s,
       ls_maxParallelism = (if sc_MaxParallelism cfg = 0 then 100 else sc_MaxParallelism cfg)\<rparr> (mg_services c)\<rparr>"
proof (cases "map_of (mg_serviceRegistry c) (sc_Factory cfg)")
  case (Some f)
  with assms have nm: "\<not> (sc_Name cfg = [] \<or> sc_Name cfg = ''system'' \<or> sc_Name cfg = ''client'')"
    by (intro notI) (simp add: Manager_Install_def)
  with assms Some obtain s where "f (sc_Name cfg, sc_MaxParallelism cfg) = Inr s"
    and "(case svc_Start s of Some x \<Rightarrow> Inl x | None \<Rightarrow> Inr (c\<lparr>mg_services := gomap_upd (sc_Name cfg)
       \<lparr>ls_name = sc_Name cfg, ls_service = s,
        ls_maxParallelism = (if sc_MaxParallelism cfg = 0 then 100 else sc_MaxParallelism cfg)\<rparr> (mg_services c)\<rparr>)) = Inr c'"
    by (auto simp: Manager_Install_def Let_def)
  with nm that [of s] show thesis by (auto split: option.splits)
qed (use assms in \<open>simp add: Manager_Install_def\<close>)

lemma manager_ok_Install: "manager_ok sys c \<Longrightarrow> Manager_Install cfg c = Inr c' \<Longrightarrow> manager_ok sys c'"
  by (erule Manager_Install_okE) (auto simp: manager_ok_def word_gt_0)

lemma manager_ok_New:
  "manager_ok \<lparr>ls_name = ''system'', ls_service = sys, ls_maxParallelism = 100\<rparr> (NewManager sys registry)"
  by (simp add: manager_ok_def NewManager_def gomap_ok_def split: if_splits)

interpretation manager: step_invariant "\<lambda>c. \<exists>registry. c = NewManager sys registry"
  manager_step "manager_ok \<lparr>ls_name = ''system'', ls_service = sys, ls_maxParallelism = 100\<rparr>" for sys
  by unfold_locales (use manager_ok_New in \<open>auto simp: manager_step.simps intro: manager_ok_Install\<close>)

section \<open>Properties\<close>

text \<open>
  C36. What a call of \<^verbatim>\<open>processMessage\<close> that returns has done: it looks the client up, which leaves the datastore and the statistics
  as they are, and annotates the message with what it found. A call over the limit then reports \<^verbatim>\<open>MessageDropped\<close> and leaves the message
  for a retry, without calling the service. Any other call gives the annotated message to the service once, and after it reports exactly one statistic:
  a success gives a success, a temporary error leaves the message for a retry, and any other error gives a failure whose reason has
  at most 900 characters. The message keeps everything but its blocklist annotation and, where the service says so, its data. The
  flag of \<^verbatim>\<open>MessageErrored\<close> is true exactly for the temporary errors, as the code passes it; the collector documents it as \<^verbatim>\<open>permanent\<close>.
\<close>
theorem processMessage_outcome:
  assumes "processMessage e s running m isFirstTry w = Inr ((res, m'), w')"
  shows "\<exists>found w1 cData m1. Manager_clientData e m w = Inr (found, w1) \<and> w_db w1 = w_db w \<and> w_stats w1 = w_stats w
    \<and> cData = (case found of Inl _ \<Rightarrow> None | Inr c \<Rightarrow> Some c)
    \<and> m1 = (case cData of None \<Rightarrow> m | Some c \<Rightarrow> m\<lparr>IsBlocklistedSource := cd_Blacklisted c\<rparr>)
    \<and> (if running + 1 > ls_maxParallelism s
       then res = None \<and> m' = m1 \<and> w' = w1\<lparr>w_stats := w_stats w1 @ [MessageDropped m1 isFirstTry cData]\<rparr>
       else \<exists>r dropData w2. svc_ProcessMessage (ls_service s) m1 w1 = Inr ((r, dropData), w2)
         \<and> m' = (if dropData then m1\<lparr>Data := None\<rparr> else m1)
         \<and> (case r of
              None \<Rightarrow> res = Some \<lparr>ProcessedTime = Some (NowProto e), Failed = False, FailedReason = []\<rparr>
                \<and> w' = w2\<lparr>w_stats := w_stats w2 @ [MessageProcessed (Now e) (Now e) m' isFirstTry cData]\<rparr>
            | Some x \<Rightarrow> w' = w2\<lparr>w_stats := w_stats w2 @ [MessageErrored (Now e) (Now e) (IsTemporary x) m' isFirstTry cData]\<rparr>
                \<and> (if IsTemporary x then res = None
                   else \<exists>reason. length reason \<le> 900 \<and> (length (Error x) \<le> 900 \<longrightarrow> reason = Error x)
                     \<and> res = Some \<lparr>ProcessedTime = Some (NowProto e), Failed = True, FailedReason = reason\<rparr>)))"
  using assms
proof (cases rule: processMessage_cases)
  case (dropped found cData w1)
  then show ?thesis
    by (intro exI [of _ found] exI [of _ w1] exI [of _ cData] exI [of _ m'])
      (simp add: Manager_clientData_db Manager_clientData_stats annotate_source_def)
next
  case (served found cData m1 r dropData w1 w2)
  have reason: "length (failure_reason (Error x)) \<le> 900" "length (Error x) \<le> 900 \<longrightarrow> failure_reason (Error x) = Error x" for x
    using length_failure_reason [of "Error x"] by (simp_all add: MaxServiceFailureReasonLength_def failure_reason_def)
  have over: "\<not> running + 1 > ls_maxParallelism s" using served(1) by (simp only: not_less)
  have m1: "m1 = (case cData of None \<Rightarrow> m | Some c \<Rightarrow> m\<lparr>IsBlocklistedSource := cd_Blacklisted c\<rparr>)"
    using served(4) by (simp add: annotate_source_def)
  show ?thesis unfolding if_not_P [OF over]
    by (intro exI conjI, rule served(2), use served(2) in \<open>simp add: Manager_clientData_db\<close>,
        use served(2) in \<open>simp add: Manager_clientData_stats\<close>, rule served(3), rule m1, rule served(5), rule served(6))
      (use served(7,8) reason in \<open>auto simp: service_result_def service_stat_def split: option.splits\<close>)
qed

lemma HandleNewMessages_result:
  assumes "HandleNewMessages e cd c g ctx_err msgs contact w = Inr (None, w')"
    and "gosched_ok g (length msgs)" and "list_all (\<lambda>m. Result m = None) msgs"
  shows "\<exists>msgs' w1. run_goroutines (\<lambda>i. process_new e c (gs_running g i)) (gs_order g)
      (map (\<lambda>m. m\<lparr>CreationTime := Some (NowProto e)\<rparr>) msgs) w = Inr (msgs', w1)
    \<and> list_all2 (handled e c) msgs msgs' \<and> list_all results_timed msgs'
    \<and> result_of (w_db w') = fold spec_store msgs' (result_of (w_db w1))"
proof -
  let ?ms = "map (\<lambda>m. m\<lparr>CreationTime := Some (NowProto e)\<rparr>) msgs"
  have nobad: "\<not> list_ex bad_destination msgs" using assms(1) by (intro notI) (simp add: HandleNewMessages_def)
  with assms(1) obtain ms' w1 where run: "run_goroutines (\<lambda>i. process_new e c (gs_running g i)) (gs_order g) ?ms w = Inr (ms', w1)"
    and rest: "(case ctx_err of Some x \<Rightarrow> aret (Some x)
        | None \<Rightarrow> abind (aloop (record_saved e) ms') (\<lambda>_.
            abind (db_call (StoreMessages e cd ms' contact)) (\<lambda>r. aret (case r of Inl x \<Rightarrow> Some x | Inr _ \<Rightarrow> None)))) w1 = Inr (None, w')"
    by (auto simp: HandleNewMessages_def)
  from rest have "ctx_err = None" by (cases ctx_err) auto
  with rest obtain u r w2 where saved: "aloop (record_saved e) ms' w1 = Inr (u, w2)"
    and store: "db_call (StoreMessages e cd ms' contact) w2 = Inr (r, w')"
    and r: "(case r of Inl x \<Rightarrow> Some x | Inr _ \<Rightarrow> None) = None" by auto
  note same = aloop_record_saved_db [OF saved]
  from store r
  obtain d' where st: "StoreMessages e cd ms' contact (w_db w2) = (Inr (), d')" "w_db w' = d'"
    by (auto simp: db_call_eq_Inr split: sum.splits)
  have handled: "list_all2 (handled e c) msgs ms'" by (rule run_goroutines_handled [OF run assms(2)])
  then have timed: "list_all results_timed ms'"
    using assms(3) by (induction rule: list_all2_induct) (auto intro: handled_timed)
  from run handled timed StoreMessages_results [OF st(1) timed] st(2) same show ?thesis by force
qed

text \<open>
  New messages from a client: when \<^verbatim>\<open>HandleNewMessages\<close> succeeds, every message has kept its
  ids, source, destination and type, one for an unknown service has failed, any other is unprocessed
  with its data or has a result and no data, and what the datastore reports for every message id
  afterwards is what merging these messages one after the other gives into the datastore as the
  services left it; so no message is lost, in whatever order the goroutines ran.
\<close>
lemma HandleNewMessages_stores:
  assumes "HandleNewMessages e cd c g ctx_err msgs contact w = Inr (None, w')"
    and "gosched_ok g (length msgs)" and "list_all (\<lambda>m. Result m = None) msgs"
  shows "\<exists>msgs' w1. run_goroutines (\<lambda>i. process_new e c (gs_running g i)) (gs_order g)
      (map (\<lambda>m. m\<lparr>CreationTime := Some (NowProto e)\<rparr>) msgs) w = Inr (msgs', w1)
    \<and> list_all2 (handled e c) msgs msgs' \<and> list_all results_timed msgs'
    \<and> result_of (w_db w') = fold spec_store msgs' (result_of (w_db w1))"
  using assms by (rule HandleNewMessages_result)

text \<open>
  Load shedding: under every interleaving of calls, at most \<^verbatim>\<open>maxParallelism\<close> messages are
  inside a service at the same time, and the shared counter is the number of calls under way, as
  long as fewer than \<open>2 ^ 32\<close> calls overlap.
\<close>
lemma load_shedding_bound:
  assumes "reach (par_step maxP) par_init s"
  shows "ps_serving s \<le> unat maxP \<and> unat (ps_parallelism s) = ps_serving s + ps_dropping s"
  using load.reachable_inv [OF refl assms] by (simp add: par_ok_def)

text \<open>
  Whatever services are installed, the system service stays the one the manager was created
  with, nothing is installed under the empty name or the reserved name \<^verbatim>\<open>client\<close>, every service
  is filed under its own name, and none has a parallelism limit of zero.
\<close>
lemma installed_services_ok:
  assumes "reach manager_step (NewManager sys registry) c"
  shows "map_of (mg_services c) ''system'' = Some \<lparr>ls_name = ''system'', ls_service = sys, ls_maxParallelism = 100\<rparr>
    \<and> map_of (mg_services c) [] = None \<and> map_of (mg_services c) ''client'' = None
    \<and> (map_of (mg_services c) n = Some s \<longrightarrow> ls_name s = n \<and> ls_maxParallelism s > 0)"
proof -
  have "manager_ok \<lparr>ls_name = ''system'', ls_service = sys, ls_maxParallelism = 100\<rparr> c"
    by (rule manager.reachable_inv [OF _ assms]) blast
  then show ?thesis by (simp add: manager_ok_def)
qed

section \<open>Witnesses\<close>

definition demo_manager :: "unit Manager" where
  "demo_manager = NewManager (systemService demo_env demo_codec demo_sys) [(''NOOP'', \<lambda>_. Inr noopService)]"

definition demo_installed :: "unit Manager" where
  "demo_installed = projr (Manager_Install \<lparr>sc_Name = ''a'', sc_Factory = ''NOOP'', sc_MaxParallelism = 0\<rparr> demo_manager)"

lemma demo_installed: "Manager_Install \<lparr>sc_Name = ''a'', sc_Factory = ''NOOP'', sc_MaxParallelism = 0\<rparr> demo_manager = Inr demo_installed"
  unfolding demo_installed_def
  by (simp add: demo_manager_def NewManager_def Manager_Install_def Let_def noopService_def)

lemma installed_services_ok_instance:
  "map_of (mg_services demo_installed) ''client'' = None \<and> map_of (mg_services demo_installed) ''a'' \<noteq> None"
proof -
  have "reach manager_step demo_manager demo_installed"
    using demo_installed by (intro reach_step [OF reach_refl]) (auto intro: manager_step.intros)
  then have "map_of (mg_services demo_installed) ''client'' = None"
    unfolding demo_manager_def by (rule installed_services_ok [THEN conjunct2, THEN conjunct2, THEN conjunct1])
  moreover have "map (\<lambda>p. fst p) (mg_services demo_installed) = [''system'', ''a'']" by code_simp
  then have "map_of (mg_services demo_installed) ''a'' \<noteq> None" by (auto simp: map_of_eq_None_iff)
  ultimately show ?thesis by blast
qed

lemma load_shedding_bound_instance:
  "ps_serving \<lparr>ps_parallelism = 1, ps_serving = 1, ps_dropping = 0\<rparr> \<le> unat (1 :: u32)"
proof -
  have "par_step 1 par_init \<lparr>ps_parallelism = 1, ps_serving = 1, ps_dropping = 0\<rparr>"
    using par_enter [of par_init 1] by (simp add: par_init_def)
  then have "reach (par_step 1) par_init \<lparr>ps_parallelism = 1, ps_serving = 1, ps_dropping = 0\<rparr>"
    by (rule reach_step [OF reach_refl])
  from load_shedding_bound [OF this] show ?thesis by blast
qed

definition demo_in :: Message where
  "demo_in = empty_Message\<lparr>MessageId := Some (replicate 32 7), Source := Some \<lparr>ClientId = ClientID_Bytes demo_client, ServiceName = ''a''\<rparr>,
     Destination := Some \<lparr>ClientId = None, ServiceName = ''a''\<rparr>, SourceMessageId := Some [1], MessageType := ''x'', Data := Some demo_any\<rparr>"

definition demo_live :: "unit liveService" where
  "demo_live = \<lparr>ls_name = ''a'', ls_service = noopService, ls_maxParallelism = 100\<rparr>"

theorem processMessage_outcome_witness:
  "\<exists>res m' w' found w1. processMessage demo_env demo_live 0 demo_in True demo_world = Inr ((res, m'), w')
     \<and> Manager_clientData demo_env demo_in demo_world = Inr (found, w1) \<and> w_stats w1 = w_stats demo_world"
proof -
  have "map_sum (\<lambda>e. e) (\<lambda>_. ()) (processMessage demo_env demo_live 0 demo_in True demo_world) = Inr ()" by code_simp
  then obtain res m' w' where "processMessage demo_env demo_live 0 demo_in True demo_world = Inr ((res, m'), w')"
    by (cases "processMessage demo_env demo_live 0 demo_in True demo_world") auto
  with processMessage_outcome [OF this] show ?thesis by (elim exE conjE) (intro exI conjI)
qed

lemma HandleNewMessages_stores_instance:
  "\<exists>w' msgs' w1. HandleNewMessages demo_env demo_codec demo_installed \<lparr>gs_order = [1, 0], gs_running = (\<lambda>_. 0)\<rparr> None
     [demo_in, demo_in\<lparr>Destination := Some \<lparr>ClientId = None, ServiceName = ''b''\<rparr>, MessageId := Some (replicate 32 8)\<rparr>] [] demo_world
       = Inr (None, w') \<and> list_all2 (handled demo_env demo_installed)
     [demo_in, demo_in\<lparr>Destination := Some \<lparr>ClientId = None, ServiceName = ''b''\<rparr>, MessageId := Some (replicate 32 8)\<rparr>] msgs'
     \<and> result_of (w_db w') = fold spec_store msgs' (result_of (w_db (w1 :: unit world)))"
proof -
  let ?ms = "[demo_in, demo_in\<lparr>Destination := Some \<lparr>ClientId = None, ServiceName = ''b''\<rparr>, MessageId := Some (replicate 32 8)\<rparr>]"
  let ?g = "\<lparr>gs_order = [1, 0], gs_running = (\<lambda>_. 0)\<rparr> :: gosched"
  have "map_sum (\<lambda>e. e) fst (HandleNewMessages demo_env demo_codec demo_installed ?g None ?ms [] demo_world) = Inr None" by code_simp
  then obtain w' where run: "HandleNewMessages demo_env demo_codec demo_installed ?g None ?ms [] demo_world = Inr (None, w')"
    by (cases "HandleNewMessages demo_env demo_codec demo_installed ?g None ?ms [] demo_world") auto
  have "gosched_ok ?g (length ?ms)" by (auto simp: gosched_ok_def lessThan_Suc)
  moreover have "list_all (\<lambda>m. Result m = None) ?ms" by (simp add: demo_in_def empty_Message_def)
  ultimately show ?thesis using run HandleNewMessages_stores [OF run] by blast
qed

end
