(* ===== verification/Service_Contract.thy ===== *)
theory Service_Contract
  imports Server_Services
begin

text \<open>
  What the services of a server may do to the datastore, and what the service manager then does to it.

  The contract is a relation \<open>R\<close> between the datastore before and after. The locale \<open>db_order\<close>
  gives the rules by which an action keeps \<open>R\<close>; \<open>system_contract\<close> asks \<open>R\<close> of the datastore
  operations the system service calls, and concludes that the service keeps it; \<open>service_contract\<close> asks
  it of all installed services, and concludes that the manager keeps it while it processes messages.
  The first is interpreted on the steps of the datastore, so that everything the system service does
  is a run of honest store operations, and on the sources of stored messages.
\<close>

named_theorems keeps_intros \<open>rules for actions that keep a relation on the datastore\<close>

section \<open>Actions that keep a relation\<close>

definition keeps :: "(sqldb \<Rightarrow> sqldb \<Rightarrow> bool) \<Rightarrow> ('s, 'a) action \<Rightarrow> bool" where
  "keeps R f \<longleftrightarrow> (\<forall>w a w'. f w = Inr (a, w') \<longrightarrow> R (w_db w) (w_db w'))"

lemma keepsI: "(\<And>w a w'. f w = Inr (a, w') \<Longrightarrow> R (w_db w) (w_db w')) \<Longrightarrow> keeps R f"
  by (simp add: keeps_def)

lemma keepsD: "keeps R f \<Longrightarrow> f w = Inr (a, w') \<Longrightarrow> R (w_db w) (w_db w')"
  by (simp add: keeps_def)

lemma keeps_case_option [keeps_intros]:
  "keeps R g \<Longrightarrow> (\<And>x. keeps R (f x)) \<Longrightarrow> keeps R (case v of None \<Rightarrow> g | Some x \<Rightarrow> f x)"
  by (cases v) auto

lemma keeps_case_sum [keeps_intros]:
  "(\<And>x. keeps R (g x)) \<Longrightarrow> (\<And>x. keeps R (f x)) \<Longrightarrow> keeps R (case v of Inl x \<Rightarrow> g x | Inr x \<Rightarrow> f x)"
  by (cases v) auto

lemma keeps_case_prod [keeps_intros]: "(\<And>x y. keeps R (f x y)) \<Longrightarrow> keeps R (case p of (x, y) \<Rightarrow> f x y)"
  by (cases p) auto

lemma keeps_if [keeps_intros]: "keeps R f \<Longrightarrow> keeps R g \<Longrightarrow> keeps R (if b then f else g)"
  by simp

lemma keeps_let [keeps_intros]: "(\<And>x. keeps R (f x)) \<Longrightarrow> keeps R (let x = v in f x)"
  by simp

lemma keeps_fatal [keeps_intros]: "keeps R (\<lambda>w. Inl x)"
  by (simp add: keeps_def)

locale db_order =
  fixes R :: "sqldb \<Rightarrow> sqldb \<Rightarrow> bool"
  assumes R_refl: "R d d"
    and R_trans: "R d d' \<Longrightarrow> R d' d'' \<Longrightarrow> R d d''"
begin

lemma keeps_aret [keeps_intros]: "keeps R (aret a)"
  by (simp add: keeps_def R_refl)

lemma keeps_collect [keeps_intros]: "keeps R (collect s)"
  by (simp add: keeps_def R_refl)

lemma keeps_abind [keeps_intros]:
  assumes "keeps R f" and "\<And>a. keeps R (g a)"
  shows "keeps R (abind f g)"
  by (rule keepsI) (use assms in \<open>auto dest!: keepsD intro: R_trans\<close>)

lemma keeps_db_call:
  assumes "\<And>d. R d (snd (f d))"
  shows "keeps R (db_call f)"
proof (rule keepsI)
  fix w :: "'b world" and a w'
  assume "db_call f w = Inr (a, w')"
  then obtain d where "f (w_db w) = (a, d)" "w' = w\<lparr>w_db := d\<rparr>" by (auto simp: db_call_eq_Inr)
  with assms [of "w_db w"] show "R (w_db w) (w_db w')" by simp
qed

lemma keeps_get_or_read [keeps_intros]: "keeps R (get_or_read e i)"
  by (rule keepsI) (auto dest!: get_or_read_db simp: R_refl)

lemma keeps_sctx_GetClientData [keeps_intros]: "keeps R (sctx_GetClientData e i)"
  unfolding sctx_GetClientData_def by (intro keeps_intros)

lemma keeps_Manager_clientData [keeps_intros]: "keeps R (Manager_clientData e m)"
  by (rule keepsI) (auto dest!: Manager_clientData_db simp: R_refl)

lemma keeps_GetMessages [keeps_intros]: "keeps R (db_call (GetMessages e cd ids b))"
proof (rule keeps_db_call)
  fix d
  have "snd (GetMessages e cd ids b d) = d" using GetMessages_same by simp
  then show "R d (snd (GetMessages e cd ids b d))" by (simp add: R_refl)
qed

lemma keeps_GetClientData [keeps_intros]: "keeps R (db_call (GetClientData e i))"
  by (rule keeps_db_call) (simp add: GetClientData_same R_refl)

lemma keeps_aloop [keeps_intros]:
  assumes "\<And>x. keeps R (f x)"
  shows "keeps R (aloop f xs)"
  by (induction xs) (auto intro!: keeps_intros assms)

end

section \<open>The system service\<close>

locale system_contract = db_order R for R +
  assumes R_SetMessageResult: "R d (snd (SetMessageResult e i mid r d))"
    and R_AddClientLabel: "R d (snd (AddClientLabel i l d))"
    and R_RemoveClientLabel: "R d (snd (RemoveClientLabel i l d))"
    and R_RecordResourceUsageData: "R d (snd (RecordResourceUsageData e i u d))"
begin

lemmas keeps_ops [keeps_intros] = keeps_db_call [OF R_SetMessageResult] keeps_db_call [OF R_AddClientLabel]
  keeps_db_call [OF R_RemoveClientLabel] keeps_db_call [OF R_RecordResourceUsageData]

lemma keeps_remove_labels [keeps_intros]: "keeps R (remove_labels cid nl ls ol)"
  by (induction ls arbitrary: ol) (auto intro!: keeps_intros)

lemma keeps_add_labels [keeps_intros]: "keeps R (add_labels cid ol ls)"
  by (induction ls) (auto intro!: keeps_intros)

lemma keeps_ack_one [keeps_intros]: "keeps R (ack_one e cid m)"
  unfolding ack_one_def by (intro keeps_intros)

lemma keeps_forget [keeps_intros]: "keeps R (\<lambda>w. Inr (a, w\<lparr>w_cache := f w\<rparr>))"
  by (simp add: keeps_def R_refl)

lemma keeps_system: "keeps R (system_ProcessMessage e cd sc m)"
  unfolding system_ProcessMessage_def processMessageAck_def processMessageError_def processClientInfo_def
    processResourceUsage_def processKillNotification_def
  by (intro keeps_intros)

lemma keeps_system_service: "keeps R (svc_ProcessMessage (systemService e cd sc) m)"
  unfolding systemService_def by (simp, intro keeps_intros keeps_system)

end

section \<open>The manager\<close>

locale service_contract = db_order R for R :: "sqldb \<Rightarrow> sqldb \<Rightarrow> bool" +
  fixes c :: "'s Manager"
  assumes R_service: "map_of (mg_services c) n = Some l \<Longrightarrow> keeps R (svc_ProcessMessage (ls_service l) m)"
    and R_batch: "map_of (mg_services c) n = Some l \<Longrightarrow> svc_ProcessMessageBatch (ls_service l) = Some f \<Longrightarrow> keeps R (f ms)"
begin

lemma keeps_processMessage:
  assumes "map_of (mg_services c) n = Some l"
  shows "keeps R (processMessage e l running m first)"
  unfolding processMessage_def serve_message_def by (intro keeps_intros R_service [OF assms])

lemma keeps_process_new: "keeps R (process_new e c running m)"
proof (cases "Destination m")
  case (Some dest)
  show ?thesis
  proof (cases "map_of (mg_services c) (ServiceName dest)")
    case l: (Some l)
    show ?thesis unfolding process_new_def Some l option.case by (intro keeps_intros keeps_processMessage [OF l])
  qed (use Some in \<open>simp add: process_new_def, intro keeps_intros\<close>)
qed (simp add: process_new_def keeps_fatal)

lemma keeps_run_goroutines:
  assumes "\<And>i m. keeps R (f i m)"
  shows "keeps R (run_goroutines f order ms)"
  by (induction order arbitrary: ms) (auto intro!: keeps_intros assms)

lemma keeps_ProcessMessageBatch: "keeps R (Manager_ProcessMessageBatch c n ms)"
proof (cases "map_of (mg_services c) n")
  case l: (Some l)
  show ?thesis
  proof (cases "svc_ProcessMessageBatch (ls_service l)")
    case (Some f)
    show ?thesis unfolding Manager_ProcessMessageBatch_def l Some option.case by (intro keeps_intros R_batch [OF l Some])
  qed (simp add: Manager_ProcessMessageBatch_def l keeps_fatal)
qed (simp add: Manager_ProcessMessageBatch_def keeps_aret)

text \<open>
  The messages \<^verbatim>\<open>HandleNewMessages\<close> stores are those it was given, up to what processing may change.
\<close>

lemma HandleNewMessages_rel:
  assumes run: "HandleNewMessages e cd c g ctx_err msgs contact w = Inr (r, w')"
    and g: "gosched_ok g (length msgs)"
    and store: "\<And>ms' d. list_all2 (handled e c) msgs ms' \<Longrightarrow> R d (snd (StoreMessages e cd ms' contact d))"
  shows "R (w_db w) (w_db w')"
proof (cases "list_ex bad_destination msgs")
  case False
  with run obtain ms' w1 where 1: "run_goroutines (\<lambda>i. process_new e c (gs_running g i)) (gs_order g)
       (map (\<lambda>m. m\<lparr>CreationTime := Some (NowProto e)\<rparr>) msgs) w = Inr (ms', w1)"
    and rest: "(case ctx_err of Some x \<Rightarrow> aret (Some x)
        | None \<Rightarrow> abind (aloop (record_saved e) ms') (\<lambda>_.
            abind (db_call (StoreMessages e cd ms' contact)) (\<lambda>r. aret (case r of Inl x \<Rightarrow> Some x | Inr _ \<Rightarrow> None)))) w1 = Inr (r, w')"
    by (auto simp: HandleNewMessages_def)
  have "list_all2 (handled e c) msgs ms'" by (rule run_goroutines_handled [OF 1 g])
  then have keep: "keeps R (db_call (StoreMessages e cd ms' contact) :: ('s, _) action)" by (intro keeps_db_call store)
  have "R (w_db w1) (w_db w')"
  proof (cases ctx_err)
    case None
    with rest obtain u w2 x where 2: "aloop (record_saved e) ms' w1 = Inr (u, w2)"
      "db_call (StoreMessages e cd ms' contact) w2 = Inr (x, w')" by auto
    from keepsD [OF keep 2(2)] show ?thesis by (simp only: aloop_record_saved_db [OF 2(1)])
  qed (use rest in \<open>simp add: R_refl\<close>)
  moreover have "keeps R (run_goroutines (\<lambda>i. process_new e c (gs_running g i)) (gs_order g)
       (map (\<lambda>m. m\<lparr>CreationTime := Some (NowProto e)\<rparr>) msgs))" by (intro keeps_run_goroutines keeps_process_new)
  from keepsD [OF this 1] have "R (w_db w) (w_db w1)" .
  ultimately show ?thesis by (rule R_trans [rotated])
qed (use run in \<open>simp add: HandleNewMessages_def R_refl\<close>)

end

section \<open>Interpretations\<close>

text \<open>A datastore that a run of honest operations turns into another.\<close>

lemma reach_trans: "reach S s t \<Longrightarrow> reach S t u \<Longrightarrow> reach S s u"
  by (rotate_tac 1, induction rule: reach.induct) (auto intro: reach.intros)

lemma reach_op:
  assumes "op_honest d op" and "apply_op e cd op d = d'"
  shows "reach store_step d d'"
  using assms by (intro reach_step [OF reach_refl]) (auto intro: store_stepI)

interpretation honest: system_contract "reach store_step"
proof unfold_locales
  show "reach store_step d (snd (SetMessageResult e i mid r d))" for d e i mid r
    by (rule reach_op [where op = "OpSetMessageResult i mid r" and cd = undefined]) auto
  show "reach store_step d (snd (AddClientLabel i l d))" for d i l
    by (rule reach_op [where op = "OpAddClientLabel i l" and cd = undefined and e = undefined]) auto
  show "reach store_step d (snd (RemoveClientLabel i l d))" for d i l
    by (rule reach_op [where op = "OpRemoveClientLabel i l" and cd = undefined and e = undefined]) auto
  show "reach store_step d (snd (RecordResourceUsageData e i u d))" for d e i u
    by (rule reach_op [where op = "OpRecordResourceUsageData i u" and cd = undefined]) auto
qed (auto intro: reach_trans)

subsection \<open>Rows of the message tables\<close>

definition row_source :: "dbMessage \<Rightarrow> string \<times> string" where
  "row_source r = (messageID r, sourceClientID r)"

definition message_ids :: "sqldb \<Rightarrow> string set" where
  "message_ids d = fst ` set (map row_source (t_messages d))"

definition pending_data :: "pending_row \<Rightarrow> string \<times> string option \<times> bytes" where
  "pending_data p = (p_message_id p, p_data_type_url p, p_data_value p)"

text \<open>
  What \<open>f\<close> shows of the rows of \<^verbatim>\<open>messages\<close> was there before or is in \<open>K\<close>, the data of pending messages were there
  before or are in \<open>Q\<close>, and no message is removed.
\<close>

definition rows_kept :: "(dbMessage \<Rightarrow> 'a) \<Rightarrow> 'a set \<Rightarrow> (string \<times> string option \<times> bytes) set \<Rightarrow> sqldb \<Rightarrow> sqldb \<Rightarrow> bool" where
  "rows_kept f K Q d d' \<longleftrightarrow> f ` set (t_messages d') \<subseteq> f ` set (t_messages d) \<union> K \<and> message_ids d \<subseteq> message_ids d'
     \<and> pending_data ` set (t_pending d') \<subseteq> pending_data ` set (t_pending d) \<union> Q"

text \<open>The messages that leave nothing but rows in \<open>K\<close> and data in \<open>Q\<close> when they are stored.\<close>

definition storable :: "codec \<Rightarrow> (dbMessage \<Rightarrow> 'a) \<Rightarrow> 'a set \<Rightarrow> (string \<times> string option \<times> bytes) set \<Rightarrow> Message \<Rightarrow> bool" where
  "storable cd f K Q m \<longleftrightarrow> (\<forall>dbm. fromMessageProto cd m = Inr dbm \<longrightarrow>
     f dbm \<in> K \<and> (messageID dbm, dataTypeURL dbm, dataValue dbm) \<in> Q \<and> (messageID dbm, None, []) \<in> Q)"

lemma subset_union_trans: "A'' \<subseteq> A' \<union> K \<Longrightarrow> A' \<subseteq> A \<union> K \<Longrightarrow> A'' \<subseteq> A \<union> K"
  by blast

locale row_projection =
  fixes f :: "dbMessage \<Rightarrow> 'a"
  assumes f_result: "f (r\<lparr>failed := a, failedReason := b, processedTimeSeconds := c, processedTimeNanos := t\<rparr>) = f r"
    and f_columns: "f (r\<lparr>retryCount := n, dataTypeURL := u, dataValue := v\<rparr>) = f r"
begin

lemma f_columns' [simp]: "f (message_columns r) = f r" "f (r\<lparr>dataTypeURL := u, dataValue := v\<rparr>) = f r"
  using f_columns [where r = r and n = 0 and u = None and v = "[]"] f_columns [where r = r and n = "retryCount r" and u = u and v = v]
  by (simp_all add: message_columns_def)

lemma kept_same:
  assumes "map f (t_messages d') = map f (t_messages d)" and "map messageID (t_messages d') = map messageID (t_messages d)"
    and "set (t_pending d') \<subseteq> set (t_pending d)"
  shows "rows_kept f K Q d d'"
  using arg_cong [OF assms(1), of set] arg_cong [OF assms(2), of set] assms(3)
  by (auto simp: rows_kept_def message_ids_def row_source_def image_image)

lemma kept_refl: "rows_kept f K Q d d"
  by (rule kept_same) simp_all

lemma kept_trans: "rows_kept f K Q d d' \<Longrightarrow> rows_kept f K Q d' d'' \<Longrightarrow> rows_kept f K Q d d''"
  unfolding rows_kept_def by (elim conjE) (intro conjI; (rule subset_union_trans | rule subset_trans); assumption)

lemma kept_trySetMessageResult:
  assumes "trySetMessageResult i r d = Inr (u, d')"
  shows "rows_kept f K Q d d'"
proof -
  obtain pt where "ProcessedTime r = Some pt" using assms by (cases "ProcessedTime r") (auto simp: trySetMessageResult_def)
  with assms show ?thesis by (intro kept_same) (auto simp: trySetMessageResult_def Let_def f_result)
qed

lemma kept_tryStoreMessage:
  assumes "tryStoreMessage e dbm b d = Inr (u, d')" and "f dbm \<in> K" and "(messageID dbm, dataTypeURL dbm, dataValue dbm) \<in> Q"
  shows "rows_kept f K Q d d'"
proof -
  have "t_messages d' = t_messages d \<or> t_messages d' = t_messages d @ [message_columns dbm]"
    and "t_pending d' = t_pending d \<or> (\<exists>row. t_pending d' = t_pending d @ [row] \<and> pending_data row = (messageID dbm, dataTypeURL dbm, dataValue dbm))"
    using assms(1)
    by (auto simp: tryStoreMessage_def sql_insert_or_ignore_eq_Inr sql_insert_eq_Inr pending_data_def Let_def split: if_splits)
  then show ?thesis using assms(2,3) unfolding rows_kept_def message_ids_def by (elim disjE exE conjE) (simp_all add: subset_insertI)
qed

lemma kept_storeOne:
  assumes "storeOne e cd m (acc, d) = Inr (acc', d')" and "storable cd f K Q m"
  shows "rows_kept f K Q d d'"
proof -
  obtain dbm where dbm: "fromMessageProto cd m = Inr dbm" using assms(1) by (auto simp: storeOne_def)
  then have K: "f dbm \<in> K" "(messageID dbm, dataTypeURL dbm, dataValue dbm) \<in> Q" "(messageID dbm, None, []) \<in> Q"
    using assms(2) by (simp_all add: storable_def)
  have data: "rows_kept f K Q d d1" if "tryStoreMessage e dbm False d = Inr (u, d1)" for d1 u
    using kept_tryStoreMessage [OF that] K by simp
  have none: "rows_kept f K Q d d1" if "tryStoreMessage e (dbm\<lparr>dataTypeURL := None, dataValue := []\<rparr>) False d = Inr (u, d1)" for d1 u
    using kept_tryStoreMessage [OF that] K by simp
  show ?thesis using assms(1)
    by (auto simp: storeOne_def dbm Let_def split: option.splits if_splits sum.splits
        intro: kept_refl kept_trySetMessageResult data none kept_trans [OF none])
qed

lemma kept_StoreMessages:
  assumes "list_all (storable cd f K Q) ms"
  shows "rows_kept f K Q d (snd (StoreMessages e cd ms contact d))"
proof (cases "StoreMessages e cd ms contact d")
  case (Pair r d')
  show ?thesis
  proof (cases r)
    case Inl
    with Pair have "d' = d" by (auto simp: StoreMessages_def dest: runInTx_error)
    with Pair show ?thesis by (simp add: kept_refl)
  next
    case (Inr u)
    with Pair have "StoreMessages e cd ms contact d = (Inr u, d')" by simp
    from StoreMessages_okE [OF this] obtain ids d1 where 1: "foldE (storeOne e cd) ms ([], d) = Inr (ids, d1)"
      "contact = [] \<Longrightarrow> d' = d1" "contact \<noteq> [] \<Longrightarrow> \<exists>c. ParseUint16 contact = Inr c \<and> foldE (linkIgnore c) ids d1 = Inr d'"
      by blast
    have "rows_kept f K Q d (snd (ids, d1))"
    proof (rule foldE_invariant [OF 1(1), where P = "\<lambda>s. rows_kept f K Q d (snd s)"])
      fix m s s'
      assume "m \<in> set ms" "rows_kept f K Q d (snd s)" "storeOne e cd m s = Inr s'"
      then show "rows_kept f K Q d (snd s')"
        using kept_storeOne [of e cd m "fst s" "snd s" "fst s'" "snd s'" K] assms
        by (auto simp: list_all_iff intro: kept_trans)
    qed (simp add: kept_refl)
    moreover have "rows_kept f K Q d1 d'"
    proof (cases "contact = []")
      case False
      with 1(3) obtain c where "foldE (linkIgnore c) ids d1 = Inr d'" by blast
      then have "t_messages d' = t_messages d1 \<and> t_pending d' = t_pending d1"
        by (rule foldE_invariant [where P = "\<lambda>x. t_messages x = t_messages d1 \<and> t_pending x = t_pending d1"]) (auto simp: linkIgnore_def)
      then show ?thesis by (intro kept_same) simp_all
    qed (simp add: 1(2) kept_refl)
    ultimately show ?thesis using Pair kept_trans by auto
  qed
qed

lemma kept_contract: "system_contract (rows_kept f K Q)"
proof unfold_locales
  show "rows_kept f K Q d d" for d by (rule kept_refl)
  show "rows_kept f K Q d d''" if "rows_kept f K Q d d'" "rows_kept f K Q d' d''" for d d' d'' using that by (rule kept_trans)
  show "rows_kept f K Q d (snd (SetMessageResult e i mid r d))" for d e i mid r
    unfolding SetMessageResult_def
    by (rule runInTx_invariant [where P = "rows_kept f K Q d"]) (auto intro: kept_refl kept_trySetMessageResult)
  show "rows_kept f K Q d (snd (AddClientLabel i l d))" for d i l
    by (rule kept_same) (simp_all add: AddClientLabel_def execStmt_def insert_label_eq_Inr split: sum.split)
  show "rows_kept f K Q d (snd (RemoveClientLabel i l d))" for d i l
    by (rule kept_same) (simp_all add: RemoveClientLabel_def execStmt_def)
  show "rows_kept f K Q d (snd (RecordResourceUsageData e i u d))" for d e i u
    by (cases rule: RecordResourceUsageData_snd [of e i u d]) (auto intro: kept_same)
qed

end

text \<open>Who sent the stored messages: the ids of the messages from clients, with their source.\<close>

definition client_rows :: "sqldb \<Rightarrow> (string \<times> string) set" where
  "client_rows d = set (filter (\<lambda>(_, c). c \<noteq> []) (map row_source (t_messages d)))"

definition sources_kept :: "(string \<times> string) set \<Rightarrow> sqldb \<Rightarrow> sqldb \<Rightarrow> bool" where
  "sources_kept K d d' \<longleftrightarrow> client_rows d' \<subseteq> client_rows d \<union> K \<and> message_ids d \<subseteq> message_ids d'"

interpretation source_rows: row_projection row_source
  by unfold_locales (simp_all add: row_source_def)

lemma sources_kept_eq: "sources_kept K = rows_kept row_source (K \<union> {x. snd x = []}) UNIV"
proof (intro ext)
  fix d d'
  have rows: "client_rows d = {x \<in> row_source ` set (t_messages d). snd x \<noteq> []}" for d by (auto simp: client_rows_def row_source_def)
  have "{x \<in> A'. snd x \<noteq> []} \<subseteq> {x \<in> A. snd x \<noteq> []} \<union> K \<longleftrightarrow> A' \<subseteq> A \<union> (K \<union> {x. snd x = []})" for A A' :: "(string \<times> string) set"
    by blast
  then show "sources_kept K d d' = rows_kept row_source (K \<union> {x. snd x = []}) UNIV d d'"
    by (simp add: sources_kept_def rows_kept_def rows)
qed

interpretation sources: system_contract "sources_kept K" for K
  unfolding sources_kept_eq by (rule source_rows.kept_contract)

definition source_in :: "codec \<Rightarrow> (string \<times> string) set \<Rightarrow> Message \<Rightarrow> bool" where
  "source_in cd K m \<longleftrightarrow> (\<forall>dbm. fromMessageProto cd m = Inr dbm \<longrightarrow> sourceClientID dbm = [] \<or> row_source dbm \<in> K)"

lemma sources_kept_StoreMessages:
  assumes "list_all (source_in cd K) ms"
  shows "sources_kept K d (snd (StoreMessages e cd ms contact d))"
  unfolding sources_kept_eq
  by (rule source_rows.kept_StoreMessages) (use assms in \<open>auto simp: list_all_iff storable_def source_in_def row_source_def\<close>)

text \<open>
  What a message is, apart from its data, its creation time and its result: the columns of \<^verbatim>\<open>messages\<close> that
  are never updated. \<open>ids_untouched S\<close> says that nothing is stored under an id in \<open>S\<close>.
\<close>

definition row_columns :: "dbMessage \<Rightarrow> string \<times> string \<times> string \<times> string \<times> string \<times> string \<times> string \<times> bytes \<times> bytes" where
  "row_columns r = (messageID r, sourceClientID r, sourceServiceName r, sourceMessageID r, destinationClientID r,
     destinationServiceName r, messageType r, validationInfo r, annotations r)"

definition ids_untouched :: "string set \<Rightarrow> sqldb \<Rightarrow> sqldb \<Rightarrow> bool" where
  "ids_untouched S = rows_kept row_columns {v. fst v \<notin> S} {q. fst q \<notin> S}"

interpretation column_rows: row_projection row_columns
  by unfold_locales (simp_all add: row_columns_def)

interpretation untouched: system_contract "ids_untouched S" for S
  unfolding ids_untouched_def by (rule column_rows.kept_contract)

text \<open>The manager every server starts with: the system service alone.\<close>

context system_contract
begin

lemma default_manager: "service_contract R (NewManager (systemService e cd sc) registry)"
proof unfold_locales
  fix n l
  assume "map_of (mg_services (NewManager (systemService e cd sc) registry)) n = Some l"
  then have l: "ls_service l = systemService e cd sc" by (auto simp: NewManager_def split: if_splits)
  show "keeps R (svc_ProcessMessage (ls_service l) m)" for m unfolding l by (rule keeps_system_service)
  show "keeps R (f ms)" if "svc_ProcessMessageBatch (ls_service l) = Some f" for f ms
    using that by (simp add: l systemService_def)
qed

end

interpretation default_store: service_contract "reach store_step" "NewManager (systemService e cd sc) registry" for e cd sc registry
  by (rule honest.default_manager)

interpretation default_sources: service_contract "sources_kept K" "NewManager (systemService e cd sc) registry" for K e cd sc registry
  by (rule sources.default_manager)

interpretation default_untouched: service_contract "ids_untouched S" "NewManager (systemService e cd sc) registry" for S e cd sc registry
  by (rule untouched.default_manager)

text \<open>A contract that allows less gives one that allows more.\<close>

lemma keeps_mono: "keeps R f \<Longrightarrow> (\<And>d d'. R d d' \<Longrightarrow> R' d d') \<Longrightarrow> keeps R' f"
  by (auto simp: keeps_def)

lemma service_contract_mono:
  assumes "service_contract R c" and "db_order R'" and "\<And>d d'. R d d' \<Longrightarrow> R' d d'"
  shows "service_contract R' c"
  unfolding service_contract_def service_contract_axioms_def
  by (intro conjI allI impI assms(2) keeps_mono [OF service_contract.R_service [OF assms(1)]]
      keeps_mono [OF service_contract.R_batch [OF assms(1)]] assms(3))

lemma service_contract_sources:
  assumes "service_contract (sources_kept {}) c"
  shows "service_contract (sources_kept K) c"
  using assms by (rule service_contract_mono) (auto simp: sources.db_order_axioms sources_kept_def)

lemma service_contract_untouched:
  assumes "service_contract (ids_untouched S) c" and "{v. fst v \<notin> S} \<subseteq> K" and "{q. fst q \<notin> S} \<subseteq> Q"
  shows "service_contract (rows_kept row_columns K Q) c"
proof (rule service_contract_mono [OF assms(1)])
  show "db_order (rows_kept row_columns K Q)" using column_rows.kept_contract [of K Q] by (simp add: system_contract_def)
  show "rows_kept row_columns K Q d d'" if "ids_untouched S d d'" for d d'
    using that assms(2,3) unfolding ids_untouched_def rows_kept_def
    by (meson Un_mono order_refl order_trans)
qed

end
