(* ===== verification/Dispatcher.thy ===== *)
theory Dispatcher
  imports Ids
begin

text \<open>
  \<^verbatim>\<open>fleetspeak/src/server/internal/notifications/notifications.go\<close>: how a server tells the
  connection of a client that there are messages for it.

  A notification channel is an entry of a list and is named by its index, so that channels are
  compared by identity as the closure \<^verbatim>\<open>fin\<close> does. Go panics when a closed channel is closed
  or sent on; those are \<open>Fatal\<close> results. Every method holds the lock around what it does to the
  map, so one call is one step; \<^verbatim>\<open>NotifyAll\<close> releases it between clients, and its loop body is
  the step \<open>Dispatch\<close>.
\<close>

section \<open>Channels\<close>

text \<open>\<^verbatim>\<open>make(chan struct{}, 1)\<close>: the number of buffered notices and whether it is closed.\<close>

record notice_chan =
  nc_buf :: nat
  nc_closed :: bool

definition chan_close :: "nat \<Rightarrow> notice_chan list \<Rightarrow> error + notice_chan list" where
  "chan_close c cs = (if nc_closed (cs ! c) then Inl (Fatal ''close of closed channel'')
     else Inr (cs[c := (cs ! c)\<lparr>nc_closed := True\<rparr>]))"

text \<open>A non-blocking send to a channel of capacity 1.\<close>

definition chan_try_send :: "nat \<Rightarrow> notice_chan list \<Rightarrow> error + notice_chan list" where
  "chan_try_send c cs = (if nc_closed (cs ! c) then Inl (Fatal ''send on closed channel'')
     else if nc_buf (cs ! c) < 1 then Inr (cs[c := (cs ! c)\<lparr>nc_buf := nc_buf (cs ! c) + 1\<rparr>])
     else Inr cs)"

text \<open>A receive: a buffered notice, or the end of a closed channel.\<close>

definition chan_recv :: "nat \<Rightarrow> notice_chan list \<Rightarrow> notice_chan list" where
  "chan_recv c cs = (if nc_buf (cs ! c) > 0 then cs[c := (cs ! c)\<lparr>nc_buf := nc_buf (cs ! c) - 1\<rparr>] else cs)"

section \<open>The dispatcher\<close>

record Dispatcher =
  dp_m :: "(ClientID, nat) gomap"
  dp_chans :: "notice_chan list"

definition NewDispatcher :: Dispatcher where
  "NewDispatcher = \<lparr>dp_m = [], dp_chans = []\<rparr>"

definition Dispatch :: "ClientID \<Rightarrow> Dispatcher \<Rightarrow> error + Dispatcher" where
  "Dispatch i d = (case map_of (dp_m d) i of
       None \<Rightarrow> Inr d
     | Some c \<Rightarrow> ebind (chan_try_send c (dp_chans d)) (\<lambda>cs. Inr (d\<lparr>dp_chans := cs\<rparr>)))"

text \<open>\<open>Register\<close> returns the channel; the second result, the closure, is \<open>Register_fin i ch\<close>.\<close>

definition Register :: "ClientID \<Rightarrow> Dispatcher \<Rightarrow> error + nat \<times> Dispatcher" where
  "Register i d =
     (let ch = length (dp_chans d); cs = dp_chans d @ [\<lparr>nc_buf = 0, nc_closed = False\<rparr>] in
      ebind (case map_of (dp_m d) i of None \<Rightarrow> Inr cs | Some c \<Rightarrow> chan_close c cs) (\<lambda>cs.
        Inr (ch, \<lparr>dp_m = gomap_upd i ch (dp_m d), dp_chans = cs\<rparr>)))"

definition Register_fin :: "ClientID \<Rightarrow> nat \<Rightarrow> Dispatcher \<Rightarrow> error + Dispatcher" where
  "Register_fin i ch d = (case map_of (dp_m d) i of
       None \<Rightarrow> Inr d
     | Some c \<Rightarrow> if c = ch then ebind (chan_close c (dp_chans d)) (\<lambda>cs.
            Inr \<lparr>dp_m = gomap_del i (dp_m d), dp_chans = cs\<rparr>)
          else Inr d)"

text \<open>
  \<open>waits\<close> is what \<^verbatim>\<open>d.lim.Wait(ctx)\<close> answers for one client after the other; the first error
  ends the loop. Waits beyond the list succeed.
\<close>

fun notify_loop :: "ClientID list \<Rightarrow> bool list \<Rightarrow> Dispatcher \<Rightarrow> error + Dispatcher" where
  "notify_loop [] waits d = Inr d"
| "notify_loop (i # ids) (False # waits) d = Inr d"
| "notify_loop (i # ids) (True # waits) d = ebind (Dispatch i d) (notify_loop ids waits)"
| "notify_loop (i # ids) [] d = ebind (Dispatch i d) (notify_loop ids [])"

definition NotifyAll :: "bool list \<Rightarrow> Dispatcher \<Rightarrow> error + Dispatcher" where
  "NotifyAll waits d = notify_loop (map fst (dp_m d)) waits d"

section \<open>Notifiers\<close>

text \<open>
  \<^verbatim>\<open>LocalListenerNotifier\<close>: \<open>None\<close> is the nil channel, otherwise the notices received so far.
  \<open>ctx_done\<close> says that the \<^verbatim>\<open>select\<close> takes the branch of the context, which it has to on a
  nil channel.
\<close>

type_synonym LocalListenerNotifier = "ClientID list option"

definition Local_Start :: "LocalListenerNotifier \<Rightarrow> LocalListenerNotifier" where
  "Local_Start n = Some []"

definition Local_Stop :: "LocalListenerNotifier \<Rightarrow> error + LocalListenerNotifier" where
  "Local_Stop n = (case n of None \<Rightarrow> Inl (Fatal ''close of nil channel'') | Some _ \<Rightarrow> Inr None)"

definition Local_Address :: string where
  "Local_Address = ''local''"

definition Local_NewMessageForClient ::
  "bool \<Rightarrow> string \<Rightarrow> ClientID \<Rightarrow> LocalListenerNotifier \<Rightarrow> error option \<times> LocalListenerNotifier" where
  "Local_NewMessageForClient ctx_done target i n =
     (if target \<noteq> ''local'' then (None, n)
      else case n of
          None \<Rightarrow> (Some CtxErr, n)
        | Some seen \<Rightarrow> if ctx_done then (Some CtxErr, n) else (None, Some (seen @ [i])))"

definition Noop_NewMessageForClient :: "string \<Rightarrow> ClientID \<Rightarrow> error option" where
  "Noop_NewMessageForClient target i = None"

section \<open>All interleavings\<close>

text \<open>
  The state machine adds to the dispatcher, for every channel, the client it was registered for: a
  connection calls only the closure it got. The closure may be called at any time and more than
  once, and a connection may read from its channel at any time.
\<close>

type_synonym disp_state = "Dispatcher \<times> ClientID list"

inductive disp_step :: "disp_state \<Rightarrow> disp_state \<Rightarrow> bool" where
  step_Register: "Register i d = Inr (ch, d') \<Longrightarrow> disp_step (d, own) (d', own @ [i])"
| step_fin: "ch < length own \<Longrightarrow> Register_fin (own ! ch) ch d = Inr d' \<Longrightarrow> disp_step (d, own) (d', own)"
| step_Dispatch: "Dispatch i d = Inr d' \<Longrightarrow> disp_step (d, own) (d', own)"
| step_recv: "ch < length own \<Longrightarrow> disp_step (d, own) (d\<lparr>dp_chans := chan_recv ch (dp_chans d)\<rparr>, own)"

definition disp_init :: "disp_state \<Rightarrow> bool" where
  "disp_init s \<longleftrightarrow> s = (NewDispatcher, [])"

text \<open>
  Exactly the registrations in the map are open; at most one notice is buffered.
\<close>

fun disp_ok :: "disp_state \<Rightarrow> bool" where
  "disp_ok (d, own) \<longleftrightarrow> length own = length (dp_chans d)
     \<and> (\<forall>i ch. map_of (dp_m d) i = Some ch \<longrightarrow> ch < length own \<and> own ! ch = i)
     \<and> (\<forall>ch < length own. nc_buf (dp_chans d ! ch) \<le> 1
          \<and> (nc_closed (dp_chans d ! ch) \<longleftrightarrow> map_of (dp_m d) (own ! ch) \<noteq> Some ch))"

lemma disp_okD:
  assumes "disp_ok (d, own)" and "map_of (dp_m d) i = Some ch"
  shows "ch < length (dp_chans d)" "own ! ch = i" "\<not> nc_closed (dp_chans d ! ch)"
    "nc_buf (dp_chans d ! ch) \<le> 1"
  using assms by auto

lemma disp_ok_chans:
  assumes "disp_ok (d, own)" and "length cs = length (dp_chans d)"
    and "\<And>c. c < length cs \<Longrightarrow> nc_buf (cs ! c) \<le> 1 \<and> nc_closed (cs ! c) = nc_closed (dp_chans d ! c)"
  shows "disp_ok (d\<lparr>dp_chans := cs\<rparr>, own)"
  using assms by auto

lemma disp_ok_buf: "disp_ok (d, own) \<Longrightarrow> c < length (dp_chans d) \<Longrightarrow> nc_buf (dp_chans d ! c) \<le> 1"
  by simp

lemma nth_list_update_if: "c < length cs \<Longrightarrow> cs[i := x] ! c = (if i = c then x else cs ! c)"
  by (cases "i = c") simp_all

lemma Dispatch_Inr:
  assumes "disp_ok (d, own)"
  shows "Dispatch i d = Inr (case map_of (dp_m d) i of None \<Rightarrow> d
    | Some ch \<Rightarrow> d\<lparr>dp_chans := (dp_chans d)[ch := \<lparr>nc_buf = 1, nc_closed = False\<rparr>]\<rparr>)"
proof (cases "map_of (dp_m d) i")
  case (Some ch)
  note ok = disp_okD [OF assms Some]
  show ?thesis
  proof (cases "nc_buf (dp_chans d ! ch) < 1")
    case False
    with ok have "dp_chans d ! ch = \<lparr>nc_buf = 1, nc_closed = False\<rparr>" by (cases "dp_chans d ! ch") auto
    then have "(dp_chans d)[ch := \<lparr>nc_buf = 1, nc_closed = False\<rparr>] = dp_chans d" by (metis list_update_id)
    with Some ok False show ?thesis by (cases d) (simp add: Dispatch_def chan_try_send_def)
  next
    case True
    with Some ok show ?thesis
      by (cases "dp_chans d ! ch") (auto simp: Dispatch_def chan_try_send_def)
  qed
qed (simp add: Dispatch_def)

lemma Register_Inr:
  assumes "disp_ok (d, own)"
  shows "Register i d = Inr (length (dp_chans d), \<lparr>dp_m = gomap_upd i (length (dp_chans d)) (dp_m d),
     dp_chans = (case map_of (dp_m d) i of None \<Rightarrow> dp_chans d
        | Some c \<Rightarrow> (dp_chans d)[c := (dp_chans d ! c)\<lparr>nc_closed := True\<rparr>]) @ [\<lparr>nc_buf = 0, nc_closed = False\<rparr>]\<rparr>)"
proof (cases "map_of (dp_m d) i")
  case (Some c)
  with disp_okD [OF assms Some] show ?thesis
    by (simp add: Register_def Let_def chan_close_def nth_append list_update_append)
qed (simp add: Register_def Let_def)

lemma Register_fin_Inr:
  assumes "disp_ok (d, own)"
  shows "Register_fin i ch d = Inr (if map_of (dp_m d) i = Some ch
     then \<lparr>dp_m = gomap_del i (dp_m d), dp_chans = (dp_chans d)[ch := (dp_chans d ! ch)\<lparr>nc_closed := True\<rparr>]\<rparr>
     else d)"
  using disp_okD [OF assms, of i] by (auto simp: Register_fin_def chan_close_def split: option.split)

lemma disp_ok_step:
  assumes ok: "disp_ok s" and "disp_step s t"
  shows "disp_ok t"
  using assms(2)
proof (cases rule: disp_step.cases)
  case (step_Register i d ch d' own)
  from ok have ok: "disp_ok (d, own)" by (simp only: step_Register)
  have t: "t = (\<lparr>dp_m = gomap_upd i (length (dp_chans d)) (dp_m d),
     dp_chans = (case map_of (dp_m d) i of None \<Rightarrow> dp_chans d
        | Some c \<Rightarrow> (dp_chans d)[c := (dp_chans d ! c)\<lparr>nc_closed := True\<rparr>]) @ [\<lparr>nc_buf = 0, nc_closed = False\<rparr>]\<rparr>,
     own @ [i])" using Register_Inr [OF ok, of i] step_Register by auto
  from ok have len: "length own = length (dp_chans d)" by simp
  show ?thesis
  proof (cases "map_of (dp_m d) i")
    case None
    with ok show ?thesis by (auto simp: t len nth_append less_Suc_eq)
  next
    case (Some c)
    with ok disp_okD [OF ok Some] show ?thesis
      by (auto simp: t len nth_append less_Suc_eq nth_list_update)
  qed
next
  case (step_fin ch own d d')
  from ok have ok: "disp_ok (d, own)" by (simp only: step_fin)
  show ?thesis
  proof (cases "map_of (dp_m d) (own ! ch) = Some ch")
    case True
    with step_fin Register_fin_Inr [OF ok, of "own ! ch" ch]
    have t: "t = (\<lparr>dp_m = gomap_del (own ! ch) (dp_m d),
       dp_chans = (dp_chans d)[ch := (dp_chans d ! ch)\<lparr>nc_closed := True\<rparr>]\<rparr>, own)" by (simp del: disp_ok.simps)
    from ok have len: "length own = length (dp_chans d)"
      and own: "\<And>i c. map_of (dp_m d) i = Some c \<Longrightarrow> c < length own \<and> own ! c = i"
      and chans: "\<And>c. c < length own \<Longrightarrow> nc_buf (dp_chans d ! c) \<le> 1
          \<and> (nc_closed (dp_chans d ! c) \<longleftrightarrow> map_of (dp_m d) (own ! c) \<noteq> Some c)"
      by (simp, metis disp_ok.simps, simp)
    have "nc_buf (dp_chans (fst t) ! c) \<le> 1
          \<and> (nc_closed (dp_chans (fst t) ! c) \<longleftrightarrow> map_of (dp_m (fst t)) (own ! c) \<noteq> Some c)"
      if "c < length own" for c
    proof (cases "c = ch")
      case True
      with chans [OF that] len that show ?thesis by (simp add: t)
    next
      case False
      with \<open>map_of (dp_m d) (own ! ch) = Some ch\<close> have "own ! c = own ! ch \<Longrightarrow> map_of (dp_m d) (own ! c) \<noteq> Some c"
        by simp
      with False chans [OF that] show ?thesis by (auto simp: t)
    qed
    with len own show ?thesis by (simp add: t)
  next
    case False
    with step_fin Register_fin_Inr [OF ok, of "own ! ch" ch] have "t = (d, own)" by (simp del: disp_ok.simps)
    with ok show ?thesis by (simp only:)
  qed
next
  case (step_Dispatch i d d' own)
  from ok have ok: "disp_ok (d, own)" by (simp only: step_Dispatch)
  show ?thesis
  proof (cases "map_of (dp_m d) i")
    case None
    with step_Dispatch Dispatch_Inr [OF ok, of i] have "t = (d, own)" by (simp del: disp_ok.simps)
    with ok show ?thesis by (simp only:)
  next
    case (Some ch)
    with step_Dispatch Dispatch_Inr [OF ok, of i]
    have t: "t = (d\<lparr>dp_chans := (dp_chans d)[ch := \<lparr>nc_buf = 1, nc_closed = False\<rparr>]\<rparr>, own)"
      by (simp del: disp_ok.simps)
    show ?thesis unfolding t
      by (rule disp_ok_chans [OF ok])
        (use disp_ok_buf [OF ok] disp_okD(1,3) [OF ok Some] in \<open>auto simp: nth_list_update\<close>)
  qed
next
  case (step_recv ch own d)
  from ok have ok: "disp_ok (d, own)" by (simp only: step_recv)
  show ?thesis unfolding step_recv
    by (rule disp_ok_chans [OF ok])
      (use disp_ok_buf [OF ok] in \<open>auto simp: chan_recv_def nth_list_update_if le_diff_conv le_SucI split: if_splits\<close>)
qed

interpretation dispatcher: step_invariant disp_init disp_step disp_ok
  by unfold_locales (auto simp: disp_init_def NewDispatcher_def intro: disp_ok_step)

lemma notify_loop_total:
  assumes "disp_ok (d, own)"
  shows "\<exists>d'. notify_loop ids waits d = Inr d' \<and> disp_ok (d', own)"
  using assms
proof (induction ids waits d rule: notify_loop.induct)
  case (3 i ids waits d)
  obtain d1 where d1: "Dispatch i d = Inr d1" using Dispatch_Inr [OF 3(2)] by blast
  have "disp_ok (d1, own)" by (rule disp_ok_step [OF 3(2) step_Dispatch [OF d1]])
  from 3(1) [OF d1 this] d1 show ?case by simp
next
  case (4 i ids d)
  obtain d1 where d1: "Dispatch i d = Inr d1" using Dispatch_Inr [OF 4(2)] by blast
  have "disp_ok (d1, own)" by (rule disp_ok_step [OF 4(2) step_Dispatch [OF d1]])
  from 4(1) [OF d1 this] d1 show ?case by simp
qed auto

section \<open>Properties\<close>

text \<open>
  C40. However registrations, their ends, notifications and reads interleave, no operation of the
  dispatcher panics on a closed channel; a connection's channel is open exactly while its
  registration is the current one of its client; and at most one notice waits in a channel.
\<close>
theorem dispatcher_never_panics:
  assumes "reach disp_step (NewDispatcher, []) (d, own)"
  shows "(\<exists>d'. Dispatch i d = Inr d') \<and> (\<exists>r. Register i d = Inr r)
    \<and> (\<exists>d'. Register_fin i ch d = Inr d') \<and> (\<exists>d'. NotifyAll waits d = Inr d')
    \<and> (ch < length own \<longrightarrow> nc_buf (dp_chans d ! ch) \<le> 1
        \<and> (nc_closed (dp_chans d ! ch) \<longleftrightarrow> map_of (dp_m d) (own ! ch) \<noteq> Some ch))"
proof -
  have ok: "disp_ok (d, own)" by (rule dispatcher.reachable_inv [OF _ assms]) (simp add: disp_init_def)
  with Dispatch_Inr [OF ok] Register_Inr [OF ok] Register_fin_Inr [OF ok]
    notify_loop_total [OF ok, of "map fst (dp_m d)" waits] show ?thesis
    by (auto simp: NotifyAll_def)
qed

text \<open>
  A registration receives the notifications of its client from the moment it is made until it
  ends or is replaced: registering closes the channel of the previous registration and makes the
  next notification arrive in the new one, ending it closes the channel and makes notifications
  vanish, ending an older one changes nothing, and no other client's registration is touched.
\<close>
lemma dispatcher_delivers:
  assumes "reach disp_step (NewDispatcher, []) (d, own)" and "Register i d = Inr (ch, d1)"
    and "Dispatch i d1 = Inr d2"
  shows "nc_buf (dp_chans d2 ! ch) = 1 \<and> \<not> nc_closed (dp_chans d2 ! ch)
    \<and> (\<forall>old. map_of (dp_m d) i = Some old \<longrightarrow> nc_closed (dp_chans d2 ! old) \<and> Register_fin i old d2 = Inr d2)
    \<and> (\<exists>d3. Register_fin i ch d2 = Inr d3 \<and> nc_closed (dp_chans d3 ! ch) \<and> Dispatch i d3 = Inr d3)
    \<and> (\<forall>j c. j \<noteq> i \<longrightarrow> map_of (dp_m d) j = Some c \<longrightarrow>
          map_of (dp_m d2) j = Some c \<and> dp_chans d2 ! c = dp_chans d ! c)"
proof -
  have ok: "disp_ok (d, own)" by (rule dispatcher.reachable_inv [OF _ assms(1)]) (simp add: disp_init_def)
  have ok1: "disp_ok (d1, own @ [i])" by (rule disp_ok_step [OF ok step_Register [OF assms(2)]])
  have ok2: "disp_ok (d2, own @ [i])" by (rule disp_ok_step [OF ok1 step_Dispatch [OF assms(3)]])
  let ?cs = "case map_of (dp_m d) i of None \<Rightarrow> dp_chans d
        | Some c \<Rightarrow> (dp_chans d)[c := (dp_chans d ! c)\<lparr>nc_closed := True\<rparr>]"
  from Register_Inr [OF ok, of i] assms(2) have ch: "ch = length (dp_chans d)"
    and d1: "d1 = \<lparr>dp_m = gomap_upd i ch (dp_m d), dp_chans = ?cs @ [\<lparr>nc_buf = 0, nc_closed = False\<rparr>]\<rparr>"
    by auto
  have len: "length ?cs = ch" by (simp add: ch split: option.split)
  from Dispatch_Inr [OF ok1, of i] assms(3) have
    d2: "d2 = \<lparr>dp_m = gomap_upd i ch (dp_m d), dp_chans = ?cs @ [\<lparr>nc_buf = 1, nc_closed = False\<rparr>]\<rparr>"
    using len by (simp add: d1 list_update_append)
  have old: "nc_closed (dp_chans d2 ! old) \<and> Register_fin i old d2 = Inr d2"
    if "map_of (dp_m d) i = Some old" for old
    using disp_okD [OF ok that] that by (auto simp: d2 nth_append ch Register_fin_def)
  have new: "\<exists>d3. Register_fin i ch d2 = Inr d3 \<and> nc_closed (dp_chans d3 ! ch) \<and> Dispatch i d3 = Inr d3"
    using Register_fin_Inr [OF ok2, of i ch] len by (simp add: d2 Dispatch_def)
  have other: "map_of (dp_m d2) j = Some c \<and> dp_chans d2 ! c = dp_chans d ! c"
    if "j \<noteq> i" "map_of (dp_m d) j = Some c" for j c
    using disp_okD [OF ok that(2)] disp_okD [OF ok, of i] that
    by (auto simp: d2 nth_append ch nth_list_update split: option.split)
  have "nc_buf (dp_chans d2 ! ch) = 1 \<and> \<not> nc_closed (dp_chans d2 ! ch)"
    using len by (simp add: d2 nth_append)
  with old new other show ?thesis by blast
qed

definition demo_disp :: Dispatcher where
  "demo_disp = \<lparr>dp_m = [(ClientID [1], 0)], dp_chans = [\<lparr>nc_buf = 0, nc_closed = False\<rparr>]\<rparr>"

lemma demo_disp_reach: "reach disp_step (NewDispatcher, []) (demo_disp, [ClientID [1]])"
  using reach_step [OF reach_refl, of disp_step "(NewDispatcher, [])" "(demo_disp, [ClientID [1]])"]
    step_Register [of "ClientID [1]" NewDispatcher 0 demo_disp "[]"]
  by (simp add: Register_def NewDispatcher_def demo_disp_def)

theorem dispatcher_never_panics_witness:
  "\<exists>d'. Dispatch (ClientID [1]) demo_disp = Inr d'"
  using dispatcher_never_panics [OF demo_disp_reach, of "ClientID [1]"] by blast

definition demo_disp1 :: Dispatcher where
  "demo_disp1 = \<lparr>dp_m = [(ClientID [1], 1)],
     dp_chans = [\<lparr>nc_buf = 0, nc_closed = True\<rparr>, \<lparr>nc_buf = 0, nc_closed = False\<rparr>]\<rparr>"

definition demo_disp2 :: Dispatcher where
  "demo_disp2 = \<lparr>dp_m = [(ClientID [1], 1)],
     dp_chans = [\<lparr>nc_buf = 0, nc_closed = True\<rparr>, \<lparr>nc_buf = 1, nc_closed = False\<rparr>]\<rparr>"

lemma dispatcher_delivers_instance:
  "Register (ClientID [1]) demo_disp = Inr (1, demo_disp1) \<and> Dispatch (ClientID [1]) demo_disp1 = Inr demo_disp2
   \<and> nc_buf (dp_chans demo_disp2 ! 1) = 1 \<and> Register_fin (ClientID [1]) 0 demo_disp2 = Inr demo_disp2"
proof -
  have "Register (ClientID [1]) demo_disp = Inr (1, demo_disp1)"
    and "Dispatch (ClientID [1]) demo_disp1 = Inr demo_disp2" by code_simp+
  moreover from dispatcher_delivers [OF demo_disp_reach this]
  have "nc_buf (dp_chans demo_disp2 ! 1) = 1" "Register_fin (ClientID [1]) 0 demo_disp2 = Inr demo_disp2"
    by (simp_all add: demo_disp_def)
  ultimately show ?thesis by blast
qed

end
