(* ===== verification/Broadcast_Manager.thy ===== *)
theory Broadcast_Manager
  imports Sqlite_Store Client_Cache Dispatcher
begin

text \<open>
  \<^verbatim>\<open>fleetspeak/src/server/internal/broadcasts/broadcasts.go\<close>: the part of a server that hands
  broadcasts to clients, taking allocations of limited broadcasts from the datastore.

  A \<^verbatim>\<open>*bInfo\<close> is an index into \<open>bm_heap\<close>, so that the map of current infos, the infos
  that a request holds reserved and the infos waiting for clean-up share the counter \<^verbatim>\<open>sent\<close>, as
  in the code. \<^verbatim>\<open>info.sent\<close> is only changed atomically, so reserving one message and giving it
  back are single steps; \<^verbatim>\<open>useCount\<close> is the number of requests that hold the info. Each
  operation is split into the pieces that are atomic in the code; \<open>MakeBroadcastMessagesForClient\<close>
  and \<open>refreshInfo\<close> run them in the order of the source, and \<open>Broadcast_Machine\<close> runs
  them in every order concurrent requests can produce.

  The zero \<^verbatim>\<open>time.Time\<close> of an info without expiry is \<open>None\<close>. Random ids are arguments.
\<close>

section \<open>State\<close>

record bInfo =
  bI_bID :: BroadcastID
  bI_b :: Broadcast
  bI_aID :: AllocationID
  bI_limit :: u64
  bI_sent :: u64
  bI_expiry :: "gotime option"

record bManager =
  bm_infos :: "(BroadcastID, nat) gomap"
  bm_heap :: "bInfo list"
  bm_basePollWait :: int

definition allocFrac :: f32 where
  "allocFrac = f32_0_2"

definition allocDuration :: int where
  "allocDuration = 10 * minute"

section \<open>Messages for one client\<close>

text \<open>The compare-and-swap loop of \<^verbatim>\<open>limitedAtomicIncrement\<close>, at the moment it succeeds or gives up.\<close>

definition limitedAtomicIncrement :: "u64 \<Rightarrow> u64 \<Rightarrow> u64 option" where
  "limitedAtomicIncrement c limit = (if c \<ge> limit then None else Some (c + 1))"

definition info_eligible :: "gotime \<Rightarrow> BroadcastID list \<Rightarrow> Label list \<Rightarrow> bInfo \<Rightarrow> bool" where
  "info_eligible now sentSet labelSet info \<longleftrightarrow> bI_bID info \<notin> set sentSet
     \<and> (case bI_expiry info of None \<Rightarrow> True | Some x \<Rightarrow> \<not> x < now)
     \<and> list_all (\<lambda>kw. kw \<in> set labelSet) (RequiredLabels (bI_b info))"

definition info_reserve :: "bInfo \<Rightarrow> bInfo option" where
  "info_reserve info =
     (if bI_limit info = BroadcastUnlimited then Some (info\<lparr>bI_sent := bI_sent info + 1\<rparr>)
      else map_option (\<lambda>s. info\<lparr>bI_sent := s\<rparr>) (limitedAtomicIncrement (bI_sent info) (bI_limit info)))"

fun reserve_loop :: "gotime \<Rightarrow> BroadcastID list \<Rightarrow> Label list \<Rightarrow> nat list \<Rightarrow> bInfo list \<Rightarrow> nat list \<times> bInfo list" where
  "reserve_loop now sentSet labelSet [] h = ([], h)"
| "reserve_loop now sentSet labelSet (p # ps) h =
     (if \<not> info_eligible now sentSet labelSet (h ! p) then reserve_loop now sentSet labelSet ps h
      else case info_reserve (h ! p) of
          None \<Rightarrow> reserve_loop now sentSet labelSet ps h
        | Some info \<Rightarrow> (case reserve_loop now sentSet labelSet ps (h[p := info]) of
              (ret, h') \<Rightarrow> (p # ret, h')))"

text \<open>Undoing a reservation: \<^verbatim>\<open>atomic.AddUint64(&i.sent, ^uint64(0))\<close> adds \<open>- 1\<close>.\<close>

definition info_release :: "bInfo \<Rightarrow> bInfo" where
  "info_release info = info\<lparr>bI_sent := bI_sent info + (- 1)\<rparr>"

definition broadcast_message :: "env \<Rightarrow> ClientID \<Rightarrow> MessageID \<Rightarrow> Broadcast \<Rightarrow> Message" where
  "broadcast_message e i mid b = empty_Message\<lparr>MessageId := MessageID_Bytes mid, Source := b_Source b,
     Destination := Some \<lparr>ClientId = ClientID_Bytes i,
       ServiceName = (if addr_service (b_Destination b) \<noteq> [] then addr_service (b_Destination b)
                      else addr_service (b_Source b))\<rparr>,
     MessageType := b_MessageType b, Data := b_Data b, CreationTime := Some (NowProto e)\<rparr>"

text \<open>
  One round of the loop that creates and saves the messages; errors are logged only, but a
  \<^verbatim>\<open>log.Fatal\<close> of the datastore ends the process (\<open>Inl\<close>).
\<close>

definition save_one :: "env \<Rightarrow> codec \<Rightarrow> error + bytes \<Rightarrow> ClientID \<Rightarrow> nat \<Rightarrow> bInfo list \<times> sqldb \<Rightarrow>
    error + Message list \<times> bInfo list \<times> sqldb" where
  "save_one e cd rnd i p s = (case s of (h, d) \<Rightarrow>
     (case RandomMessageID rnd of
        Inl _ \<Rightarrow> Inr ([], h[p := info_release (h ! p)], d)
      | Inr mid \<Rightarrow>
         (let info = h ! p;
              msg = broadcast_message e i mid (bI_b info);
              aid = (if bI_limit info = BroadcastUnlimited then AllocationID [] else bI_aID info)
          in case SaveBroadcastMessage e cd msg (bI_bID info) i aid d of
               (Inl (Fatal x), d') \<Rightarrow> Inl (Fatal x)
             | (Inl _, d') \<Rightarrow> Inr ([], h[p := info_release (h ! p)], d')
             | (Inr _, d') \<Rightarrow> Inr ([msg], h, d'))))"

fun save_loop :: "env \<Rightarrow> codec \<Rightarrow> (error + bytes) list \<Rightarrow> ClientID \<Rightarrow> nat list \<Rightarrow> bInfo list \<times> sqldb \<Rightarrow>
    error + Message list \<times> bInfo list \<times> sqldb" where
  "save_loop e cd rnds i [] s = Inr ([], s)"
| "save_loop e cd rnds i (p # ps) s =
     ebind (save_one e cd (case rnds of [] \<Rightarrow> Inl (Err ''rand'') | r # _ \<Rightarrow> r) i p s) (\<lambda>(ms, s').
     ebind (save_loop e cd (tl rnds) i ps s') (\<lambda>(ms', s''). Inr (ms @ ms', s'')))"

definition MakeBroadcastMessagesForClient ::
  "env \<Rightarrow> codec \<Rightarrow> (error + bytes) list \<Rightarrow> ClientID \<Rightarrow> Label list \<Rightarrow> bManager \<times> sqldb \<Rightarrow>
   error + (error + Message list) \<times> bManager \<times> sqldb" where
  "MakeBroadcastMessagesForClient e cd rnds i labels s = (case s of (m, d) \<Rightarrow>
     (case ListSentBroadcasts i d of
        (Inl x, d) \<Rightarrow> Inr (Inl x, m, d)
      | (Inr sent, d) \<Rightarrow>
         (case reserve_loop (Now e) sent labels (map snd (bm_infos m)) (bm_heap m) of
            (ps, h) \<Rightarrow> ebind (save_loop e cd rnds i ps (h, d)) (\<lambda>(msgs, h', d').
               Inr (Inr msgs, m\<lparr>bm_heap := h'\<rparr>, d')))))"

section \<open>Refreshing the allocations\<close>

definition info_current :: "env \<Rightarrow> int \<Rightarrow> bInfo \<Rightarrow> bool" where
  "info_current e pw info \<longleftrightarrow>
     (bI_limit info = BroadcastUnlimited \<or> bI_sent info < bI_limit info)
     \<and> (case bI_expiry info of None \<Rightarrow> True | Some x \<Rightarrow> x > Now e + 2 * pw)"

definition findCurrentAllocs :: "env \<Rightarrow> bManager \<Rightarrow> BroadcastID list" where
  "findCurrentAllocs e m = map (\<lambda>(_, p). bI_bID (bm_heap m ! p))
     (filter (\<lambda>(_, p). info_current e (bm_basePollWait m) (bm_heap m ! p)) (bm_infos m))"

text \<open>
  The allocation for one broadcast that has none: the new info, or nothing when the datastore
  refuses (logged) or nothing is left to allocate.
\<close>

definition alloc_one :: "env \<Rightarrow> error + bytes \<Rightarrow> BroadcastID \<Rightarrow> BroadcastInfo \<Rightarrow> sqldb \<Rightarrow> bInfo option \<times> sqldb" where
  "alloc_one e rnd i b d =
     (if bi_Sent b = bi_Limit b then (None, d)
      else let info = \<lparr>bI_bID = i, bI_b = bi_Broadcast b, bI_aID = AllocationID [],
                       bI_limit = bi_Limit b, bI_sent = 0, bI_expiry = None\<rparr>
      in if bi_Limit b = BroadcastUnlimited then (Some info, d)
         else case CreateAllocation e rnd i allocFrac (Now e + allocDuration) d of
             (Inl _, d') \<Rightarrow> (None, d')
           | (Inr None, d') \<Rightarrow> (None, d')
           | (Inr (Some a), d') \<Rightarrow> (Some (info\<lparr>bI_aID := ai_ID a, bI_limit := ai_Limit a,
                 bI_expiry := Some (ai_Expiry a)\<rparr>), d'))"

text \<open>The loop over the active broadcasts, with \<^verbatim>\<open>newAllocs\<close> and \<^verbatim>\<open>activeIds\<close>.\<close>

fun alloc_loop :: "env \<Rightarrow> (error + bytes) list \<Rightarrow> BroadcastID list \<Rightarrow> BroadcastInfo list \<Rightarrow>
    (BroadcastID, nat) gomap \<Rightarrow> BroadcastID list \<Rightarrow> bInfo list \<times> sqldb \<Rightarrow>
    (BroadcastID, nat) gomap \<times> BroadcastID list \<times> bInfo list \<times> sqldb" where
  "alloc_loop e rnds cur [] newAllocs activeIds (h, d) = (newAllocs, activeIds, h, d)"
| "alloc_loop e rnds cur (b # bs) newAllocs activeIds (h, d) =
     (case BytesToBroadcastID (BroadcastId (bi_Broadcast b)) of
        Inl _ \<Rightarrow> alloc_loop e rnds cur bs newAllocs activeIds (h, d)
      | Inr i \<Rightarrow>
         if i \<in> set cur then alloc_loop e rnds cur bs newAllocs (i # activeIds) (h, d)
         else (case alloc_one e (case rnds of [] \<Rightarrow> Inl (Err ''rand'') | r # _ \<Rightarrow> r) i b d of
             (None, d') \<Rightarrow> alloc_loop e (tl rnds) cur bs newAllocs (i # activeIds) (h, d')
           | (Some info, d') \<Rightarrow> alloc_loop e (tl rnds) cur bs (gomap_upd i (length h) newAllocs)
                (i # activeIds) (h @ [info], d')))"

definition updateAllocs :: "BroadcastID list \<Rightarrow> (BroadcastID, nat) gomap \<Rightarrow>
    (BroadcastID, nat) gomap \<times> bInfo list \<Rightarrow> nat list \<times> (BroadcastID, nat) gomap" where
  "updateAllocs keep new s = (case s of (infos, h) \<Rightarrow>
     (let gone = (\<lambda>(_, p). bI_bID (h ! p) \<notin> set keep \<and> map_of new (bI_bID (h ! p)) = None);
          ret = map snd (filter gone infos);
          infos = fold (\<lambda>(_, p) m. gomap_del (bI_bID (h ! p)) m) (filter gone infos) infos
      in fold (\<lambda>(i, p) (ret, infos).
            (case map_of infos i of None \<Rightarrow> ret | Some q \<Rightarrow> ret @ [q], gomap_upd i p infos)) new (ret, infos)))"

text \<open>The last loop of \<^verbatim>\<open>refreshInfo\<close> and of \<^verbatim>\<open>Close\<close>, counting the errors.\<close>

fun cleanup_loop :: "env \<Rightarrow> bInfo list \<Rightarrow> nat list \<Rightarrow> sqldb \<Rightarrow> nat \<times> sqldb" where
  "cleanup_loop e h [] d = (0, d)"
| "cleanup_loop e h (p # ps) d =
     (case CleanupAllocation e (bI_bID (h ! p)) (bI_aID (h ! p)) (bI_sent (h ! p)) d of
        (r, d') \<Rightarrow> (case cleanup_loop e h ps d' of
           (n, d'') \<Rightarrow> ((case r of Inl _ \<Rightarrow> n + 1 | Inr _ \<Rightarrow> n), d'')))"

definition cleanup_result :: "nat \<Rightarrow> error + unit" where
  "cleanup_result n = (if n > 0 then Inl (Err ''errors cleaning up allocations'') else Inr ())"

text \<open>
  \<open>refreshInfo\<close> also tells whether it starts the goroutine that runs \<^verbatim>\<open>NotifyAll\<close>.
\<close>

definition refreshInfo :: "env \<Rightarrow> (error + bytes) list \<Rightarrow> bManager \<times> Clients \<times> sqldb \<Rightarrow>
    (error + bool) \<times> bManager \<times> Clients \<times> sqldb" where
  "refreshInfo e rnds s = (case s of (m, c, d) \<Rightarrow>
     (let cur = findCurrentAllocs e m in
      case ListActiveBroadcasts e d of
        (Inl _, d) \<Rightarrow> (Inl (Err ''unable to list active broadcasts''), m, c, d)
      | (Inr bs, d) \<Rightarrow>
         (case alloc_loop e rnds cur bs [] [] (bm_heap m, d) of
            (newAllocs, activeIds, h, d) \<Rightarrow>
              (case updateAllocs (filter (\<lambda>i. i \<in> set activeIds) cur) newAllocs (bm_infos m, h) of
                 (dead, infos) \<Rightarrow>
                   (let c = (if length newAllocs > 0 then cache_Clear c else c) in
                    case cleanup_loop e h dead d of
                      (n, d) \<Rightarrow> (ebind (cleanup_result n) (\<lambda>_. Inr (length newAllocs > 0)),
                          m\<lparr>bm_infos := infos, bm_heap := h\<rparr>, c, d))))))"

definition MakeManager :: "env \<Rightarrow> (error + bytes) list \<Rightarrow> int \<Rightarrow> Clients \<times> sqldb \<Rightarrow>
    (error + bool) \<times> bManager \<times> Clients \<times> sqldb" where
  "MakeManager e rnds pw s = refreshInfo e rnds (\<lparr>bm_infos = [], bm_heap = [], bm_basePollWait = pw\<rparr>, s)"

definition Manager_Close :: "env \<Rightarrow> bManager \<times> sqldb \<Rightarrow> (error + unit) \<times> bManager \<times> sqldb" where
  "Manager_Close e s = (case s of (m, d) \<Rightarrow>
     (case cleanup_loop e (bm_heap m) (map snd (bm_infos m)) d of
        (n, d') \<Rightarrow> (cleanup_result n, m\<lparr>bm_infos := []\<rparr>, d')))"

end
