(* ===== verification/Server_Comms.thy ===== *)
theory Server_Comms
  imports Server_Contact Service_Contract Broadcast_Manager
begin

text \<open>
  \<^verbatim>\<open>fleetspeak/src/server/comms.go\<close>: what a server does with a contact from a client. It
  identifies and authorizes the client, takes its messages, and finds the messages for it.

  The server's fixed parts (its services, its authorizer, the third-party functions it calls) are
  the record \<open>server_cfg\<close>; what changes is the record \<open>server\<close>. The random bytes, the order in
  which Go ranges over the map of services, the schedules of the goroutines and the state of the
  context after each chunk are the record \<open>contact_inputs\<close>. \<^verbatim>\<open>sort.Slice\<close> is a sort that keeps
  messages of equal id in their order, one of the results Go allows. A connection a function changes
  through its pointer is returned beside the result.
\<close>

section \<open>State and inputs\<close>

record ('k, 'c, 's) server_cfg =
  sv_codec :: codec
  sv_x509 :: "'c x509"
  sv_MarshalPKIX :: "'k \<Rightarrow> error + bytes"
  sv_ParsePKIX :: "bytes \<Rightarrow> error + 'k"
  sv_sha256 :: "bytes \<Rightarrow> bytes"
  sv_unmarshal_ContactData :: "bytes \<Rightarrow> error + ContactData"
  sv_authorizer :: "'c Authorizer"
  sv_services :: "'s Manager"
  sv_listener :: string
  sv_fileStores :: "(string, string \<Rightarrow> string \<Rightarrow> ('s, error + bytes \<times> gotime) action) gomap"

record 's server =
  sv_world :: "'s world"
  sv_broadcasts :: bManager
  sv_dispatcher :: Dispatcher

record contact_inputs =
  in_nonce :: "error + bytes"
  in_rekey :: "error + bytes"
  in_broadcast_ids :: "(error + bytes) list"
  in_range :: "string list"
  in_sched :: "nat \<Rightarrow> nat \<Rightarrow> gosched"
  in_ctx_err :: "nat \<Rightarrow> error option"

definition on_world :: "('s, 'a) action \<Rightarrow> ('s server, 'a) gofn" where
  "on_world f s = ebind (f (sv_world s)) (\<lambda>(a, w). Inr (a, s\<lparr>sv_world := w\<rparr>))"

definition maxMessagesPerContact :: nat where
  "maxMessagesPerContact = 100"

definition processingChunkSize :: nat where
  "processingChunkSize = 10"

text \<open>\<^verbatim>\<open>binary.LittleEndian.Uint64\<close> of random bytes.\<close>

definition randUint64 :: "error + bytes \<Rightarrow> ('w, u64) gofn" where
  "randUint64 rnd w = (case rnd of
       Inl _ \<Rightarrow> Inl (Fatal ''unable to read random bytes'')
     | Inr b \<Rightarrow> Inr (foldr (\<lambda>x acc. acc * 256 + word_of_nat (unat x)) b 0, w))"

section \<open>Messages from a client\<close>

definition validateMessageFromClient :: "(bytes \<Rightarrow> bytes) \<Rightarrow> ClientID \<Rightarrow> ValidationInfoData option \<Rightarrow> Message \<Rightarrow> error + Message" where
  "validateMessageFromClient sha256 i vi m = (case Destination m of
       None \<Rightarrow> Inl (Err ''message must have Destination'')
     | Some dest \<Rightarrow>
         if ClientId dest \<noteq> None then Inl (Err ''cannot send a message directly to another client'')
         else (case Source m of
             None \<Rightarrow> Inl (Err ''message must have a source with a ServiceName'')
           | Some src \<Rightarrow>
               if ServiceName src = [] then Inl (Err ''message must have a source with a ServiceName'')
               else if SourceMessageId m = None then Inl (Err ''source message id cannot be empty'')
               else (let src = src\<lparr>ClientId := ClientID_Bytes i\<rparr> in
                 Inr (m\<lparr>Source := Some src, ValidationInfo := vi,
                        MessageId := MessageID_Bytes (MakeMessageID sha256 src (SourceMessageId m))\<rparr>))))"

definition valid_messages :: "(bytes \<Rightarrow> bytes) \<Rightarrow> ClientID \<Rightarrow> ValidationInfoData option \<Rightarrow> Message list \<Rightarrow> Message list" where
  "valid_messages sha256 i vi ms = List.map_filter (\<lambda>m. case validateMessageFromClient sha256 i vi m of
       Inl _ \<Rightarrow> None | Inr m \<Rightarrow> Some m) ms"

definition messages_by_service :: "Message list \<Rightarrow> (string, Message list) gomap" where
  "messages_by_service ms = fold (\<lambda>m g. gomap_upd (addr_service (Destination m))
     ((case map_of g (addr_service (Destination m)) of None \<Rightarrow> [] | Some l \<Rightarrow> l) @ [m]) g) ms []"

text \<open>The entries of a map in the order \<^verbatim>\<open>range\<close> visits its keys.\<close>

definition go_range :: "'a list \<Rightarrow> ('a, 'v) gomap \<Rightarrow> ('a \<times> 'v) list" where
  "go_range order m = List.map_filter (\<lambda>k. map_option (Pair k) (map_of m k)) order"

text \<open>The loop over the services: batches are processed, the other messages returned.\<close>

fun process_batches :: "'s Manager \<Rightarrow> (string \<times> Message list) list \<Rightarrow> ('s, Message list) action" where
  "process_batches c [] = aret []"
| "process_batches c ((service, ms) # g) =
     (if service = [] then process_batches c g
      else if ShouldProcessMessageBatches c service
      then abind (Manager_ProcessMessageBatch c service ms) (\<lambda>_. process_batches c g)
      else abind (process_batches c g) (\<lambda>us. aret (ms @ us)))"

text \<open>\<open>k\<close> counts the chunks handled so far.\<close>

function handle_chunks :: "env \<Rightarrow> codec \<Rightarrow> 's Manager \<Rightarrow> contact_inputs \<Rightarrow> string \<Rightarrow> nat \<Rightarrow> Message list \<Rightarrow> ('s, error option) action" where
  "handle_chunks e cd c inp contact k ms =
     (if length ms \<le> processingChunkSize then HandleNewMessages e cd c (in_sched inp k (length ms)) (in_ctx_err inp k) ms contact
      else abind (HandleNewMessages e cd c (in_sched inp k processingChunkSize) (in_ctx_err inp k) (take processingChunkSize ms) contact) (\<lambda>r.
        case r of Some x \<Rightarrow> aret (Some x)
        | None \<Rightarrow> handle_chunks e cd c inp contact (k + 1) (drop processingChunkSize ms)))"
  by pat_completeness auto
termination
  by (relation "measure (\<lambda>(e, cd, c, inp, contact, k, ms). length ms)") (auto simp: processingChunkSize_def)

declare handle_chunks.simps [simp del]

definition handleMessagesFromClient :: "env \<Rightarrow> ('k, 'c, 's) server_cfg \<Rightarrow> contact_inputs \<Rightarrow> ClientID \<Rightarrow> string \<Rightarrow>
    ContactData \<Rightarrow> ValidationInfoData option \<Rightarrow> ('s, error option) action" where
  "handleMessagesFromClient e cfg inp i contact received vi =
     (let msgs = valid_messages (sv_sha256 cfg) i vi (Messages received) in
      if msgs = [] then aret None
      else abind (process_batches (sv_services cfg) (go_range (in_range inp) (messages_by_service msgs))) (\<lambda>msgs.
        handle_chunks e (sv_codec cfg) (sv_services cfg) inp contact 0 (sort_key (\<lambda>m. raw (MessageId m)) msgs)))"

section \<open>Messages for a client\<close>

definition isSpecialMessageToAck :: "Message \<Rightarrow> bool" where
  "isSpecialMessageToAck m \<longleftrightarrow> MessageType m = ''Die'' \<and> Destination m \<noteq> None \<and> addr_service (Destination m) = ''system''"

definition count_messages :: "Message list \<Rightarrow> error + (string, u64) gomap" where
  "count_messages ms = foldE (\<lambda>m cnts. if isSpecialMessageToAck m then Inr cnts
     else case Destination m of
         None \<Rightarrow> Inl (Fatal ''nil pointer dereference'')
       | Some dest \<Rightarrow> Inr (gomap_upd (ServiceName dest) (gomap_get0 cnts (ServiceName dest) + 1) cnts)) ms []"

definition MakeBlacklistMessage :: "env \<Rightarrow> codec \<Rightarrow> error + bytes \<Rightarrow> ClientID \<Rightarrow> string \<Rightarrow> ('s, error + Message) action" where
  "MakeBlacklistMessage e cd rnd i contact = (case RandomMessageID rnd of
       Inl _ \<Rightarrow> aret (Inl (Err ''unable to create message id''))
     | Inr mid \<Rightarrow>
        (let msg = empty_Message\<lparr>MessageId := MessageID_Bytes mid, Source := Some \<lparr>ClientId = None, ServiceName = ''system''\<rparr>,
               Destination := Some \<lparr>ClientId = ClientID_Bytes i, ServiceName = ''system''\<rparr>,
               MessageType := ''RekeyRequest'', CreationTime := Some (NowProto e)\<rparr>
         in abind (db_call (StoreMessages e cd [msg] contact)) (\<lambda>r. aret (case r of
              Inl _ \<Rightarrow> Inl (Err ''unable to store RekeyRequest'')
            | Inr _ \<Rightarrow> Inr msg))))"

text \<open>The waiting messages and the tokens they use.\<close>

definition claim_messages :: "env \<Rightarrow> codec \<Rightarrow> 'k ConnectionInfo \<Rightarrow> ('s, error + Message list \<times> 'k ConnectionInfo) action" where
  "claim_messages e cd info =
     (let tokens = MessageTokens info in
      atry (db_call (ClientMessagesForProcessing e cd (cl_ID (Client info)) 100 tokens)) (\<lambda>msgs.
        if tokens = None then aret (Inr (msgs, info))
        else (\<lambda>w. ebind (count_messages msgs) (\<lambda>cnts.
          ebind (SubtractMessageTokens cnts info) (\<lambda>info. Inr (Inr (msgs, info), w))))))"

definition broadcast_messages :: "env \<Rightarrow> codec \<Rightarrow> (error + bytes) list \<Rightarrow> 'k ClientInfo \<Rightarrow> ('s server, error + Message list) gofn" where
  "broadcast_messages e cd rnds cl s =
     (if cl_Cached cl then Inr (Inr [], s)
      else ebind (MakeBroadcastMessagesForClient e cd rnds (cl_ID cl) (cl_Labels cl) (sv_broadcasts s, w_db (sv_world s))) (\<lambda>(r, m, d).
        Inr (r, s\<lparr>sv_broadcasts := m, sv_world := (sv_world s)\<lparr>w_db := d\<rparr>\<rparr>)))"

fun ack_specials :: "env \<Rightarrow> ClientID \<Rightarrow> MessageID list \<Rightarrow> ('s, error + unit) action" where
  "ack_specials e i [] = aret (Inr ())"
| "ack_specials e i (mid # mids) = atry (db_call (SetMessageResult e i mid (success_result e))) (\<lambda>_. ack_specials e i mids)"

text \<open>The rest of \<^verbatim>\<open>findMessagesForClient\<close>: linking the messages to the contact.\<close>

definition link_messages :: "env \<Rightarrow> 'k ConnectionInfo \<Rightarrow> Message list \<Rightarrow> ('s, error + Message list) action" where
  "link_messages e info msgs =
     (if msgs = [] then aret (Inr msgs)
      else case mapE (\<lambda>m. BytesToMessageID (MessageId m)) msgs of
          Inl x \<Rightarrow> aret (Inl x)
        | Inr mids \<Rightarrow>
            atry (db_call (LinkMessagesToContact e (ContactID info) mids)) (\<lambda>_.
            atry (ack_specials e (cl_ID (Client info)) (map snd (filter (\<lambda>(m, _). isSpecialMessageToAck m) (zip msgs mids)))) (\<lambda>_.
              aret (Inr msgs))))"

definition findMessagesForClient :: "env \<Rightarrow> ('k, 'c, 's) server_cfg \<Rightarrow> contact_inputs \<Rightarrow> 'k ConnectionInfo \<Rightarrow>
    ('s server, (error + Message list) \<times> 'k ConnectionInfo) gofn" where
  "findMessagesForClient e cfg inp info =
     (if cl_Blacklisted (Client info)
      then abind (on_world (MakeBlacklistMessage e (sv_codec cfg) (in_rekey inp) (cl_ID (Client info)) (ContactID info))) (\<lambda>r.
        aret (map_sum (\<lambda>x. x) (\<lambda>m. [m]) r, info))
      else abind (on_world (claim_messages e (sv_codec cfg) info)) (\<lambda>r. case r of
          Inl x \<Rightarrow> aret (Inl x, info)
        | Inr (msgs, info) \<Rightarrow>
            abind (broadcast_messages e (sv_codec cfg) (in_broadcast_ids inp) (Client info)) (\<lambda>r. case r of
                Inl x \<Rightarrow> aret (Inl x, info)
              | Inr bms \<Rightarrow> abind (on_world (link_messages e info (msgs @ bms))) (\<lambda>r. aret (r, info)))))"

definition GetMessagesForClient :: "env \<Rightarrow> ('k, 'c, 's) server_cfg \<Rightarrow> contact_inputs \<Rightarrow> 'k ConnectionInfo \<Rightarrow>
    ('s server, (error + ContactData option \<times> bool) \<times> 'k ConnectionInfo) gofn" where
  "GetMessagesForClient e cfg inp info =
     abind (findMessagesForClient e cfg inp info) (\<lambda>(r, info). aret (case r of
         Inl x \<Rightarrow> (Inl x, info)
       | Inr msgs \<Rightarrow> if msgs = [] then (Inr (None, False), info)
           else (Inr (Some \<lparr>SequencingNonce = NonceSent info, Messages = msgs, ClientClock = None, AllowedMessages = []\<rparr>,
                      length msgs = maxMessagesPerContact), info)))"

section \<open>Contacts\<close>

text \<open>\<open>None\<close> is the nil pointer \<^verbatim>\<open>getClientInfo\<close> returns for an unknown client.\<close>

definition getClientInfo :: "env \<Rightarrow> ('k, 'c, 's) server_cfg \<Rightarrow> ClientID \<Rightarrow> ('s, error + 'k ClientInfo option) action" where
  "getClientInfo e cfg i = abind (get_or_read e i) (\<lambda>r. aret (case r of
       Inl x \<Rightarrow> if IsNotFound x then Inr None else Inl x
     | Inr (cld, cacheHit) \<Rightarrow> (case sv_ParsePKIX cfg (cd_Key cld) of
           Inl x \<Rightarrow> Inl x
         | Inr k \<Rightarrow> Inr (Some \<lparr>cl_ID = i, cl_Key = Some k, cl_Labels = cd_Labels cld,
               cl_Blacklisted = cd_Blacklisted cld, cl_Cached = cacheHit\<rparr>))))"

definition comms_addClient :: "env \<Rightarrow> ('k, 'c, 's) server_cfg \<Rightarrow> ClientID \<Rightarrow> 'k \<Rightarrow> ('s, error + unit) action" where
  "comms_addClient e cfg i key = (case sv_MarshalPKIX cfg key of
       Inl x \<Rightarrow> aret (Inl x)
     | Inr k \<Rightarrow> db_call (AddClient e i \<lparr>cd_Key = k, cd_Labels = [], cd_Blacklisted = False\<rparr>))"

definition contact_info :: "ClientID \<Rightarrow> WrappedContactData \<Rightarrow> ContactInfo" where
  "contact_info i wcd = \<lparr>ci_ID = i, ci_ContactSize = length (wcd_ContactData wcd),
     ci_ClientLabels = wcd_ClientLabels wcd, ci_Type = ClientContact\<rparr>"

definition zero_ClientInfo :: "'k ClientInfo" where
  "zero_ClientInfo = \<lparr>cl_ID = ClientID [], cl_Key = None, cl_Labels = [], cl_Blacklisted = False, cl_Cached = False\<rparr>"

definition new_connection :: "string \<Rightarrow> 'k ClientInfo option \<Rightarrow> 'k ConnectionInfo" where
  "new_connection addr ci = \<lparr>Addr = addr, Client = (case ci of None \<Rightarrow> zero_ClientInfo | Some c \<Rightarrow> c), ContactID = [],
     NonceSent = 0, NonceReceived = 0,
     con_Auth = (case ci of None \<Rightarrow> \<lparr>ac_New = True, ac_Labels = []\<rparr> | Some c \<Rightarrow> \<lparr>ac_New = False, ac_Labels = cl_Labels c\<rparr>),
     messageTokens = None, Notices = None\<rparr>"

text \<open>The branch for a client that is not yet in the datastore; errors of the labels are ignored.\<close>

definition client_label :: "string \<Rightarrow> Label" where
  "client_label l = \<lparr>lbl_service = ''client'', lbl_label = l\<rparr>"

definition register_client :: "env \<Rightarrow> ('k, 'c, 's) server_cfg \<Rightarrow> ClientID \<Rightarrow> 'k \<Rightarrow> string list \<Rightarrow> 'k ConnectionInfo \<Rightarrow>
    ('s, error + 'k ConnectionInfo) action" where
  "register_client e cfg i key labels res =
     atry (comms_addClient e cfg i key) (\<lambda>_.
       abind (aloop (\<lambda>l. abind (db_call (AddClientLabel i (client_label l))) (\<lambda>_. aret ())) labels) (\<lambda>_.
         aret (Inr (res\<lparr>Client := (Client res)\<lparr>cl_ID := i, cl_Key := Some key, cl_Labels := map client_label labels\<rparr>,
           con_Auth := (con_Auth res)\<lparr>ac_Labels := map client_label labels\<rparr>\<rparr>))))"

text \<open>A panic of the signature check ends the process.\<close>

definition check_signatures :: "('k, 'c, 's) server_cfg \<Rightarrow> WrappedContactData \<Rightarrow> ('w, error + 'c SignatureInfo list) gofn" where
  "check_signatures cfg wcd w = (case ValidateWrappedContactData (sv_x509 cfg) wcd of
       Inl (Fatal x) \<Rightarrow> Inl (Fatal x)
     | r \<Rightarrow> Inr (r, w))"

definition read_contact_data :: "('k, 'c, 's) server_cfg \<Rightarrow> WrappedContactData \<Rightarrow> ('w, error + ContactData) gofn" where
  "read_contact_data cfg wcd = aret (case sv_unmarshal_ContactData cfg (wcd_ContactData wcd) of
       Inl _ \<Rightarrow> Inl (Err ''unable to parse contact_data'')
     | Inr cd \<Rightarrow> if length (Messages cd) > maxMessagesPerContact then Inl (Err ''contact_data contains too many messages'')
         else Inr cd)"

text \<open>Up to the decision of the authorizer: the client, its connection and the validation info.\<close>

definition authorize_contact :: "env \<Rightarrow> ('k, 'c, 's) server_cfg \<Rightarrow> string \<Rightarrow> ClientID \<Rightarrow> 'k \<Rightarrow> WrappedContactData \<Rightarrow>
    ('s, error + 'k ConnectionInfo \<times> ValidationInfoData option) action" where
  "authorize_contact e cfg addr i key wcd =
     (if \<not> Allow2 (sv_authorizer cfg) addr (contact_info i wcd) then aret (Inl ErrNotAuthorized)
      else atry (getClientInfo e cfg i) (\<lambda>ci.
        (let res = new_connection addr ci in
         if \<not> Allow3 (sv_authorizer cfg) addr (contact_info i wcd) (con_Auth res) then aret (Inl ErrNotAuthorized)
         else atry (case ci of None \<Rightarrow> register_client e cfg i key (wcd_ClientLabels wcd) res | Some _ \<Rightarrow> aret (Inr res)) (\<lambda>res.
           atry (check_signatures cfg wcd) (\<lambda>sigs.
             (case Allow4 (sv_authorizer cfg) addr (contact_info i wcd) (con_Auth res) sigs of
                (accept, vi) \<Rightarrow> if \<not> accept then aret (Inl ErrNotAuthorized) else aret (Inr (res, vi))))))))"

definition record_contact :: "env \<Rightarrow> ('k, 'c, 's) server_cfg \<Rightarrow> contact_inputs \<Rightarrow> string \<Rightarrow> ClientID \<Rightarrow> bool \<Rightarrow> ContactData \<Rightarrow>
    'k ConnectionInfo \<Rightarrow> ('s, error + 'k ConnectionInfo) action" where
  "record_contact e cfg inp addr i streaming cd res =
     abind (randUint64 (in_nonce inp)) (\<lambda>nonce.
       (let res = res\<lparr>NonceReceived := SequencingNonce cd, NonceSent := nonce\<rparr>;
            res = (if length (AllowedMessages cd) > 0 then AddMessageTokens (AllowedMessages cd) res else res)
        in atry (db_call (RecordClientContact e \<lparr>con_ClientID = i, con_NonceSent = nonce, con_NonceReceived = SequencingNonce cd,
                  con_Addr = addr, con_ClientClock = ClientClock cd,
                  con_StreamingTo = (if streaming then sv_listener cfg else []), con_Labels = cl_Labels (Client res)\<rparr>)) (\<lambda>contact.
             aret (Inr (res\<lparr>ContactID := contact\<rparr>)))))"

definition comms_Register :: "ClientID \<Rightarrow> 'k ConnectionInfo \<Rightarrow> ('s server, 'k ConnectionInfo) gofn" where
  "comms_Register i res s = ebind (Register i (sv_dispatcher s)) (\<lambda>(ch, d).
     Inr (res\<lparr>Notices := Some ch\<rparr>, s\<lparr>sv_dispatcher := d\<rparr>))"

definition comms_Fin :: "'k ConnectionInfo \<Rightarrow> ('s server, unit) gofn" where
  "comms_Fin res s = (case Notices res of
       None \<Rightarrow> Inr ((), s)
     | Some ch \<Rightarrow> ebind (Register_fin (cl_ID (Client res)) ch (sv_dispatcher s)) (\<lambda>d. Inr ((), s\<lparr>sv_dispatcher := d\<rparr>)))"

definition InitializeConnection :: "env \<Rightarrow> ('k, 'c, 's) server_cfg \<Rightarrow> contact_inputs \<Rightarrow> string \<Rightarrow> 'k \<Rightarrow> WrappedContactData \<Rightarrow> bool \<Rightarrow>
    ('s server, error + 'k ConnectionInfo \<times> ContactData \<times> bool) gofn" where
  "InitializeConnection e cfg inp addr key wcd streaming =
     (case MakeClientID (sv_MarshalPKIX cfg) (sv_sha256 cfg) key of
        Inl x \<Rightarrow> aret (Inl x)
      | Inr i \<Rightarrow>
         atry (on_world (authorize_contact e cfg addr i key wcd)) (\<lambda>(res, vi).
         atry (read_contact_data cfg wcd) (\<lambda>cd.
         atry (on_world (record_contact e cfg inp addr i streaming cd res)) (\<lambda>res.
         abind (on_world (handleMessagesFromClient e cfg inp (cl_ID (Client res)) (ContactID res) cd vi)) (\<lambda>r.
         case r of Some x \<Rightarrow> aret (Inl x)
         | None \<Rightarrow> abind (if streaming then comms_Register i res else aret res) (\<lambda>res.
           abind (findMessagesForClient e cfg inp res) (\<lambda>(r, res). case r of
               Inl x \<Rightarrow> abind (comms_Fin res) (\<lambda>_. aret (Inl x))
             | Inr msgs \<Rightarrow> aret (Inr (res\<lparr>con_Auth := (con_Auth res)\<lparr>ac_New := False\<rparr>\<rparr>,
                 \<lparr>SequencingNonce = NonceSent res, Messages = msgs, ClientClock = None, AllowedMessages = []\<rparr>,
                 length msgs = maxMessagesPerContact)))))))))"

definition ValidateMessagesFromClient :: "('k, 'c, 's) server_cfg \<Rightarrow> 'k ConnectionInfo \<Rightarrow> WrappedContactData \<Rightarrow>
    ('w, error + ValidationInfoData option) gofn" where
  "ValidateMessagesFromClient cfg info wcd =
     atry (check_signatures cfg wcd) (\<lambda>sigs.
       (case Allow4 (sv_authorizer cfg) (Addr info) (contact_info (cl_ID (Client info)) wcd) (con_Auth info) sigs of
          (accept, vi) \<Rightarrow> aret (if accept then Inr vi else Inl ErrNotAuthorized)))"

definition HandleMessagesFromClient :: "env \<Rightarrow> ('k, 'c, 's) server_cfg \<Rightarrow> contact_inputs \<Rightarrow> 'k ConnectionInfo \<Rightarrow> WrappedContactData \<Rightarrow>
    ('s, error option \<times> 'k ConnectionInfo) action" where
  "HandleMessagesFromClient e cfg inp info wcd =
     abind (ValidateMessagesFromClient cfg info wcd) (\<lambda>r. case r of
         Inl x \<Rightarrow> aret (Some x, info)
       | Inr vi \<Rightarrow> abind (read_contact_data cfg wcd) (\<lambda>r. case r of
           Inl x \<Rightarrow> aret (Some x, info)
         | Inr cd \<Rightarrow>
             (let info = AddMessageTokens (AllowedMessages cd) info in
              abind (handleMessagesFromClient e cfg inp (cl_ID (Client info)) (ContactID info) cd vi) (\<lambda>r. aret (r, info)))))"

definition comms_ReadFile :: "env \<Rightarrow> ('k, 'c, 's) server_cfg \<Rightarrow> string \<Rightarrow> string \<Rightarrow> ('s, error + bytes \<times> gotime) action" where
  "comms_ReadFile e cfg service name = (case map_of (sv_fileStores cfg) service of
       Some f \<Rightarrow> f service name
     | None \<Rightarrow> db_call (ReadFile e service name))"

section \<open>What becomes of the messages of a contact\<close>

text \<open>Whatever the goroutines of a chunk do, each runs once.\<close>

definition schedules_ok :: "contact_inputs \<Rightarrow> bool" where
  "schedules_ok inp \<longleftrightarrow> (\<forall>k n. gosched_ok (in_sched inp k n) n)"

lemma on_world_eq_Inr:
  "on_world f s = Inr (a, s') \<longleftrightarrow> (\<exists>w. f (sv_world s) = Inr (a, w) \<and> s' = s\<lparr>sv_world := w\<rparr>)"
  by (auto simp: on_world_def)

text \<open>The id a message of client \<open>i\<close> gets.\<close>

definition stamped :: "(bytes \<Rightarrow> bytes) \<Rightarrow> ClientID \<Rightarrow> ValidationInfoData option \<Rightarrow> Message \<Rightarrow> bool" where
  "stamped sha256 i vi m \<longleftrightarrow> (\<exists>src. Source m = Some src \<and> ClientId src = ClientID_Bytes i \<and> ServiceName src \<noteq> []
     \<and> MessageId m = MessageID_Bytes (MakeMessageID sha256 src (SourceMessageId m)))
     \<and> ValidationInfo m = vi \<and> (\<exists>dest. Destination m = Some dest \<and> ClientId dest = None)"

lemma validateMessageFromClient_okD:
  "validateMessageFromClient sha256 i vi m = Inr m' \<Longrightarrow> stamped sha256 i vi m'
     \<and> Destination m' = Destination m \<and> MessageType m' = MessageType m \<and> Data m' = Data m \<and> Result m' = Result m
     \<and> SourceMessageId m' = SourceMessageId m \<and> addr_service (Source m') = addr_service (Source m)"
  by (auto simp: validateMessageFromClient_def stamped_def Let_def split: option.splits if_splits)

lemma valid_messages_mem:
  "m' \<in> set (valid_messages sha256 i vi ms) \<longleftrightarrow> (\<exists>m \<in> set ms. validateMessageFromClient sha256 i vi m = Inr m')"
  by (induction ms) (auto simp: valid_messages_def map_filter_def split: sum.splits)

lemma message_key_Bytes: "MessageId m = MessageID_Bytes x \<Longrightarrow> message_key m = MessageID_String x"
  by (auto simp: message_key_def MessageID_Bytes_def MessageID_String_def MessageID_IsNil_def)

text \<open>The rows that messages of client \<open>i\<close> may occupy.\<close>

definition own_rows :: "(bytes \<Rightarrow> bytes) \<Rightarrow> ClientID \<Rightarrow> (string \<times> string) set" where
  "own_rows sha256 i = {(MessageID_String (MakeMessageID sha256 src smid), ClientID_String i) | src smid. ClientId src = ClientID_Bytes i}"

lemma toClientIDString_Bytes: "toClientIDString (ClientID_Bytes i) = Inr s \<Longrightarrow> s = [] \<or> s = ClientID_String i"
  by (cases i) (auto simp: toClientIDString_def ClientID_Bytes_def BytesToClientID_def split: if_splits sum.splits)

lemma stamped_source_in:
  assumes "stamped sha256 i vi m" and "MessageId m' = MessageId m" and "Source m' = Source m"
  shows "source_in cd (own_rows sha256 i) m'"
  unfolding source_in_def
proof (intro allI impI)
  fix dbm
  assume dbm: "fromMessageProto cd m' = Inr dbm"
  from assms obtain src where src: "Source m' = Some src" "ClientId src = ClientID_Bytes i"
    "MessageId m' = MessageID_Bytes (MakeMessageID sha256 src (SourceMessageId m))" by (auto simp: stamped_def)
  have "messageID dbm = MessageID_String (MakeMessageID sha256 src (SourceMessageId m))"
    using fromMessageProto_result_columns(1) [OF dbm] message_key_Bytes [OF src(3)] by simp
  moreover have "toClientIDString (ClientID_Bytes i) = Inr (sourceClientID dbm)"
    using dbm src(1,2) by (auto simp: fromMessageProto_def address_columns_def empty_dbMessage_def)
  ultimately show "sourceClientID dbm = [] \<or> row_source dbm \<in> own_rows sha256 i"
    using toClientIDString_Bytes src(2) by (fastforce simp: row_source_def own_rows_def)
qed

subsection \<open>Grouping by service\<close>

lemma map_of_messages_by_service:
  "map_of (messages_by_service ms) s =
     (let l = filter (\<lambda>m. addr_service (Destination m) = s) ms in if l = [] then None else Some l)"
proof -
  have "map_of (fold (\<lambda>m g. gomap_upd (addr_service (Destination m))
     ((case map_of g (addr_service (Destination m)) of None \<Rightarrow> [] | Some l \<Rightarrow> l) @ [m]) g) ms g) s =
     (let l = filter (\<lambda>m. addr_service (Destination m) = s) ms in
      if l = [] then map_of g s else Some ((case map_of g s of None \<Rightarrow> [] | Some l \<Rightarrow> l) @ l))" for g
    by (induction ms arbitrary: g) (auto simp: Let_def split: option.splits)
  from this [of "[]"] show ?thesis by (simp add: messages_by_service_def Let_def)
qed

lemma go_range_mem: "(k, v) \<in> set (go_range order m) \<longleftrightarrow> k \<in> set order \<and> map_of m k = Some v"
  by (induction order) (auto simp: go_range_def map_filter_def split: option.splits)

definition unbatched :: "'s Manager \<Rightarrow> (string \<times> Message list) list \<Rightarrow> Message list" where
  "unbatched c g = concat (map snd (filter (\<lambda>(s, _). s \<noteq> [] \<and> \<not> ShouldProcessMessageBatches c s) g))"

lemma process_batches_result: "process_batches c g w = Inr (us, w') \<Longrightarrow> us = unbatched c g"
  by (induction c g arbitrary: w us rule: process_batches.induct) (auto simp: unbatched_def split: if_splits)

lemma unbatched_mem:
  assumes "set (in_range inp) \<supseteq> (\<lambda>m. addr_service (Destination m)) ` set ms"
  shows "m \<in> set (unbatched c (go_range (in_range inp) (messages_by_service ms))) \<longleftrightarrow>
    m \<in> set ms \<and> addr_service (Destination m) \<noteq> [] \<and> \<not> ShouldProcessMessageBatches c (addr_service (Destination m))"
proof -
  have "m \<in> set (unbatched c (go_range (in_range inp) (messages_by_service ms))) \<longleftrightarrow>
    (\<exists>s l. (s, l) \<in> set (go_range (in_range inp) (messages_by_service ms)) \<and> s \<noteq> [] \<and> \<not> ShouldProcessMessageBatches c s \<and> m \<in> set l)"
    by (force simp: unbatched_def)
  also have "\<dots> \<longleftrightarrow> m \<in> set ms \<and> addr_service (Destination m) \<noteq> [] \<and> \<not> ShouldProcessMessageBatches c (addr_service (Destination m))"
    using assms by (auto simp: go_range_mem map_of_messages_by_service Let_def filter_empty_conv split: if_splits)
  finally show ?thesis .
qed

subsection \<open>Chunks\<close>

lemma handle_chunks_cases:
  assumes "handle_chunks e cd c inp contact k ms w = Inr (r, w')"
  obtains (final) "length ms \<le> processingChunkSize"
      "HandleNewMessages e cd c (in_sched inp k (length ms)) (in_ctx_err inp k) ms contact w = Inr (r, w')"
  | (failed) x where "r = Some x"
      "HandleNewMessages e cd c (in_sched inp k (length (take processingChunkSize ms))) (in_ctx_err inp k)
         (take processingChunkSize ms) contact w = Inr (r, w')"
  | (more) w1 where "length (drop processingChunkSize ms) < length ms"
      "HandleNewMessages e cd c (in_sched inp k (length (take processingChunkSize ms))) (in_ctx_err inp k)
         (take processingChunkSize ms) contact w = Inr (None, w1)"
      "handle_chunks e cd c inp contact (k + 1) (drop processingChunkSize ms) w1 = Inr (r, w')"
proof (cases "length ms \<le> processingChunkSize")
  case True
  then show thesis using assms handle_chunks.simps [of e cd c inp contact k ms] by (intro final) simp_all
next
  case False
  then have len: "length (take processingChunkSize ms) = processingChunkSize" "length (drop processingChunkSize ms) < length ms"
    by (simp_all add: processingChunkSize_def)
  from False assms obtain r1 w1 where
    run: "HandleNewMessages e cd c (in_sched inp k processingChunkSize) (in_ctx_err inp k) (take processingChunkSize ms) contact w = Inr (r1, w1)"
    and rest: "(case r1 of Some x \<Rightarrow> aret (Some x)
        | None \<Rightarrow> handle_chunks e cd c inp contact (k + 1) (drop processingChunkSize ms)) w1 = Inr (r, w')"
    by (simp only: handle_chunks.simps [of e cd c inp contact k ms] if_False abind_eq_Inr) blast
  show thesis
  proof (cases r1)
    case None
    with run rest len show thesis by (intro more [of w1]) simp_all
  next
    case (Some x)
    with run rest len show thesis by (intro failed [of x]) simp_all
  qed
qed

context service_contract
begin

lemma keeps_process_batches: "keeps R (process_batches c g)"
proof (induction g)
  case (Cons sl g)
  then show ?case by (cases sl) (auto intro!: keeps_intros keeps_ProcessMessageBatch)
qed (simp add: keeps_aret)

lemma handle_chunks_rel:
  assumes "handle_chunks e cd c inp contact k ms w = Inr (r, w')" and "schedules_ok inp"
    and "\<And>xs ys d. set xs \<subseteq> set ms \<Longrightarrow> list_all2 (handled e c) xs ys \<Longrightarrow> R d (snd (StoreMessages e cd ys contact d))"
  shows "R (w_db w) (w_db w')"
  using assms(1,3)
proof (induction "length ms" arbitrary: k ms w rule: less_induct)
  case less
  have sched: "gosched_ok (in_sched inp k n) n" for n using assms(2) by (simp add: schedules_ok_def)
  from less.prems(1) show ?case
  proof (cases rule: handle_chunks_cases)
    case final
    show ?thesis by (rule HandleNewMessages_rel [OF final(2) sched]) (rule less.prems(2) [OF subset_refl])
  next
    case (failed x)
    show ?thesis by (rule HandleNewMessages_rel [OF failed(2) sched]) (rule less.prems(2) [OF set_take_subset])
  next
    case (more w1)
    have "R (w_db w) (w_db w1)"
      by (rule HandleNewMessages_rel [OF more(2) sched]) (rule less.prems(2) [OF set_take_subset])
    moreover have "R (w_db w1) (w_db w')"
      by (rule less.hyps [OF more(1,3)]) (rule less.prems(2) [OF order_trans [OF _ set_drop_subset]])
    ultimately show ?thesis by (rule R_trans)
  qed
qed

end

subsection \<open>What is stored\<close>

lemma storeOne_id:
  assumes "storeOne e cd m (acc, d) = Inr (acc', d')"
  shows "message_key m \<in> message_ids d'" "message_ids d \<subseteq> message_ids d'"
proof -
  show "message_ids d \<subseteq> message_ids d'"
    using source_rows.kept_storeOne [OF assms, of UNIV UNIV] by (simp add: rows_kept_def storable_def)
  obtain dbm where dbm: "fromMessageProto cd m = Inr dbm" using assms by (auto simp: storeOne_def)
  then have key: "messageID dbm = message_key m" using fromMessageProto_result_columns(1) [OF dbm] by simp
  have store: "message_key m \<in> message_ids d1" if "tryStoreMessage e dbm2 False d = Inr (u, d1)" "messageID dbm2 = message_key m" for dbm2 d1 u
    using that by (auto simp: tryStoreMessage_def sql_insert_or_ignore_eq_Inr message_ids_def row_source_def message_columns_def image_image
        Let_def split: if_splits)
  have set: "message_key m \<in> message_ids d2" if "trySetMessageResult mid r d1 = Inr (u, d2)" "message_key m \<in> message_ids d1" for mid r d1 d2 u
    using source_rows.kept_trySetMessageResult [OF that(1), of UNIV UNIV] that(2) by (auto simp: rows_kept_def)
  have row: "message_key m \<in> message_ids d" if "sql_row (\<lambda>x. messageID x = message_key m) (t_messages d) = Inr x" for x d
    using that by (auto simp: sql_row_eq_Inr message_ids_def row_source_def image_image dest!: find_SomeD intro!: image_eqI [of _ messageID x])
  show "message_key m \<in> message_ids d'" using assms key
    by (auto simp: storeOne_def dbm Let_def split: option.splits if_splits sum.splits intro: set dest: store row)
qed

lemma StoreMessages_ids:
  assumes "StoreMessages e cd ms contact d = (Inr u, d')"
  shows "message_key ` set ms \<subseteq> message_ids d'"
proof -
  obtain ids d1 where 1: "foldE (storeOne e cd) ms ([], d) = Inr (ids, d1)"
    "contact = [] \<Longrightarrow> d' = d1" "contact \<noteq> [] \<Longrightarrow> \<exists>c. ParseUint16 contact = Inr c \<and> foldE (linkIgnore c) ids d1 = Inr d'"
    using StoreMessages_okE [OF assms] by blast
  have "message_key ` set ms \<subseteq> message_ids d1 \<and> message_ids d \<subseteq> message_ids d1"
    if "foldE (storeOne e cd) ms (acc, d) = Inr (ids, d1)" for acc d
    using that
  proof (induction ms arbitrary: acc d)
    case (Cons m ms)
    then obtain acc' d2 where "storeOne e cd m (acc, d) = Inr (acc', d2)" "foldE (storeOne e cd) ms (acc', d2) = Inr (ids, d1)" by auto
    with Cons.IH [OF this(2)] storeOne_id [OF this(1)] show ?case by auto
  qed simp
  moreover have "t_messages d' = t_messages d1"
  proof (cases "contact = []")
    case False
    with 1(3) obtain c where "foldE (linkIgnore c) ids d1 = Inr d'" by blast
    then show ?thesis by (rule foldE_invariant [where P = "\<lambda>x. t_messages x = t_messages d1"]) (auto simp: linkIgnore_def)
  qed (simp add: 1(2))
  ultimately show ?thesis using 1(1) by (auto simp: message_ids_def)
qed

lemma handled_key: "handled e c m m' \<Longrightarrow> message_key m' = message_key m"
  by (simp add: handled_def message_key_def)

lemma HandleNewMessages_ids:
  assumes "HandleNewMessages e cd c g ctx_err ms contact w = Inr (None, w')" and "gosched_ok g (length ms)"
  shows "message_key ` set ms \<subseteq> message_ids (w_db w')"
proof -
  have "\<not> list_ex bad_destination ms" using assms(1) by (intro notI) (simp add: HandleNewMessages_def)
  with assms(1) obtain ms' w1 where run: "run_goroutines (\<lambda>i. process_new e c (gs_running g i)) (gs_order g)
       (map (\<lambda>m. m\<lparr>CreationTime := Some (NowProto e)\<rparr>) ms) w = Inr (ms', w1)"
    and rest: "(case ctx_err of Some x \<Rightarrow> aret (Some x)
        | None \<Rightarrow> abind (aloop (record_saved e) ms') (\<lambda>_.
            abind (db_call (StoreMessages e cd ms' contact)) (\<lambda>r. aret (case r of Inl x \<Rightarrow> Some x | Inr _ \<Rightarrow> None)))) w1 = Inr (None, w')"
    by (auto simp: HandleNewMessages_def)
  from rest have "ctx_err = None" by (cases ctx_err) auto
  with rest obtain r w2 where store: "db_call (StoreMessages e cd ms' contact) w2 = Inr (r, w')"
    and r: "(case r of Inl x \<Rightarrow> Some x | Inr _ \<Rightarrow> None) = None" by auto
  then have "StoreMessages e cd ms' contact (w_db w2) = (Inr (), w_db w')"
    by (auto simp: db_call_eq_Inr split: sum.splits)
  from StoreMessages_ids [OF this] have "message_key ` set ms' \<subseteq> message_ids (w_db w')" .
  moreover have "message_key ` set ms' = message_key ` set ms"
    using run_goroutines_handled [OF run assms(2)] by (induction rule: list_all2_induct) (auto simp: handled_key)
  ultimately show ?thesis by simp
qed

lemma handle_chunks_ids:
  assumes "handle_chunks e cd c inp contact k ms w = Inr (None, w')" and sched: "schedules_ok inp"
    and contract: "service_contract (rows_kept row_columns UNIV UNIV) c"
  shows "message_key ` set ms \<subseteq> message_ids (w_db w')"
  using assms(1)
proof (induction "length ms" arbitrary: k ms w rule: less_induct)
  case less
  have sched': "gosched_ok (in_sched inp k n) n" for n k using sched by (simp add: schedules_ok_def)
  from less.prems(1) show ?case
  proof (cases rule: handle_chunks_cases)
    case final
    show ?thesis by (rule HandleNewMessages_ids [OF final(2) sched'])
  next
    case (more w1)
    let ?xs = "take processingChunkSize ms" and ?ys = "drop processingChunkSize ms"
    have "rows_kept row_columns UNIV UNIV (w_db w1) (w_db w')"
      by (rule service_contract.handle_chunks_rel [OF contract more(3) sched], rule column_rows.kept_StoreMessages)
        (auto simp: list_all_iff storable_def)
    moreover have "message_key ` set ?xs \<subseteq> message_ids (w_db w1)" by (rule HandleNewMessages_ids [OF more(2) sched'])
    moreover have "message_key ` set ?ys \<subseteq> message_ids (w_db w')" by (rule less.hyps [OF more(1,3)])
    moreover have "set ms = set ?xs \<union> set ?ys" by (metis append_take_drop_id set_append)
    ultimately show ?thesis by (auto simp: rows_kept_def)
  qed simp
qed

text \<open>A message that was processed is stored as it came, but for its data, if the service or a result took them away.\<close>

lemma fromMessageProto_parts:
  assumes "fromMessageProto cd m = Inr dbm"
  obtains i sc ss dc ds vi an where "BytesToMessageID (MessageId m) = Inr i" "address_columns (Source m) = Inr (sc, ss)"
    "address_columns (Destination m) = Inr (dc, ds)"
    "(case ValidationInfo m of None \<Rightarrow> Inr [] | Some v \<Rightarrow> marshal_ValidationInfo cd v) = Inr vi"
    "(case Annotations m of None \<Rightarrow> Inr [] | Some a \<Rightarrow> marshal_Annotations cd a) = Inr an"
    "row_columns dbm = (MessageID_String i, sc, ss, EncodeToString (raw (SourceMessageId m)), dc, ds, MessageType m, vi, an)"
  using assms by (auto simp: fromMessageProto_def row_columns_def)

lemma fromMessageProto_handled:
  assumes "handled e c m m'" and "fromMessageProto cd m' = Inr dbm'"
  shows "\<exists>dbm. fromMessageProto cd m = Inr dbm \<and> row_columns dbm' = row_columns dbm \<and> messageID dbm' = message_key m
    \<and> (messageID dbm', dataTypeURL dbm', dataValue dbm') \<in> {(message_key m, dataTypeURL dbm, dataValue dbm), (message_key m, None, [])}"
proof -
  have key: "messageID dbm' = message_key m"
    using fromMessageProto_result_columns(1) [OF assms(2)] handled_key [OF assms(1)] by simp
  have "\<exists>dbm. fromMessageProto cd m = Inr dbm \<and> row_columns dbm' = row_columns dbm
      \<and> dataTypeURL dbm = map_option TypeUrl (Data m) \<and> dataValue dbm = (case Data m of None \<Rightarrow> [] | Some a \<Rightarrow> Value a)"
    using assms by (elim fromMessageProto_parts) (simp add: handled_def fromMessageProto_def row_columns_def)
  then obtain dbm where "fromMessageProto cd m = Inr dbm" "row_columns dbm' = row_columns dbm"
    "dataTypeURL dbm = map_option TypeUrl (Data m)" "dataValue dbm = (case Data m of None \<Rightarrow> [] | Some a \<Rightarrow> Value a)" by blast
  moreover have "dataTypeURL dbm' = map_option TypeUrl (Data m')" "dataValue dbm' = (case Data m' of None \<Rightarrow> [] | Some a \<Rightarrow> Value a)"
    using assms(2) by (auto simp: fromMessageProto_def)
  moreover have "Data m' = Data m \<or> Data m' = None" using assms(1) by (simp add: handled_def)
  ultimately show ?thesis using key by (auto split: option.splits)
qed

end
