(* ===== verification/Comms_Properties.thy ===== *)
theory Comms_Properties
  imports Server_Comms
begin

text \<open>
  What a client can and cannot do to a server through a contact (\<^verbatim>\<open>fleetspeak/src/server/comms.go\<close>):
  whose messages it can send, that they are kept, how many messages it gets, and what is left of a
  contact the authorizer refuses.
\<close>

section \<open>Messages from the client\<close>

lemma handleMessagesFromClient_cases:
  assumes "handleMessagesFromClient e cfg inp i contact received vi w = Inr (r, w')"
  obtains (nothing) "valid_messages (sv_sha256 cfg) i vi (Messages received) = []" "r = None" "w' = w"
  | (chunks) us w1 where "process_batches (sv_services cfg) (go_range (in_range inp)
        (messages_by_service (valid_messages (sv_sha256 cfg) i vi (Messages received)))) w = Inr (us, w1)"
      "us = unbatched (sv_services cfg) (go_range (in_range inp)
        (messages_by_service (valid_messages (sv_sha256 cfg) i vi (Messages received))))"
      "handle_chunks e (sv_codec cfg) (sv_services cfg) inp contact 0 (sort_key (\<lambda>m. raw (MessageId m)) us) w1 = Inr (r, w')"
proof (cases "valid_messages (sv_sha256 cfg) i vi (Messages received) = []")
  case True
  with assms have "r = None" "w' = w" by (simp_all add: handleMessagesFromClient_def)
  with True show thesis by (rule nothing)
next
  case False
  with assms obtain us w1 where 1: "process_batches (sv_services cfg) (go_range (in_range inp)
        (messages_by_service (valid_messages (sv_sha256 cfg) i vi (Messages received)))) w = Inr (us, w1)"
      "handle_chunks e (sv_codec cfg) (sv_services cfg) inp contact 0 (sort_key (\<lambda>m. raw (MessageId m)) us) w1 = Inr (r, w')"
    by (auto simp: handleMessagesFromClient_def Let_def)
  show thesis by (rule chunks [OF 1(1) process_batches_result [OF 1(1)] 1(2)])
qed

lemma unbatched_subset: "set (unbatched c (go_range order (messages_by_service ms))) \<subseteq> set ms"
  by (force simp: unbatched_def go_range_mem map_of_messages_by_service Let_def split: if_splits)

text \<open>
  C1. No client can speak for another one: whatever a contact of client \<open>i\<close> holds, and whether or not
  handling it succeeds, every message from a client that is in the datastore afterwards was there before,
  or has \<open>i\<close> as its source and an id that is the hash of \<open>i\<close> and of what the client said; provided the
  services add no messages in a client's name (which \<^verbatim>\<open>liveService.Send\<close> makes impossible).
\<close>
theorem no_spoofing:
  assumes "handleMessagesFromClient e cfg inp i contact received vi w = Inr (r, w')"
    and "schedules_ok inp" and "service_contract (sources_kept {}) (sv_services cfg)"
  shows "client_rows (w_db w') \<subseteq> client_rows (w_db w) \<union>
    {(MessageID_String (MakeMessageID (sv_sha256 cfg) src smid), ClientID_String i) | src smid. ClientId src = ClientID_Bytes i}"
proof -
  let ?K = "own_rows (sv_sha256 cfg) i"
  note contract = service_contract_sources [OF assms(3), of ?K]
  from assms(1) have "sources_kept ?K (w_db w) (w_db w')"
  proof (cases rule: handleMessagesFromClient_cases)
    case (chunks us w1)
    have "sources_kept ?K (w_db w) (w_db w1)"
      by (rule keepsD [OF service_contract.keeps_process_batches [OF contract] chunks(1)])
    moreover have "sources_kept ?K (w_db w1) (w_db w')"
    proof (rule service_contract.handle_chunks_rel [OF contract chunks(3) assms(2)], rule sources_kept_StoreMessages)
      fix xs ys d
      assume xs: "set xs \<subseteq> set (sort_key (\<lambda>m. raw (MessageId m)) us)" and "list_all2 (handled e (sv_services cfg)) xs ys"
      have "stamped (sv_sha256 cfg) i vi m" if "m \<in> set xs" for m
        using that xs unbatched_subset chunks(2) validateMessageFromClient_okD valid_messages_mem by (metis set_sort subset_iff)
      then show "list_all (source_in (sv_codec cfg) ?K) ys"
        using \<open>list_all2 _ xs ys\<close> stamped_source_in
        by (auto simp: list_all_iff handled_def elim!: list_all2_set2D intro!: stamped_source_in)
    qed
    ultimately show ?thesis by (rule sources.R_trans)
  qed (simp add: sources.R_refl)
  then show ?thesis by (auto simp: sources_kept_def own_rows_def)
qed







section \<open>Messages for the client\<close>

lemma foldE_count:
  assumes "list_all (\<lambda>m. Destination m \<noteq> None) ms" and "gomap_ok cnts"
  shows "\<exists>cnts'. foldE (\<lambda>m cnts. if isSpecialMessageToAck m then Inr cnts
     else case Destination m of
         None \<Rightarrow> Inl (Fatal ''nil pointer dereference'')
       | Some dest \<Rightarrow> Inr (gomap_upd (ServiceName dest) (gomap_get0 cnts (ServiceName dest) + 1) cnts)) ms cnts = Inr cnts'
    \<and> gomap_ok cnts' \<and> (\<forall>svc. gomap_get0 cnts' svc =
        gomap_get0 cnts svc + word_of_nat (service_count svc (filter (\<lambda>m. \<not> isSpecialMessageToAck m) ms)))"
  using assms
proof (induction ms arbitrary: cnts)
  case (Cons m ms)
  then obtain dest where dest: "Destination m = Some dest" by auto
  show ?case
  proof (cases "isSpecialMessageToAck m")
    case True
    with Cons.IH [OF _ Cons.prems(2)] Cons.prems(1) show ?thesis by simp
  next
    case False
    let ?c = "gomap_upd (ServiceName dest) (gomap_get0 cnts (ServiceName dest) + 1) cnts"
    from Cons.IH [of ?c] Cons.prems False show ?thesis
      by (auto simp: dest service_count_def algebra_simps)
  qed
qed (auto simp: service_count_def)

lemma count_messages_result:
  assumes "list_all (\<lambda>m. Destination m \<noteq> None) ms"
  obtains cnts where "count_messages ms = Inr cnts" "gomap_ok cnts"
    "\<forall>svc. gomap_get0 cnts svc = word_of_nat (service_count svc (filter (\<lambda>m. \<not> isSpecialMessageToAck m) ms))"
  using foldE_count [OF assms, of "[]"] by (auto simp: count_messages_def)

lemma service_count_filter: "service_count svc (filter P ms) \<le> service_count svc ms"
  unfolding service_count_def filter_filter by (induction ms) auto

text \<open>The messages the datastore hands out, as the client's tokens limit them.\<close>

lemma handed_out:
  assumes "ClientMessagesForProcessing e cd cid 100 (Some limits) d = (Inr msgs, d')" and "messages_ok d"
  shows "length msgs \<le> 100" "service_count svc msgs \<le> unat (gomap_get0 limits svc)"
    "list_all (\<lambda>m. Destination m \<noteq> None) msgs"
proof -
  obtain picked sid where *: "ifp_loop e cd 100 (Some limits) (due_rows e sid d) [] [] d = Inr (msgs, d')"
    "list_all2 (\<lambda>mp msg. toMessageProto cd (row_message mp) = Inr msg) picked msgs"
    by (rule ClientMessagesForProcessing_picks [OF assms])
  show "length msgs \<le> 100" using ifp_loop_length [OF *(1)] by simp
  show "service_count svc msgs \<le> unat (gomap_get0 limits svc)"
    using *(1) by (rule ifp_loop_service_limits) (simp_all add: service_count_def)
  have "Destination msg \<noteq> None" if "toMessageProto cd r = Inr msg" for r msg
    using that by (auto simp: toMessageProto_def)
  with *(2) show "list_all (\<lambda>m. Destination m \<noteq> None) msgs"
    by (auto simp: list_all_iff elim!: list_all2_set2D)
qed

lemma tokens_suffice:
  assumes "messageTokens info = Some tokens" and "list_all (\<lambda>m. Destination m \<noteq> None) msgs" and "length msgs \<le> 100"
    and limit: "\<And>svc. service_count svc msgs \<le> unat (gomap_get0 tokens svc)"
  obtains cnts tokens' where "count_messages msgs = Inr cnts"
    "SubtractMessageTokens cnts info = Inr (info\<lparr>messageTokens := Some tokens'\<rparr>)"
    "\<forall>svc. unat (gomap_get0 tokens' svc) + service_count svc (filter (\<lambda>m. \<not> isSpecialMessageToAck m) msgs)
       = unat (gomap_get0 tokens svc)"
proof -
  let ?n = "\<lambda>svc. service_count svc (filter (\<lambda>m. \<not> isSpecialMessageToAck m) msgs)"
  obtain cnts where c: "count_messages msgs = Inr cnts" "gomap_ok cnts" "\<forall>svc. gomap_get0 cnts svc = word_of_nat (?n svc)"
    using count_messages_result [OF assms(2)] .
  have small: "unat (word_of_nat (?n svc) :: u64) = ?n svc" for svc
  proof -
    have "?n svc \<le> length msgs" unfolding service_count_def by (meson length_filter_le order_trans)
    then have "?n svc < 2 ^ LENGTH(64)" using assms(3) by simp
    then show ?thesis by (simp add: unat_of_nat take_bit_nat_eq_self)
  qed
  have le: "?n svc \<le> unat (gomap_get0 tokens svc)" for svc using service_count_filter limit le_trans by blast
  then have le': "gomap_get0 cnts svc \<le> gomap_get0 tokens svc" for svc using c(3) by (simp add: word_le_nat_alt small)
  obtain tokens' where t: "SubtractMessageTokens cnts info = Inr (info\<lparr>messageTokens := Some tokens'\<rparr>)"
    "\<And>svc. gomap_get0 tokens' svc = gomap_get0 tokens svc - gomap_get0 cnts svc"
    using SubtractMessageTokens_ok [OF assms(1) c(2) le'] by blast
  have "\<forall>svc. unat (gomap_get0 tokens' svc) + ?n svc = unat (gomap_get0 tokens svc)"
    using le le' c(3) by (simp add: t(2) unat_sub small)
  with c(1) t(1) show thesis by (rule that)
qed

text \<open>
  C3. Flow control: a client that announced message tokens gets at most 100 waiting messages, and for
  each service at most as many as it has tokens; the tokens left are those it had less the messages it
  gets (an order to die is free). The check that ends the server process when a client would be charged
  more tokens than it has never fires: only the datastore itself can end the process here.
\<close>
theorem claim_messages_tokens:
  assumes "messageTokens info = Some tokens" and "messages_ok (w_db w)"
  shows "case claim_messages e cd info w of
      Inl x \<Rightarrow> fst (ClientMessagesForProcessing e cd (cl_ID (Client info)) 100 (Some tokens) (w_db w)) = Inl x
    | Inr (Inl x, w') \<Rightarrow> fst (ClientMessagesForProcessing e cd (cl_ID (Client info)) 100 (Some tokens) (w_db w)) = Inl x
    | Inr (Inr (msgs, info'), w') \<Rightarrow> length msgs \<le> 100 \<and> (\<forall>svc. service_count svc msgs \<le> unat (gomap_get0 tokens svc))
        \<and> (\<exists>tokens'. info' = info\<lparr>messageTokens := Some tokens'\<rparr>
          \<and> (\<forall>svc. unat (gomap_get0 tokens' svc) + service_count svc (filter (\<lambda>m. \<not> isSpecialMessageToAck m) msgs)
                = unat (gomap_get0 tokens svc)))"
proof -
  let ?get = "ClientMessagesForProcessing e cd (cl_ID (Client info)) 100 (Some tokens) :: Message list dbop"
  obtain r d' where get: "?get (w_db w) = (r, d')" by force
  show ?thesis
  proof (cases r)
    case (Inl x)
    then have "claim_messages e cd info w = Inl x \<or> claim_messages e cd info w = Inr (Inl x, w\<lparr>w_db := d'\<rparr>)"
      using get assms(1) by (cases x) (auto simp: claim_messages_def MessageTokens_def atry_def abind_def db_call_def aret_def)
    then show ?thesis using Inl get by auto
  next
    case (Inr msgs)
    note out = handed_out [OF get [unfolded Inr] assms(2)]
    obtain cnts tokens' where t: "count_messages msgs = Inr cnts"
      "SubtractMessageTokens cnts info = Inr (info\<lparr>messageTokens := Some tokens'\<rparr>)"
      "\<forall>svc. unat (gomap_get0 tokens' svc) + service_count svc (filter (\<lambda>m. \<not> isSpecialMessageToAck m) msgs)
         = unat (gomap_get0 tokens svc)"
      using tokens_suffice [OF assms(1) out(3,1,2)] .
    have "claim_messages e cd info w = Inr (Inr (msgs, info\<lparr>messageTokens := Some tokens'\<rparr>), w\<lparr>w_db := d'\<rparr>)"
      using get Inr t(1,2) assms(1) by (simp add: claim_messages_def MessageTokens_def atry_def abind_def db_call_def)
    then show ?thesis using out(1,2) t(3) by auto
  qed
qed

text \<open>
  A blacklisted client gets nothing but a request to change its key, addressed to it and stored for
  it; no waiting message, no broadcast and no token is used up.
\<close>
lemma blacklisted_gets_rekey:
  assumes "findMessagesForClient e cfg inp info s = Inr ((r, info'), s')" and "cl_Blacklisted (Client info)"
  shows "info' = info \<and> sv_broadcasts s' = sv_broadcasts s \<and> sv_dispatcher s' = sv_dispatcher s
    \<and> (case r of Inl x \<Rightarrow> w_db (sv_world s') = w_db (sv_world s)
        | Inr msgs \<Rightarrow> \<exists>m. msgs = [m] \<and> MessageType m = ''RekeyRequest'' \<and> Data m = None
            \<and> Destination m = Some \<lparr>ClientId = ClientID_Bytes (cl_ID (Client info)), ServiceName = ''system''\<rparr>
            \<and> StoreMessages e (sv_codec cfg) [m] (ContactID info) (w_db (sv_world s)) = (Inr (), w_db (sv_world s')))"
proof -
  from assms obtain r0 w where run: "MakeBlacklistMessage e (sv_codec cfg) (in_rekey inp) (cl_ID (Client info)) (ContactID info) (sv_world s)
      = Inr (r0, w)" and res: "r = map_sum (\<lambda>x. x) (\<lambda>m. [m]) r0" "info' = info" "s' = s\<lparr>sv_world := w\<rparr>"
    by (auto simp: findMessagesForClient_def on_world_eq_Inr)
  show ?thesis
  proof (cases "RandomMessageID (in_rekey inp)")
    case (Inl x)
    with run res show ?thesis by (auto simp: MakeBlacklistMessage_def)
  next
    case (Inr mid)
    define msg where "msg = empty_Message\<lparr>MessageId := MessageID_Bytes mid, Source := Some \<lparr>ClientId = None, ServiceName = ''system''\<rparr>,
      Destination := Some \<lparr>ClientId = ClientID_Bytes (cl_ID (Client info)), ServiceName = ''system''\<rparr>,
      MessageType := ''RekeyRequest'', CreationTime := Some (NowProto e)\<rparr>"
    have msg: "MessageType msg = ''RekeyRequest''" "Data msg = None"
        "Destination msg = Some \<lparr>ClientId = ClientID_Bytes (cl_ID (Client info)), ServiceName = ''system''\<rparr>"
      by (simp_all add: msg_def empty_Message_def)
    from run Inr obtain q where st: "db_call (StoreMessages e (sv_codec cfg) [msg] (ContactID info)) (sv_world s) = Inr (q, w)"
      and r0: "r0 = (case q of Inl _ \<Rightarrow> Inl (Err ''unable to store RekeyRequest'') | Inr _ \<Rightarrow> Inr msg)"
      unfolding MakeBlacklistMessage_def by (auto simp: Let_def msg_def [symmetric])
    from st obtain d where d: "StoreMessages e (sv_codec cfg) [msg] (ContactID info) (w_db (sv_world s)) = (q, d)"
      "w = (sv_world s)\<lparr>w_db := d\<rparr>" by (auto simp: db_call_eq_Inr)
    show ?thesis
    proof (cases q)
      case (Inl x)
      then have "d = w_db (sv_world s)" using d(1) by (auto simp: StoreMessages_def dest: runInTx_error)
      with Inl d r0 res show ?thesis by simp
    next
      case (Inr u)
      with msg d r0 res show ?thesis by auto
    qed
  qed
qed

section \<open>Contacts the authorizer refuses\<close>

text \<open>
  What \<^verbatim>\<open>Allow4\<close> is told of the client: what the datastore has of a known one, the labels of the contact for a new one. A contact
  is refused if the authorizer says no to the address, to the client as the datastore has it, or to the signatures of the contact.
\<close>

definition presented :: "string \<Rightarrow> WrappedContactData \<Rightarrow> 'k ClientInfo option \<Rightarrow> AuthClientInfo" where
  "presented addr wcd ci = (case ci of
       None \<Rightarrow> (con_Auth (new_connection addr ci))\<lparr>ac_Labels := map client_label (wcd_ClientLabels wcd)\<rparr>
     | Some _ \<Rightarrow> con_Auth (new_connection addr ci))"

definition refuses :: "env \<Rightarrow> ('k, 'c, 's) server_cfg \<Rightarrow> string \<Rightarrow> ClientID \<Rightarrow> WrappedContactData \<Rightarrow> 's world \<Rightarrow> bool" where
  "refuses e cfg addr i wcd w \<longleftrightarrow>
     \<not> Allow2 (sv_authorizer cfg) addr (contact_info i wcd) \<or>
     (case getClientInfo e cfg i w of
        Inr (Inr ci, _) \<Rightarrow>
          \<not> Allow3 (sv_authorizer cfg) addr (contact_info i wcd) (con_Auth (new_connection addr ci)) \<or>
          (case ValidateWrappedContactData (sv_x509 cfg) wcd of
             Inr sigs \<Rightarrow> \<not> fst (Allow4 (sv_authorizer cfg) addr (contact_info i wcd) (presented addr wcd ci) sigs)
           | Inl _ \<Rightarrow> False)
      | _ \<Rightarrow> False)"

text \<open>At most a row for the client that was not known, and labels it names, are added.\<close>

definition registered :: "ClientID \<Rightarrow> string list \<Rightarrow> sqldb \<Rightarrow> sqldb \<Rightarrow> bool" where
  "registered i labels d d' \<longleftrightarrow> d' = d \<or> (ClientID_String i \<notin> client_ids d \<and>
     (\<exists>row ls. cl_client_id row = ClientID_String i \<and> \<not> cl_blacklisted row
        \<and> set ls \<subseteq> (\<lambda>l. label_row_of (ClientID_String i) (client_label l)) ` set labels
        \<and> d' = d\<lparr>t_clients := t_clients d @ [row], t_client_labels := t_client_labels d @ ls\<rparr>))"

definition looked_up :: "env \<Rightarrow> ClientID \<Rightarrow> Clients \<Rightarrow> Clients \<Rightarrow> bool" where
  "looked_up e i c c' \<longleftrightarrow> c' = c \<or> (\<exists>cd. c' = cache_Update (Now e) i (Some cd) c)"

lemma getClientInfo_frame:
  assumes "getClientInfo e cfg i w = Inr (r, w')"
  shows "\<exists>c. looked_up e i (w_cache w) c \<and> w' = w\<lparr>w_cache := c\<rparr>"
proof -
  obtain x where get: "get_or_read e i w = Inr (x, w')" using assms by (auto simp: getClientInfo_def)
  obtain y c d where g: "GetOrRead (Now e) i (GetClientData e i) (w_cache w) (w_db w) = (y, c, d)" by (rule prod_cases3)
  then have "w' = w\<lparr>w_cache := c, w_db := d\<rparr>" using get by (simp add: get_or_read_def)
  moreover from this have "d = w_db w" using get_or_read_db [OF get] by simp
  moreover have "looked_up e i (w_cache w) c"
    using g by (auto simp: GetOrRead_def looked_up_def split: option.splits prod.splits sum.splits)
  ultimately show ?thesis by (intro exI [of _ c]) simp
qed

lemma aloop_labels:
  assumes "aloop (\<lambda>l. abind (db_call (AddClientLabel i (client_label l))) (\<lambda>_. aret ())) ls w = Inr (u, w')"
  shows "\<exists>rows. set rows \<subseteq> (\<lambda>l. label_row_of (ClientID_String i) (client_label l)) ` set ls
    \<and> w' = w\<lparr>w_db := (w_db w)\<lparr>t_client_labels := t_client_labels (w_db w) @ rows\<rparr>\<rparr>"
  using assms
proof (induction ls arbitrary: w)
  case Nil
  then show ?case by (intro exI [of _ "[]"]) simp
next
  case (Cons l ls)
  then obtain r w1 where 1: "db_call (AddClientLabel i (client_label l)) w = Inr (r, w1)"
    and 2: "aloop (\<lambda>l. abind (db_call (AddClientLabel i (client_label l))) (\<lambda>_. aret ())) ls w1 = Inr (u, w')" by auto
  obtain rows where rows: "set rows \<subseteq> (\<lambda>l. label_row_of (ClientID_String i) (client_label l)) ` set ls"
    "w' = w1\<lparr>w_db := (w_db w1)\<lparr>t_client_labels := t_client_labels (w_db w1) @ rows\<rparr>\<rparr>" using Cons.IH [OF 2] by blast
  from db_AddClientLabel [OF 1] consider "w1 = w" | "w1 = w\<lparr>w_db := (w_db w)\<lparr>t_client_labels := t_client_labels (w_db w) @ [label_row_of (ClientID_String i) (client_label l)]\<rparr>\<rparr>"
    by (auto split: if_splits)
  then show ?case
  proof cases
    case 1
    with rows show ?thesis by (intro exI [of _ rows]) auto
  next
    case 2
    with rows show ?thesis by (intro exI [of _ "label_row_of (ClientID_String i) (client_label l) # rows"]) auto
  qed
qed

lemma AddClient_frame:
  assumes "AddClient e i \<lparr>cd_Key = k, cd_Labels = [], cd_Blacklisted = False\<rparr> d = (r, d')"
  shows "(case r of Inl _ \<Rightarrow> d' = d | Inr _ \<Rightarrow> ClientID_String i \<notin> client_ids d \<and>
    (\<exists>row. cl_client_id row = ClientID_String i \<and> \<not> cl_blacklisted row \<and> d' = d\<lparr>t_clients := t_clients d @ [row]\<rparr>))"
proof (cases r)
  case (Inl x)
  with assms show ?thesis by (auto simp: AddClient_def dest: runInTx_error)
next
  case (Inr u)
  with assms have "AddClient e i \<lparr>cd_Key = k, cd_Labels = [], cd_Blacklisted = False\<rparr> d = (Inr u, d')" by simp
  from runInTx_success [OF this [unfolded AddClient_def]]
  have "ClientID_String i \<notin> client_ids d \<and> d' = d\<lparr>t_clients := t_clients d @ [\<lparr>cl_client_id = ClientID_String i, cl_client_key = k,
      cl_blacklisted = False, cl_last_contact_time = Now e, cl_last_contact_address = None, cl_last_contact_streaming_to = None,
      cl_last_clock_seconds = None, cl_last_clock_nanos = None\<rparr>]\<rparr>" (is "_ \<and> d' = d\<lparr>t_clients := t_clients d @ [?row]\<rparr>")
    by (auto simp: Let_def sql_insert_eq_Inr client_ids_def)
  moreover have "cl_client_id ?row = ClientID_String i" "\<not> cl_blacklisted ?row" by simp_all
  ultimately show ?thesis using Inr by (simp only: sum.case) blast
qed

lemma register_client_frame:
  assumes "register_client e cfg i key labels res w = Inr (r, w')"
  shows "registered i labels (w_db w) (w_db w') \<and> w' = w\<lparr>w_db := w_db w'\<rparr>
    \<and> (case r of Inl _ \<Rightarrow> True | Inr res' \<Rightarrow> con_Auth res' = (con_Auth res)\<lparr>ac_Labels := map client_label labels\<rparr>)"
proof (cases "sv_MarshalPKIX cfg key")
  case (Inl x)
  with assms show ?thesis by (auto simp: register_client_def comms_addClient_def atry_eq_Inr registered_def)
next
  case (Inr k)
  with assms obtain x w1 where x: "db_call (AddClient e i \<lparr>cd_Key = k, cd_Labels = [], cd_Blacklisted = False\<rparr>) w = Inr (x, w1)"
    and rest: "(case x of Inl err \<Rightarrow> r = Inl err \<and> w' = w1
      | Inr _ \<Rightarrow> (\<exists>u res'. aloop (\<lambda>l. abind (db_call (AddClientLabel i (client_label l))) (\<lambda>_. aret ())) labels w1 = Inr (u, w')
          \<and> r = Inr res' \<and> con_Auth res' = (con_Auth res)\<lparr>ac_Labels := map client_label labels\<rparr>))"
    unfolding register_client_def comms_addClient_def by (fastforce simp: atry_eq_Inr)
  obtain d where d: "AddClient e i \<lparr>cd_Key = k, cd_Labels = [], cd_Blacklisted = False\<rparr> (w_db w) = (x, d)" "w1 = w\<lparr>w_db := d\<rparr>"
    using x by (auto simp: db_call_eq_Inr)
  note add = AddClient_frame [OF d(1)]
  show ?thesis
  proof (cases x)
    case (Inl err)
    with add d rest show ?thesis by (simp add: registered_def)
  next
    case (Inr u)
    with add obtain row where row: "ClientID_String i \<notin> client_ids (w_db w)" "cl_client_id row = ClientID_String i" "\<not> cl_blacklisted row"
      "d = (w_db w)\<lparr>t_clients := t_clients (w_db w) @ [row]\<rparr>" by auto
    from rest Inr obtain v res' where loop: "aloop (\<lambda>l. abind (db_call (AddClientLabel i (client_label l))) (\<lambda>_. aret ())) labels w1 = Inr (v, w')"
      and r: "r = Inr res'" "con_Auth res' = (con_Auth res)\<lparr>ac_Labels := map client_label labels\<rparr>" by auto
    from aloop_labels [OF loop] obtain rows where rows: "set rows \<subseteq> (\<lambda>l. label_row_of (ClientID_String i) (client_label l)) ` set labels"
      "w' = w1\<lparr>w_db := (w_db w1)\<lparr>t_client_labels := t_client_labels (w_db w1) @ rows\<rparr>\<rparr>" by blast
    then show ?thesis using row d(2) r unfolding registered_def by auto
  qed
qed

lemma check_signatures_eq_Inr:
  "check_signatures cfg wcd w = Inr (r, w') \<Longrightarrow> w' = w \<and> ValidateWrappedContactData (sv_x509 cfg) wcd = r"
  by (auto simp: check_signatures_def split: sum.splits error.splits)

lemma authorize_contact_refused:
  assumes run: "authorize_contact e cfg addr i key wcd w = Inr (x, w')" and refuses: "refuses e cfg addr i wcd w"
  shows "(\<exists>y. x = Inl y) \<and> registered i (wcd_ClientLabels wcd) (w_db w) (w_db w')
    \<and> w_stats w' = w_stats w \<and> w_user w' = w_user w \<and> looked_up e i (w_cache w) (w_cache w')"
proof (cases "Allow2 (sv_authorizer cfg) addr (contact_info i wcd)")
  case False
  with run show ?thesis by (auto simp: authorize_contact_def registered_def looked_up_def)
next
  case allow2: True
  with run obtain g w1 where g: "getClientInfo e cfg i w = Inr (g, w1)" unfolding authorize_contact_def by (auto simp: atry_eq_Inr)
  obtain c where c: "looked_up e i (w_cache w) c" "w1 = w\<lparr>w_cache := c\<rparr>" using getClientInfo_frame [OF g] by blast
  show ?thesis
  proof (cases g)
    case (Inl err)
    then have "x = Inl err" "w' = w1" using run allow2 g unfolding authorize_contact_def by (auto simp: atry_eq_Inr)
    with c show ?thesis by (simp add: registered_def)
  next
    case ci: (Inr ci)
    show ?thesis
    proof (cases "Allow3 (sv_authorizer cfg) addr (contact_info i wcd) (con_Auth (new_connection addr ci))")
      case False
      then have "x = Inl ErrNotAuthorized" "w' = w1" using run allow2 g ci unfolding authorize_contact_def by (auto simp: atry_eq_Inr Let_def)
      with c show ?thesis by (simp add: registered_def)
    next
      case allow3: True
      with run allow2 g ci obtain q w2 where q: "(case ci of None \<Rightarrow> register_client e cfg i key (wcd_ClientLabels wcd) (new_connection addr ci)
            | Some _ \<Rightarrow> aret (Inr (new_connection addr ci))) w1 = Inr (q, w2)"
        and rest: "(case q of Inl err \<Rightarrow> x = Inl err \<and> w' = w2 | Inr res \<Rightarrow> w' = w2 \<and> (case ValidateWrappedContactData (sv_x509 cfg) wcd of
            Inl err \<Rightarrow> x = Inl err
          | Inr sigs \<Rightarrow> (\<not> fst (Allow4 (sv_authorizer cfg) addr (contact_info i wcd) (con_Auth res) sigs) \<longrightarrow> (\<exists>y. x = Inl y))))"
        unfolding authorize_contact_def
        by (fastforce simp: atry_eq_Inr Let_def case_prod_beta dest!: check_signatures_eq_Inr split: if_splits)
      have reg: "registered i (wcd_ClientLabels wcd) (w_db w1) (w_db w2) \<and> w2 = w1\<lparr>w_db := w_db w2\<rparr>
          \<and> (case q of Inl _ \<Rightarrow> True | Inr res \<Rightarrow> con_Auth res = presented addr wcd ci)"
      proof (cases ci)
        case None
        with q have reg: "register_client e cfg i key (wcd_ClientLabels wcd) (new_connection addr ci) w1 = Inr (q, w2)" by simp
        have p: "presented addr wcd ci = (con_Auth (new_connection addr ci))\<lparr>ac_Labels := map client_label (wcd_ClientLabels wcd)\<rparr>"
          using None by (simp add: presented_def)
        show ?thesis unfolding p by (rule register_client_frame [OF reg])
      qed (use q in \<open>simp add: presented_def registered_def\<close>)
      have "\<exists>y. x = Inl y" using rest reg refuses allow2 allow3 g ci by (auto simp: refuses_def split: sum.splits)
      moreover have "w' = w2" using rest by (auto split: sum.splits)
      moreover have "w_stats w2 = w_stats w1 \<and> w_user w2 = w_user w1 \<and> w_cache w2 = w_cache w1"
        using reg by (metis world.select_convs world.surjective world.update_convs(1))
      ultimately show ?thesis using reg c by simp
    qed
  qed
qed

text \<open>
  C4. A contact that the authorizer refuses, by the address, by what the datastore knows of the client or by the labels and
  signatures the contact presents, ends with an error. Broadcasts, notifications, statistics and the services' state stay as they are, the cache changes at most in
  what was read about this client, and the datastore at most in that the client, if it was not known, is entered with labels of the contact: every other
  table, every other client and its labels are untouched. The documentation of \<^verbatim>\<open>Allow4\<close> says that nothing is saved.
\<close>
theorem unauthorized_contact:
  assumes "InitializeConnection e cfg inp addr key wcd streaming s = Inr (r, s')"
    and "MakeClientID (sv_MarshalPKIX cfg) (sv_sha256 cfg) key = Inr i"
    and "refuses e cfg addr i wcd (sv_world s)"
  shows "\<exists>x w'. r = Inl x \<and> s' = s\<lparr>sv_world := w'\<rparr> \<and> registered i (wcd_ClientLabels wcd) (w_db (sv_world s)) (w_db w')
    \<and> w_stats w' = w_stats (sv_world s) \<and> w_user w' = w_user (sv_world s) \<and> looked_up e i (w_cache (sv_world s)) (w_cache w')"
proof -
  obtain x w where run: "authorize_contact e cfg addr i key wcd (sv_world s) = Inr (x, w)"
    using assms(1,2) by (auto simp: InitializeConnection_def atry_eq_Inr on_world_eq_Inr)
  note refused = authorize_contact_refused [OF run assms(3)]
  then obtain y where y: "x = Inl y" by blast
  have "r = Inl y" "s' = s\<lparr>sv_world := w\<rparr>"
    using assms(1,2) run y by (auto simp: InitializeConnection_def atry_eq_Inr on_world_eq_Inr)
  then show ?thesis using refused by blast
qed

section \<open>Witnesses\<close>

text \<open>Evaluating a part of what a run returns shows that it returns.\<close>

lemma ran:
  assumes "map_sum (\<lambda>e. e) (\<lambda>(r, s). f r s) run = Inr v"
  obtains r s where "run = Inr (r, s)" "f r s = v"
  using assms by (cases run) (auto split: prod.splits)

definition demo_cdata :: ContactData where
  "demo_cdata = \<lparr>SequencingNonce = 7, Messages = [empty_Message\<lparr>Source := Some \<lparr>ClientId = Some [6, 6, 6], ServiceName = ''s''\<rparr>,
       SourceMessageId := Some [1], Destination := Some \<lparr>ClientId = None, ServiceName = ''s''\<rparr>, MessageType := ''x''\<rparr>],
     ClientClock = None, AllowedMessages = [(''a'', 1)]\<rparr>"

definition demo_cfg :: "bool \<Rightarrow> (bytes, bytes, unit) server_cfg" where
  "demo_cfg accept = \<lparr>sv_codec = demo_codec, sv_x509 = demo_x509, sv_MarshalPKIX = Inr, sv_ParsePKIX = Inr, sv_sha256 = demo_hash,
     sv_unmarshal_ContactData = (\<lambda>_. Inr demo_cdata),
     sv_authorizer = PermissiveAuthorizer\<lparr>Allow4 := (\<lambda>_ _ _ _. (accept, None))\<rparr>,
     sv_services = demo_manager, sv_listener = ''here'', sv_fileStores = []\<rparr>"

definition demo_inputs :: contact_inputs where
  "demo_inputs = \<lparr>in_nonce = Inr [1, 0, 0, 0, 0, 0, 0, 0], in_rekey = Inr (replicate 32 5), in_broadcast_ids = [], in_range = [''s''],
     in_sched = (\<lambda>k n. \<lparr>gs_order = [0..<n], gs_running = (\<lambda>_. 0)\<rparr>), in_ctx_err = (\<lambda>_. None)\<rparr>"

lemma demo_inputs_ok: "schedules_ok demo_inputs"
  by (auto simp: schedules_ok_def demo_inputs_def gosched_ok_def)

lemma demo_cfg_contract: "service_contract (sources_kept {}) (sv_services (demo_cfg b))"
  using default_sources.service_contract_axioms by (simp add: demo_cfg_def demo_manager_def)

lemma demo_handle:
  obtains w' where "handleMessagesFromClient demo_env (demo_cfg True) demo_inputs demo_client [] demo_cdata None demo_world = Inr (None, w')"
proof -
  let ?run = "handleMessagesFromClient demo_env (demo_cfg True) demo_inputs demo_client [] demo_cdata None demo_world"
  have "map_sum (\<lambda>e. e) fst ?run = Inr None" by code_simp
  then show thesis using that by (cases ?run) auto
qed

theorem no_spoofing_witness:
  "\<exists>w'. handleMessagesFromClient demo_env (demo_cfg True) demo_inputs demo_client [] demo_cdata None demo_world = Inr (None, w')
    \<and> client_rows (w_db w') \<subseteq> client_rows (w_db demo_world) \<union>
      {(MessageID_String (MakeMessageID (sv_sha256 (demo_cfg True)) src smid), ClientID_String demo_client) | src smid.
        ClientId src = ClientID_Bytes demo_client}"
proof -
  obtain w' where run: "handleMessagesFromClient demo_env (demo_cfg True) demo_inputs demo_client [] demo_cdata None demo_world = Inr (None, w')"
    by (rule demo_handle)
  from no_spoofing [OF run demo_inputs_ok demo_cfg_contract] run show ?thesis by blast
qed



definition demo_conn :: "bool \<Rightarrow> bytes ConnectionInfo" where
  "demo_conn bl = (new_connection ''addr'' (Some \<lparr>cl_ID = demo_client, cl_Key = None, cl_Labels = [], cl_Blacklisted = bl, cl_Cached = True\<rparr>))
     \<lparr>messageTokens := Some [(''a'', 1)]\<rparr>"

definition demo_waiting :: "unit world" where
  "demo_waiting = demo_world\<lparr>w_db := demo_db\<rparr>"

theorem claim_messages_tokens_witness:
  "case claim_messages demo_later demo_codec (demo_conn False) demo_waiting of
     Inr (Inr (msgs, info), w') \<Rightarrow> length msgs = 1 \<and> (\<exists>t. info = (demo_conn False)\<lparr>messageTokens := Some t\<rparr>)
   | _ \<Rightarrow> False"
proof -
  have tok: "messageTokens (demo_conn False) = Some [(''a'', 1)]" by (simp add: demo_conn_def)
  have ok: "messages_ok (w_db demo_waiting)" using demo_db_ok by (simp add: demo_waiting_def)
  let ?run = "claim_messages demo_later demo_codec (demo_conn False) demo_waiting"
  have "map_sum (\<lambda>e. e) (\<lambda>(r, _). map_sum (\<lambda>e. e) (\<lambda>(ms, _). length ms) r) ?run = Inr (Inr 1)" by code_simp
  then obtain r w' where r: "?run = Inr (r, w')" "map_sum (\<lambda>e. e) (\<lambda>(ms, _). length ms) r = Inr 1" by (rule ran)
  then obtain msgs info where run: "?run = Inr (Inr (msgs, info), w')" "length msgs = 1" by (cases r) auto
  from claim_messages_tokens [OF tok ok, of demo_later demo_codec] show ?thesis
    by (simp only: run(1) sum.case prod.case) (use run(2) in blast)
qed

definition demo_server :: "unit server" where
  "demo_server = \<lparr>sv_world = demo_world, sv_broadcasts = \<lparr>bm_infos = [], bm_heap = [], bm_basePollWait = 1\<rparr>, sv_dispatcher = NewDispatcher\<rparr>"

lemma blacklisted_gets_rekey_instance:
  "\<exists>m info' s'. findMessagesForClient demo_env (demo_cfg True) demo_inputs (demo_conn True) demo_server = Inr ((Inr [m], info'), s')
    \<and> MessageType m = ''RekeyRequest'' \<and> messageTokens info' = Some [(''a'', 1)]"
proof -
  let ?run = "findMessagesForClient demo_env (demo_cfg True) demo_inputs (demo_conn True) demo_server"
  have "map_sum (\<lambda>e. e) (\<lambda>(r, s). isl (fst r)) ?run = Inr False" by code_simp
  then obtain r s' where r: "?run = Inr (r, s')" "isl (fst r) = False" by (rule ran)
  then obtain msgs info' where run: "?run = Inr ((Inr msgs, info'), s')" by (cases r; cases "fst r") auto
  have "cl_Blacklisted (Client (demo_conn True))" by (simp add: demo_conn_def new_connection_def)
  from blacklisted_gets_rekey [OF run this] run show ?thesis by (auto simp: demo_conn_def)
qed

text \<open>
  The authorizer's documentation says that nothing is saved when its last stage refuses a contact; but
  a new client is entered into the datastore before that stage is asked.
\<close>
lemma rejected_contact_saves_client:
  "\<exists>s'. InitializeConnection demo_env (demo_cfg False) demo_inputs ''addr'' (replicate 8 1) (demo_wcd [[9]]) False
      (demo_server\<lparr>sv_world := demo_world\<lparr>w_db := initSchema\<rparr>\<rparr>) = Inr (Inl ErrNotAuthorized, s')
    \<and> map cl_client_id (t_clients (w_db (sv_world s'))) = [ClientID_String (ClientID (replicate 8 1))]"
proof -
  let ?run = "InitializeConnection demo_env (demo_cfg False) demo_inputs ''addr'' (replicate 8 1) (demo_wcd [[9]]) False
      (demo_server\<lparr>sv_world := demo_world\<lparr>w_db := initSchema\<rparr>\<rparr>)"
  have "map_sum (\<lambda>e. e) (\<lambda>(r, s). (map_sum (\<lambda>e. e) (\<lambda>_. ()) r, map cl_client_id (t_clients (w_db (sv_world s))))) ?run
      = Inr (Inl ErrNotAuthorized, [ClientID_String (ClientID (replicate 8 1))])" by code_simp
  then obtain r s' where r: "?run = Inr (r, s')" "(map_sum (\<lambda>e. e) (\<lambda>_. ()) r, map cl_client_id (t_clients (w_db (sv_world s'))))
      = (Inl ErrNotAuthorized, [ClientID_String (ClientID (replicate 8 1))])" by (rule ran)
  then show ?thesis by (cases r) auto
qed

theorem unauthorized_contact_witness:
  "\<exists>i s'. MakeClientID (sv_MarshalPKIX (demo_cfg False)) (sv_sha256 (demo_cfg False)) (replicate 8 1) = Inr i
    \<and> InitializeConnection demo_env (demo_cfg False) demo_inputs ''addr'' (replicate 8 1) (demo_wcd [[9]]) False demo_server = Inr (Inl ErrNotAuthorized, s')
    \<and> registered i (wcd_ClientLabels (demo_wcd [[9]])) (w_db (sv_world demo_server)) (w_db (sv_world s'))"
proof -
  let ?run = "InitializeConnection demo_env (demo_cfg False) demo_inputs ''addr'' (replicate 8 1) (demo_wcd [[9]]) False demo_server"
  have "map_sum (\<lambda>e. e) (\<lambda>(r, s). map_sum (\<lambda>e. e) (\<lambda>_. ()) r) ?run = Inr (Inl ErrNotAuthorized)" by code_simp
  then obtain r s' where r: "?run = Inr (r, s')" "map_sum (\<lambda>e. e) (\<lambda>_. ()) r = Inl ErrNotAuthorized" by (rule ran)
  then have run: "?run = Inr (Inl ErrNotAuthorized, s')" by (cases r) auto
  let ?i = "MakeClientID (sv_MarshalPKIX (demo_cfg False)) (sv_sha256 (demo_cfg False)) (replicate 8 1)"
  have "map_sum (\<lambda>e. e) (\<lambda>i. refuses demo_env (demo_cfg False) ''addr'' i (demo_wcd [[9]]) (sv_world demo_server)) ?i = Inr True" by code_simp
  then obtain i where i: "?i = Inr i" "refuses demo_env (demo_cfg False) ''addr'' i (demo_wcd [[9]]) (sv_world demo_server)" by (cases ?i) auto
  from unauthorized_contact [OF run i] run i(1) show ?thesis by auto
qed

end
