(* ===== verification/Client_Config.thy ===== *)
theory Client_Config
  imports Ids
begin

text \<open>
  The identity and persistent state of a client:
  \<^verbatim>\<open>fleetspeak/src/client/internal/config/manager.go\<close> and the two persistence handlers
  \<^verbatim>\<open>fleetspeak/src/client/config/filesystem_persistence_handler.go\<close> and
  \<^verbatim>\<open>noop_persistence_handler.go\<close>.

  Key generation, the encodings of keys and of the state, and the hash are arguments. A file system is a
  map from paths to contents; what the system calls that change it report, and how much of a failed
  write reaches the disk, are inputs. Statistics calls are left out: they have no effect. The channel
  \<^verbatim>\<open>configChanges\<close> is the list of values sent on it; the ticker of \<^verbatim>\<open>syncLoop\<close> runs \<open>Sync\<close> at
  arbitrary moments.
\<close>

section \<open>Persistence\<close>

record ClientState =
  st_ClientKey :: bytes
  st_SequencingNonce :: u64
  st_RevokedCertSerials :: "bytes list"

definition empty_ClientState :: ClientState where
  "empty_ClientState = \<lparr>st_ClientKey = [], st_SequencingNonce = 0, st_RevokedCertSerials = []\<rparr>"

record state_codec =
  marshal_ClientState :: "ClientState \<Rightarrow> error + bytes"
  unmarshal_ClientState :: "bytes \<Rightarrow> error + ClientState"

type_synonym files = "(string, bytes) gomap"

text \<open>What the operating system does to one \<open>WriteState\<close>: a file that cannot be opened keeps what it has, and
  \<open>Torn n\<close> is a write that fails after \<open>n\<close> bytes.\<close>

datatype write_outcome = Written | Not_Opened | Torn nat

record os_faults =
  fault_remove :: bool
  fault_write :: write_outcome
  fault_rename :: bool

definition os_ReadFile :: "string \<Rightarrow> files \<Rightarrow> error + bytes" where
  "os_ReadFile path fs = (case map_of fs path of None \<Rightarrow> Inl (Err ''no such file'') | Some b \<Rightarrow> Inr b)"

definition os_RemoveAll :: "bool \<Rightarrow> string \<Rightarrow> files \<Rightarrow> files" where
  "os_RemoveAll fault path fs = (if fault then fs else gomap_del path fs)"

definition os_WriteFile :: "write_outcome \<Rightarrow> string \<Rightarrow> bytes \<Rightarrow> files \<Rightarrow> error option \<times> files" where
  "os_WriteFile fault path b fs = (case fault of
       Written \<Rightarrow> (None, gomap_upd path b fs)
     | Not_Opened \<Rightarrow> (Some (Err ''open failed''), fs)
     | Torn n \<Rightarrow> (Some (Err ''write failed''), gomap_upd path (take n b) fs))"

definition os_Rename :: "bool \<Rightarrow> string \<Rightarrow> string \<Rightarrow> files \<Rightarrow> error option \<times> files" where
  "os_Rename fault src dst fs = (if fault then (Some (Err ''rename failed''), fs)
     else case map_of fs src of
         None \<Rightarrow> (Some (Err ''no such file''), fs)
       | Some b \<Rightarrow> (None, gomap_upd dst b (gomap_del src fs)))"

definition fs_ReadState :: "state_codec \<Rightarrow> string \<Rightarrow> files \<Rightarrow> error + ClientState" where
  "fs_ReadState cd stateFile fs = (if stateFile = [] then Inr empty_ClientState
     else ebind (os_ReadFile stateFile fs) (\<lambda>b.
       case unmarshal_ClientState cd b of
         Inl _ \<Rightarrow> Inl (Err ''unable to parse state file'')
       | Inr s \<Rightarrow> Inr s))"

definition tmp_file :: "string \<Rightarrow> string" where
  "tmp_file stateFile = stateFile @ ''.new''"

definition fs_WriteState :: "state_codec \<Rightarrow> os_faults \<Rightarrow> string \<Rightarrow> ClientState \<Rightarrow> (files, error option) gofn" where
  "fs_WriteState cd f stateFile s fs =
     (if stateFile = [] then Inr (None, fs)
      else case marshal_ClientState cd s of
          Inl _ \<Rightarrow> Inl (Fatal ''Unable to serialize state'')
        | Inr b \<Rightarrow>
            (let fs = os_RemoveAll (fault_remove f) (tmp_file stateFile) fs in
             case os_WriteFile (fault_write f) (tmp_file stateFile) b fs of
               (Some _, fs) \<Rightarrow> Inr (Some (Err ''unable to write new configuration''), fs)
             | (None, fs) \<Rightarrow> (case os_Rename (fault_rename f) (tmp_file stateFile) stateFile fs of
                   (Some _, fs) \<Rightarrow> Inr (Some (Err ''unable to rename new configuration''), fs)
                 | (None, fs) \<Rightarrow> Inr (None, fs))))"

text \<open>
  The interface \<^verbatim>\<open>PersistenceHandler\<close> over a store \<open>'p\<close>, and its two implementations. A nil result
  of \<^verbatim>\<open>ReadState\<close> is \<open>None\<close>; communicator configurations have an arbitrary type.
\<close>

record ('p, 'c) PersistenceHandler =
  ReadState :: "'p \<Rightarrow> error + ClientState option"
  WriteState :: "ClientState \<Rightarrow> ('p, error option) gofn"
  ReadCommunicatorConfig :: "'p \<Rightarrow> error + 'c option"

definition FilesystemPersistenceHandler :: "state_codec \<Rightarrow> (bytes \<Rightarrow> error + 'c) \<Rightarrow> os_faults \<Rightarrow> string \<Rightarrow> string \<Rightarrow> (files, 'c) PersistenceHandler" where
  "FilesystemPersistenceHandler cd unmarshalText f configurationPath stateFile =
     \<lparr>ReadState = (\<lambda>fs. map_sum (\<lambda>e. e) Some (fs_ReadState cd stateFile fs)),
      WriteState = fs_WriteState cd f stateFile,
      ReadCommunicatorConfig = (\<lambda>fs. if configurationPath = [] then Inl (Err ''configuration path not provided'')
        else case os_ReadFile (configurationPath @ ''/communicator.txt'') fs of
            Inl _ \<Rightarrow> Inl (Err ''cannot read communicator config file'')
          | Inr b \<Rightarrow> (case unmarshalText b of
                Inl _ \<Rightarrow> Inl (Err ''cannot parse communicator config'')
              | Inr c \<Rightarrow> Inr (Some c)))\<rparr>"

definition NoopPersistenceHandler :: "('p, 'c) PersistenceHandler" where
  "NoopPersistenceHandler = \<lparr>ReadState = (\<lambda>p. Inr (Some empty_ClientState)), WriteState = (\<lambda>s p. Inr (None, p)),
     ReadCommunicatorConfig = (\<lambda>p. Inr None)\<rparr>"

section \<open>The configuration manager\<close>

record 'k key_ops =
  MarshalECPrivateKey :: "'k \<Rightarrow> error + bytes"
  ParseECPrivateKey :: "bytes \<Rightarrow> error + 'k"
  PublicKeyID :: "'k \<Rightarrow> error + ClientID"

record ('p, 'c) Configuration =
  cfg_ClientLabels :: "Label list"
  cfg_PersistenceHandler :: "('p, 'c) PersistenceHandler option"
  cfg_CommunicatorConfig :: "'c option"
  cfg_RevokedCertSerials :: "bytes list"

record ClientInfoData =
  cid_Labels :: "Label list"
  cid_Services :: "(string \<times> gobytes) list"

record 'c ConfigManager =
  cm_cc :: 'c
  cm_state :: ClientState
  cm_id :: ClientID
  cm_revokedSerials :: "bytes list"
  cm_dirty :: bool
  cm_runningServices :: "(string, gobytes) gomap"
  cm_configChanges :: "ClientInfoData list"

definition config_handler :: "('p, 'c) Configuration \<Rightarrow> ('p, 'c) PersistenceHandler" where
  "config_handler cfg = (case cfg_PersistenceHandler cfg of None \<Rightarrow> NoopPersistenceHandler | Some h \<Rightarrow> h)"

definition AddRevokedSerials :: "bytes list \<Rightarrow> 'c ConfigManager \<Rightarrow> 'c ConfigManager" where
  "AddRevokedSerials revoked m = fold (\<lambda>serial m.
     if serial \<in> set (cm_revokedSerials m) then m
     else m\<lparr>cm_revokedSerials := serial # cm_revokedSerials m,
            cm_state := (cm_state m)\<lparr>st_RevokedCertSerials := st_RevokedCertSerials (cm_state m) @ [serial]\<rparr>,
            cm_dirty := True\<rparr>) revoked m"

text \<open>\<open>k\<close> is the outcome of \<^verbatim>\<open>ecdsa.GenerateKey\<close>.\<close>

definition Rekey :: "'k key_ops \<Rightarrow> error + 'k \<Rightarrow> 'c ConfigManager \<Rightarrow> error + 'c ConfigManager" where
  "Rekey ops k m = (case k of
       Inl _ \<Rightarrow> Inl (Err ''unable to generate new key'')
     | Inr k \<Rightarrow> (case MarshalECPrivateKey ops k of
         Inl _ \<Rightarrow> Inl (Err ''unable to marshal new key'')
       | Inr b \<Rightarrow> (case PublicKeyID ops k of
           Inl _ \<Rightarrow> Inl (Err ''unable to create client id'')
         | Inr i \<Rightarrow> Inr (m\<lparr>cm_state := (cm_state m)\<lparr>st_ClientKey := b\<rparr>, cm_id := i, cm_dirty := True\<rparr>))))"

definition doSync :: "('p, 'c) Configuration \<Rightarrow> 'c ConfigManager \<Rightarrow> ('p, error option \<times> 'c ConfigManager) gofn" where
  "doSync cfg m = abind (WriteState (config_handler cfg) (cm_state m)) (\<lambda>r. case r of
       Some _ \<Rightarrow> aret (Some (Err ''Failed to sync state to writeback''), m)
     | None \<Rightarrow> aret (None, m\<lparr>cm_dirty := False\<rparr>))"

definition Sync :: "('p, 'c) Configuration \<Rightarrow> 'c ConfigManager \<Rightarrow> ('p, error option \<times> 'c ConfigManager) gofn" where
  "Sync cfg m = (if \<not> cm_dirty m then aret (None, m) else doSync cfg m)"

text \<open>The key part of \<^verbatim>\<open>StartManager\<close>.\<close>

definition load_key :: "'k key_ops \<Rightarrow> error + 'k \<Rightarrow> 'c ConfigManager \<Rightarrow> error + 'c ConfigManager" where
  "load_key ops k m =
     (if st_ClientKey (cm_state m) = [] then
        (case Rekey ops k m of Inl _ \<Rightarrow> Inl (Err ''no key present'') | Inr m \<Rightarrow> Inr m)
      else case ParseECPrivateKey ops (st_ClientKey (cm_state m)) of
          Inl _ \<Rightarrow> Inl (Err ''unable to parse client key'')
        | Inr k \<Rightarrow> (case PublicKeyID ops k of
            Inl _ \<Rightarrow> Inl (Err ''unable to create clientID'')
          | Inr i \<Rightarrow> Inr (m\<lparr>cm_id := i\<rparr>)))"

definition initial_manager :: "'c \<Rightarrow> ('p, 'c) Configuration \<Rightarrow> 'p \<Rightarrow> 'c ConfigManager" where
  "initial_manager emptycc cfg p =
     \<lparr>cm_cc = (case cfg_CommunicatorConfig cfg of None \<Rightarrow> emptycc | Some c \<Rightarrow> c),
      cm_state = (case ReadState (config_handler cfg) p of Inr (Some s) \<Rightarrow> s | _ \<Rightarrow> empty_ClientState),
      cm_id = ClientID [], cm_revokedSerials = [], cm_dirty = True, cm_runningServices = [], cm_configChanges = []\<rparr>"

definition load_serials :: "('p, 'c) Configuration \<Rightarrow> 'c ConfigManager \<Rightarrow> 'c ConfigManager" where
  "load_serials cfg m = AddRevokedSerials (cfg_RevokedCertSerials cfg) (AddRevokedSerials (st_RevokedCertSerials (cm_state m)) m)"

definition load_communicator_config :: "('p, 'c) Configuration \<Rightarrow> 'p \<Rightarrow> 'c ConfigManager \<Rightarrow> 'c ConfigManager" where
  "load_communicator_config cfg p m =
     (case ReadCommunicatorConfig (config_handler cfg) p of Inr (Some c) \<Rightarrow> m\<lparr>cm_cc := c\<rparr> | _ \<Rightarrow> m)"

definition StartManager :: "'k key_ops \<Rightarrow> error + 'k \<Rightarrow> 'c \<Rightarrow> ('p, 'c) Configuration option \<Rightarrow> ('p, error + 'c ConfigManager) gofn" where
  "StartManager ops k emptycc cfg0 p = (case cfg0 of
       None \<Rightarrow> Inr (Inl (Err ''configuration must be provided''), p)
     | Some cfg \<Rightarrow>
         if list_ex (\<lambda>l. lbl_service l \<noteq> ''client'' \<or> lbl_label l = []) (cfg_ClientLabels cfg)
         then Inr (Inl (Err ''invalid client label''), p)
         else (case load_key ops k (load_serials cfg (initial_manager emptycc cfg p)) of
             Inl x \<Rightarrow> Inr (Inl x, p)
           | Inr m \<Rightarrow> abind (Sync cfg (load_communicator_config cfg p m)) (\<lambda>(r, m). aret (case r of
                 Some _ \<Rightarrow> Inl (Err ''unable to write initial writeback'')
               | None \<Rightarrow> Inr m)) p))"

definition RecordRunningService :: "string \<Rightarrow> gobytes \<Rightarrow> 'c ConfigManager \<Rightarrow> 'c ConfigManager" where
  "RecordRunningService name sig m = m\<lparr>cm_runningServices := gomap_upd name sig (cm_runningServices m), cm_dirty := True\<rparr>"

definition SetSequencingNonce :: "u64 \<Rightarrow> 'c ConfigManager \<Rightarrow> 'c ConfigManager" where
  "SetSequencingNonce n m = m\<lparr>cm_state := (cm_state m)\<lparr>st_SequencingNonce := n\<rparr>, cm_dirty := True\<rparr>"

definition SendConfigUpdate :: "('p, 'c) Configuration \<Rightarrow> 'c ConfigManager \<Rightarrow> 'c ConfigManager" where
  "SendConfigUpdate cfg m = m\<lparr>cm_configChanges := cm_configChanges m @
     [\<lparr>cid_Labels = cfg_ClientLabels cfg, cid_Services = cm_runningServices m\<rparr>]\<rparr>"

definition ChainRevoked :: "bytes list \<Rightarrow> 'c ConfigManager \<Rightarrow> bool" where
  "ChainRevoked serials m \<longleftrightarrow> list_ex (\<lambda>s. s \<in> set (cm_revokedSerials m)) serials"

section \<open>Writing the state\<close>

definition codec_ok :: "state_codec \<Rightarrow> bool" where
  "codec_ok cd \<longleftrightarrow> (\<forall>s b. marshal_ClientState cd s = Inr b \<longrightarrow> unmarshal_ClientState cd b = Inr s)"

lemma tmp_file_neq [simp]: "tmp_file f \<noteq> f"
  by (simp add: tmp_file_def)

lemma fs_ReadState_cong: "map_of fs f = map_of fs' f \<Longrightarrow> fs_ReadState cd f fs = fs_ReadState cd f fs'"
  by (simp add: fs_ReadState_def os_ReadFile_def)

lemma fs_WriteState_result:
  assumes "fs_WriteState cd f stateFile s fs = Inr (r, fs')" and "stateFile \<noteq> []" and "codec_ok cd"
  shows "fs_ReadState cd stateFile fs' = (case r of None \<Rightarrow> Inr s | Some _ \<Rightarrow> fs_ReadState cd stateFile fs)"
    and "path \<noteq> stateFile \<Longrightarrow> path \<noteq> tmp_file stateFile \<Longrightarrow> map_of fs' path = map_of fs path"
proof -
  let ?tmp = "tmp_file stateFile"
  obtain b where b: "marshal_ClientState cd s = Inr b" "unmarshal_ClientState cd b = Inr s"
    using assms by (cases "marshal_ClientState cd s") (auto simp: codec_ok_def fs_WriteState_def)
  define fs1 where "fs1 = os_RemoveAll (fault_remove f) ?tmp fs"
  have fs1: "map_of fs1 path = map_of fs path" if "path \<noteq> ?tmp" for path
    using that by (simp add: fs1_def os_RemoveAll_def)
  obtain w fs2 where w: "os_WriteFile (fault_write f) ?tmp b fs1 = (w, fs2)" by force
  then have fs2: "map_of fs2 path = map_of fs1 path" if "path \<noteq> ?tmp" for path
    using that by (auto simp: os_WriteFile_def split: write_outcome.splits)
  obtain q fs3 where q: "os_Rename (fault_rename f) ?tmp stateFile fs2 = (q, fs3)" by force
  have good: "r = None \<and> fs' = fs3" if "w = None" "q = None"
    using assms(1,2) that by (simp add: fs_WriteState_def b fs1_def [symmetric] w q Let_def)
  have kept: "fs3 = fs2" if "q \<noteq> None" using q that by (auto simp: os_Rename_def split: if_splits option.splits)
  have bad: "r \<noteq> None \<and> fs' = fs2" if "\<not> (w = None \<and> q = None)"
    using assms(1,2) that kept by (cases w; cases q) (auto simp: fs_WriteState_def b fs1_def [symmetric] w q Let_def)
  have moved: "map_of fs3 = (map_of fs2)(?tmp := None, stateFile \<mapsto> b)" if "w = None" "q = None"
    using w q that by (auto simp: os_WriteFile_def os_Rename_def split: if_splits option.splits write_outcome.splits)
  show "fs_ReadState cd stateFile fs' = (case r of None \<Rightarrow> Inr s | Some _ \<Rightarrow> fs_ReadState cd stateFile fs)"
  proof (cases "w = None \<and> q = None")
    case True
    with good moved have "r = None" "map_of fs' stateFile = Some b" by auto
    with b assms(2) show ?thesis by (simp add: fs_ReadState_def os_ReadFile_def)
  next
    case False
    with bad fs1 fs2 have "r \<noteq> None" "map_of fs' stateFile = map_of fs stateFile"
      by (auto simp: eq_commute [of stateFile])
    then show ?thesis by (auto intro: fs_ReadState_cong)
  qed
  show "map_of fs' path = map_of fs path" if "path \<noteq> stateFile" "path \<noteq> ?tmp"
  proof (cases "w = None \<and> q = None")
    case True
    with that good moved fs1 fs2 show ?thesis by simp
  next
    case False
    with that bad fs1 fs2 show ?thesis by simp
  qed
qed

text \<open>
  C23. Writing the client's state is atomic: whatever fails, a write that stops after any number of bytes
  included, the state file afterwards reads as the new state if \<^verbatim>\<open>WriteState\<close> reported success and as what
  it read before otherwise, and no file but it and its temporary companion changes.
\<close>
theorem state_write_atomic:
  assumes "fs_WriteState cd f stateFile s fs = Inr (r, fs')" and "stateFile \<noteq> []" and "codec_ok cd"
  shows "fs_ReadState cd stateFile fs' = (case r of None \<Rightarrow> Inr s | Some _ \<Rightarrow> fs_ReadState cd stateFile fs)
    \<and> (path \<noteq> stateFile \<and> path \<noteq> tmp_file stateFile \<longrightarrow> map_of fs' path = map_of fs path)"
  using fs_WriteState_result [OF assms] by blast

text \<open>
  A concrete encoding of the state, for the instances: the nonce in unary, every byte of a string after a
  1, a 0 at the end of each string and of the list of serials.
\<close>

definition enc_bytes :: "bytes \<Rightarrow> bytes" where
  "enc_bytes b = concat (map (\<lambda>x. [1, x]) b) @ [0]"

fun dec_bytes :: "bytes \<Rightarrow> (bytes \<times> bytes) option" where
  "dec_bytes (t # r) = (if t = 0 then Some ([], r) else case r of
      [] \<Rightarrow> None | x # r \<Rightarrow> map_option (\<lambda>(b, r). (x # b, r)) (dec_bytes r))"
| "dec_bytes [] = None"

definition enc_state :: "ClientState \<Rightarrow> bytes" where
  "enc_state s = concat (map enc_bytes (st_ClientKey s # replicate (unat (st_SequencingNonce s)) 1 # st_RevokedCertSerials s))"

fun dec_list :: "nat \<Rightarrow> bytes \<Rightarrow> bytes list option" where
  "dec_list n [] = Some []"
| "dec_list 0 (b # bs) = None"
| "dec_list (Suc n) (b # bs) = (case dec_bytes (b # bs) of
      None \<Rightarrow> None | Some (x, r) \<Rightarrow> map_option (\<lambda>xs. x # xs) (dec_list n r))"

definition test_codec :: state_codec where
  "test_codec = \<lparr>marshal_ClientState = (\<lambda>s. Inr (enc_state s)),
     unmarshal_ClientState = (\<lambda>b. case dec_list (length b) b of
       Some (k # n # r) \<Rightarrow> Inr \<lparr>st_ClientKey = k, st_SequencingNonce = of_nat (length n), st_RevokedCertSerials = r\<rparr>
     | _ \<Rightarrow> Inl (Err ''bad state''))\<rparr>"

lemma dec_enc_bytes: "dec_bytes (enc_bytes b @ r) = Some (b, r)"
  by (induction b) (simp_all add: enc_bytes_def)

lemma enc_bytes_ne [simp]: "enc_bytes b \<noteq> []"
  by (simp add: enc_bytes_def)

lemma dec_enc_list: "length xs \<le> n \<Longrightarrow> dec_list n (concat (map enc_bytes xs)) = Some xs"
proof (induction xs arbitrary: n)
  case (Cons x xs)
  then obtain n' where n: "n = Suc n'" "length xs \<le> n'" by (cases n) auto
  obtain b bs where b: "concat (map enc_bytes (x # xs)) = b # bs" by (cases "enc_bytes x") simp_all
  have "dec_bytes (b # bs) = Some (x, concat (map enc_bytes xs))"
    using dec_enc_bytes [of x "concat (map enc_bytes xs)"] b by simp
  with Cons.IH [OF n(2)] show ?case by (simp only: b n dec_list.simps) simp
qed simp

lemma length_enc: "length xs \<le> length (concat (map enc_bytes xs))"
  by (induction xs) (simp_all add: enc_bytes_def trans_le_add2)

lemma test_codec_ok: "codec_ok test_codec"
  using dec_enc_list [OF length_enc] by (simp add: codec_ok_def test_codec_def enc_state_def del: concat.simps list.map)

definition torn_write :: os_faults where
  "torn_write = \<lparr>fault_remove = False, fault_write = Torn 2, fault_rename = False\<rparr>"

definition test_disk :: files where
  "test_disk = [(''/state'', enc_state \<lparr>st_ClientKey = [9], st_SequencingNonce = 2, st_RevokedCertSerials = []\<rparr>)]"

definition torn_disk :: files where
  "torn_disk = [(''/state'', [1, 9, 0, 1, 1, 1, 1, 0]), (''/state.new'', [1, 9])]"

lemma torn_write_run:
  "fs_WriteState test_codec torn_write ''/state'' \<lparr>st_ClientKey = [9], st_SequencingNonce = 7, st_RevokedCertSerials = []\<rparr> test_disk
    = Inr (Some (Err ''unable to write new configuration''), torn_disk)"
  by code_simp

theorem state_write_atomic_witness:
  "fs_ReadState test_codec ''/state'' torn_disk = Inr \<lparr>st_ClientKey = [9], st_SequencingNonce = 2, st_RevokedCertSerials = []\<rparr>"
proof -
  have "fs_ReadState test_codec ''/state'' test_disk = Inr \<lparr>st_ClientKey = [9], st_SequencingNonce = 2, st_RevokedCertSerials = []\<rparr>"
    by code_simp
  then show ?thesis using state_write_atomic [OF torn_write_run _ test_codec_ok, of "''/other''"] by simp
qed

section \<open>Restarts\<close>

definition codec_total :: "state_codec \<Rightarrow> bool" where
  "codec_total cd \<longleftrightarrow> (\<forall>s. \<exists>b. marshal_ClientState cd s = Inr b)"

definition keys_ok :: "'k key_ops \<Rightarrow> bool" where
  "keys_ok ops \<longleftrightarrow> (\<forall>k b. MarshalECPrivateKey ops k = Inr b \<longrightarrow> b \<noteq> [] \<and> ParseECPrivateKey ops b = Inr k)"

definition file_config :: "state_codec \<Rightarrow> (bytes \<Rightarrow> error + 'c) \<Rightarrow> string \<Rightarrow> string \<Rightarrow> (files, 'c) Configuration
    \<Rightarrow> os_faults \<Rightarrow> (files, 'c) Configuration" where
  "file_config cd ut configurationPath stateFile cfg f =
     cfg\<lparr>cfg_PersistenceHandler := Some (FilesystemPersistenceHandler cd ut f configurationPath stateFile)\<rparr>"

definition no_faults :: os_faults where
  "no_faults = \<lparr>fault_remove = False, fault_write = Written, fault_rename = False\<rparr>"

text \<open>
  The states of a manager and the disk: \<^verbatim>\<open>StartManager\<close> on any disk, then any sequence of the operations
  of the manager, every write with any fault. A restart is a new start on the disk that is left.
\<close>

inductive manager_reach :: "'k key_ops \<Rightarrow> 'c \<Rightarrow> (os_faults \<Rightarrow> (files, 'c) Configuration)
    \<Rightarrow> 'c ConfigManager \<Rightarrow> files \<Rightarrow> bool"
  for ops emptycc cfg where
  start: "StartManager ops k emptycc (Some (cfg f)) fs = Inr (Inr m, fs') \<Longrightarrow> manager_reach ops emptycc cfg m fs'"
| revoke: "manager_reach ops emptycc cfg m fs \<Longrightarrow> manager_reach ops emptycc cfg (AddRevokedSerials r m) fs"
| rekey: "manager_reach ops emptycc cfg m fs \<Longrightarrow> Rekey ops k m = Inr m' \<Longrightarrow> manager_reach ops emptycc cfg m' fs"
| nonce: "manager_reach ops emptycc cfg m fs \<Longrightarrow> manager_reach ops emptycc cfg (SetSequencingNonce n m) fs"
| service: "manager_reach ops emptycc cfg m fs \<Longrightarrow> manager_reach ops emptycc cfg (RecordRunningService s sig m) fs"
| update: "manager_reach ops emptycc cfg m fs \<Longrightarrow> manager_reach ops emptycc cfg (SendConfigUpdate (cfg f) m) fs"
| sync: "manager_reach ops emptycc cfg m fs \<Longrightarrow> Sync (cfg f) m fs = Inr ((r, m'), fs')
    \<Longrightarrow> manager_reach ops emptycc cfg m' fs'"

text \<open>The invariant: the key gives the id, the set of revoked serials is the one in the state, and a manager
  that is not dirty has its state on disk.\<close>

definition identified :: "'k key_ops \<Rightarrow> 'c ConfigManager \<Rightarrow> bool" where
  "identified ops m \<longleftrightarrow> st_ClientKey (cm_state m) \<noteq> [] \<and>
     (\<exists>k. ParseECPrivateKey ops (st_ClientKey (cm_state m)) = Inr k \<and> PublicKeyID ops k = Inr (cm_id m))"

definition serials_agree :: "'c ConfigManager \<Rightarrow> bool" where
  "serials_agree m \<longleftrightarrow> set (cm_revokedSerials m) = set (st_RevokedCertSerials (cm_state m))"

definition persisted :: "state_codec \<Rightarrow> string \<Rightarrow> 'c ConfigManager \<Rightarrow> files \<Rightarrow> bool" where
  "persisted cd stateFile m fs \<longleftrightarrow> \<not> cm_dirty m \<longrightarrow> fs_ReadState cd stateFile fs = Inr (cm_state m)"

lemma AddRevokedSerials_Nil: "AddRevokedSerials [] m = m"
  by (simp add: AddRevokedSerials_def)

lemma AddRevokedSerials_Cons: "AddRevokedSerials (s # r) m = AddRevokedSerials r (if s \<in> set (cm_revokedSerials m) then m
     else m\<lparr>cm_revokedSerials := s # cm_revokedSerials m,
            cm_state := (cm_state m)\<lparr>st_RevokedCertSerials := st_RevokedCertSerials (cm_state m) @ [s]\<rparr>,
            cm_dirty := True\<rparr>)"
  by (simp add: AddRevokedSerials_def)

lemmas AddRevokedSerials_rec = AddRevokedSerials_Nil AddRevokedSerials_Cons

lemma AddRevokedSerials_frame [simp]:
  "cm_id (AddRevokedSerials r m) = cm_id m"
  "st_ClientKey (cm_state (AddRevokedSerials r m)) = st_ClientKey (cm_state m)"
  "st_SequencingNonce (cm_state (AddRevokedSerials r m)) = st_SequencingNonce (cm_state m)"
  "set (cm_revokedSerials (AddRevokedSerials r m)) = set (cm_revokedSerials m) \<union> set r"
  by (induction r arbitrary: m; simp add: AddRevokedSerials_rec insert_absorb; fastforce)+

lemma AddRevokedSerials_state_set:
  "set (cm_revokedSerials m) \<subseteq> set (st_RevokedCertSerials (cm_state m)) \<Longrightarrow>
   set (st_RevokedCertSerials (cm_state (AddRevokedSerials r m))) = set (st_RevokedCertSerials (cm_state m)) \<union> set r"
proof (induction r arbitrary: m)
  case (Cons s r)
  show ?case
  proof (cases "s \<in> set (cm_revokedSerials m)")
    case True
    with Cons show ?thesis by (auto simp: AddRevokedSerials_rec)
  next
    case False
    with Cons.prems show ?thesis by (subst AddRevokedSerials_Cons, simp, subst Cons.IH) auto
  qed
qed (simp add: AddRevokedSerials_rec)

lemma AddRevokedSerials_clean: "cm_dirty (AddRevokedSerials r m) \<or> AddRevokedSerials r m = m"
proof (induction r arbitrary: m)
  case (Cons s r)
  have dirty: "cm_dirty (AddRevokedSerials q n)" if "cm_dirty n" for q and n :: "'a ConfigManager"
    using that by (induction q arbitrary: n) (auto simp: AddRevokedSerials_rec)
  show ?case using Cons by (auto simp: AddRevokedSerials_rec dirty)
qed (simp add: AddRevokedSerials_rec)

lemma AddRevokedSerials_growth:
  "length (st_RevokedCertSerials (cm_state (AddRevokedSerials r m))) + length (cm_revokedSerials m) =
   length (st_RevokedCertSerials (cm_state m)) + length (cm_revokedSerials (AddRevokedSerials r m))"
proof (induction r arbitrary: m)
  case (Cons s r)
  let ?m = "m\<lparr>cm_revokedSerials := s # cm_revokedSerials m,
    cm_state := (cm_state m)\<lparr>st_RevokedCertSerials := st_RevokedCertSerials (cm_state m) @ [s]\<rparr>, cm_dirty := True\<rparr>"
  show ?case using Cons.IH [of m] Cons.IH [of ?m] by (simp add: AddRevokedSerials_Cons)
qed (simp add: AddRevokedSerials_rec)

lemma AddRevokedSerials_distinct:
  "distinct (cm_revokedSerials m) \<Longrightarrow> distinct (cm_revokedSerials (AddRevokedSerials r m))"
  by (induction r arbitrary: m) (simp_all add: AddRevokedSerials_rec)

lemma Rekey_identifies:
  assumes "Rekey ops k m = Inr m'" and "keys_ok ops"
  shows "identified ops m'" "cm_dirty m'" "cm_revokedSerials m' = cm_revokedSerials m"
    "st_RevokedCertSerials (cm_state m') = st_RevokedCertSerials (cm_state m)"
  using assms by (auto simp: Rekey_def identified_def keys_ok_def split: sum.splits)

lemma load_key_identifies:
  assumes "load_key ops k m = Inr m'" and "keys_ok ops"
  shows "identified ops m'" "cm_revokedSerials m' = cm_revokedSerials m"
    "st_RevokedCertSerials (cm_state m') = st_RevokedCertSerials (cm_state m)"
proof -
  have "identified ops m' \<and> cm_revokedSerials m' = cm_revokedSerials m \<and>
      st_RevokedCertSerials (cm_state m') = st_RevokedCertSerials (cm_state m)"
  proof (cases "st_ClientKey (cm_state m) = []")
    case True
    with assms(1) have "Rekey ops k m = Inr m'" by (simp add: load_key_def split: sum.splits)
    from Rekey_identifies [OF this assms(2)] show ?thesis by simp
  next
    case False
    with assms(1) show ?thesis by (auto simp: load_key_def identified_def split: sum.splits)
  qed
  then show "identified ops m'" "cm_revokedSerials m' = cm_revokedSerials m"
    "st_RevokedCertSerials (cm_state m') = st_RevokedCertSerials (cm_state m)" by blast+
qed

text \<open>\<open>Sync\<close> only clears the flag, and only when the disk has the state.\<close>

lemma Sync_result:
  assumes "Sync (file_config cd ut cp stateFile cfg f) m fs = Inr ((r, m'), fs')" and "stateFile \<noteq> []" and "codec_ok cd"
    and "persisted cd stateFile m fs"
  shows "persisted cd stateFile m' fs'" "cm_id m' = cm_id m" "cm_state m' = cm_state m"
    "cm_revokedSerials m' = cm_revokedSerials m" "r = None \<Longrightarrow> \<not> cm_dirty m'"
proof -
  have "persisted cd stateFile m' fs' \<and> cm_id m' = cm_id m \<and> cm_state m' = cm_state m \<and>
      cm_revokedSerials m' = cm_revokedSerials m \<and> (r = None \<longrightarrow> \<not> cm_dirty m')"
  proof (cases "cm_dirty m")
    case True
    with assms(1) obtain q where q: "fs_WriteState cd f stateFile (cm_state m) fs = Inr (q, fs')"
        "m' = (if q = None then m\<lparr>cm_dirty := False\<rparr> else m)" "r = None \<longleftrightarrow> q = None"
      by (auto simp: Sync_def doSync_def abind_def aret_def file_config_def config_handler_def
          FilesystemPersistenceHandler_def split: sum.splits option.splits prod.splits)
    from fs_WriteState_result(1) [OF q(1) assms(2,3)] q(2,3) True show ?thesis
      by (auto simp: persisted_def split: if_splits)
  next
    case False
    with assms(1,4) show ?thesis by (auto simp: Sync_def aret_def)
  qed
  then show "persisted cd stateFile m' fs'" "cm_id m' = cm_id m" "cm_state m' = cm_state m"
    "cm_revokedSerials m' = cm_revokedSerials m" "r = None \<Longrightarrow> \<not> cm_dirty m'" by blast+
qed

text \<open>The parts of a successful \<^verbatim>\<open>StartManager\<close>.\<close>

lemma StartManager_parts:
  assumes "StartManager ops k emptycc (Some cfg) p = Inr (Inr m', p')"
  obtains m where "load_key ops k (load_serials cfg (initial_manager emptycc cfg p)) = Inr m"
    and "Sync cfg (load_communicator_config cfg p m) p = Inr ((None, m'), p')"
proof (cases "load_key ops k (load_serials cfg (initial_manager emptycc cfg p))")
  case (Inl x)
  with assms show ?thesis by (simp add: StartManager_def split: if_splits)
next
  case (Inr m)
  let ?sync = "Sync cfg (load_communicator_config cfg p m) p"
  have "abind (\<lambda>p. ?sync) (\<lambda>(r, m). aret (case r of Some _ \<Rightarrow> Inl (Err ''unable to write initial writeback'') | None \<Rightarrow> Inr m)) p
      = Inr (Inr m', p')"
    using assms Inr by (simp add: StartManager_def abind_def split: if_splits)
  then have "?sync = Inr ((None, m'), p')"
    by (auto simp: abind_def aret_def split: sum.splits option.splits prod.splits)
  with Inr show ?thesis by (rule that)
qed

lemma load_communicator_config_frame [simp]:
  "cm_id (load_communicator_config cfg p m) = cm_id m"
  "cm_state (load_communicator_config cfg p m) = cm_state m"
  "cm_revokedSerials (load_communicator_config cfg p m) = cm_revokedSerials m"
  "cm_dirty (load_communicator_config cfg p m) = cm_dirty m"
  by (simp_all add: load_communicator_config_def split: sum.splits option.splits)

lemma load_serials_frame [simp]:
  "cm_id (load_serials cfg m) = cm_id m"
  "st_ClientKey (cm_state (load_serials cfg m)) = st_ClientKey (cm_state m)"
  "st_SequencingNonce (cm_state (load_serials cfg m)) = st_SequencingNonce (cm_state m)"
  "set (cm_revokedSerials (load_serials cfg m)) =
     set (cm_revokedSerials m) \<union> set (st_RevokedCertSerials (cm_state m)) \<union> set (cfg_RevokedCertSerials cfg)"
  by (simp_all add: load_serials_def)

lemma load_serials_dirty: "cm_dirty m \<Longrightarrow> cm_dirty (load_serials cfg m)"
  by (metis AddRevokedSerials_clean load_serials_def)

lemma load_key_dirty: "load_key ops k m = Inr m' \<Longrightarrow> cm_dirty m \<Longrightarrow> cm_dirty m'"
  by (auto simp: load_key_def Rekey_def split: if_splits sum.splits)

lemma load_serials_agree: "cm_revokedSerials m = [] \<Longrightarrow> serials_agree (load_serials cfg m)"
  by (simp add: load_serials_def serials_agree_def AddRevokedSerials_state_set)

lemma initial_manager_simps [simp]:
  "cm_revokedSerials (initial_manager emptycc cfg p) = []" "cm_dirty (initial_manager emptycc cfg p)"
  by (simp_all add: initial_manager_def)

lemma StartManager_result:
  assumes "StartManager ops k emptycc (Some (file_config cd ut cp stateFile cfg f)) fs = Inr (Inr m, fs')"
    and "stateFile \<noteq> []" and "codec_ok cd" and "keys_ok ops"
  shows "identified ops m" "serials_agree m" "persisted cd stateFile m fs'" "\<not> cm_dirty m"
proof -
  let ?cfg = "file_config cd ut cp stateFile cfg f"
  obtain n where n: "load_key ops k (load_serials ?cfg (initial_manager emptycc ?cfg fs)) = Inr n"
      "Sync ?cfg (load_communicator_config ?cfg fs n) fs = Inr ((None, m), fs')"
    using StartManager_parts [OF assms(1)] .
  have "persisted cd stateFile (load_communicator_config ?cfg fs n) fs"
    using load_key_dirty [OF n(1)] by (simp add: persisted_def load_serials_dirty)
  from Sync_result [OF n(2) assms(2,3) this]
  have m: "persisted cd stateFile m fs'" "cm_id m = cm_id n" "cm_state m = cm_state n"
      "cm_revokedSerials m = cm_revokedSerials n" "\<not> cm_dirty m" by simp_all
  from load_key_identifies [OF n(1) assms(4)] load_serials_agree [of "initial_manager emptycc ?cfg fs" ?cfg] m
  show "identified ops m" "serials_agree m" "persisted cd stateFile m fs'" "\<not> cm_dirty m"
    by (simp_all add: identified_def serials_agree_def)
qed

definition labels_ok :: "('p, 'c) Configuration \<Rightarrow> bool" where
  "labels_ok cfg \<longleftrightarrow> \<not> list_ex (\<lambda>l. lbl_service l \<noteq> ''client'' \<or> lbl_label l = []) (cfg_ClientLabels cfg)"

lemma StartManager_labels: "StartManager ops k emptycc (Some cfg) fs = Inr (Inr m, fs') \<Longrightarrow> labels_ok cfg"
  by (simp add: StartManager_def labels_ok_def split: if_splits)

lemma file_config_simps [simp]:
  "labels_ok (file_config cd ut cp stateFile cfg f) = labels_ok cfg"
  "cfg_RevokedCertSerials (file_config cd ut cp stateFile cfg f) = cfg_RevokedCertSerials cfg"
  "ReadState (config_handler (file_config cd ut cp stateFile cfg f)) fs = map_sum (\<lambda>e. e) Some (fs_ReadState cd stateFile fs)"
  by (simp_all add: file_config_def labels_ok_def config_handler_def FilesystemPersistenceHandler_def)

lemma manager_reach_invariant:
  assumes "manager_reach ops emptycc (file_config cd ut cp stateFile cfg) m fs"
    and "stateFile \<noteq> []" and "codec_ok cd" and "keys_ok ops"
  shows "identified ops m \<and> serials_agree m \<and> persisted cd stateFile m fs \<and> labels_ok cfg"
  using assms(1)
proof induction
  case (start k f fs m fs')
  from StartManager_result [OF start assms(2-4)] StartManager_labels [OF start] show ?case by simp
next
  case (revoke m fs r)
  then show ?case using AddRevokedSerials_clean [of r m]
    by (auto simp: identified_def serials_agree_def persisted_def AddRevokedSerials_state_set)
next
  case (rekey m fs k m')
  from Rekey_identifies [OF rekey(2) assms(4)] rekey.IH show ?case by (simp add: serials_agree_def persisted_def)
next
  case (sync m fs f r m' fs')
  then have p: "persisted cd stateFile m fs" by blast
  from Sync_result(1-4) [OF sync(2) assms(2,3) p] sync.IH show ?case by (simp add: identified_def serials_agree_def)
qed (simp_all add: identified_def serials_agree_def persisted_def SetSequencingNonce_def RecordRunningService_def SendConfigUpdate_def)

lemma fs_WriteState_no_faults:
  "codec_total cd \<Longrightarrow> \<exists>fs'. fs_WriteState cd no_faults stateFile s fs = Inr (None, fs')"
  by (auto simp: fs_WriteState_def codec_total_def no_faults_def os_WriteFile_def os_Rename_def Let_def split: sum.splits)
    (metis sum.distinct(1))

lemma StartManager_runs:
  assumes "labels_ok cfg" and "codec_total cd"
    and "load_key ops k (load_serials (file_config cd ut cp stateFile cfg no_faults)
      (initial_manager emptycc (file_config cd ut cp stateFile cfg no_faults) fs)) = Inr n"
  shows "\<exists>m fs'. StartManager ops k emptycc (Some (file_config cd ut cp stateFile cfg no_faults)) fs = Inr (Inr m, fs') \<and>
    cm_id m = cm_id n \<and> cm_state m = cm_state n \<and> cm_revokedSerials m = cm_revokedSerials n"
proof -
  let ?cfg = "file_config cd ut cp stateFile cfg no_faults"
  let ?n = "load_communicator_config ?cfg fs n"
  obtain fs' where w: "fs_WriteState cd no_faults stateFile (cm_state ?n) fs = Inr (None, fs')"
    using fs_WriteState_no_faults [OF assms(2)] by blast
  have d: "cm_dirty ?n" using load_key_dirty [OF assms(3)] by (simp add: load_serials_dirty)
  have "Sync ?cfg ?n fs = Inr ((None, ?n\<lparr>cm_dirty := False\<rparr>), fs')"
    using w d by (simp add: Sync_def doSync_def abind_def aret_def file_config_def config_handler_def FilesystemPersistenceHandler_def)
  then have "StartManager ops k emptycc (Some ?cfg) fs = Inr (Inr (?n\<lparr>cm_dirty := False\<rparr>), fs')"
    using assms(1,3) by (simp add: StartManager_def labels_ok_def file_config_def abind_def aret_def)
  then show ?thesis by fastforce
qed

text \<open>
  C22. A client keeps its identity across restarts. Take any manager that has been started and used in any
  way, with any failures of the disk, and that has synced since its last change; a start on the disk it
  leaves, without failures, succeeds and has the same client id, the same key and sequencing nonce, and
  knows every revoked serial the old one knew and those of the configuration.
\<close>
theorem restart_keeps_identity:
  assumes "manager_reach ops emptycc (file_config cd ut cp stateFile cfg) m fs" and "\<not> cm_dirty m"
    and "stateFile \<noteq> []" and "codec_ok cd" and "codec_total cd" and "keys_ok ops"
  shows "\<exists>m' fs'. StartManager ops k emptycc (Some (file_config cd ut cp stateFile cfg no_faults)) fs = Inr (Inr m', fs') \<and>
    cm_id m' = cm_id m \<and> st_ClientKey (cm_state m') = st_ClientKey (cm_state m) \<and>
    st_SequencingNonce (cm_state m') = st_SequencingNonce (cm_state m) \<and>
    set (cm_revokedSerials m') = set (cm_revokedSerials m) \<union> set (cfg_RevokedCertSerials cfg)"
proof -
  let ?cfg = "file_config cd ut cp stateFile cfg no_faults"
  let ?n = "load_serials ?cfg (initial_manager emptycc ?cfg fs)"
  have inv: "identified ops m" "serials_agree m" "persisted cd stateFile m fs" "labels_ok cfg"
    using manager_reach_invariant [OF assms(1,3,4,6)] by blast+
  have st: "cm_state (initial_manager emptycc ?cfg fs) = cm_state m"
    using inv(3) assms(2) by (simp add: initial_manager_def persisted_def)
  have "load_key ops k ?n = Inr (?n\<lparr>cm_id := cm_id m\<rparr>)"
    using inv(1) by (auto simp: load_key_def identified_def st)
  from StartManager_runs [OF inv(4) assms(5) this] inv(2) show ?thesis by (auto simp: st serials_agree_def)
qed

text \<open>
  The persisted list of revoked serials grows with every start: the list read from disk is added to the
  manager's state, which already holds it, so that each start adds one more copy of every distinct serial.
\<close>
lemma restart_duplicates_serials:
  assumes "StartManager ops k emptycc (Some cfg) p = Inr (Inr m, p')"
    and "ReadState (config_handler cfg) p = Inr (Some s)"
  shows "length (st_RevokedCertSerials (cm_state m)) =
    length (st_RevokedCertSerials s) + card (set (st_RevokedCertSerials s) \<union> set (cfg_RevokedCertSerials cfg))"
proof -
  let ?m0 = "initial_manager emptycc cfg p" and ?n = "load_serials cfg (initial_manager emptycc cfg p)"
  obtain n where n: "load_key ops k ?n = Inr n"
      "Sync cfg (load_communicator_config cfg p n) p = Inr ((None, m), p')"
    using StartManager_parts [OF assms(1)] .
  have "cm_state m = cm_state n"
    using n(2) by (auto simp: Sync_def doSync_def abind_def aret_def split: if_splits sum.splits option.splits prod.splits)
  moreover have "st_RevokedCertSerials (cm_state n) = st_RevokedCertSerials (cm_state ?n)"
    using n(1) by (auto simp: load_key_def Rekey_def split: if_splits sum.splits)
  moreover have s: "cm_state ?m0 = s" using assms(2) by (simp add: initial_manager_def)
  moreover have "distinct (cm_revokedSerials ?n)"
    by (simp add: load_serials_def AddRevokedSerials_distinct)
  then have "length (cm_revokedSerials ?n) = card (set (st_RevokedCertSerials s) \<union> set (cfg_RevokedCertSerials cfg))"
    using distinct_card by (fastforce simp: s)
  moreover have "length (st_RevokedCertSerials (cm_state ?n)) = length (st_RevokedCertSerials s) + length (cm_revokedSerials ?n)"
    using AddRevokedSerials_growth [of "st_RevokedCertSerials s" ?m0]
      AddRevokedSerials_growth [of "cfg_RevokedCertSerials cfg" "AddRevokedSerials (st_RevokedCertSerials s) ?m0"]
    by (simp add: load_serials_def s)
  ultimately show ?thesis by simp
qed

section \<open>An instance\<close>

definition test_keys :: "u8 key_ops" where
  "test_keys = \<lparr>MarshalECPrivateKey = (\<lambda>k. Inr [k]),
     ParseECPrivateKey = (\<lambda>b. case b of [k] \<Rightarrow> Inr k | _ \<Rightarrow> Inl (Err ''bad key'')),
     PublicKeyID = (\<lambda>k. Inr (ClientID [0, 0, 0, 0, 0, 0, 0, k]))\<rparr>"

lemma test_keys_ok: "keys_ok test_keys"
  by (simp add: keys_ok_def test_keys_def)

lemma test_codec_total: "codec_total test_codec"
  by (simp add: codec_total_def test_codec_def)

definition test_config :: "os_faults \<Rightarrow> (files, unit) Configuration" where
  "test_config = file_config test_codec (\<lambda>b. Inr ()) ''/etc'' ''/state''
     \<lparr>cfg_ClientLabels = [], cfg_PersistenceHandler = None, cfg_CommunicatorConfig = None, cfg_RevokedCertSerials = [[4]]\<rparr>"

definition test_manager :: "u8 \<Rightarrow> u64 \<Rightarrow> bytes list \<Rightarrow> bytes list \<Rightarrow> bool \<Rightarrow> unit ConfigManager" where
  "test_manager k n r rs d = \<lparr>cm_cc = (), cm_state = \<lparr>st_ClientKey = [k], st_SequencingNonce = n, st_RevokedCertSerials = rs\<rparr>,
     cm_id = ClientID [0, 0, 0, 0, 0, 0, 0, k], cm_revokedSerials = r, cm_dirty = d, cm_runningServices = [], cm_configChanges = []\<rparr>"

definition test_state :: "u8 \<Rightarrow> u64 \<Rightarrow> bytes list \<Rightarrow> files" where
  "test_state k n rs = [(''/state'', enc_state \<lparr>st_ClientKey = [k], st_SequencingNonce = n, st_RevokedCertSerials = rs\<rparr>)]"

text \<open>The first start of a client on an empty disk, a new nonce, and a sync.\<close>

lemma test_start: "StartManager test_keys (Inr 3) () (Some (test_config no_faults)) [] =
    Inr (Inr (test_manager 3 0 [[4]] [[4]] False), test_state 3 0 [[4]])"
  by code_simp

lemma test_nonce: "SetSequencingNonce 2 (test_manager 3 0 [[4]] [[4]] False) = test_manager 3 2 [[4]] [[4]] True"
  by (simp add: SetSequencingNonce_def test_manager_def)

lemma test_sync: "Sync (test_config no_faults) (test_manager 3 2 [[4]] [[4]] True) (test_state 3 0 [[4]]) =
    Inr ((None, test_manager 3 2 [[4]] [[4]] False), test_state 3 2 [[4]])"
  by code_simp

lemma test_reach: "manager_reach test_keys () test_config (test_manager 3 2 [[4]] [[4]] False) (test_state 3 2 [[4]])"
proof -
  have "manager_reach test_keys () test_config (test_manager 3 0 [[4]] [[4]] False) (test_state 3 0 [[4]])"
    by (rule manager_reach.start [where cfg = test_config, OF test_start])
  then have "manager_reach test_keys () test_config (test_manager 3 2 [[4]] [[4]] True) (test_state 3 0 [[4]])"
    using manager_reach.nonce test_nonce by metis
  then show ?thesis by (rule manager_reach.sync [where cfg = test_config and f = no_faults, OF _ test_sync])
qed

theorem restart_keeps_identity_witness:
  "\<exists>m fs. StartManager test_keys (Inr 5) () (Some (test_config no_faults)) (test_state 3 2 [[4]]) = Inr (Inr m, fs) \<and>
     cm_id m = ClientID [0, 0, 0, 0, 0, 0, 0, 3] \<and> st_ClientKey (cm_state m) = [3] \<and>
     st_SequencingNonce (cm_state m) = 2 \<and> set (cm_revokedSerials m) = {[4]}"
  using restart_keeps_identity [OF test_reach [unfolded test_config_def] _ _ test_codec_ok test_codec_total test_keys_ok, of "Inr 5"]
  by (simp add: test_config_def test_manager_def)

lemma restart_duplicates_serials_instance:
  "length (st_RevokedCertSerials (cm_state (test_manager 3 2 [[4]] [[4], [4]] False))) = 2"
proof -
  have run: "StartManager test_keys (Inr 5) () (Some (test_config no_faults)) (test_state 3 2 [[4]]) =
      Inr (Inr (test_manager 3 2 [[4]] [[4], [4]] False), test_state 3 2 [[4], [4]])" by code_simp
  have read: "ReadState (config_handler (test_config no_faults)) (test_state 3 2 [[4]]) =
      Inr (Some \<lparr>st_ClientKey = [3], st_SequencingNonce = 2, st_RevokedCertSerials = [[4]]\<rparr>)" by code_simp
  show ?thesis using restart_duplicates_serials [OF run read] by (simp add: test_config_def)
qed

end
