(* ===== verification/Client_Services.thy ===== *)
theory Client_Services
  imports Client_Config
begin

text \<open>
  The services of a client and the messages that move between them: \<^verbatim>\<open>fleetspeak/src/client/services.go\<close>,
  \<^verbatim>\<open>ProcessMessage\<close> of \<^verbatim>\<open>client.go\<close>, \<^verbatim>\<open>system_service.go\<close> and the contact data of
  \<^verbatim>\<open>comms.go\<close>.

  Goroutines interleave at every point where another one can observe a difference, so an operation that
  blocks or unlocks in its middle is several steps: \<^verbatim>\<open>ProcessMessage\<close> looks its target up, then puts the
  message in the inbox, then counts it; a processing loop takes a message, calls the service, then reports.
  A pointer to a \<^verbatim>\<open>serviceData\<close> is an index of \<open>cl_heap\<close>, so that a goroutine can hold one that has left
  the map of services. Sending on a closed channel and closing it twice end the process.

  What a service answers, what a factory does, random bytes and encodings are inputs. The shutdown of a
  client is modelled up to the decision to stop.
\<close>

unbundle bit_operations_syntax

definition inboxSize :: nat where
  "inboxSize = 100"

definition systemInboxSize :: nat where
  "systemInboxSize = 5"

record ClientServiceConfig =
  csc_Name :: string
  csc_Factory :: string
  csc_RequiredLabels :: "Label list"

datatype report = Ack MessageID | ErrorData MessageID string

fun report_id :: "report \<Rightarrow> MessageID" where
  "report_id (Ack i) = i"
| "report_id (ErrorData i s) = i"

text \<open>
  Where a processing loop is: waiting on its inbox, in the service's \<^verbatim>\<open>ProcessMessage\<close>, in the
  \<^verbatim>\<open>stop\<close> of another instance on behalf of a \<^verbatim>\<open>RestartService\<close> message (before and after the close, with
  the flag telling that the service is still to be installed again), sending its report, or returned.
\<close>

datatype loop_phase = Idle | Running Message | Closing Message nat bool | Waiting Message nat bool
  | Reporting report | Returned_loop

text \<open>
  \<open>sd_counting\<close> is the number of goroutines that have put a message in the inbox and not yet counted it;
  \<open>h_accepted\<close>, \<open>h_taken\<close> and \<open>h_reported\<close> are the history of the instance, which no operation reads.
\<close>

record serviceData =
  sd_name :: string
  sd_serviceConfig :: "ClientServiceConfig option"
  sd_inbox :: "Message list"
  sd_capacity :: nat
  sd_closed :: bool
  sd_acceptCount :: u64
  sd_processedCount :: u64
  sd_counting :: nat
  sd_phase :: loop_phase
  h_accepted :: "Message list"
  h_taken :: "Message list"
  h_reported :: "report list"

datatype main_phase = MainReady | MainClosing nat | MainWaiting nat

record 'c client =
  cl_config :: "'c ConfigManager"
  cl_ClientLabels :: "Label list"
  cl_heap :: "serviceData list"
  cl_services :: "(string, nat) gomap"
  cl_acks :: "MessageID list"
  cl_errs :: "(MessageID \<times> string) list"
  cl_processingBeacon :: bool
  cl_senders :: "(nat \<times> Message) list"
  cl_outgoing :: "Message list"
  cl_outLow :: "Message list"
  cl_outMedium :: "Message list"
  cl_outHigh :: "Message list"
  cl_main :: main_phase
  cl_stopping :: bool

record 'k client_codec =
  any_MessageAckData :: "gobytes list \<Rightarrow> error + AnyData"
  any_MessageErrorData :: "gobytes \<times> string \<Rightarrow> error + AnyData"
  any_ClientInfoData :: "ClientInfoData \<Rightarrow> error + AnyData"
  get_DieRequest :: "AnyData option \<Rightarrow> error + bool"
  get_RestartServiceRequest :: "AnyData option \<Rightarrow> error + string"
  client_keys :: "'k key_ops"

section \<open>The routing of messages\<close>

text \<open>
  \<^verbatim>\<open>Client.ProcessMessage\<close> up to its blocking \<^verbatim>\<open>select\<close>: a message for this client waits for room in the
  inbox of its service, one for the server for the retry loop of its priority.
\<close>

definition serviceConfiguration_ProcessMessage :: "Message \<Rightarrow> 'c client \<Rightarrow> error option \<times> 'c client" where
  "serviceConfiguration_ProcessMessage m c = (case map_of (cl_services c) (addr_service (Destination m)) of
       None \<Rightarrow> (Some (Err ''destination service not installed''), c)
     | Some target \<Rightarrow> (None, c\<lparr>cl_senders := cl_senders c @ [(target, m)]\<rparr>))"

definition out_priority :: "Message \<Rightarrow> Message" where
  "out_priority m = (case Priority m of Message_Priority _ \<Rightarrow> m\<lparr>Priority := Message_MEDIUM\<rparr> | _ \<Rightarrow> m)"

definition Client_ProcessMessage :: "Message \<Rightarrow> 'c client \<Rightarrow> error option \<times> 'c client" where
  "Client_ProcessMessage m c =
     (if Destination m = None \<or> addr_service (Destination m) = []
      then (Some (Err ''destination must have ServiceName''), c)
      else if raw (addr_client (Destination m)) \<noteq> [] then
        (if raw (addr_client (Destination m)) \<noteq> cid_id (cm_id (cl_config c))
         then (Some (Err ''cannot send directly to client''), c)
         else serviceConfiguration_ProcessMessage m c)
      else (None, c\<lparr>cl_outgoing := cl_outgoing c @ [out_priority m]\<rparr>))"

text \<open>The two cases of the selects: the send, and the end of the context.\<close>

definition drop_nth :: "nat \<Rightarrow> 'a list \<Rightarrow> 'a list" where
  "drop_nth i xs = take i xs @ drop (Suc i) xs"

definition out_taken :: "Message \<Rightarrow> 'c client \<Rightarrow> 'c client" where
  "out_taken m c = (case Priority m of
       Message_LOW \<Rightarrow> c\<lparr>cl_outLow := cl_outLow c @ [m]\<rparr>
     | Message_HIGH \<Rightarrow> c\<lparr>cl_outHigh := cl_outHigh c @ [m]\<rparr>
     | _ \<Rightarrow> c\<lparr>cl_outMedium := cl_outMedium c @ [m]\<rparr>)"

definition on_instance :: "nat \<Rightarrow> (serviceData \<Rightarrow> serviceData) \<Rightarrow> 'c client \<Rightarrow> 'c client" where
  "on_instance d f c = c\<lparr>cl_heap := (cl_heap c)[d := f (cl_heap c ! d)]\<rparr>"

definition inbox_put :: "Message \<Rightarrow> serviceData \<Rightarrow> serviceData" where
  "inbox_put m s = s\<lparr>sd_inbox := sd_inbox s @ [m], sd_counting := sd_counting s + 1, h_accepted := h_accepted s @ [m]\<rparr>"

definition count_accepted :: "serviceData \<Rightarrow> serviceData" where
  "count_accepted s = s\<lparr>sd_counting := sd_counting s - 1, sd_acceptCount := sd_acceptCount s + 1\<rparr>"

text \<open>\<^verbatim>\<open>serviceData.Send\<close>; \<open>rnd\<close> is what \<^verbatim>\<open>rand.Read\<close> gives.\<close>

definition serviceData_Send :: "nat \<Rightarrow> error + bytes \<Rightarrow> Message \<Rightarrow> 'c client \<Rightarrow> error option \<times> 'c client" where
  "serviceData_Send d rnd m c =
     (let m = m\<lparr>Source := Some \<lparr>ClientId = ClientID_Bytes (cm_id (cl_config c)), ServiceName = sd_name (cl_heap c ! d)\<rparr>\<rparr> in
      if raw (SourceMessageId m) = [] then
        (case rnd of
           Inl _ \<Rightarrow> (Some (Err ''unable to create random source message id''), c)
         | Inr b \<Rightarrow> Client_ProcessMessage (m\<lparr>SourceMessageId := Some b\<rparr>) c)
      else Client_ProcessMessage m c)"

section \<open>Processing loops\<close>

definition beacon :: "u64 \<Rightarrow> 'c client \<Rightarrow> 'c client" where
  "beacon cnt c = (if cnt AND 31 = 0 then c\<lparr>cl_processingBeacon := True\<rparr> else c)"

definition loop_take :: "serviceData \<Rightarrow> serviceData" where
  "loop_take s = (case sd_inbox s of
       [] \<Rightarrow> s\<lparr>sd_processedCount := sd_processedCount s + 1, sd_phase := Returned_loop\<rparr>
     | m # r \<Rightarrow> s\<lparr>sd_inbox := r, sd_processedCount := sd_processedCount s + 1, h_taken := h_taken s @ [m],
          sd_phase := (case BytesToMessageID (MessageId m) of Inl _ \<Rightarrow> Idle | Inr _ \<Rightarrow> Running m)\<rparr>)"

definition loop_id :: "Message \<Rightarrow> MessageID" where
  "loop_id m = (case BytesToMessageID (MessageId m) of Inl _ \<Rightarrow> MessageID [] | Inr i \<Rightarrow> i)"

definition is_die :: "Message \<Rightarrow> bool" where
  "is_die m \<longleftrightarrow> MessageType m = ''Die'' \<and> addr_service (Destination m) = ''system''"

text \<open>The end of \<^verbatim>\<open>d.service.ProcessMessage\<close> with the error \<open>r\<close>.\<close>

definition served :: "Message \<Rightarrow> error option \<Rightarrow> serviceData \<Rightarrow> serviceData" where
  "served m r s = s\<lparr>sd_phase := (if is_die m then Idle else Reporting (case r of
       Some x \<Rightarrow> ErrorData (loop_id m) (Error x) | None \<Rightarrow> Ack (loop_id m)))\<rparr>"

definition send_report :: "report \<Rightarrow> 'c client \<Rightarrow> 'c client option" where
  "send_report r c = (case r of
       Ack i \<Rightarrow> if length (cl_acks c) < 500 then Some (c\<lparr>cl_acks := cl_acks c @ [i]\<rparr>) else None
     | ErrorData i s \<Rightarrow> if length (cl_errs c) < 50 then Some (c\<lparr>cl_errs := cl_errs c @ [(i, s)]\<rparr>) else None)"

definition reported :: "report \<Rightarrow> serviceData \<Rightarrow> serviceData" where
  "reported r s = s\<lparr>sd_phase := Idle, h_reported := h_reported s @ [r]\<rparr>"

section \<open>Installing and restarting services\<close>

definition validateServiceName :: "string \<Rightarrow> error option" where
  "validateServiceName sname = (if sname = [] \<or> sname = ''system'' \<or> sname = ''client''
     then Some (Err ''illegal service name'') else None)"

definition new_serviceData :: "string \<Rightarrow> ClientServiceConfig option \<Rightarrow> nat \<Rightarrow> serviceData" where
  "new_serviceData name cfg cap = \<lparr>sd_name = name, sd_serviceConfig = cfg, sd_inbox = [], sd_capacity = cap,
     sd_closed = False, sd_acceptCount = 0, sd_processedCount = 0, sd_counting = 0, sd_phase = Idle,
     h_accepted = [], h_taken = [], h_reported = []\<rparr>"

text \<open>
  What the outside world does to one \<^verbatim>\<open>InstallService\<close>: whether the factory exists, the errors of the
  factory and of \<^verbatim>\<open>Start\<close>, and of the encoding of the configuration for the log.
\<close>

record install_env =
  ie_factories :: "string list"
  ie_create :: "error option"
  ie_start :: "error option"
  ie_prototext :: "error option"

definition has_label :: "Label list \<Rightarrow> Label \<Rightarrow> bool" where
  "has_label cls l \<longleftrightarrow> list_ex (\<lambda>cl. lbl_label cl = lbl_label l) cls"

text \<open>\<open>InstallService\<close> up to the \<^verbatim>\<open>stop\<close> of the instance it replaces, which it returns.\<close>

definition InstallService :: "install_env \<Rightarrow> ClientServiceConfig \<Rightarrow> gobytes \<Rightarrow> 'c client \<Rightarrow> (error + nat option) \<times> 'c client" where
  "InstallService ie cfg sig c =
     (if validateServiceName (csc_Name cfg) \<noteq> None then (Inl (Err ''can't install service''), c)
      else if list_ex (\<lambda>l. lbl_service l = ''client'' \<and> \<not> has_label (cl_ClientLabels c) l) (csc_RequiredLabels cfg)
        then (Inl (Err ''service config requires label''), c)
      else if csc_Factory cfg \<notin> set (ie_factories ie) then (Inl (Err ''factory not found''), c)
      else if ie_create ie \<noteq> None then (Inl (Err ''unable to create service with factory''), c)
      else if ie_start ie \<noteq> None then (Inl (Err ''unable to start service''), c)
      else (Inr (map_of (cl_services c) (csc_Name cfg)),
        c\<lparr>cl_heap := cl_heap c @ [new_serviceData (csc_Name cfg) (Some cfg) inboxSize],
          cl_services := gomap_upd (csc_Name cfg) (length (cl_heap c)) (cl_services c),
          cl_config := RecordRunningService (csc_Name cfg) sig (cl_config c)\<rparr>))"

definition InstallSignedService :: "(bytes \<Rightarrow> error + ClientServiceConfig) \<Rightarrow> install_env \<Rightarrow> bytes \<times> gobytes \<Rightarrow> 'c client
    \<Rightarrow> (error + nat option) \<times> 'c client" where
  "InstallSignedService unmarshal ie sd c = (case unmarshal (fst sd) of
       Inl _ \<Rightarrow> (Inl (Err ''Unable to parse service config''), c)
     | Inr cfg \<Rightarrow> (case InstallService ie cfg (snd sd) c of
           (Inl _, c) \<Rightarrow> (Inl (Err ''installing''), c)
         | (Inr old, c) \<Rightarrow> (Inr old, c)))"

definition removeService :: "string \<Rightarrow> 'c client \<Rightarrow> (error + nat) \<times> 'c client" where
  "removeService sname c = (case map_of (cl_services c) sname of
       None \<Rightarrow> (Inl (Err ''failed to remove non-existent service''), c)
     | Some srv \<Rightarrow> (Inr srv, c\<lparr>cl_services := gomap_del sname (cl_services c)\<rparr>))"

text \<open>\<open>close(d.inbox)\<close>.\<close>

definition close_inbox :: "nat \<Rightarrow> 'c client \<Rightarrow> error + 'c client" where
  "close_inbox d c = (if sd_closed (cl_heap c ! d) then Inl (Fatal ''close of closed channel'')
     else Inr (on_instance d (\<lambda>s. s\<lparr>sd_closed := True\<rparr>) c))"

text \<open>The first part of \<^verbatim>\<open>RestartService\<close>, up to the \<^verbatim>\<open>stop\<close> of the instance it removed.\<close>

definition RestartService :: "string \<Rightarrow> 'c client \<Rightarrow> (error + nat) \<times> 'c client" where
  "RestartService sname c = (if validateServiceName sname \<noteq> None then (Inl (Err ''can't restart service''), c)
     else removeService sname c)"

section \<open>The system service\<close>

text \<open>\<^verbatim>\<open>systemService.ProcessMessage\<close> in the loop of instance \<open>d\<close>; \<open>k\<close> is the outcome of \<^verbatim>\<open>ecdsa.GenerateKey\<close>.\<close>

definition set_phase :: "loop_phase \<Rightarrow> serviceData \<Rightarrow> serviceData" where
  "set_phase p s = s\<lparr>sd_phase := p\<rparr>"

definition systemService_ProcessMessage :: "'k client_codec \<Rightarrow> ('p, 'c) Configuration \<Rightarrow> error + 'k \<Rightarrow> nat \<Rightarrow> Message
    \<Rightarrow> 'c client \<Rightarrow> error + 'c client" where
  "systemService_ProcessMessage cd cfg k d m c =
     (if MessageType m = ''RekeyRequest'' then
        (case Rekey (client_keys cd) k (cl_config c) of
           Inl _ \<Rightarrow> Inr (on_instance d (served m (Some (Err ''unable to rekey client''))) c)
         | Inr cm \<Rightarrow> Inr (on_instance d (served m None) (c\<lparr>cl_config := SendConfigUpdate cfg cm\<rparr>)))
      else if MessageType m = ''Die'' then
        (case get_DieRequest cd (Data m) of
           Inl _ \<Rightarrow> Inr (on_instance d (served m (Some (Err ''can't unmarshal DieRequest''))) c)
         | Inr force \<Rightarrow> if force then Inl (Fatal ''os.Exit'')
             else Inr (on_instance d (served m None) (c\<lparr>cl_stopping := True\<rparr>)))
      else if MessageType m = ''RestartService'' then
        (case get_RestartServiceRequest cd (Data m) of
           Inl _ \<Rightarrow> Inr (on_instance d (served m (Some (Err ''can't unmarshal RestartServiceRequest''))) c)
         | Inr name \<Rightarrow> (case RestartService name c of
               (Inl x, c) \<Rightarrow> Inr (on_instance d (served m (Some x)) c)
             | (Inr srv, c) \<Rightarrow> Inr (on_instance d (set_phase (Closing m srv True)) c)))
      else Inr (on_instance d (served m (Some (Err ''unable to process message of type''))) c))"

definition system_message :: "string \<Rightarrow> AnyData \<Rightarrow> Message" where
  "system_message t a = empty_Message\<lparr>Destination := Some \<lparr>ClientId = None, ServiceName = ''system''\<rparr>,
     MessageType := t, Priority := Message_HIGH, Data := Some a, Background := True\<rparr>"

text \<open>The three loops of the system service \<open>d\<close>: \<open>n\<close> is the number of acknowledgements that arrive within the
  second of a group. An error of \<^verbatim>\<open>Send\<close> is only logged.\<close>

definition ackLoop :: "'k client_codec \<Rightarrow> nat \<Rightarrow> error + bytes \<Rightarrow> nat \<Rightarrow> 'c client \<Rightarrow> error + 'c client" where
  "ackLoop cd d rnd n c = (case any_MessageAckData cd (map MessageID_Bytes (take n (cl_acks c))) of
       Inl _ \<Rightarrow> Inl (Fatal ''Unable to marshal MessageAckData'')
     | Inr a \<Rightarrow> Inr (snd (serviceData_Send d rnd (system_message ''MessageAck'' a) (c\<lparr>cl_acks := drop n (cl_acks c)\<rparr>))))"

definition errLoop :: "'k client_codec \<Rightarrow> nat \<Rightarrow> error + bytes \<Rightarrow> MessageID \<times> string \<Rightarrow> 'c client \<Rightarrow> error + 'c client" where
  "errLoop cd d rnd e c = (case any_MessageErrorData cd (MessageID_Bytes (fst e), snd e) of
       Inl _ \<Rightarrow> Inl (Fatal ''Unable to marshal MessageErrData'')
     | Inr a \<Rightarrow> Inr (snd (serviceData_Send d rnd (system_message ''MessageError'' a) (c\<lparr>cl_errs := tl (cl_errs c)\<rparr>))))"

definition cfgLoop :: "'k client_codec \<Rightarrow> nat \<Rightarrow> error + bytes \<Rightarrow> ClientInfoData \<Rightarrow> 'c client \<Rightarrow> error + 'c client" where
  "cfgLoop cd d rnd chg c = (case any_ClientInfoData cd chg of
       Inl _ \<Rightarrow> Inl (Fatal ''Unable to marshal ClientInfoData'')
     | Inr a \<Rightarrow> Inr (snd (serviceData_Send d rnd (system_message ''ClientInfo'' a)
         (c\<lparr>cl_config := (cl_config c)\<lparr>cm_configChanges := tl (cm_configChanges (cl_config c))\<rparr>\<rparr>))))"

text \<open>\<^verbatim>\<open>pollRevokedCerts\<close>: the outcomes of the download and of the decoding of the list.\<close>

definition pollRevokedCerts :: "error + bytes \<Rightarrow> (bytes \<Rightarrow> error + bytes list) \<Rightarrow> 'c client \<Rightarrow> 'c client" where
  "pollRevokedCerts file unmarshal c = (case file of
       Inl _ \<Rightarrow> c
     | Inr b \<Rightarrow> if b = [] then c else (case unmarshal b of
         Inl _ \<Rightarrow> c
       | Inr serials \<Rightarrow> c\<lparr>cl_config := AddRevokedSerials serials (cl_config c)\<rparr>))"

section \<open>Contact data\<close>

text \<open>\<^verbatim>\<open>Counts\<close>: the maps are keyed by the name in the instance.\<close>

definition count_instance :: "serviceData list \<Rightarrow> string \<times> nat \<Rightarrow> (string, u64) gomap \<times> (string, u64) gomap
    \<Rightarrow> (string, u64) gomap \<times> (string, u64) gomap" where
  "count_instance h kd mp = (let s = h ! snd kd in
     (gomap_upd (sd_name s) (sd_acceptCount s) (fst mp), gomap_upd (sd_name s) (sd_processedCount s) (snd mp)))"

definition Counts :: "'c client \<Rightarrow> (string, u64) gomap \<times> (string, u64) gomap" where
  "Counts c = fold (count_instance (cl_heap c)) (cl_services c) ([], [])"

text \<open>The tokens of \<^verbatim>\<open>MakeContactData\<close>; a nil \<open>baseCount\<close> reads as an empty map.\<close>

definition allowed_messages :: "(string, u64) gomap \<Rightarrow> (string, u64) gomap \<Rightarrow> (string, u64) gomap \<Rightarrow> (string, u64) gomap" where
  "allowed_messages baseCount am pm = map (\<lambda>(k, a). (k, case map_of baseCount k of
       None \<Rightarrow> of_nat inboxSize - (a - gomap_get0 pm k)
     | Some b \<Rightarrow> gomap_get0 pm k - b)) am"

definition contact_tokens :: "(string, u64) gomap \<Rightarrow> 'c client \<Rightarrow> (string, u64) gomap" where
  "contact_tokens baseCount c = (let (am, pm) = Counts c in allowed_messages baseCount am pm)"

definition MakeContactData :: "(ContactData \<Rightarrow> error + bytes) \<Rightarrow> (bytes \<Rightarrow> Signature option) list \<Rightarrow> Timestamp
    \<Rightarrow> Message list \<Rightarrow> (string, u64) gomap \<Rightarrow> 'c client \<Rightarrow> error + WrappedContactData \<times> (string, u64) gomap" where
  "MakeContactData marshal signers now toSend baseCount c =
     ebind (marshal \<lparr>SequencingNonce = st_SequencingNonce (cm_state (cl_config c)), Messages = toSend,
          ClientClock = Some now, AllowedMessages = contact_tokens baseCount c\<rparr>) (\<lambda>b.
     Inr (\<lparr>wcd_ContactData = b, wcd_Signatures = List.map_filter (\<lambda>sign. sign b) signers,
             wcd_ClientLabels = map lbl_label (cl_ClientLabels c)\<rparr>, snd (Counts c)))"

text \<open>\<^verbatim>\<open>ProcessContactData\<close>: its loop calls \<open>Client_ProcessMessage\<close> on each message, one after the other.\<close>

definition contact_nonce :: "bool \<Rightarrow> ContactData \<Rightarrow> 'c client \<Rightarrow> 'c client" where
  "contact_nonce streaming cd c = (if streaming then c
     else c\<lparr>cl_config := SetSequencingNonce (SequencingNonce cd) (cl_config c)\<rparr>)"

section \<open>The client as a machine\<close>

text \<open>
  One event is one atomic section of one goroutine, with the inputs it reads. \<open>None\<close> is an event that is
  not enabled, \<open>Some (Inl _)\<close> one that ends the process.
\<close>

datatype 'k client_event =
    EvProcess Message
  | EvSend nat "error + bytes" Message
  | EvPut nat
  | EvCount nat
  | EvCancel nat
  | EvOut nat
  | EvOutCancel nat
  | EvTake nat
  | EvServe nat "error option"
  | EvSystem nat "error + 'k"
  | EvClose nat
  | EvWaited nat install_env
  | EvReport nat
  | EvInstall install_env ClientServiceConfig gobytes
  | EvInstallSigned install_env bytes gobytes
  | EvMainClose
  | EvMainWaited
  | EvAckLoop nat "error + bytes" nat
  | EvErrLoop nat "error + bytes"
  | EvCfgLoop nat "error + bytes"
  | EvRevoked "error + bytes"
  | EvNonce bool ContactData
  | EvBeacon

record ('k, 'p, 'c) client_params =
  prm_codec :: "'k client_codec"
  prm_config :: "('p, 'c) Configuration"
  prm_serials :: "bytes \<Rightarrow> error + bytes list"
  prm_service :: "bytes \<Rightarrow> error + ClientServiceConfig"

definition live :: "'c client \<Rightarrow> nat \<Rightarrow> bool" where
  "live c d \<longleftrightarrow> d < length (cl_heap c)"

definition is_system :: "'c client \<Rightarrow> nat \<Rightarrow> bool" where
  "is_system c d \<longleftrightarrow> live c d \<and> sd_serviceConfig (cl_heap c ! d) = None"

definition step_put :: "nat \<Rightarrow> 'c client \<Rightarrow> (error + 'c client) option" where
  "step_put i c = (if i < length (cl_senders c) then
       (let (d, m) = cl_senders c ! i; s = cl_heap c ! d in
        if sd_closed s then Some (Inl (Fatal ''send on closed channel''))
        else if length (sd_inbox s) < sd_capacity s
        then Some (Inr (on_instance d (inbox_put m) (c\<lparr>cl_senders := drop_nth i (cl_senders c)\<rparr>)))
        else None)
     else None)"

definition step_count :: "nat \<Rightarrow> 'c client \<Rightarrow> (error + 'c client) option" where
  "step_count d c = (if live c d \<and> 0 < sd_counting (cl_heap c ! d) then Some (Inr (on_instance d count_accepted c)) else None)"

definition step_take :: "nat \<Rightarrow> 'c client \<Rightarrow> (error + 'c client) option" where
  "step_take d c = (if live c d \<and> sd_phase (cl_heap c ! d) = Idle \<and> (sd_inbox (cl_heap c ! d) \<noteq> [] \<or> sd_closed (cl_heap c ! d))
     then Some (Inr (beacon (sd_processedCount (cl_heap c ! d) + 1) (on_instance d loop_take c))) else None)"

definition step_serve :: "nat \<Rightarrow> error option \<Rightarrow> 'c client \<Rightarrow> (error + 'c client) option" where
  "step_serve d r c = (if live c d \<and> \<not> is_system c d then (case sd_phase (cl_heap c ! d) of
       Running m \<Rightarrow> Some (Inr (on_instance d (served m r) c)) | _ \<Rightarrow> None) else None)"

definition step_system :: "('k, 'p, 'c) client_params \<Rightarrow> nat \<Rightarrow> error + 'k \<Rightarrow> 'c client \<Rightarrow> (error + 'c client) option" where
  "step_system pr d k c = (if is_system c d then (case sd_phase (cl_heap c ! d) of
       Running m \<Rightarrow> Some (systemService_ProcessMessage (prm_codec pr) (prm_config pr) k d m c) | _ \<Rightarrow> None) else None)"

definition step_close :: "nat \<Rightarrow> 'c client \<Rightarrow> (error + 'c client) option" where
  "step_close d c = (if live c d then (case sd_phase (cl_heap c ! d) of
       Closing m srv again \<Rightarrow> Some (ebind (close_inbox srv c) (\<lambda>c. Inr (on_instance d (set_phase (Waiting m srv again)) c)))
     | _ \<Rightarrow> None) else None)"

text \<open>\<^verbatim>\<open>d.working.Wait()\<close> returns; after the \<^verbatim>\<open>stop\<close> of a restart the service is installed again.\<close>

definition reinstall_error :: "error option \<Rightarrow> error option" where
  "reinstall_error r = map_option (\<lambda>_. Err ''can't reinstall service on restart'') r"

definition step_waited :: "nat \<Rightarrow> install_env \<Rightarrow> 'c client \<Rightarrow> (error + 'c client) option" where
  "step_waited d ie c = (if live c d then (case sd_phase (cl_heap c ! d) of
       Waiting m srv again \<Rightarrow>
         if sd_phase (cl_heap c ! srv) \<noteq> Returned_loop then None
         else if \<not> again then Some (Inr (on_instance d (served m (reinstall_error (ie_prototext ie))) c))
         else (case sd_serviceConfig (cl_heap c ! srv) of
             None \<Rightarrow> Some (Inl (Fatal ''nil pointer dereference''))
           | Some cfg \<Rightarrow> (case InstallService ie cfg None c of
               (Inl x, c) \<Rightarrow> Some (Inr (on_instance d (served m (reinstall_error (Some x))) c))
             | (Inr None, c) \<Rightarrow> Some (Inr (on_instance d (served m (reinstall_error (ie_prototext ie))) c))
             | (Inr (Some old), c) \<Rightarrow> Some (Inr (on_instance d (set_phase (Closing m old False)) c))))
     | _ \<Rightarrow> None) else None)"

definition step_report :: "nat \<Rightarrow> 'c client \<Rightarrow> (error + 'c client) option" where
  "step_report d c = (if live c d then (case sd_phase (cl_heap c ! d) of
       Reporting r \<Rightarrow> map_option (\<lambda>c. Inr (on_instance d (reported r) c)) (send_report r c) | _ \<Rightarrow> None) else None)"

text \<open>The goroutine of \<^verbatim>\<open>New\<close> installs the services of the configuration; an error is only logged.\<close>

definition main_installed :: "(error + nat option) \<times> 'c client \<Rightarrow> 'c client" where
  "main_installed p = (case p of
       (Inr (Some old), c) \<Rightarrow> c\<lparr>cl_main := MainClosing old\<rparr> | (_, c) \<Rightarrow> c)"

definition step_main_close :: "'c client \<Rightarrow> (error + 'c client) option" where
  "step_main_close c = (case cl_main c of
       MainClosing d \<Rightarrow> Some (ebind (close_inbox d c) (\<lambda>c. Inr (c\<lparr>cl_main := MainWaiting d\<rparr>))) | _ \<Rightarrow> None)"

definition step_main_waited :: "'c client \<Rightarrow> (error + 'c client) option" where
  "step_main_waited c = (case cl_main c of
       MainWaiting d \<Rightarrow> if sd_phase (cl_heap c ! d) = Returned_loop then Some (Inr (c\<lparr>cl_main := MainReady\<rparr>)) else None
     | _ \<Rightarrow> None)"

fun client_step :: "('k, 'p, 'c) client_params \<Rightarrow> 'k client_event \<Rightarrow> 'c client \<Rightarrow> (error + 'c client) option" where
  "client_step pr (EvProcess m) c = Some (Inr (snd (Client_ProcessMessage m c)))"
| "client_step pr (EvSend d rnd m) c = (if live c d then Some (Inr (snd (serviceData_Send d rnd m c))) else None)"
| "client_step pr (EvPut i) c = step_put i c"
| "client_step pr (EvCount d) c = step_count d c"
| "client_step pr (EvCancel i) c = (if i < length (cl_senders c) then Some (Inr (c\<lparr>cl_senders := drop_nth i (cl_senders c)\<rparr>)) else None)"
| "client_step pr (EvOut i) c = (if i < length (cl_outgoing c)
     then Some (Inr (out_taken (cl_outgoing c ! i) (c\<lparr>cl_outgoing := drop_nth i (cl_outgoing c)\<rparr>))) else None)"
| "client_step pr (EvOutCancel i) c = (if i < length (cl_outgoing c) then Some (Inr (c\<lparr>cl_outgoing := drop_nth i (cl_outgoing c)\<rparr>)) else None)"
| "client_step pr (EvTake d) c = step_take d c"
| "client_step pr (EvServe d r) c = step_serve d r c"
| "client_step pr (EvSystem d k) c = step_system pr d k c"
| "client_step pr (EvClose d) c = step_close d c"
| "client_step pr (EvWaited d ie) c = step_waited d ie c"
| "client_step pr (EvReport d) c = step_report d c"
| "client_step pr (EvInstall ie cfg sig) c = (if cl_main c = MainReady then Some (Inr (main_installed (InstallService ie cfg sig c))) else None)"
| "client_step pr (EvInstallSigned ie b sig) c = (if cl_main c = MainReady
     then Some (Inr (main_installed (InstallSignedService (prm_service pr) ie (b, sig) c))) else None)"
| "client_step pr EvMainClose c = step_main_close c"
| "client_step pr EvMainWaited c = step_main_waited c"
| "client_step pr (EvAckLoop d rnd n) c = (if is_system c d \<and> 0 < n \<and> n \<le> length (cl_acks c) then Some (ackLoop (prm_codec pr) d rnd n c) else None)"
| "client_step pr (EvErrLoop d rnd) c = (if is_system c d then (case cl_errs c of
      [] \<Rightarrow> None | e # es \<Rightarrow> Some (errLoop (prm_codec pr) d rnd e c)) else None)"
| "client_step pr (EvCfgLoop d rnd) c = (if is_system c d then (case cm_configChanges (cl_config c) of
      [] \<Rightarrow> None | e # es \<Rightarrow> Some (cfgLoop (prm_codec pr) d rnd e c)) else None)"
| "client_step pr (EvRevoked file) c = Some (Inr (pollRevokedCerts file (prm_serials pr) c))"
| "client_step pr (EvNonce streaming cd) c = Some (Inr (contact_nonce streaming cd c))"
| "client_step pr EvBeacon c = Some (Inr (c\<lparr>cl_processingBeacon := False\<rparr>))"

fun client_run :: "('k, 'p, 'c) client_params \<Rightarrow> 'k client_event list \<Rightarrow> 'c client \<Rightarrow> (error + 'c client) option" where
  "client_run pr [] c = Some (Inr c)"
| "client_run pr (ev # evs) c = (case client_step pr ev c of
     Some (Inr c') \<Rightarrow> client_run pr evs c' | Some (Inl x) \<Rightarrow> (if evs = [] then Some (Inl x) else None) | None \<Rightarrow> None)"

text \<open>The state after \<^verbatim>\<open>New\<close> has created the system service.\<close>

definition new_client :: "'c ConfigManager \<Rightarrow> ('p, 'c) Configuration \<Rightarrow> 'c client" where
  "new_client cm cfg = \<lparr>cl_config = cm, cl_ClientLabels = cfg_ClientLabels cfg,
     cl_heap = [new_serviceData ''system'' None systemInboxSize], cl_services = [(''system'', 0)],
     cl_acks = [], cl_errs = [], cl_processingBeacon = False, cl_senders = [], cl_outgoing = [],
     cl_outLow = [], cl_outMedium = [], cl_outHigh = [], cl_main = MainReady, cl_stopping = False\<rparr>"

section \<open>One instance of a service\<close>

text \<open>Whatever the client does, an instance only ever makes the following moves.\<close>

fun working :: "loop_phase \<Rightarrow> Message option" where
  "working (Running m) = Some m"
| "working (Closing m srv again) = Some m"
| "working (Waiting m srv again) = Some m"
| "working _ = None"

inductive instance_step :: "serviceData \<Rightarrow> serviceData \<Rightarrow> bool" where
  put: "\<not> sd_closed s \<Longrightarrow> length (sd_inbox s) < sd_capacity s \<Longrightarrow> instance_step s (inbox_put m s)"
| count: "0 < sd_counting s \<Longrightarrow> instance_step s (count_accepted s)"
| take: "sd_phase s = Idle \<Longrightarrow> sd_inbox s \<noteq> [] \<or> sd_closed s \<Longrightarrow> instance_step s (loop_take s)"
| serve: "working (sd_phase s) = Some m \<Longrightarrow> instance_step s (served m r s)"
| work: "working (sd_phase s) = Some m \<Longrightarrow> working p = Some m \<Longrightarrow> instance_step s (set_phase p s)"
| report: "sd_phase s = Reporting r \<Longrightarrow> instance_step s (reported r s)"
| close: "\<not> sd_closed s \<Longrightarrow> instance_step s (s\<lparr>sd_closed := True\<rparr>)"

text \<open>Messages that are reported: those with a well-formed id, but for the pre-acknowledged \<^verbatim>\<open>Die\<close>.\<close>

definition well_identified :: "Message \<Rightarrow> bool" where
  "well_identified m \<longleftrightarrow> (case BytesToMessageID (MessageId m) of Inl _ \<Rightarrow> False | Inr _ \<Rightarrow> True)"

definition reportable :: "Message \<Rightarrow> bool" where
  "reportable m \<longleftrightarrow> well_identified m \<and> \<not> is_die m"

definition pending_ids :: "loop_phase \<Rightarrow> MessageID list" where
  "pending_ids p = (case p of Reporting r \<Rightarrow> [report_id r] | _ \<Rightarrow>
     (case working p of None \<Rightarrow> [] | Some m \<Rightarrow> if is_die m then [] else [loop_id m]))"

text \<open>The capacity of an inbox: the one the client makes for its system service is smaller than those of configured services.\<close>

definition capacity_of :: "string \<Rightarrow> nat" where
  "capacity_of name = (if name = ''system'' then systemInboxSize else inboxSize)"

definition instance_ok :: "serviceData \<Rightarrow> bool" where
  "instance_ok s \<longleftrightarrow>
     sd_capacity s = capacity_of (sd_name s) \<and>
     sd_acceptCount s + of_nat (sd_counting s) + (if sd_phase s = Returned_loop then 1 else 0)
       = sd_processedCount s + of_nat (length (sd_inbox s)) \<and>
     length (sd_inbox s) \<le> sd_capacity s \<and>
     h_accepted s = h_taken s @ sd_inbox s \<and>
     map report_id (h_reported s) @ pending_ids (sd_phase s) = map loop_id (filter reportable (h_taken s)) \<and>
     (\<forall>m. working (sd_phase s) = Some m \<longrightarrow> well_identified m) \<and>
     (sd_phase s = Returned_loop \<longrightarrow> sd_closed s \<and> sd_inbox s = [])"

lemma report_id_served: "report_id (case r of Some x \<Rightarrow> ErrorData i (Error x) | None \<Rightarrow> Ack i) = i"
  by (simp split: option.splits)

lemma instance_ok_take:
  assumes ok: "instance_ok s" and idle: "sd_phase s = Idle" and enabled: "sd_inbox s \<noteq> [] \<or> sd_closed s"
  shows "instance_ok (loop_take s)"
proof (cases "sd_inbox s")
  case Nil
  with assms show ?thesis by (simp add: instance_ok_def loop_take_def pending_ids_def algebra_simps)
next
  case (Cons m r)
  show ?thesis
  proof (cases "BytesToMessageID (MessageId m)")
    case (Inl x)
    with Cons ok idle show ?thesis
      by (simp add: instance_ok_def loop_take_def pending_ids_def reportable_def well_identified_def algebra_simps)
  next
    case (Inr i)
    with Cons ok idle show ?thesis
      by (simp add: instance_ok_def loop_take_def pending_ids_def reportable_def well_identified_def algebra_simps)
  qed
qed

lemma working_not_reporting: "working p = Some m \<Longrightarrow> pending_ids p = (if is_die m then [] else [loop_id m])"
  by (cases p) (simp_all add: pending_ids_def)

lemma working_not_returned: "working p = Some m \<Longrightarrow> p \<noteq> Returned_loop"
  by auto

lemma instance_ok_step:
  assumes step: "instance_step s t" and ok: "instance_ok s"
  shows "instance_ok t"
  using step
proof cases
  case (put m)
  with ok show ?thesis by (auto simp: instance_ok_def inbox_put_def algebra_simps)
next
  case count
  then obtain n where "sd_counting s = Suc n" by (cases "sd_counting s") auto
  with ok count show ?thesis by (simp add: instance_ok_def count_accepted_def algebra_simps)
next
  case take
  with ok show ?thesis by (simp add: instance_ok_take)
next
  case (serve m r)
  with ok show ?thesis
    by (auto simp: instance_ok_def served_def pending_ids_def [of "Reporting _"] pending_ids_def [of Idle] report_id_served
        working_not_reporting dest: working_not_returned)
next
  case (work m p)
  with ok show ?thesis
    by (auto simp: instance_ok_def set_phase_def working_not_reporting dest: working_not_returned)
next
  case (report r)
  with ok show ?thesis by (simp add: instance_ok_def reported_def pending_ids_def)
next
  case close
  with ok show ?thesis by (auto simp: instance_ok_def)
qed

definition fresh_instance :: "serviceData \<Rightarrow> bool" where
  "fresh_instance s \<longleftrightarrow> (\<exists>name cfg. s = new_serviceData name cfg (capacity_of name))"

interpretation service_instance: step_invariant fresh_instance instance_step instance_ok
proof
  show "fresh_instance s \<Longrightarrow> instance_ok s" for s
    by (auto simp: fresh_instance_def instance_ok_def new_serviceData_def pending_ids_def)
qed (rule instance_ok_step)

lemma instance_step_name: "instance_step s t \<Longrightarrow> sd_name t = sd_name s"
  by (induction rule: instance_step.induct)
    (auto simp: inbox_put_def count_accepted_def loop_take_def served_def set_phase_def reported_def split: list.splits)

lemma instance_reach_name: "reach instance_step s t \<Longrightarrow> sd_name t = sd_name s"
  by (induction rule: reach.induct) (auto dest: instance_step_name)

lemma instance_reach1: "instance_step s t \<Longrightarrow> reach instance_step s t"
  by (rule reach_step [OF reach_refl])

lemma instance_reach_trans: "reach R s t \<Longrightarrow> reach R t u \<Longrightarrow> reach R s u"
  by (induction rule: reach.induct) (auto intro: reach_Cons)

section \<open>All instances of a client\<close>

text \<open>\<open>advances c c'\<close>: every instance of \<open>c\<close> has made moves of its own, and new instances started fresh.\<close>

definition advances :: "'c client \<Rightarrow> 'c client \<Rightarrow> bool" where
  "advances c c' \<longleftrightarrow> length (cl_heap c) \<le> length (cl_heap c') \<and>
     (\<forall>d < length (cl_heap c). reach instance_step (cl_heap c ! d) (cl_heap c' ! d)) \<and>
     (\<forall>d < length (cl_heap c'). length (cl_heap c) \<le> d \<longrightarrow> (\<exists>s. fresh_instance s \<and> reach instance_step s (cl_heap c' ! d)))"

lemma advances_same: "cl_heap c' = cl_heap c \<Longrightarrow> advances c c'"
  by (auto simp: advances_def)

lemma advances_trans:
  assumes "advances a b" and "advances b c"
  shows "advances a c"
proof -
  have "\<exists>s. fresh_instance s \<and> reach instance_step s (cl_heap c ! d)" if "d < length (cl_heap c)" "length (cl_heap a) \<le> d" for d
  proof (cases "d < length (cl_heap b)")
    case True
    with assms that show ?thesis by (meson advances_def instance_reach_trans)
  next
    case False
    with assms that show ?thesis by (meson advances_def not_less)
  qed
  with assms show ?thesis by (auto simp: advances_def intro: instance_reach_trans)
qed

lemma advances_on_instance:
  assumes "instance_step (cl_heap c ! d) (f (cl_heap c ! d))"
  shows "advances c (on_instance d f c)"
proof -
  have "reach instance_step (cl_heap c ! j) ((cl_heap c)[d := f (cl_heap c ! d)] ! j)" if "j < length (cl_heap c)" for j
    using that instance_reach1 [OF assms] by (cases "j = d") auto
  then show ?thesis by (simp add: advances_def on_instance_def)
qed

lemma advances_new:
  assumes "cl_heap c' = cl_heap c @ [s]" and "fresh_instance s"
  shows "advances c c'"
  using assms by (auto simp: advances_def nth_append less_Suc_eq)

text \<open>
  The invariant of the map of services: its pointers are valid, each under the name of its instance, to
  an instance whose inbox is open and that no goroutine is about to close.
\<close>

fun closing :: "loop_phase \<Rightarrow> nat option" where
  "closing (Closing m srv again) = Some srv"
| "closing _ = None"

definition unmapped :: "'c client \<Rightarrow> nat \<Rightarrow> bool" where
  "unmapped c d \<longleftrightarrow> d < length (cl_heap c) \<and> d \<notin> ran (map_of (cl_services c))"

definition targets_unmapped :: "'c client \<Rightarrow> bool" where
  "targets_unmapped c \<longleftrightarrow> (\<forall>s \<in> set (cl_heap c). \<forall>t. closing (sd_phase s) = Some t \<longrightarrow> unmapped c t) \<and>
     (\<forall>t. cl_main c = MainClosing t \<longrightarrow> unmapped c t)"

definition services_ok :: "'c client \<Rightarrow> bool" where
  "services_ok c \<longleftrightarrow> gomap_ok (cl_services c) \<and>
     (\<forall>k d. map_of (cl_services c) k = Some d \<longrightarrow>
        d < length (cl_heap c) \<and> sd_name (cl_heap c ! d) = k \<and> \<not> sd_closed (cl_heap c ! d)) \<and>
     (\<forall>(d, m) \<in> set (cl_senders c). d < length (cl_heap c)) \<and> targets_unmapped c"

lemma services_okD:
  assumes "services_ok c" and "map_of (cl_services c) k = Some d"
  shows "d < length (cl_heap c)" "sd_name (cl_heap c ! d) = k" "\<not> sd_closed (cl_heap c ! d)"
  using assms by (auto simp: services_ok_def)

lemma services_inj: "services_ok c \<Longrightarrow> map_of (cl_services c) k = Some d \<Longrightarrow> map_of (cl_services c) k' = Some d \<Longrightarrow> k' = k"
  using services_okD(2) by metis

text \<open>A step that keeps the map of services and who is to be closed.\<close>

definition same_map :: "'c client \<Rightarrow> 'c client \<Rightarrow> bool" where
  "same_map c c' \<longleftrightarrow> cl_services c' = cl_services c \<and> cl_main c' = cl_main c \<and>
     (\<forall>(d, m) \<in> set (cl_senders c'). (d, m) \<in> set (cl_senders c) \<or> d \<in> ran (map_of (cl_services c)))"

lemma services_ok_same:
  assumes "services_ok c" and "same_map c c'" and "cl_heap c' = cl_heap c"
  shows "services_ok c'"
  using assms by (fastforce simp: services_ok_def same_map_def targets_unmapped_def unmapped_def ran_def)

lemma unmapped_on_instance [simp]: "unmapped (on_instance d f c) t = unmapped c t"
  by (simp add: unmapped_def on_instance_def)

lemma targets_unmapped_on_instance:
  assumes "targets_unmapped c" and "\<And>t. closing (sd_phase (f (cl_heap c ! d))) = Some t \<Longrightarrow> unmapped c t"
  shows "targets_unmapped (on_instance d f c)"
proof -
  have "unmapped c t" if "s \<in> set ((cl_heap c)[d := f (cl_heap c ! d)])" "closing (sd_phase s) = Some t" for s t
    using that assms set_update_subset_insert [of "cl_heap c" d "f (cl_heap c ! d)"] by (auto simp: targets_unmapped_def)
  then have "\<forall>s \<in> set (cl_heap (on_instance d f c)). \<forall>t. closing (sd_phase s) = Some t \<longrightarrow> unmapped c t"
    by (simp add: on_instance_def)
  with assms(1) show ?thesis by (simp add: targets_unmapped_def) (simp add: on_instance_def)
qed

lemma services_ok_on_instance:
  assumes ok: "services_ok c" and f: "sd_name (f (cl_heap c ! d)) = sd_name (cl_heap c ! d)"
      "sd_closed (f (cl_heap c ! d)) = sd_closed (cl_heap c ! d)"
    and t: "\<And>t. closing (sd_phase (f (cl_heap c ! d))) = Some t \<Longrightarrow> unmapped c t"
  shows "services_ok (on_instance d f c)"
proof -
  let ?c = "on_instance d f c"
  have nth: "cl_heap ?c ! j = (if j = d \<and> d < length (cl_heap c) then f (cl_heap c ! d) else cl_heap c ! j)" for j
    by (auto simp: on_instance_def nth_list_update list_update_beyond)
  have fields: "length (cl_heap ?c) = length (cl_heap c)" "cl_services ?c = cl_services c" "cl_main ?c = cl_main c"
    "cl_senders ?c = cl_senders c" by (simp_all add: on_instance_def)
  have "targets_unmapped ?c" using ok t by (auto simp: services_ok_def intro: targets_unmapped_on_instance)
  with ok f show ?thesis by (auto simp: services_ok_def fields nth)
qed

lemma services_ok_remove:
  assumes "services_ok c"
  shows "services_ok (c\<lparr>cl_services := gomap_del k (cl_services c)\<rparr>)"
  using assms by (fastforce simp: services_ok_def targets_unmapped_def unmapped_def ran_def)

lemma removed_unmapped:
  assumes "services_ok c" and "map_of (cl_services c) k = Some d"
  shows "unmapped (c\<lparr>cl_services := gomap_del k (cl_services c)\<rparr>) d"
proof -
  have "k' = k" if "map_of (cl_services c) k' = Some d" for k'
    using services_inj [OF assms(1) assms(2) that] .
  moreover have "d < length (cl_heap c)" using assms by (auto simp: services_ok_def)
  ultimately show ?thesis by (auto simp: unmapped_def ran_def)
qed

lemma services_ok_close:
  assumes "services_ok c" and "unmapped c d"
  shows "services_ok (on_instance d (\<lambda>s. s\<lparr>sd_closed := True\<rparr>) c)"
proof -
  let ?c = "on_instance d (\<lambda>s. s\<lparr>sd_closed := True\<rparr>) c"
  have "targets_unmapped ?c"
    using assms by (intro targets_unmapped_on_instance) (auto simp: services_ok_def targets_unmapped_def unmapped_def)
  moreover have "d' \<noteq> d" if "map_of (cl_services c) k = Some d'" for k d'
    using assms(2) that by (auto simp: unmapped_def ran_def)
  ultimately show ?thesis using assms by (fastforce simp: services_ok_def on_instance_def)
qed

lemma services_ok_install:
  assumes ok: "services_ok c" and fresh: "fresh_instance s" "sd_name s = k"
    and c': "cl_heap c' = cl_heap c @ [s]" "cl_services c' = gomap_upd k (length (cl_heap c)) (cl_services c)"
      "cl_senders c' = cl_senders c" "cl_main c' = cl_main c"
  shows "services_ok c'" and "map_of (cl_services c) k = Some old \<Longrightarrow> unmapped c' old" and "unmapped c t \<Longrightarrow> unmapped c' t"
proof -
  have s: "\<not> sd_closed s" "sd_phase s = Idle" using fresh(1) by (auto simp: fresh_instance_def new_serviceData_def)
  have un: "unmapped c' t" if "unmapped c t" for t
    using that by (auto simp: unmapped_def c' ran_def split: if_splits)
  then show "unmapped c t \<Longrightarrow> unmapped c' t" .
  have "targets_unmapped c'" using ok un s(2) by (auto simp: services_ok_def targets_unmapped_def c')
  with ok s(1) fresh(2) show "services_ok c'" by (fastforce simp: services_ok_def c' nth_append)
  show "unmapped c' old" if "map_of (cl_services c) k = Some old"
  proof -
    have "k' = k" if "map_of (cl_services c) k' = Some old" for k'
      using services_inj [OF ok \<open>map_of (cl_services c) k = Some old\<close> that] .
    moreover have "old < length (cl_heap c)" using ok that by (auto simp: services_ok_def)
    ultimately show ?thesis by (auto simp: unmapped_def c' ran_def split: if_splits)
  qed
qed

text \<open>\<open>goes c c'\<close>: what every step guarantees.\<close>

definition goes :: "'c client \<Rightarrow> 'c client \<Rightarrow> bool" where
  "goes c c' \<longleftrightarrow> services_ok c' \<and> advances c c'"

lemma InstallService_goes:
  assumes "services_ok c" and "InstallService ie cfg sig c = (r, c')"
  shows "goes c c'" and "r = Inr (Some old) \<Longrightarrow> unmapped c' old" and "unmapped c t \<Longrightarrow> unmapped c' t"
    and "d < length (cl_heap c) \<Longrightarrow> cl_heap c' ! d = cl_heap c ! d" and "cl_main c' = cl_main c"
proof -
  let ?s = "new_serviceData (csc_Name cfg) (Some cfg) inboxSize"
  have "goes c c' \<and> (\<forall>old. r = Inr (Some old) \<longrightarrow> unmapped c' old) \<and> (\<forall>t. unmapped c t \<longrightarrow> unmapped c' t) \<and>
      (\<forall>d < length (cl_heap c). cl_heap c' ! d = cl_heap c ! d) \<and> cl_main c' = cl_main c"
  proof (cases "c' = c \<and> (\<exists>x. r = Inl x)")
    case True
    with assms(1) show ?thesis by (auto simp: goes_def advances_same)
  next
    case False
    with assms(2) have r: "r = Inr (map_of (cl_services c) (csc_Name cfg))"
      and c': "cl_heap c' = cl_heap c @ [?s]" "cl_services c' = gomap_upd (csc_Name cfg) (length (cl_heap c)) (cl_services c)"
        "cl_senders c' = cl_senders c" "cl_main c' = cl_main c" and name: "csc_Name cfg \<noteq> ''system''"
      by (auto simp: InstallService_def validateServiceName_def split: if_splits)
    have s: "fresh_instance ?s" "sd_name ?s = csc_Name cfg"
      using name by (auto simp: fresh_instance_def new_serviceData_def capacity_of_def)
    note ins = services_ok_install [OF assms(1) s c']
    from ins advances_new [OF c'(1) s(1)] c'(1,4) r show ?thesis by (auto simp: goes_def nth_append)
  qed
  then show "goes c c'" and "r = Inr (Some old) \<Longrightarrow> unmapped c' old" and "unmapped c t \<Longrightarrow> unmapped c' t"
    and "d < length (cl_heap c) \<Longrightarrow> cl_heap c' ! d = cl_heap c ! d" and "cl_main c' = cl_main c" by blast+
qed

lemma goes_on_instance:
  assumes "services_ok c" and "instance_step (cl_heap c ! d) (f (cl_heap c ! d))"
    and "sd_closed (f (cl_heap c ! d)) = sd_closed (cl_heap c ! d)"
    and "\<And>t. closing (sd_phase (f (cl_heap c ! d))) = Some t \<Longrightarrow> unmapped c t"
  shows "goes c (on_instance d f c)"
  using assms services_ok_on_instance advances_on_instance instance_step_name unfolding goes_def by blast

lemma goes_same: "services_ok c \<Longrightarrow> same_map c c' \<Longrightarrow> cl_heap c' = cl_heap c \<Longrightarrow> goes c c'"
  by (simp add: goes_def services_ok_same advances_same)

lemma goes_trans: "goes a b \<Longrightarrow> goes b c \<Longrightarrow> goes a c"
  by (auto simp: goes_def intro: advances_trans)

subsection \<open>The steps\<close>

lemma same_map_simps [simp]:
  "same_map c (snd (Client_ProcessMessage m c))"
  "same_map c (out_taken m (c\<lparr>cl_outgoing := os\<rparr>))"
  "same_map c (pollRevokedCerts file um c)"
  "same_map c (contact_nonce streaming cd c)"
  "same_map c (c\<lparr>cl_senders := drop_nth i (cl_senders c)\<rparr>)"
proof -
  show "same_map c (snd (Client_ProcessMessage m c))"
    by (auto simp: same_map_def Client_ProcessMessage_def serviceConfiguration_ProcessMessage_def ran_def split: option.splits)
  show "same_map c (c\<lparr>cl_senders := drop_nth i (cl_senders c)\<rparr>)"
    by (auto simp: same_map_def drop_nth_def dest: in_set_takeD in_set_dropD)
qed (auto simp: same_map_def out_taken_def pollRevokedCerts_def contact_nonce_def split: PriorityLevel.splits sum.splits)

lemma heap_frames [simp]:
  "cl_heap (snd (Client_ProcessMessage m c)) = cl_heap c"
  "cl_heap (out_taken m c) = cl_heap c"
  "cl_heap (pollRevokedCerts file um c) = cl_heap c"
  "cl_heap (contact_nonce streaming cd c) = cl_heap c"
  by (simp_all add: Client_ProcessMessage_def serviceConfiguration_ProcessMessage_def out_taken_def pollRevokedCerts_def
      contact_nonce_def split: PriorityLevel.splits sum.splits option.splits)

lemma Send_cases: "snd (serviceData_Send d rnd m c) = c \<or> (\<exists>m'. snd (serviceData_Send d rnd m c) = snd (Client_ProcessMessage m' c))"
  by (cases rnd; cases "raw (SourceMessageId m) = []") (auto simp: serviceData_Send_def)

lemma goes_refl: "services_ok c \<Longrightarrow> goes c c"
  by (rule goes_same) (auto simp: same_map_def)

lemma goes_Client_ProcessMessage: "services_ok c \<Longrightarrow> goes c (snd (Client_ProcessMessage m c))"
  by (rule goes_same) simp_all

lemma goes_Send:
  assumes "services_ok c"
  shows "goes c (snd (serviceData_Send d rnd m c))"
  using Send_cases [of d rnd m c] goes_Client_ProcessMessage [OF assms] goes_refl [OF assms] by metis

text \<open>A change of the other fields before a \<^verbatim>\<open>Send\<close>.\<close>

definition fields_only :: "'c client \<Rightarrow> 'c client \<Rightarrow> bool" where
  "fields_only c c' \<longleftrightarrow> cl_heap c' = cl_heap c \<and> cl_services c' = cl_services c \<and> cl_main c' = cl_main c \<and> cl_senders c' = cl_senders c"

lemma goes_fields: "services_ok c \<Longrightarrow> fields_only c c' \<Longrightarrow> goes c c'"
  by (rule goes_same) (auto simp: fields_only_def same_map_def)

lemma goes_fields_Send:
  "services_ok c \<Longrightarrow> fields_only c c' \<Longrightarrow> goes c (snd (serviceData_Send d rnd m c'))"
  using goes_fields goes_Send goes_trans goes_def by metis

lemma goes_loops:
  assumes "services_ok c"
  shows "ackLoop cd d rnd n c = Inr c' \<Longrightarrow> goes c c'" and "errLoop cd d rnd x c = Inr c' \<Longrightarrow> goes c c'"
    and "cfgLoop cd d rnd chg c = Inr c' \<Longrightarrow> goes c c'"
  using assms by (auto simp: ackLoop_def errLoop_def cfgLoop_def fields_only_def intro!: goes_fields_Send split: sum.splits)

lemma served_simps [simp]:
  "sd_closed (served m r s) = sd_closed s" "closing (sd_phase (served m r s)) = None"
  "sd_closed (set_phase p s) = sd_closed s" "sd_phase (set_phase p s) = p"
  by (simp_all add: served_def set_phase_def)

lemma goes_served:
  assumes "services_ok c" and "working (sd_phase (cl_heap c ! d)) = Some m"
  shows "goes c (on_instance d (served m r) c)"
  using assms by (intro goes_on_instance instance_step.serve) simp_all

lemma goes_fields_served:
  assumes "services_ok c" and "fields_only c c'" and "working (sd_phase (cl_heap c ! d)) = Some m"
  shows "goes c (on_instance d (served m r) c')"
  using goes_trans [OF goes_fields [OF assms(1,2)] goes_served] assms(2,3) goes_fields [OF assms(1,2)]
  by (simp add: goes_def fields_only_def)

lemma goes_phase:
  assumes "services_ok c" and "working (sd_phase (cl_heap c ! d)) = Some m" and "working p = Some m"
    and "\<And>t. closing p = Some t \<Longrightarrow> unmapped c t"
  shows "goes c (on_instance d (set_phase p) c)"
  using assms by (intro goes_on_instance instance_step.work [where m = m]) simp_all

lemma RestartService_cases:
  obtains (failed) x where "RestartService name c = (Inl x, c)"
  | (removed) d where "map_of (cl_services c) name = Some d"
      "RestartService name c = (Inr d, c\<lparr>cl_services := gomap_del name (cl_services c)\<rparr>)"
  by (cases "validateServiceName name"; cases "map_of (cl_services c) name") (auto simp: RestartService_def removeService_def)

lemma goes_removed:
  assumes ok: "services_ok c" and d: "map_of (cl_services c) name = Some srv"
    and w: "working (sd_phase (cl_heap c ! d)) = Some m"
  shows "goes c (on_instance d (set_phase (Closing m srv True)) (c\<lparr>cl_services := gomap_del name (cl_services c)\<rparr>))"
proof -
  let ?c = "c\<lparr>cl_services := gomap_del name (cl_services c)\<rparr>"
  have 1: "goes c ?c" using services_ok_remove [OF ok] by (simp add: goes_def advances_same)
  have "goes ?c (on_instance d (set_phase (Closing m srv True)) ?c)"
    using 1 w removed_unmapped [OF ok d] by (intro goes_phase [where m = m]) (auto simp: goes_def)
  with 1 show ?thesis by (rule goes_trans)
qed

lemma goes_system:
  assumes ok: "services_ok c" and m: "sd_phase (cl_heap c ! d) = Running m"
    and run: "systemService_ProcessMessage cd cfg k d m c = Inr c'"
  shows "goes c c'"
proof -
  have w: "working (sd_phase (cl_heap c ! d)) = Some m" using m by simp
  consider (restart) name where "get_RestartServiceRequest cd (Data m) = Inr name" "MessageType m = ''RestartService''"
    | (other) c1 r where "c' = on_instance d (served m r) c1" "fields_only c c1"
    using run by (fastforce simp: systemService_ProcessMessage_def fields_only_def split: if_splits sum.splits)
  then show ?thesis
  proof cases
    case restart
    then show ?thesis
    proof (cases rule: RestartService_cases [of name c])
      case (failed x)
      with restart run have "c' = on_instance d (served m (Some x)) c" by (simp add: systemService_ProcessMessage_def)
      with goes_served [OF ok w] show ?thesis by simp
    next
      case (removed srv)
      with restart run have "c' = on_instance d (set_phase (Closing m srv True)) (c\<lparr>cl_services := gomap_del name (cl_services c)\<rparr>)"
        by (simp add: systemService_ProcessMessage_def)
      with goes_removed [OF ok removed(1) w] show ?thesis by simp
    qed
  next
    case (other c1 r)
    with goes_fields_served [OF ok _ w] show ?thesis by simp
  qed
qed

lemma goes_close_inbox:
  assumes ok: "services_ok c" and srv: "unmapped c srv" and run: "close_inbox srv c = Inr c'"
  shows "goes c c'" and "\<not> sd_closed (cl_heap c ! srv)" and "c' = on_instance srv (\<lambda>s. s\<lparr>sd_closed := True\<rparr>) c"
proof -
  show c: "\<not> sd_closed (cl_heap c ! srv)" and c': "c' = on_instance srv (\<lambda>s. s\<lparr>sd_closed := True\<rparr>) c"
    using run by (auto simp: close_inbox_def split: if_splits)
  have "instance_step (cl_heap c ! srv) ((cl_heap c ! srv)\<lparr>sd_closed := True\<rparr>)" using c by (rule instance_step.close)
  then show "goes c c'" unfolding c' goes_def
    using services_ok_close [OF ok srv] advances_on_instance [of c srv "\<lambda>s. s\<lparr>sd_closed := True\<rparr>"] by blast
qed

lemma live_in_set: "live c d \<Longrightarrow> cl_heap c ! d \<in> set (cl_heap c)"
  by (simp add: live_def)

lemma goes_step_close:
  assumes ok: "services_ok c" and run: "step_close d c = Some (Inr c')"
  shows "goes c c'"
proof -
  obtain m srv again c1 where p: "live c d" "sd_phase (cl_heap c ! d) = Closing m srv again"
    and c1: "close_inbox srv c = Inr c1" and c': "c' = on_instance d (set_phase (Waiting m srv again)) c1"
    using run by (auto simp: step_close_def split: if_splits loop_phase.splits)
  have un: "unmapped c srv"
    using ok live_in_set [OF p(1)] p(2) unfolding services_ok_def targets_unmapped_def by (metis closing.simps(1))
  note g = goes_close_inbox [OF ok un c1]
  have "working (sd_phase (cl_heap c1 ! d)) = Some m"
    using p by (cases "d = srv") (simp_all add: g(3) on_instance_def live_def)
  then have "goes c1 c'" unfolding c' using g(1) by (intro goes_phase [where m = m]) (auto simp: goes_def)
  with g(1) show ?thesis by (rule goes_trans)
qed

lemma goes_step_waited:
  assumes ok: "services_ok c" and run: "step_waited d ie c = Some (Inr c')"
  shows "goes c c'"
proof -
  obtain m srv again where p: "live c d" "sd_phase (cl_heap c ! d) = Waiting m srv again"
    using run by (auto simp: step_waited_def split: if_splits loop_phase.splits)
  have w: "working (sd_phase (cl_heap c ! d)) = Some m" using p(2) by simp
  show ?thesis
  proof (cases again)
    case False
    with run p have "c' = on_instance d (served m (reinstall_error (ie_prototext ie))) c"
      by (simp add: step_waited_def split: if_splits)
    with goes_served [OF ok w] show ?thesis by simp
  next
    case True
    with run p obtain cfg where cfg: "sd_serviceConfig (cl_heap c ! srv) = Some cfg"
      by (cases "sd_serviceConfig (cl_heap c ! srv)") (auto simp: step_waited_def split: if_splits)
    obtain r c1 where r: "InstallService ie cfg None c = (r, c1)" by force
    note g = InstallService_goes [OF ok r]
    have ok1: "services_ok c1" using g(1) by (simp add: goes_def)
    have w1: "working (sd_phase (cl_heap c1 ! d)) = Some m" using g(4) p(1) w by (simp add: live_def)
    consider q where "c' = on_instance d (served m q) c1" | old where "r = Inr (Some old)" "c' = on_instance d (set_phase (Closing m old False)) c1"
      using run True p by (auto simp: step_waited_def cfg r split: if_splits sum.splits option.splits)
    then have "goes c1 c'"
    proof cases
      case 1
      with goes_served [OF ok1 w1] show ?thesis by simp
    next
      case 2
      with goes_phase [OF ok1 w1, of "Closing m old False"] g(2) show ?thesis by simp
    qed
    with g(1) show ?thesis by (rule goes_trans)
  qed
qed

lemma goes_step_put:
  assumes ok: "services_ok c" and run: "step_put i c = Some (Inr c')"
  shows "goes c c'"
proof -
  obtain d m where i: "i < length (cl_senders c)" "cl_senders c ! i = (d, m)" by (metis prod.exhaust run step_put_def option.distinct(1))
  let ?c = "c\<lparr>cl_senders := drop_nth i (cl_senders c)\<rparr>"
  have room: "\<not> sd_closed (cl_heap c ! d)" "length (sd_inbox (cl_heap c ! d)) < sd_capacity (cl_heap c ! d)"
    and c': "c' = on_instance d (inbox_put m) ?c"
    using run i by (auto simp: step_put_def Let_def split: if_splits)
  have 1: "goes c ?c" using ok by (rule goes_same) simp_all
  have "goes ?c c'" unfolding c'
  proof (rule goes_on_instance)
    show "services_ok ?c" using 1 by (simp add: goes_def)
    show "instance_step (cl_heap ?c ! d) (inbox_put m (cl_heap ?c ! d))" using room by (simp add: instance_step.put)
    show "unmapped ?c t" if "closing (sd_phase (inbox_put m (cl_heap ?c ! d))) = Some t" for t
    proof -
      have "d < length (cl_heap c)" using ok i by (force simp: services_ok_def dest: nth_mem)
      then have "cl_heap c ! d \<in> set (cl_heap c)" by simp
      with that ok have "unmapped c t" by (auto simp: inbox_put_def services_ok_def targets_unmapped_def)
      then show ?thesis by (simp add: unmapped_def)
    qed
  qed (simp add: inbox_put_def)
  with 1 show ?thesis by (rule goes_trans)
qed

lemma targets_of_live:
  assumes "services_ok c" and "live c d" and "closing (sd_phase (cl_heap c ! d)) = Some t"
  shows "unmapped c t"
  using assms live_in_set [OF assms(2)] unfolding services_ok_def targets_unmapped_def by blast

lemma goes_step_count:
  assumes ok: "services_ok c" and run: "step_count d c = Some (Inr c')"
  shows "goes c c'"
proof -
  have d: "live c d" "0 < sd_counting (cl_heap c ! d)" and c': "c' = on_instance d count_accepted c"
    using run by (auto simp: step_count_def split: if_splits)
  show ?thesis unfolding c' using d targets_of_live [OF ok d(1)]
    by (intro goes_on_instance ok instance_step.count) (simp_all add: count_accepted_def)
qed

lemma goes_step_take:
  assumes ok: "services_ok c" and run: "step_take d c = Some (Inr c')"
  shows "goes c c'"
proof -
  let ?c = "on_instance d loop_take c"
  have d: "sd_phase (cl_heap c ! d) = Idle" "sd_inbox (cl_heap c ! d) \<noteq> [] \<or> sd_closed (cl_heap c ! d)"
    and c': "c' = beacon (sd_processedCount (cl_heap c ! d) + 1) ?c"
    using run by (auto simp: step_take_def split: if_splits)
  have 1: "goes c ?c" using d
    by (intro goes_on_instance ok instance_step.take) (auto simp: loop_take_def split: list.splits sum.splits)
  have "goes ?c c'" using 1 by (intro goes_fields) (simp_all add: goes_def c' beacon_def fields_only_def)
  with 1 show ?thesis by (rule goes_trans)
qed

lemma goes_step_report:
  assumes ok: "services_ok c" and run: "step_report d c = Some (Inr c')"
  shows "goes c c'"
proof -
  obtain r c1 where r: "sd_phase (cl_heap c ! d) = Reporting r" "send_report r c = Some c1" "c' = on_instance d (reported r) c1"
    using run by (auto simp: step_report_def split: if_splits loop_phase.splits)
  have f: "fields_only c c1" using r(2) by (auto simp: send_report_def fields_only_def split: report.splits if_splits)
  have 1: "goes c c1" by (rule goes_fields [OF ok f])
  have "goes c1 c'" unfolding r(3) using 1 f r(1)
    by (intro goes_on_instance instance_step.report) (simp_all add: goes_def reported_def fields_only_def)
  with 1 show ?thesis by (rule goes_trans)
qed

lemma goes_main_installed:
  assumes ok: "services_ok c" and main: "cl_main c = MainReady" and r: "InstallService ie cfg sig c = (r, c1)"
  shows "goes c (main_installed (map_sum f (\<lambda>old. old) r, c1))"
proof -
  note g = InstallService_goes [OF ok r]
  have "goes c1 (main_installed (map_sum f (\<lambda>old. old) r, c1))"
  proof (cases "\<exists>old. r = Inr (Some old)")
    case True
    then obtain old where old: "r = Inr (Some old)" by blast
    then have "services_ok (c1\<lparr>cl_main := MainClosing old\<rparr>)"
      using g(1) g(2) [OF old] by (auto simp: goes_def services_ok_def targets_unmapped_def unmapped_def)
    with old show ?thesis by (simp add: goes_def main_installed_def advances_same)
  next
    case False
    then have "main_installed (map_sum f (\<lambda>old. old) r, c1) = c1"
      by (cases r) (auto simp: main_installed_def split: option.splits)
    with g(1) show ?thesis by (simp add: goes_def advances_same)
  qed
  with g(1) show ?thesis by (rule goes_trans)
qed

lemma goes_step_main:
  assumes ok: "services_ok c"
  shows "step_main_close c = Some (Inr c') \<Longrightarrow> goes c c'" and "step_main_waited c = Some (Inr c') \<Longrightarrow> goes c c'"
proof -
  show "goes c c'" if run: "step_main_close c = Some (Inr c')"
  proof -
    obtain d c1 where d: "cl_main c = MainClosing d" "close_inbox d c = Inr c1" "c' = c1\<lparr>cl_main := MainWaiting d\<rparr>"
      using run by (auto simp: step_main_close_def split: main_phase.splits)
    have "unmapped c d" using ok d(1) by (simp add: services_ok_def targets_unmapped_def)
    note g = goes_close_inbox [OF ok this d(2)]
    have "goes c1 c'"
      using g(1) by (auto simp: d(3) goes_def services_ok_def targets_unmapped_def unmapped_def advances_same)
    with g(1) show ?thesis by (rule goes_trans)
  qed
  show "goes c c'" if "step_main_waited c = Some (Inr c')"
    using that ok by (auto simp: step_main_waited_def goes_def services_ok_def targets_unmapped_def unmapped_def advances_same
        split: main_phase.splits if_splits)
qed

lemma goes_install_signed:
  assumes ok: "services_ok c" and main: "cl_main c = MainReady"
  shows "goes c (main_installed (InstallSignedService um ie sd c))"
proof (cases "um (fst sd)")
  case (Inl x)
  with ok show ?thesis by (simp add: InstallSignedService_def main_installed_def goes_refl)
next
  case (Inr cfg)
  obtain r c1 where r: "InstallService ie cfg (snd sd) c = (r, c1)" by force
  have "InstallSignedService um ie sd c = (map_sum (\<lambda>_. Err ''installing'') (\<lambda>old. old) r, c1)"
    using Inr r by (simp add: InstallSignedService_def split: sum.splits)
  with goes_main_installed [OF ok main r] show ?thesis by metis
qed

lemma client_step_goes:
  assumes ok: "services_ok c" and run: "client_step pr ev c = Some (Inr c')"
  shows "goes c c'"
proof (cases ev)
  case (EvInstall ie cfg sig)
  obtain r c1 where r: "InstallService ie cfg sig c = (r, c1)" by force
  have "main_installed (map_sum (\<lambda>x. x) (\<lambda>old. old) r, c1) = main_installed (r, c1)" by (cases r) simp_all
  with goes_main_installed [OF ok _ r, of "\<lambda>x. x"] run EvInstall r show ?thesis by (simp split: if_splits)
next
  case (EvSystem d k)
  with run goes_system [OF ok] show ?thesis by (auto simp: step_system_def split: if_splits loop_phase.splits)
next
  case (EvServe d r)
  with run goes_served [OF ok] show ?thesis by (auto simp: step_serve_def split: if_splits loop_phase.splits)
next
  case (EvOut i)
  with run ok show ?thesis by (auto intro!: goes_same split: if_splits)
next
  case (EvOutCancel i)
  with run ok show ?thesis by (auto intro!: goes_fields simp: fields_only_def split: if_splits)
next
  case EvBeacon
  with run ok show ?thesis by (auto intro!: goes_fields simp: fields_only_def)
qed (use run ok in \<open>auto intro: goes_Client_ProcessMessage goes_Send goes_step_put goes_step_count goes_step_take goes_step_close
    goes_step_waited goes_step_report goes_step_main goes_install_signed goes_loops goes_same split: if_splits list.splits\<close>)

lemma client_run_goes: "client_run pr evs c = Some (Inr c') \<Longrightarrow> services_ok c \<Longrightarrow> goes c c'"
proof (induction evs arbitrary: c)
  case (Cons ev evs)
  then obtain c1 where c1: "client_step pr ev c = Some (Inr c1)" "client_run pr evs c1 = Some (Inr c')"
    by (auto split: option.splits sum.splits if_splits)
  have "goes c c1" by (rule client_step_goes [OF Cons.prems(2) c1(1)])
  moreover from this have "goes c1 c'" using Cons.IH [OF c1(2)] by (simp add: goes_def)
  ultimately show ?case by (rule goes_trans)
qed (simp add: goes_refl)

lemma new_client_ok: "services_ok (new_client cm cfg)"
  by (auto simp: services_ok_def new_client_def new_serviceData_def targets_unmapped_def gomap_ok_def)

lemma client_run_instance_ok:
  assumes "client_run pr evs (new_client cm cfg) = Some (Inr c)" and "d < length (cl_heap c)"
  shows "instance_ok (cl_heap c ! d)"
proof -
  have a: "advances (new_client cm cfg) c" using client_run_goes [OF assms(1) new_client_ok] by (simp add: goes_def)
  have "\<exists>s. fresh_instance s \<and> reach instance_step s (cl_heap c ! d)"
  proof (cases "d = 0")
    case True
    have "fresh_instance (cl_heap (new_client cm cfg) ! 0)" by (auto simp: new_client_def fresh_instance_def capacity_of_def)
    with a True show ?thesis by (auto simp: advances_def new_client_def)
  next
    case False
    with a assms(2) show ?thesis by (auto simp: advances_def new_client_def)
  qed
  then show ?thesis using service_instance.reachable_inv by blast
qed

end
