(* ===== verification/Client_Flow.thy ===== *)
theory Client_Flow
  imports Client_Services
begin

text \<open>
  What the machine of \<^verbatim>\<open>Client_Services\<close> guarantees: the accounting of tokens between client and server,
  delivery and reporting of messages, the safety of the map of services, and two runs in which the
  restart of a service goes wrong.
\<close>

section \<open>Counts and tokens\<close>

lemma Counts_fold:
  assumes "distinct (map fst xs)" and "\<And>k d. (k, d) \<in> set xs \<Longrightarrow> sd_name (h ! d) = k"
  shows "map_of (fst (fold (count_instance h) xs mp)) k =
      (case map_of xs k of None \<Rightarrow> map_of (fst mp) k | Some d \<Rightarrow> Some (sd_acceptCount (h ! d))) \<and>
    map_of (snd (fold (count_instance h) xs mp)) k =
      (case map_of xs k of None \<Rightarrow> map_of (snd mp) k | Some d \<Rightarrow> Some (sd_processedCount (h ! d)))"
  using assms
proof (induction xs arbitrary: mp)
  case (Cons x xs)
  obtain k1 d where x: "x = (k1, d)" by force
  have n: "sd_name (h ! d) = k1" using Cons.prems(2) x by simp
  have notin: "map_of xs k1 = None" using Cons.prems(1) x by (simp add: map_of_eq_None_iff)
  from Cons.IH [of "count_instance h x mp"] Cons.prems
  show ?case by (auto simp: x n notin count_instance_def Let_def split: option.splits)
qed simp

lemma Counts_services:
  assumes "services_ok c"
  shows "map_of (fst (Counts c)) k = map_option (\<lambda>d. sd_acceptCount (cl_heap c ! d)) (map_of (cl_services c) k)"
    and "map_of (snd (Counts c)) k = map_option (\<lambda>d. sd_processedCount (cl_heap c ! d)) (map_of (cl_services c) k)"
proof -
  have "distinct (map fst (cl_services c))" using assms by (simp add: services_ok_def gomap_ok_def)
  moreover have "sd_name (cl_heap c ! d) = k" if "(k, d) \<in> set (cl_services c)" for k d
    using services_okD(2) [OF assms, of k d] that calculation by simp
  ultimately show "map_of (fst (Counts c)) k = map_option (\<lambda>d. sd_acceptCount (cl_heap c ! d)) (map_of (cl_services c) k)"
    and "map_of (snd (Counts c)) k = map_option (\<lambda>d. sd_processedCount (cl_heap c ! d)) (map_of (cl_services c) k)"
    using Counts_fold [of "cl_services c" "cl_heap c" "([], [])" k] by (auto simp: Counts_def split: option.splits)
qed

lemma map_of_allowed: "map_of (allowed_messages baseCount am pm) k = map_option (\<lambda>a. case map_of baseCount k of
       None \<Rightarrow> of_nat inboxSize - (a - gomap_get0 pm k) | Some b \<Rightarrow> gomap_get0 pm k - b) (map_of am k)"
  by (induction am) (auto simp: allowed_messages_def split: option.splits)

lemma contact_tokens_installed:
  assumes "services_ok c" and "map_of (cl_services c) k = Some d"
  shows "gomap_get0 (contact_tokens baseCount c) k = (case map_of baseCount k of
      None \<Rightarrow> of_nat inboxSize - (sd_acceptCount (cl_heap c ! d) - sd_processedCount (cl_heap c ! d))
    | Some b \<Rightarrow> sd_processedCount (cl_heap c ! d) - b)"
  using Counts_services [OF assms(1), of k] assms(2)
  by (simp add: contact_tokens_def gomap_get0_def [where m = "allowed_messages _ _ _"] gomap_get0_def [where m = "snd _"]
      case_prod_beta map_of_allowed split: option.splits)

text \<open>
  The tokens a session grants a service: the first contact has no base, every later one the counts of the
  contact before it, as the streaming communicator does.
\<close>

fun session_tokens :: "string \<Rightarrow> (string, u64) gomap \<Rightarrow> 'c client list \<Rightarrow> u64" where
  "session_tokens k baseCount [] = 0"
| "session_tokens k baseCount (c # cs) = gomap_get0 (contact_tokens baseCount c) k + session_tokens k (snd (Counts c)) cs"

definition at_contact :: "string \<Rightarrow> nat \<Rightarrow> 'c client \<Rightarrow> bool" where
  "at_contact k d c \<longleftrightarrow> services_ok c \<and> map_of (cl_services c) k = Some d"

lemma session_tokens_later:
  assumes "list_all (at_contact k d) (c # cs)"
  shows "session_tokens k (snd (Counts c)) cs =
    sd_processedCount (cl_heap (last (c # cs)) ! d) - sd_processedCount (cl_heap c ! d)"
  using assms
proof (induction cs arbitrary: c)
  case (Cons c' cs)
  then have c: "at_contact k d c" and c': "at_contact k d c'" "list_all (at_contact k d) (c' # cs)" by simp_all
  have "gomap_get0 (contact_tokens (snd (Counts c)) c') k = sd_processedCount (cl_heap c' ! d) - sd_processedCount (cl_heap c ! d)"
    using c c'(1) contact_tokens_installed [of c' k d "snd (Counts c)"] Counts_services(2) [of c k] by (simp add: at_contact_def)
  with Cons.IH [OF c'(2)] show ?case by simp
qed simp

lemma client_run_services_ok: "client_run pr evs (new_client cm cfg) = Some (Inr c) \<Longrightarrow> services_ok c"
  using client_run_goes [OF _ new_client_ok] unfolding goes_def by blast

lemma client_run_counts:
  assumes "client_run pr evs (new_client cm cfg) = Some (Inr c)" and "map_of (cl_services c) k = Some d"
  shows "sd_acceptCount (cl_heap c ! d) + of_nat (sd_counting (cl_heap c ! d)) =
      sd_processedCount (cl_heap c ! d) + of_nat (length (sd_inbox (cl_heap c ! d)))"
proof -
  note ok = client_run_services_ok [OF assms(1)]
  note d = services_okD [OF ok assms(2)]
  from client_run_instance_ok [OF assms(1) d(1)] d(3) show ?thesis by (auto simp: instance_ok_def)
qed

lemma client_run_inbox:
  assumes "client_run pr evs (new_client cm cfg) = Some (Inr c)" and "map_of (cl_services c) k = Some d"
  shows "sd_capacity (cl_heap c ! d) = capacity_of k \<and> length (sd_inbox (cl_heap c ! d)) \<le> sd_capacity (cl_heap c ! d)"
proof -
  note d = services_okD(1,2) [OF client_run_services_ok [OF assms(1)] assms(2)]
  show ?thesis using client_run_instance_ok [OF assms(1) d(1)] d(2) by (simp add: instance_ok_def)
qed

definition reached :: "('k, 'p, 'c) client_params \<Rightarrow> 'c ConfigManager \<Rightarrow> 'c client \<Rightarrow> bool" where
  "reached pr cm c \<longleftrightarrow> (\<exists>evs. client_run pr evs (new_client cm (prm_config pr)) = Some (Inr c))"

text \<open>
  C19. Flow control between server and client. Over a streaming session with any number of contacts, at
  any states the client can reach, during which a service stays installed, the tokens granted for it, less
  the messages its inbox has accepted and counted since the session began, are at the last contact exactly
  the free places of its inbox, plus one for each message that is in the inbox but not
  yet counted. So a server that sends one message per token finds the inbox of a configured service with
  room. The inbox of the system service is smaller than the tokens assume, and it gets 95 tokens too many. All of it in \<^verbatim>\<open>uint64\<close>, with its wrap-around.
\<close>
theorem session_tokens_free_space:
  assumes "list_all (\<lambda>c. reached pr cm c \<and> map_of (cl_services c) k = Some d) (c # cs)" and "c' = last (c # cs)"
  shows "session_tokens k [] (c # cs) - (sd_acceptCount (cl_heap c' ! d) - sd_acceptCount (cl_heap c ! d)) =
    of_nat (sd_capacity (cl_heap c' ! d) - length (sd_inbox (cl_heap c' ! d))) + of_nat (sd_counting (cl_heap c' ! d))
      + (if k = ''system'' then 95 else 0)"
proof -
  have ok: "list_all (at_contact k d) (c # cs)"
    using assms(1) client_run_services_ok by (fastforce simp: at_contact_def reached_def list_all_iff)
  have last: "reached pr cm c'" "map_of (cl_services c') k = Some d"
    using assms last_in_set [of "c # cs"] by (auto simp: list_all_iff)
  then have "sd_acceptCount (cl_heap c' ! d) + of_nat (sd_counting (cl_heap c' ! d)) =
      sd_processedCount (cl_heap c' ! d) + of_nat (length (sd_inbox (cl_heap c' ! d)))"
    using client_run_counts by (auto simp: reached_def)
  moreover have "session_tokens k [] (c # cs) = of_nat inboxSize - sd_acceptCount (cl_heap c ! d) + sd_processedCount (cl_heap c' ! d)"
    using session_tokens_later [OF ok] contact_tokens_installed [of c k d "[]"] ok assms(2) by (simp add: at_contact_def)
  ultimately have tokens: "session_tokens k [] (c # cs) - (sd_acceptCount (cl_heap c' ! d) - sd_acceptCount (cl_heap c ! d)) =
      of_nat inboxSize - of_nat (length (sd_inbox (cl_heap c' ! d))) + of_nat (sd_counting (cl_heap c' ! d))"
    by (simp add: algebra_simps)
  obtain evs where "client_run pr evs (new_client cm (prm_config pr)) = Some (Inr c')" using last(1) by (auto simp: reached_def)
  from client_run_inbox [OF this last(2)]
  have free: "of_nat (sd_capacity (cl_heap c' ! d) - length (sd_inbox (cl_heap c' ! d))) + (if k = ''system'' then 95 else 0) =
      (of_nat inboxSize :: u64) - of_nat (length (sd_inbox (cl_heap c' ! d)))"
    by (simp add: of_nat_diff capacity_of_def systemInboxSize_def inboxSize_def)
  show ?thesis unfolding tokens free [symmetric] by (simp only: ac_simps)
qed

text \<open>
  A service that was installed again in the middle of a session breaks the accounting: when the new
  instance has processed fewer messages than the base of the session, the difference wraps around and the
  client grants \<open>2 ^ 64\<close> less that deficit as tokens.
\<close>
lemma restart_wraps_tokens:
  assumes "reached pr cm c" and "map_of (cl_services c) k = Some d" and "map_of baseCount k = Some b"
    and "sd_processedCount (cl_heap c ! d) < b"
  shows "unat (gomap_get0 (contact_tokens baseCount c) k) = 2 ^ 64 - (unat b - unat (sd_processedCount (cl_heap c ! d)))"
proof -
  have "services_ok c" using assms(1) client_run_services_ok by (auto simp: reached_def)
  then have "gomap_get0 (contact_tokens baseCount c) k = sd_processedCount (cl_heap c ! d) - b"
    using contact_tokens_installed [OF _ assms(2), of baseCount] assms(3) by simp
  moreover have "unat (p - b) = 2 ^ 64 - (unat b - unat p)" if "p < b" for p b :: u64
    using that unat_sub_if' [of p b] by (simp add: word_less_nat_alt not_le)
  ultimately show ?thesis using assms(4) by simp
qed

text \<open>
  C20. Delivery to a service. In every state a client can reach, the messages an instance accepted are those
  its loop has taken, in order, followed by those in its inbox, which never exceeds its capacity; and the
  acknowledgements and errors it has sent are, in order and once each, for the taken messages whose id is
  well formed and that are not a \<^verbatim>\<open>Die\<close>, up to the one it is working on.
\<close>
theorem service_reports_once:
  assumes "reached pr cm c" and "d < length (cl_heap c)" and "s = cl_heap c ! d"
  shows "h_accepted s = h_taken s @ sd_inbox s \<and> length (sd_inbox s) \<le> sd_capacity s \<and>
    map report_id (h_reported s) @ pending_ids (sd_phase s) = map loop_id (filter reportable (h_taken s)) \<and>
    (sd_phase s = Idle \<and> sd_inbox s = [] \<longrightarrow> map report_id (h_reported s) = map loop_id (filter reportable (h_accepted s)))"
proof -
  have "instance_ok s" using assms client_run_instance_ok by (auto simp: reached_def)
  then show ?thesis by (auto simp: instance_ok_def pending_ids_def)
qed

subsection \<open>The system service is never replaced\<close>

lemma system_kept_Install:
  assumes "InstallService ie cfg sig c = (r, c')"
  shows "map_of (cl_services c') ''system'' = map_of (cl_services c) ''system''"
  using assms by (auto simp: InstallService_def validateServiceName_def split: if_splits)

lemma system_kept_Restart:
  assumes "RestartService name c = (r, c')"
  shows "map_of (cl_services c') ''system'' = map_of (cl_services c) ''system''"
  using assms by (auto simp: RestartService_def removeService_def validateServiceName_def split: if_splits option.splits)

lemma services_on_instance [simp]: "cl_services (on_instance d f c) = cl_services c"
  by (simp add: on_instance_def)

lemma services_Client_ProcessMessage [simp]: "cl_services (snd (Client_ProcessMessage m c)) = cl_services c"
  by (simp add: Client_ProcessMessage_def serviceConfiguration_ProcessMessage_def split: option.splits)

lemma services_Send [simp]: "cl_services (snd (serviceData_Send d rnd m c)) = cl_services c"
  using Send_cases [of d rnd m c] services_Client_ProcessMessage by metis

lemma services_loops:
  "ackLoop cd d rnd n c = Inr c' \<Longrightarrow> cl_services c' = cl_services c"
  "errLoop cd d rnd x c = Inr c' \<Longrightarrow> cl_services c' = cl_services c"
  "cfgLoop cd d rnd chg c = Inr c' \<Longrightarrow> cl_services c' = cl_services c"
  by (auto simp: ackLoop_def errLoop_def cfgLoop_def split: sum.splits)

lemma services_main_installed [simp]: "cl_services (main_installed (r, c)) = cl_services c"
  by (simp add: main_installed_def split: sum.splits option.splits)

lemma system_kept_system:
  assumes "systemService_ProcessMessage cd cfg k d m c = Inr c'"
  shows "map_of (cl_services c') ''system'' = map_of (cl_services c) ''system''"
  using assms system_kept_Restart [of _ c]
  by (auto simp: systemService_ProcessMessage_def split: if_splits sum.splits prod.splits)

lemma system_kept_waited:
  assumes "step_waited d ie c = Some (Inr c')"
  shows "map_of (cl_services c') ''system'' = map_of (cl_services c) ''system''"
  using assms system_kept_Install [of ie _ None c]
  by (auto simp: step_waited_def split: if_splits sum.splits option.splits prod.splits loop_phase.splits)

lemma system_kept_signed:
  "map_of (cl_services (main_installed (InstallSignedService um ie sd c))) ''system'' = map_of (cl_services c) ''system''"
proof -
  obtain r c' where r: "InstallSignedService um ie sd c = (r, c')" by force
  then have "map_of (cl_services c') ''system'' = map_of (cl_services c) ''system''"
    using system_kept_Install [of ie _ "snd sd" c] by (auto simp: InstallSignedService_def split: sum.splits prod.splits)
  with r show ?thesis by simp
qed

lemma system_kept_step:
  assumes "client_step pr ev c = Some (Inr c')"
  shows "map_of (cl_services c') ''system'' = map_of (cl_services c) ''system''"
proof (cases ev)
  case (EvInstall ie cfg sig)
  obtain r c1 where r: "InstallService ie cfg sig c = (r, c1)" by force
  with system_kept_Install [OF r] assms EvInstall show ?thesis by (auto split: if_splits)
next
  case (EvSystem d k)
  with assms show ?thesis by (auto simp: step_system_def system_kept_system split: if_splits loop_phase.splits)
qed (use assms in \<open>auto simp: step_put_def step_count_def step_take_def step_serve_def step_close_def close_inbox_def beacon_def
    step_report_def send_report_def step_main_close_def step_main_waited_def out_taken_def pollRevokedCerts_def contact_nonce_def Let_def
    services_loops system_kept_waited system_kept_signed
    split: if_splits option.splits list.splits loop_phase.splits report.splits main_phase.splits PriorityLevel.splits sum.splits prod.splits\<close>)

lemma system_kept_run:
  "client_run pr evs c = Some (Inr c') \<Longrightarrow> map_of (cl_services c') ''system'' = map_of (cl_services c) ''system''"
proof (induction evs arbitrary: c)
  case (Cons ev evs)
  then obtain c1 where "client_step pr ev c = Some (Inr c1)" "client_run pr evs c1 = Some (Inr c')"
    by (auto split: option.splits sum.splits if_splits)
  with Cons.IH system_kept_step show ?case by metis
qed simp

text \<open>
  C21. No message can take the system service away: in every state a client can reach, the name
  \<^verbatim>\<open>system\<close> leads to the instance the client created at its start, and every installed service, this one
  included, has an open inbox, its own name, and a processing loop that has not returned.
\<close>
theorem installed_services_alive:
  assumes "reached pr cm c"
  shows "map_of (cl_services c) ''system'' = Some 0 \<and>
    (map_of (cl_services c) k = Some d \<longrightarrow> d < length (cl_heap c) \<and> sd_name (cl_heap c ! d) = k \<and>
       \<not> sd_closed (cl_heap c ! d) \<and> sd_phase (cl_heap c ! d) \<noteq> Returned_loop)"
proof -
  obtain evs where run: "client_run pr evs (new_client cm (prm_config pr)) = Some (Inr c)"
    using assms by (auto simp: reached_def)
  have "sd_phase (cl_heap c ! d) \<noteq> Returned_loop" if "d < length (cl_heap c)" "\<not> sd_closed (cl_heap c ! d)"
    using client_run_instance_ok [OF run that(1)] that(2) by (auto simp: instance_ok_def)
  then show ?thesis
    using system_kept_run [OF run] services_okD [OF client_run_services_ok [OF run]] by (auto simp: new_client_def)
qed

section \<open>Runs\<close>

definition demo_codec_client :: "u8 client_codec" where
  "demo_codec_client = \<lparr>any_MessageAckData = (\<lambda>ids. Inr \<lparr>TypeUrl = ''ack'', Value = concat (map raw ids)\<rparr>),
     any_MessageErrorData = (\<lambda>e. Inr \<lparr>TypeUrl = ''err'', Value = raw (fst e)\<rparr>),
     any_ClientInfoData = (\<lambda>c. Inr \<lparr>TypeUrl = ''info'', Value = []\<rparr>),
     get_DieRequest = (\<lambda>d. Inr True), get_RestartServiceRequest = (\<lambda>d. Inr ''echo''), client_keys = test_keys\<rparr>"

definition demo_params :: "(u8, files, unit) client_params" where
  "demo_params = \<lparr>prm_codec = demo_codec_client, prm_config = test_config no_faults,
     prm_serials = (\<lambda>b. Inr [b]), prm_service = (\<lambda>b. Inl (Err ''no services''))\<rparr>"

definition demo_install :: install_env where
  "demo_install = \<lparr>ie_factories = [''NOOP''], ie_create = None, ie_start = None, ie_prototext = None\<rparr>"

definition demo_service :: ClientServiceConfig where
  "demo_service = \<lparr>csc_Name = ''echo'', csc_Factory = ''NOOP'', csc_RequiredLabels = []\<rparr>"

definition demo_to :: "string \<Rightarrow> string \<Rightarrow> Message" where
  "demo_to svc t = empty_Message\<lparr>MessageId := Some (replicate 32 7), MessageType := t,
     Destination := Some \<lparr>ClientId = Some [0, 0, 0, 0, 0, 0, 0, 3], ServiceName = svc\<rparr>\<rparr>"

definition demo_start :: "unit client" where
  "demo_start = new_client (test_manager 3 2 [[4]] [[4]] False) (prm_config demo_params)"

text \<open>A service is installed and answers one message; then the server asks to restart it.\<close>

definition answered :: "u8 client_event list" where
  "answered = [EvInstall demo_install demo_service None, EvProcess (demo_to ''echo'' ''ping''), EvPut 0, EvCount 1,
     EvTake 1, EvServe 1 None, EvReport 1]"

definition restarted :: "u8 client_event list" where
  "restarted = answered @ [EvProcess (demo_to ''system'' ''RestartService''), EvPut 0, EvCount 0, EvTake 0, EvSystem 0 (Inr 5),
     EvClose 0, EvTake 1, EvWaited 0 demo_install, EvReport 0]"

definition state_after :: "u8 client_event list \<Rightarrow> unit client" where
  "state_after evs = (case client_run demo_params evs demo_start of Some (Inr c) \<Rightarrow> c | _ \<Rightarrow> demo_start)"

definition runs :: "u8 client_event list \<Rightarrow> bool" where
  "runs evs \<longleftrightarrow> (case client_run demo_params evs demo_start of Some (Inr c) \<Rightarrow> True | _ \<Rightarrow> False)"

lemma reached_after: "runs evs \<Longrightarrow> reached demo_params (test_manager 3 2 [[4]] [[4]] False) (state_after evs)"
  unfolding reached_def runs_def state_after_def demo_start_def by (auto split: option.splits sum.splits)

lemma demo_runs: "runs answered" "runs restarted" "runs [EvInstall demo_install demo_service None]"
  by code_simp+

theorem session_tokens_free_space_witness:
  "session_tokens ''echo'' [] [state_after [EvInstall demo_install demo_service None], state_after answered] - 1 = 100"
proof -
  let ?c = "state_after [EvInstall demo_install demo_service None]" and ?c' = "state_after answered"
  have s: "map_of (cl_services ?c) ''echo'' = Some 1" "map_of (cl_services ?c') ''echo'' = Some 1" by code_simp+
  have v: "sd_acceptCount (cl_heap ?c' ! 1) - sd_acceptCount (cl_heap ?c ! 1) = 1"
    "of_nat (sd_capacity (cl_heap ?c' ! 1) - length (sd_inbox (cl_heap ?c' ! 1))) + of_nat (sd_counting (cl_heap ?c' ! 1)) = (100 :: u64)"
    by code_simp+
  show ?thesis
    using session_tokens_free_space [of demo_params "test_manager 3 2 [[4]] [[4]] False" "''echo''" 1 ?c "[?c']" ?c']
      reached_after [OF demo_runs(1)] reached_after [OF demo_runs(3)] s v by simp
qed

lemma restart_wraps_tokens_instance:
  "unat (gomap_get0 (contact_tokens (snd (Counts (state_after answered))) (state_after restarted)) ''echo'') = 2 ^ 64 - 1"
proof -
  let ?b = "snd (Counts (state_after answered))" and ?c = "state_after restarted"
  have s: "map_of (cl_services ?c) ''echo'' = Some 2" "map_of ?b ''echo'' = Some 1" "sd_processedCount (cl_heap ?c ! 2) = 0" by code_simp+
  show ?thesis using restart_wraps_tokens [OF reached_after [OF demo_runs(2)] s(1) s(2)] s(3) by simp
qed

theorem service_reports_once_witness:
  "map report_id (h_reported (cl_heap (state_after answered) ! 1)) = [MessageID (replicate 32 7)]"
proof -
  have v: "1 < length (cl_heap (state_after answered))" "sd_phase (cl_heap (state_after answered) ! 1) = Idle"
    "sd_inbox (cl_heap (state_after answered) ! 1) = []"
    "map loop_id (filter reportable (h_accepted (cl_heap (state_after answered) ! 1))) = [MessageID (replicate 32 7)]" by code_simp+
  show ?thesis using service_reports_once [OF reached_after [OF demo_runs(1)] v(1) refl] v(2-4) by metis
qed

theorem installed_services_alive_witness:
  "map_of (cl_services (state_after restarted)) ''system'' = Some 0 \<and> \<not> sd_closed (cl_heap (state_after restarted) ! 2)"
proof -
  have s: "map_of (cl_services (state_after restarted)) ''echo'' = Some 2" by code_simp
  show ?thesis using installed_services_alive [OF reached_after [OF demo_runs(2)], of "''echo''" 2] s by blast
qed

text \<open>
  The restart of a service can end the client: a message for it is looked up, the server's restart
  closes the inbox of the instance that was found, and the send panics.
\<close>
lemma restart_can_panic:
  "client_run demo_params [EvInstall demo_install demo_service None, EvProcess (demo_to ''echo'' ''ping''),
     EvProcess (demo_to ''system'' ''RestartService''), EvPut 1, EvCount 0, EvTake 0, EvSystem 0 (Inr 5), EvClose 0, EvPut 0]
     demo_start = Some (Inl (Fatal ''send on closed channel''))"
  by code_simp

end
