(* ===== verification/Client_Polling.thy ===== *)
theory Client_Polling
  imports Outbox_Sort Ids
begin

text \<open>
  The polling communicator of a client, \<^verbatim>\<open>fleetspeak/src/client/https/polling.go\<close>, as a state machine: the
  goroutine of \<^verbatim>\<open>processingLoop\<close>, and \<^verbatim>\<open>Reset\<close>, \<^verbatim>\<open>Flush\<close> and \<^verbatim>\<open>Stop\<close> that other goroutines call.

  The HTTP exchange with a host, the encodings, the clock, the jitter and the identity of the client are
  inputs of the steps. A channel that is only ever closed, \<^verbatim>\<open>pollDone\<close>, is a number; the list of closed
  channels tells whether closing it panics. Contexts: \<open>pl_ctx_done\<close> is the state of \<^verbatim>\<open>c.ctx\<close>, \<open>pl_req_done\<close>
  that of the context of the running poll, and \<open>pl_req_own\<close> tells whether that one descends from the present
  \<^verbatim>\<open>c.ctx\<close>. The watchdog, statistics and idle connections are left out: they do not affect the loop.
\<close>

definition sendBytesThreshold :: int where
  "sendBytesThreshold = 15 * 1024 * 1024"

definition sendCountThreshold :: nat where
  "sendCountThreshold = 100"

record CommunicatorConfig =
  MaxPollDelaySeconds :: int
  MaxBufferDelaySeconds :: int
  MinFailureDelaySeconds :: int
  FailureSuicideTimeSeconds :: int

definition context_Canceled :: error where
  "context_Canceled = Err ''context canceled''"

text \<open>The loop is at its top, in its \<^verbatim>\<open>select\<close>, in a poll or in the delay after a failed one, with the channel
  the poll will close and whether the loop returns after it, or has returned.\<close>

datatype poll_phase = AtTop | Selecting | InPoll nat bool | FailureDelay nat error bool | Ended

record pollComm =
  pl_id :: ClientID
  pl_hosts :: "string list"
  pl_conf :: CommunicatorConfig
  pl_ctx_done :: bool
  pl_wakeUp :: bool
  pl_pollDone :: nat
  pl_closed :: "nat list"
  pl_next :: nat
  pl_lastPollErr :: "error option"
  pl_pollCancel :: bool
  pl_req_done :: bool
  pl_req_own :: bool
  pl_toSend :: "MessageInfo list"
  pl_toSendSize :: int
  pl_lastPoll :: gotime
  pl_oldestUnsent :: gotime
  pl_lastActive :: gotime
  pl_phase :: poll_phase
  pl_flushes :: "nat list"
  h_received :: "MessageInfo list"
  h_acked :: "MessageInfo list"
  h_nacked :: "MessageInfo list"

section \<open>Configuration\<close>

text \<open>What \<^verbatim>\<open>makeTransport\<close>, \<^verbatim>\<open>ServerInfo\<close> and \<^verbatim>\<open>CommunicatorConfig\<close> return.\<close>

record configure_env =
  ce_transport :: "error + ClientID"
  ce_servers :: "error + string list"
  ce_config :: "CommunicatorConfig option"

definition config_defaults :: "CommunicatorConfig \<Rightarrow> CommunicatorConfig" where
  "config_defaults cf = \<lparr>
     MaxPollDelaySeconds = (if MaxPollDelaySeconds cf = 0 then 300 else MaxPollDelaySeconds cf),
     MaxBufferDelaySeconds = (if MaxBufferDelaySeconds cf = 0 then 5 else MaxBufferDelaySeconds cf),
     MinFailureDelaySeconds = (if MinFailureDelaySeconds cf = 0 then 300 else MinFailureDelaySeconds cf),
     FailureSuicideTimeSeconds = (if FailureSuicideTimeSeconds cf = 0 then 60 * 60 * 24 * 7 else FailureSuicideTimeSeconds cf)\<rparr>"

definition configure :: "configure_env \<Rightarrow> pollComm \<Rightarrow> error option \<times> pollComm" where
  "configure ce c = (case ce_transport ce of
       Inl x \<Rightarrow> (Some x, c)
     | Inr i \<Rightarrow> (let c = c\<lparr>pl_id := i\<rparr> in case ce_servers ce of
         Inl _ \<Rightarrow> (Some (Err ''unable to configure communicator, could not get server information''), c)
       | Inr hs \<Rightarrow> (let c = c\<lparr>pl_hosts := hs\<rparr> in
           if hs = [] then (Some (Err ''no server_addresses in client configuration''), c)
           else case ce_config ce of
               None \<Rightarrow> (Some (Err ''no communicator_config in client configuration''), c)
             | Some cf \<Rightarrow> (None, c\<lparr>pl_conf := config_defaults cf, pl_ctx_done := False, pl_req_own := False,
                 pl_wakeUp := False\<rparr>))))"

definition new_pollComm :: pollComm where
  "new_pollComm = \<lparr>pl_id = ClientID [], pl_hosts = [],
     pl_conf = \<lparr>MaxPollDelaySeconds = 0, MaxBufferDelaySeconds = 0, MinFailureDelaySeconds = 0, FailureSuicideTimeSeconds = 0\<rparr>,
     pl_ctx_done = False, pl_wakeUp = False, pl_pollDone = 0, pl_closed = [0], pl_next = 1, pl_lastPollErr = None,
     pl_pollCancel = False, pl_req_done = False, pl_req_own = False, pl_toSend = [], pl_toSendSize = 0,
     pl_lastPoll = zero_time, pl_oldestUnsent = zero_time, pl_lastActive = zero_time, pl_phase = AtTop, pl_flushes = [],
     h_received = [], h_acked = [], h_nacked = []\<rparr>"

text \<open>\<^verbatim>\<open>Setup\<close>: \<^verbatim>\<open>pollDone\<close> starts as a closed channel; then the communicator is configured.\<close>

definition Setup :: "configure_env \<Rightarrow> error + pollComm" where
  "Setup ce = (case configure ce new_pollComm of (Some x, _) \<Rightarrow> Inl x | (None, c) \<Rightarrow> Inr c)"

section \<open>One poll of the hosts\<close>

text \<open>
  The inputs of \<^verbatim>\<open>c.poll\<close>: errors of \<^verbatim>\<open>MakeContactData\<close> or of the encoding, what \<^verbatim>\<open>pollHost\<close> returns for
  the host at each position, from which position on a cancelled request context is noticed, and the
  error of \<^verbatim>\<open>ProcessContactData\<close>.
\<close>

record poll_env =
  pe_contact :: "error option"
  pe_host :: "nat \<Rightarrow> string \<Rightarrow> error + ContactData"
  pe_cancel_at :: nat
  pe_process :: "error option"

fun poll_hosts :: "poll_env \<Rightarrow> bool \<Rightarrow> nat \<Rightarrow> string list \<Rightarrow> error + nat \<times> ContactData" where
  "poll_hosts pe cancelled i [] = Inl (Err ''unable to contact any server'')"
| "poll_hosts pe cancelled i (host # hosts) = (case pe_host pe i host of
      Inl _ \<Rightarrow> if cancelled \<and> pe_cancel_at pe \<le> i then Inl context_Canceled else poll_hosts pe cancelled (i + 1) hosts
    | Inr cd \<Rightarrow> Inr (i, cd))"

text \<open>The host that answered is tried first next time.\<close>

definition swap_front :: "nat \<Rightarrow> 'a list \<Rightarrow> 'a list" where
  "swap_front i xs = (if i \<noteq> 0 then xs[0 := xs ! i, i := xs ! 0] else xs)"

definition poll :: "poll_env \<Rightarrow> bool \<Rightarrow> MessageInfo list \<Rightarrow> string list \<Rightarrow> (error + bool) \<times> string list" where
  "poll pe cancelled toSend hosts =
     (let sent = list_ex (\<lambda>m. \<not> Background (mi_M m)) toSend in
      case pe_contact pe of
        Some x \<Rightarrow> (Inl x, hosts)
      | None \<Rightarrow> (case poll_hosts pe cancelled 0 hosts of
          Inl x \<Rightarrow> (Inl x, hosts)
        | Inr (i, cd) \<Rightarrow> (let hosts = swap_front i hosts in
            case pe_process pe of
              Some x \<Rightarrow> (Inl x, hosts)
            | None \<Rightarrow> (Inr (sent \<or> Messages cd \<noteq> []), hosts))))"

section \<open>The loop\<close>

definition fresh_pollDone :: "pollComm \<Rightarrow> pollComm" where
  "fresh_pollDone c = c\<lparr>pl_pollDone := pl_next c, pl_next := pl_next c + 1\<rparr>"

definition renew_pollDone :: "pollComm \<Rightarrow> pollComm" where
  "renew_pollDone c = (if pl_pollDone c \<in> set (pl_closed c) then fresh_pollDone c else c)"

text \<open>The start of the closure \<^verbatim>\<open>poll\<close>, up to the exchange.\<close>

definition poll_begin :: "bool \<Rightarrow> pollComm \<Rightarrow> pollComm" where
  "poll_begin final c = (let c = renew_pollDone c in
     c\<lparr>pl_pollCancel := True, pl_req_done := pl_ctx_done c, pl_req_own := True, pl_phase := InPoll (pl_pollDone c) final\<rparr>)"

definition clear_unsent :: "pollComm \<Rightarrow> pollComm" where
  "clear_unsent c = c\<lparr>pl_toSend := [], pl_toSendSize := 0, pl_oldestUnsent := zero_time\<rparr>"

definition nack_unsent :: "pollComm \<Rightarrow> pollComm" where
  "nack_unsent c = clear_unsent (c\<lparr>h_nacked := h_nacked c @ pl_toSend c\<rparr>)"

definition ack_unsent :: "pollComm \<Rightarrow> pollComm" where
  "ack_unsent c = clear_unsent (c\<lparr>h_acked := h_acked c @ pl_toSend c\<rparr>)"

text \<open>The return of \<^verbatim>\<open>processingLoop\<close>: what is left to send is nacked.\<close>

definition loop_return :: "pollComm \<Rightarrow> pollComm" where
  "loop_return c = (nack_unsent c)\<lparr>pl_phase := Ended\<rparr>"

text \<open>The deferred function of \<^verbatim>\<open>poll\<close>.\<close>

definition poll_finish :: "nat \<Rightarrow> error option \<Rightarrow> bool \<Rightarrow> pollComm \<Rightarrow> error + pollComm" where
  "poll_finish myDone err final c =
     (if myDone \<in> set (pl_closed c) then Inl (Fatal ''close of closed channel'')
      else (let c = c\<lparr>pl_pollCancel := False, pl_lastPollErr := err, pl_closed := myDone # pl_closed c, pl_phase := AtTop\<rparr> in
        Inr (if final then loop_return c else c)))"

definition poll_result :: "poll_env \<Rightarrow> gotime \<Rightarrow> nat \<Rightarrow> bool \<Rightarrow> pollComm \<Rightarrow> error + pollComm" where
  "poll_result pe now myDone final c =
     (case poll pe (pl_req_done c) (pl_toSend c) (pl_hosts c) of
        (Inl err, hosts) \<Rightarrow> (let c = c\<lparr>pl_hosts := hosts\<rparr> in
          if err = context_Canceled \<and> \<not> pl_ctx_done c then poll_finish myDone (Some err) final c
          else (let c = nack_unsent c in
            if pl_lastPoll c \<noteq> zero_time \<and> now - pl_lastPoll c > FailureSuicideTimeSeconds (pl_conf c) * second
            then Inl (Fatal ''Too Lonely! Failed to contact server'')
            else Inr (c\<lparr>pl_phase := FailureDelay myDone err final\<rparr>)))
      | (Inr active, hosts) \<Rightarrow> (let c = (ack_unsent c)\<lparr>pl_hosts := hosts, pl_lastPoll := now\<rparr>;
            c = (if active then c\<lparr>pl_lastActive := now\<rparr> else c)
          in poll_finish myDone None final c))"

text \<open>The time at which the loop polls without having been woken, from two values of the jitter.\<close>

definition loop_deadline :: "gotime \<Rightarrow> int \<Rightarrow> int \<Rightarrow> pollComm \<Rightarrow> gotime" where
  "loop_deadline now jpoll jbuffer c =
     (let deadline = pl_lastPoll c + jpoll;
          deadline = (if pl_lastActive c \<noteq> zero_time
            then min deadline (pl_lastPoll c + (200000000 + go_quot (now - pl_lastActive c) 10)) else deadline)
      in if pl_oldestUnsent c \<noteq> zero_time then min deadline (pl_oldestUnsent c + jbuffer) else deadline)"

definition loop_top :: "gotime \<Rightarrow> int \<Rightarrow> int \<Rightarrow> pollComm \<Rightarrow> pollComm" where
  "loop_top now jpoll jbuffer c =
     (if pl_ctx_done c then loop_return c
      else if now > loop_deadline now jpoll jbuffer c \<or> pl_toSendSize c > sendBytesThreshold \<or> length (pl_toSend c) \<ge> sendCountThreshold
      then poll_begin False c
      else c\<lparr>pl_phase := Selecting\<rparr>)"

text \<open>\<^verbatim>\<open>case m := <-c.cctx.Outbox()\<close>; \<open>Size\<close> is \<^verbatim>\<open>proto.Size\<close>.\<close>

definition loop_receive :: "(Message \<Rightarrow> nat) \<Rightarrow> MessageInfo \<Rightarrow> gotime \<Rightarrow> pollComm \<Rightarrow> pollComm" where
  "loop_receive Size m now c =
     (let c = renew_pollDone c;
          c = c\<lparr>pl_toSend := pl_toSend c @ [m], pl_toSendSize := pl_toSendSize c + 2 + int (Size (mi_M m)),
                h_received := h_received c @ [m]\<rparr>
      in if pl_toSendSize c \<ge> sendBytesThreshold \<or> length (pl_toSend c) \<ge> sendCountThreshold then poll_begin False c
         else c\<lparr>pl_oldestUnsent := (if pl_oldestUnsent c = zero_time then now else pl_oldestUnsent c), pl_phase := AtTop\<rparr>)"

section \<open>Other goroutines\<close>

definition Reset :: "pollComm \<Rightarrow> pollComm" where
  "Reset c = (fresh_pollDone (if pl_pollCancel c then c\<lparr>pl_req_done := True\<rparr> else c))\<lparr>pl_wakeUp := True\<rparr>"

definition Stop :: "pollComm \<Rightarrow> pollComm" where
  "Stop c = c\<lparr>pl_ctx_done := True, pl_req_done := (pl_req_done c \<or> pl_req_own c)\<rparr>"

text \<open>\<^verbatim>\<open>Flush\<close> waits on a channel; when it is closed it returns the last error, or waits again if there is one
  and the channel has been replaced.\<close>

definition Flush_begin :: "pollComm \<Rightarrow> pollComm" where
  "Flush_begin c = c\<lparr>pl_flushes := pl_flushes c @ [pl_pollDone c]\<rparr>"

definition Flush_wake :: "nat \<Rightarrow> pollComm \<Rightarrow> (error option option \<times> pollComm) option" where
  "Flush_wake i c = (if i < length (pl_flushes c) \<and> pl_flushes c ! i \<in> set (pl_closed c) then
       (if pl_lastPollErr c \<noteq> None \<and> pl_pollDone c \<noteq> pl_flushes c ! i
        then Some (None, c\<lparr>pl_flushes := (pl_flushes c)[i := pl_pollDone c]\<rparr>)
        else Some (Some (pl_lastPollErr c), c\<lparr>pl_flushes := take i (pl_flushes c) @ drop (i + 1) (pl_flushes c)\<rparr>))
     else None)"

datatype poll_event =
    LoopTop gotime int int
  | SelectDone
  | SelectTimer
  | SelectWake
  | SelectMessage MessageInfo gotime
  | Reconfigure configure_env
  | PollResult poll_env gotime
  | DelayTimer
  | DelayDone
  | DelayWake
  | CallReset
  | CallStop
  | CallFlush
  | FlushWake nat

fun poll_step :: "(Message \<Rightarrow> nat) \<Rightarrow> poll_event \<Rightarrow> pollComm \<Rightarrow> (error + pollComm) option" where
  "poll_step Size (LoopTop now jp jb) c = (if pl_phase c = AtTop then Some (Inr (loop_top now jp jb c)) else None)"
| "poll_step Size SelectDone c = (if pl_phase c = Selecting \<and> pl_ctx_done c
     then Some (Inr (if pl_toSendSize c > 0 then poll_begin True c else loop_return c)) else None)"
| "poll_step Size SelectTimer c = (if pl_phase c = Selecting then Some (Inr (poll_begin False c)) else None)"
| "poll_step Size SelectWake c = (if pl_phase c = Selecting \<and> pl_wakeUp c
     then Some (Inr (poll_begin False (c\<lparr>pl_wakeUp := False\<rparr>))) else None)"
| "poll_step Size (SelectMessage m now) c = (if pl_phase c = Selecting then Some (Inr (loop_receive Size m now c)) else None)"
| "poll_step Size (Reconfigure ce) c = (case pl_phase c of InPoll _ _ \<Rightarrow> Some (Inr (snd (configure ce c))) | _ \<Rightarrow> None)"
| "poll_step Size (PollResult pe now) c = (case pl_phase c of InPoll ch final \<Rightarrow> Some (poll_result pe now ch final c) | _ \<Rightarrow> None)"
| "poll_step Size DelayTimer c = (case pl_phase c of FailureDelay ch err final \<Rightarrow> Some (poll_finish ch (Some err) final c) | _ \<Rightarrow> None)"
| "poll_step Size DelayDone c = (case pl_phase c of
     FailureDelay ch err final \<Rightarrow> (if pl_ctx_done c then Some (poll_finish ch (Some err) final c) else None) | _ \<Rightarrow> None)"
| "poll_step Size DelayWake c = (case pl_phase c of
     FailureDelay ch err final \<Rightarrow> (if pl_wakeUp c then Some (poll_finish ch (Some err) final (c\<lparr>pl_wakeUp := False\<rparr>)) else None) | _ \<Rightarrow> None)"
| "poll_step Size CallReset c = Some (Inr (Reset c))"
| "poll_step Size CallStop c = Some (Inr (Stop c))"
| "poll_step Size CallFlush c = Some (Inr (Flush_begin c))"
| "poll_step Size (FlushWake i) c = map_option (\<lambda>(_, c). Inr c) (Flush_wake i c)"

inductive poll_reach :: "(Message \<Rightarrow> nat) \<Rightarrow> pollComm \<Rightarrow> bool" for Size where
  start: "Setup ce = Inr c \<Longrightarrow> poll_reach Size c"
| step: "poll_reach Size c \<Longrightarrow> poll_step Size ev c = Some (Inr c') \<Longrightarrow> poll_reach Size c'"

section \<open>The invariant\<close>

definition send_size :: "(Message \<Rightarrow> nat) \<Rightarrow> MessageInfo list \<Rightarrow> int" where
  "send_size Size ms = sum_list (map (\<lambda>m. 2 + int (Size (mi_M m))) ms)"

text \<open>The messages: those received are, in order, an interleaving of those acked and those nacked, then those to be sent; the batch is bounded.\<close>

definition batch_ok :: "(Message \<Rightarrow> nat) \<Rightarrow> pollComm \<Rightarrow> bool" where
  "batch_ok Size c \<longleftrightarrow>
     (\<exists>settled. h_received c = settled @ pl_toSend c \<and> settled \<in> shuffles (h_acked c) (h_nacked c)) \<and>
     pl_toSendSize c = send_size Size (pl_toSend c) \<and>
     length (pl_toSend c) \<le> sendCountThreshold \<and> send_size Size (butlast (pl_toSend c)) \<le> sendBytesThreshold \<and>
     (pl_phase c = Selecting \<longrightarrow> length (pl_toSend c) < sendCountThreshold \<and> pl_toSendSize c \<le> sendBytesThreshold) \<and>
     (pl_phase c = Ended \<longrightarrow> pl_toSend c = [])"

text \<open>The channels: the one the running poll is to close is open.\<close>

fun to_close :: "poll_phase \<Rightarrow> nat option" where
  "to_close (InPoll ch final) = Some ch"
| "to_close (FailureDelay ch err final) = Some ch"
| "to_close _ = None"

definition channels_ok :: "pollComm \<Rightarrow> bool" where
  "channels_ok c \<longleftrightarrow> distinct (pl_closed c) \<and> (\<forall>ch \<in> set (pl_closed c). ch < pl_next c) \<and> pl_pollDone c < pl_next c \<and>
     (\<forall>ch. to_close (pl_phase c) = Some ch \<longrightarrow> ch < pl_next c \<and> ch \<notin> set (pl_closed c))"

text \<open>The parts of the state the two invariants read.\<close>

definition batch_view :: "pollComm \<Rightarrow> MessageInfo list \<times> MessageInfo list \<times> MessageInfo list \<times> MessageInfo list \<times> int" where
  "batch_view c = (h_received c, h_acked c, h_nacked c, pl_toSend c, pl_toSendSize c)"

lemma batch_ok_same:
  assumes "batch_ok Size c" and "batch_view c' = batch_view c" and "pl_phase c' = Selecting \<Longrightarrow> pl_phase c = Selecting"
    and "pl_phase c' = Ended \<Longrightarrow> pl_phase c = Ended"
  shows "batch_ok Size c'"
  using assms by (auto simp: batch_ok_def batch_view_def)

lemma renew_fields [simp]:
  "pl_toSend (renew_pollDone c) = pl_toSend c" "pl_toSendSize (renew_pollDone c) = pl_toSendSize c"
  "pl_oldestUnsent (renew_pollDone c) = pl_oldestUnsent c" "pl_phase (renew_pollDone c) = pl_phase c"
  "h_received (renew_pollDone c) = h_received c" "h_acked (renew_pollDone c) = h_acked c" "h_nacked (renew_pollDone c) = h_nacked c"
  "batch_view (renew_pollDone c) = batch_view c"
  by (simp_all add: renew_pollDone_def fresh_pollDone_def batch_view_def)

lemma begin_fields [simp]:
  "batch_view (poll_begin final c) = batch_view c" "pl_phase (poll_begin final c) \<noteq> Selecting" "pl_phase (poll_begin final c) \<noteq> Ended"
  using renew_fields(8) [of c] by (simp_all add: poll_begin_def Let_def batch_view_def)

lemma batch_ok_poll_begin:
  assumes "batch_ok Size c"
  shows "batch_ok Size (poll_begin final c)"
  using assms by (rule batch_ok_same) simp_all

text \<open>A batch at the end of an interleaving of two lists extends either of them.\<close>

lemma shuffles_append_left: "s \<in> shuffles xs ys \<Longrightarrow> s @ zs \<in> shuffles (xs @ zs) ys"
proof (induction s arbitrary: xs ys)
  case (Cons a s)
  from Cons.prems have "(xs \<noteq> [] \<and> hd xs = a \<and> s \<in> shuffles (tl xs) ys) \<or> (ys \<noteq> [] \<and> hd ys = a \<and> s \<in> shuffles xs (tl ys))"
    by (simp add: Cons_in_shuffles_iff)
  with Cons.IH [of "tl xs" ys] Cons.IH [of xs "tl ys"] show ?case by (auto simp: Cons_in_shuffles_iff)
qed (simp add: Nil_in_shuffles)

lemma shuffles_append_right: "s \<in> shuffles xs ys \<Longrightarrow> s @ zs \<in> shuffles xs (ys @ zs)"
  using shuffles_append_left [of s ys xs zs] by (simp add: shuffles_commutes)

lemma batch_ok_cleared:
  assumes "h_received c \<in> shuffles (h_acked c) (h_nacked c)" and "pl_toSend c = []" and "pl_toSendSize c = 0"
  shows "batch_ok Size c"
  using assms by (simp add: batch_ok_def send_size_def sendCountThreshold_def sendBytesThreshold_def)

lemma batch_ok_nack:
  assumes "batch_ok Size c"
  shows "batch_ok Size (nack_unsent c)"
  using assms by (intro batch_ok_cleared) (auto simp: nack_unsent_def clear_unsent_def batch_ok_def intro: shuffles_append_right)

lemma batch_ok_ack:
  assumes "batch_ok Size c"
  shows "batch_ok Size (ack_unsent c)"
  using assms by (intro batch_ok_cleared) (auto simp: ack_unsent_def clear_unsent_def batch_ok_def intro: shuffles_append_left)

lemma batch_ok_return:
  assumes "batch_ok Size c"
  shows "batch_ok Size (loop_return c)"
  using batch_ok_nack [OF assms] by (auto simp: batch_ok_def loop_return_def nack_unsent_def clear_unsent_def)

lemma batch_ok_finish:
  assumes "batch_ok Size c" and "poll_finish ch err final c = Inr c'"
  shows "batch_ok Size c'"
proof -
  let ?c = "c\<lparr>pl_pollCancel := False, pl_lastPollErr := err, pl_closed := ch # pl_closed c, pl_phase := AtTop\<rparr>"
  have "batch_ok Size ?c" using assms(1) by (rule batch_ok_same) (simp_all add: batch_view_def)
  with assms(2) batch_ok_return [of Size ?c] show ?thesis by (auto simp: poll_finish_def Let_def split: if_splits)
qed

lemma batch_ok_result:
  assumes ok: "batch_ok Size c" and run: "poll_result pe now ch final c = Inr c'"
  shows "batch_ok Size c'"
proof (cases "poll pe (pl_req_done c) (pl_toSend c) (pl_hosts c)")
  case (Pair r hosts)
  show ?thesis
  proof (cases r)
    case (Inl err)
    let ?c = "c\<lparr>pl_hosts := hosts\<rparr>"
    have c: "batch_ok Size ?c" using ok by (rule batch_ok_same) (simp_all add: batch_view_def)
    show ?thesis
    proof (cases "err = context_Canceled \<and> \<not> pl_ctx_done c")
      case True
      with run Pair Inl have "poll_finish ch (Some err) final ?c = Inr c'" by (simp add: poll_result_def)
      with c show ?thesis by (rule batch_ok_finish)
    next
      case False
      define n where "n = nack_unsent ?c"
      from False run Pair Inl have c': "c' = n\<lparr>pl_phase := FailureDelay ch err final\<rparr>"
        by (auto simp: poll_result_def Let_def n_def [symmetric] split: if_splits)
      have "batch_ok Size n" unfolding n_def by (rule batch_ok_nack [OF c])
      then show ?thesis unfolding c' by (rule batch_ok_same) (simp_all add: batch_view_def)
    qed
  next
    case (Inr active)
    let ?c = "(ack_unsent c)\<lparr>pl_hosts := hosts, pl_lastPoll := now\<rparr>"
    have "batch_ok Size (if active then ?c\<lparr>pl_lastActive := now\<rparr> else ?c)"
      using batch_ok_ack [OF ok] by (rule batch_ok_same) (simp_all add: batch_view_def split: if_splits)
    moreover have "poll_finish ch None final (if active then ?c\<lparr>pl_lastActive := now\<rparr> else ?c) = Inr c'"
      using run Pair Inr by (simp add: poll_result_def Let_def)
    ultimately show ?thesis by (rule batch_ok_finish)
  qed
qed

lemma send_size_snoc: "send_size Size (ms @ [m]) = send_size Size ms + 2 + int (Size (mi_M m))"
  by (simp add: send_size_def)

lemma batch_ok_receive:
  assumes ok: "batch_ok Size c" and sel: "pl_phase c = Selecting"
  shows "batch_ok Size (loop_receive Size m now c)"
proof -
  define n where "n = (renew_pollDone c)\<lparr>pl_toSend := pl_toSend c @ [m], pl_toSendSize := pl_toSendSize c + 2 + int (Size (mi_M m)),
      h_received := h_received c @ [m]\<rparr>"
  have "batch_ok Size (n\<lparr>pl_phase := AtTop\<rparr>)"
    using ok sel by (simp add: batch_ok_def send_size_snoc n_def)
  moreover have "batch_view (loop_receive Size m now c) = batch_view (n\<lparr>pl_phase := AtTop\<rparr>)"
    "pl_phase (loop_receive Size m now c) \<noteq> Selecting" "pl_phase (loop_receive Size m now c) \<noteq> Ended"
    by (simp_all add: loop_receive_def Let_def n_def [symmetric]) (simp_all add: batch_view_def)
  ultimately show ?thesis by (metis batch_ok_same)
qed

lemma batch_ok_top:
  assumes "batch_ok Size c"
  shows "batch_ok Size (loop_top now jp jb c)"
proof -
  have "batch_ok Size (c\<lparr>pl_phase := Selecting\<rparr>)" if "pl_toSendSize c \<le> sendBytesThreshold" "length (pl_toSend c) < sendCountThreshold"
    using assms that by (simp add: batch_ok_def)
  with assms show ?thesis by (auto simp: loop_top_def batch_ok_return batch_ok_poll_begin not_le)
qed

lemma batch_view_configure: "batch_view (snd (configure ce c)) = batch_view c" "pl_phase (snd (configure ce c)) = pl_phase c"
  by (simp_all add: configure_def batch_view_def Let_def split: sum.splits option.splits)

lemma batch_ok_step:
  assumes ok: "batch_ok Size c" and run: "poll_step Size ev c = Some (Inr c')"
  shows "batch_ok Size c'"
proof (cases ev)
  case (Reconfigure ce)
  with run have "c' = snd (configure ce c)" by (auto split: poll_phase.splits)
  with ok show ?thesis using batch_view_configure by (auto intro: batch_ok_same)
next
  case DelayWake
  with run obtain ch err final where "poll_finish ch (Some err) final (c\<lparr>pl_wakeUp := False\<rparr>) = Inr c'"
    by (auto split: poll_phase.splits if_splits)
  moreover have "batch_ok Size (c\<lparr>pl_wakeUp := False\<rparr>)" using ok by (rule batch_ok_same) (simp_all add: batch_view_def)
  ultimately show ?thesis using batch_ok_finish by blast
next
  case SelectWake
  have "batch_ok Size (c\<lparr>pl_wakeUp := False\<rparr>)" using ok by (rule batch_ok_same) (simp_all add: batch_view_def)
  with run SelectWake show ?thesis by (auto simp: batch_ok_poll_begin split: if_splits)
next
  case CallReset
  with run have "c' = Reset c" by simp
  with ok show ?thesis by (auto intro!: batch_ok_same [OF ok] simp: Reset_def fresh_pollDone_def batch_view_def)
next
  case (FlushWake i)
  with run ok show ?thesis by (auto intro!: batch_ok_same [OF ok] simp: Flush_wake_def batch_view_def split: if_splits)
qed (use run ok in \<open>auto intro: batch_ok_top batch_ok_return batch_ok_poll_begin batch_ok_receive batch_ok_result batch_ok_finish
    batch_ok_same [OF ok] simp: Stop_def Flush_begin_def batch_view_def split: if_splits poll_phase.splits\<close>)

text \<open>The channels.\<close>

definition channel_view :: "pollComm \<Rightarrow> nat list \<times> nat \<times> nat" where
  "channel_view c = (pl_closed c, pl_next c, pl_pollDone c)"

lemma channels_ok_same:
  assumes "channels_ok c" and "channel_view c' = channel_view c"
    and "to_close (pl_phase c') = None \<or> to_close (pl_phase c') = to_close (pl_phase c)"
  shows "channels_ok c'"
  using assms by (auto simp: channels_ok_def channel_view_def)

lemma unsent_channels [simp]:
  "channel_view (nack_unsent c) = channel_view c" "channel_view (ack_unsent c) = channel_view c"
  "channel_view (loop_return c) = channel_view c"
  "pl_phase (nack_unsent c) = pl_phase c" "pl_phase (ack_unsent c) = pl_phase c" "pl_phase (loop_return c) = Ended"
  "pl_lastPoll (nack_unsent c) = pl_lastPoll c" "pl_conf (nack_unsent c) = pl_conf c"
  by (simp_all add: channel_view_def nack_unsent_def ack_unsent_def clear_unsent_def loop_return_def)

lemma channels_ok_fresh:
  assumes "channels_ok c"
  shows "channels_ok (fresh_pollDone c)"
  using assms by (auto simp: channels_ok_def fresh_pollDone_def less_SucI)

lemma channels_ok_renew:
  assumes "channels_ok c"
  shows "channels_ok (renew_pollDone c)" and "pl_pollDone (renew_pollDone c) \<notin> set (pl_closed (renew_pollDone c))"
  using assms channels_ok_fresh [OF assms] by (auto simp: renew_pollDone_def) (auto simp: channels_ok_def fresh_pollDone_def)

lemma channels_ok_poll_begin:
  assumes "channels_ok c"
  shows "channels_ok (poll_begin final c)"
proof -
  define n where "n = renew_pollDone c"
  have "channels_ok n" "pl_pollDone n \<notin> set (pl_closed n)" using channels_ok_renew [OF assms] by (simp_all add: n_def)
  then show ?thesis by (simp add: poll_begin_def n_def [symmetric] channels_ok_def)
qed

lemma channels_ok_finish:
  assumes ok: "channels_ok c" and ch: "to_close (pl_phase c) = Some ch"
  shows "\<exists>c'. poll_finish ch err final c = Inr c' \<and> channels_ok c'"
proof -
  let ?c = "c\<lparr>pl_pollCancel := False, pl_lastPollErr := err, pl_closed := ch # pl_closed c, pl_phase := AtTop\<rparr>"
  have open_ch: "ch \<notin> set (pl_closed c)" and c: "channels_ok ?c" using ok ch by (auto simp: channels_ok_def)
  have "channels_ok (loop_return ?c)" using c by (rule channels_ok_same) simp_all
  with open_ch c show ?thesis by (simp add: poll_finish_def Let_def)
qed

lemma channels_ok_result:
  assumes ok: "channels_ok c" and ph: "pl_phase c = InPoll ch final"
  shows "(\<exists>c'. poll_result pe now ch final c = Inr c' \<and> channels_ok c') \<or>
    (poll_result pe now ch final c = Inl (Fatal ''Too Lonely! Failed to contact server'') \<and>
       pl_lastPoll c \<noteq> zero_time \<and> now - pl_lastPoll c > FailureSuicideTimeSeconds (pl_conf c) * second)"
proof (cases "poll pe (pl_req_done c) (pl_toSend c) (pl_hosts c)")
  case (Pair r hosts)
  show ?thesis
  proof (cases r)
    case (Inl err)
    let ?c = "c\<lparr>pl_hosts := hosts\<rparr>"
    have c: "channels_ok ?c" using ok by (rule channels_ok_same) (simp_all add: channel_view_def)
    show ?thesis
    proof (cases "err = context_Canceled \<and> \<not> pl_ctx_done c")
      case True
      with Pair Inl have "poll_result pe now ch final c = poll_finish ch (Some err) final ?c" by (simp add: poll_result_def)
      with channels_ok_finish [OF c, of ch] ph show ?thesis by simp
    next
      case False
      define n where "n = nack_unsent ?c"
      have n: "channel_view n = channel_view c" "pl_lastPoll n = pl_lastPoll c" "pl_conf n = pl_conf c"
        by (simp_all add: n_def) (simp add: channel_view_def)
      have "channels_ok (n\<lparr>pl_phase := FailureDelay ch err final\<rparr>)"
        using ok n(1) ph by (auto simp: channels_ok_def channel_view_def)
      with False Pair Inl show ?thesis by (auto simp: poll_result_def Let_def n_def [symmetric] n)
    qed
  next
    case (Inr active)
    define n where "n = (if active then (ack_unsent c)\<lparr>pl_hosts := hosts, pl_lastPoll := now, pl_lastActive := now\<rparr>
      else (ack_unsent c)\<lparr>pl_hosts := hosts, pl_lastPoll := now\<rparr>)"
    have view: "channel_view n = channel_view c" "pl_phase n = pl_phase c"
      using unsent_channels(2) [of c] by (simp_all add: n_def channel_view_def)
    have "channels_ok n" using ok by (rule channels_ok_same) (simp_all add: view)
    moreover have "poll_result pe now ch final c = poll_finish ch None final n"
      using Pair Inr by (simp add: poll_result_def Let_def n_def)
    ultimately show ?thesis using channels_ok_finish [of n ch] ph view(2) by simp
  qed
qed

lemma channels_ok_receive:
  assumes "channels_ok c"
  shows "channels_ok (loop_receive Size m now c)"
proof -
  define n where "n = (renew_pollDone c)\<lparr>pl_toSend := pl_toSend c @ [m], pl_toSendSize := pl_toSendSize c + 2 + int (Size (mi_M m)),
      h_received := h_received c @ [m]\<rparr>"
  have n: "channels_ok n"
    using channels_ok_renew(1) [OF assms] by (rule channels_ok_same) (simp_all add: n_def channel_view_def)
  have "channels_ok (n\<lparr>pl_oldestUnsent := t, pl_phase := AtTop\<rparr>)" for t
    using n by (rule channels_ok_same) (simp_all add: channel_view_def)
  with channels_ok_poll_begin [OF n] show ?thesis by (simp add: loop_receive_def Let_def n_def [symmetric])
qed

lemma channels_ok_top:
  assumes "channels_ok c"
  shows "channels_ok (loop_top now jp jb c)"
proof -
  have "channels_ok (loop_return c)" using assms by (rule channels_ok_same) simp_all
  moreover have "channels_ok (c\<lparr>pl_phase := Selecting\<rparr>)" using assms by (rule channels_ok_same) (simp_all add: channel_view_def)
  ultimately show ?thesis using channels_ok_poll_begin [OF assms] by (simp add: loop_top_def)
qed

lemma channel_view_configure: "channel_view (snd (configure ce c)) = channel_view c"
  by (simp add: configure_def channel_view_def Let_def split: sum.splits option.splits)

text \<open>Every step keeps the channels in order, or is the deliberate end of a client that found no server.\<close>

lemma channels_ok_step:
  assumes ok: "channels_ok c" and run: "poll_step Size ev c = Some r"
  shows "(\<exists>c'. r = Inr c' \<and> channels_ok c') \<or> (r = Inl (Fatal ''Too Lonely! Failed to contact server'') \<and>
    (\<exists>pe now. ev = PollResult pe now \<and> now - pl_lastPoll c > FailureSuicideTimeSeconds (pl_conf c) * second))"
proof (cases ev)
  case (Reconfigure ce)
  with run have "r = Inr (snd (configure ce c))" by (auto split: poll_phase.splits)
  moreover have "channels_ok (snd (configure ce c))"
    using ok by (rule channels_ok_same) (simp_all add: channel_view_configure batch_view_configure)
  ultimately show ?thesis by blast
next
  case (PollResult pe now)
  with run obtain ch final where "pl_phase c = InPoll ch final" "r = poll_result pe now ch final c"
    by (auto split: poll_phase.splits)
  with channels_ok_result [OF ok, of ch final pe now] PollResult show ?thesis by auto
next
  case DelayWake
  with run obtain ch err final where ph: "pl_phase c = FailureDelay ch err final"
    and r: "r = poll_finish ch (Some err) final (c\<lparr>pl_wakeUp := False\<rparr>)" by (auto split: poll_phase.splits if_splits)
  have "channels_ok (c\<lparr>pl_wakeUp := False\<rparr>)" using ok by (rule channels_ok_same) (simp_all add: channel_view_def)
  from channels_ok_finish [OF this, of ch] ph r show ?thesis by simp
next
  case SelectWake
  have "channels_ok (c\<lparr>pl_wakeUp := False\<rparr>)" using ok by (rule channels_ok_same) (simp_all add: channel_view_def)
  from channels_ok_poll_begin [OF this] run SelectWake show ?thesis by (auto split: if_splits)
next
  case CallReset
  have "channels_ok (fresh_pollDone (if pl_pollCancel c then c\<lparr>pl_req_done := True\<rparr> else c))"
    by (rule channels_ok_fresh, rule channels_ok_same [OF ok]) (simp_all add: channel_view_def)
  then have "channels_ok (Reset c)"
    unfolding Reset_def by (rule channels_ok_same) (simp_all add: channel_view_def)
  with run CallReset show ?thesis by auto
next
  case SelectDone
  have "channels_ok (loop_return c)" using ok by (rule channels_ok_same) simp_all
  with run SelectDone channels_ok_poll_begin [OF ok] show ?thesis by (auto split: if_splits)
next
  case DelayTimer
  with run channels_ok_finish [OF ok] show ?thesis by (auto split: poll_phase.splits)
next
  case DelayDone
  with run channels_ok_finish [OF ok] show ?thesis by (auto split: poll_phase.splits if_splits)
next
  case (FlushWake i)
  with run ok show ?thesis by (auto simp: Flush_wake_def channels_ok_def split: if_splits)
next
  case CallStop
  with run ok show ?thesis by (auto simp: Stop_def channels_ok_def)
next
  case CallFlush
  with run ok show ?thesis by (auto simp: Flush_begin_def channels_ok_def)
qed (use run ok in \<open>auto intro: channels_ok_top channels_ok_poll_begin channels_ok_receive split: if_splits\<close>)

lemma poll_reach_ok:
  assumes "poll_reach Size c"
  shows "batch_ok Size c" and "channels_ok c"
proof -
  have "batch_ok Size c \<and> channels_ok c"
    using assms
  proof induction
    case (start ce c)
    then have c: "c = snd (configure ce new_pollComm)" by (auto simp: Setup_def split: prod.splits option.splits)
    have "batch_ok Size new_pollComm" "channels_ok new_pollComm"
      by (simp_all add: batch_ok_def channels_ok_def new_pollComm_def send_size_def sendCountThreshold_def sendBytesThreshold_def)
    then show ?case unfolding c
      by (metis batch_ok_same batch_view_configure channel_view_configure channels_ok_same)
  next
    case (step c ev c')
    with batch_ok_step channels_ok_step [of c Size ev "Inr c'"] show ?case by auto
  qed
  then show "batch_ok Size c" and "channels_ok c" by blast+
qed

section \<open>Properties\<close>

lemma polling_ends_only_lonely:
  assumes "poll_reach Size c" and "poll_step Size ev c = Some (Inl x)"
  shows "x = Fatal ''Too Lonely! Failed to contact server'' \<and>
    (\<exists>pe now. ev = PollResult pe now \<and> now - pl_lastPoll c > FailureSuicideTimeSeconds (pl_conf c) * second)"
  using channels_ok_step [OF poll_reach_ok(2) [OF assms(1)] assms(2)] by auto

text \<open>
  C30. The polling communicator keeps the promise of \<^verbatim>\<open>comms.MessageInfo\<close>, whatever the servers, \<^verbatim>\<open>Reset\<close>,
  \<^verbatim>\<open>Flush\<close>, \<^verbatim>\<open>Stop\<close> and changes of identity do. At all times the messages taken from the outbox, in the
  order in which they were taken, are an interleaving of those that have been acked once and those that
  have been nacked once, each group in that same order, followed by those that wait to be sent; when the
  loop has returned none waits. What waits is within \<^verbatim>\<open>sendCountThreshold\<close>, and within \<^verbatim>\<open>sendBytesThreshold\<close>
  but for the last message. No channel has been closed twice and no step closes a closed one: the only step
  that ends the process is the deliberate one, after polls have failed for longer than
  \<^verbatim>\<open>FailureSuicideTimeSeconds\<close>.
\<close>
theorem polling_exactly_once:
  assumes "poll_reach Size c"
  shows "(\<exists>settled. h_received c = settled @ pl_toSend c \<and> settled \<in> shuffles (h_acked c) (h_nacked c)) \<and>
    mset (h_received c) = mset (h_acked c) + mset (h_nacked c) + mset (pl_toSend c) \<and>
    (pl_phase c = Ended \<longrightarrow> pl_toSend c = []) \<and>
    length (pl_toSend c) \<le> sendCountThreshold \<and> send_size Size (butlast (pl_toSend c)) \<le> sendBytesThreshold \<and>
    distinct (pl_closed c) \<and>
    (\<forall>ev x. poll_step Size ev c = Some (Inl x) \<longrightarrow> x = Fatal ''Too Lonely! Failed to contact server'' \<and>
      (\<exists>pe now. ev = PollResult pe now \<and> now - pl_lastPoll c > FailureSuicideTimeSeconds (pl_conf c) * second))"
proof -
  note inv = poll_reach_ok [OF assms]
  have order: "\<exists>settled. h_received c = settled @ pl_toSend c \<and> settled \<in> shuffles (h_acked c) (h_nacked c)"
    and bounds: "pl_phase c = Ended \<longrightarrow> pl_toSend c = []" "length (pl_toSend c) \<le> sendCountThreshold"
      "send_size Size (butlast (pl_toSend c)) \<le> sendBytesThreshold"
    using inv(1) by (simp_all add: batch_ok_def)
  from order have "mset (h_received c) = mset (h_acked c) + mset (h_nacked c) + mset (pl_toSend c)"
    by (auto simp: mset_shuffles)
  moreover have "distinct (pl_closed c)" using inv(2) by (simp add: channels_ok_def)
  ultimately show ?thesis using order bounds polling_ends_only_lonely [OF assms] by blast
qed

text \<open>A poll keeps the hosts, and puts the one that answered first.\<close>

lemma mset_swap_front: "i < length xs \<Longrightarrow> mset (swap_front i xs) = mset xs"
  using mset_swap [of i xs 0] by (cases "xs = []") (simp_all add: swap_front_def)

lemma swap_front_hd: "i < length xs \<Longrightarrow> swap_front i xs ! 0 = xs ! i"
  by (cases xs; cases i) (simp_all add: swap_front_def)

lemma poll_hosts_found:
  "poll_hosts pe cancelled i hosts = Inr (j, cd) \<Longrightarrow> i \<le> j \<and> j < i + length hosts \<and> pe_host pe j (hosts ! (j - i)) = Inr cd"
proof (induction pe cancelled i hosts rule: poll_hosts.induct)
  case (2 pe cancelled i host hosts)
  show ?case
  proof (cases "pe_host pe i host")
    case (Inl x)
    with 2 have "i + 1 \<le> j \<and> j < i + 1 + length hosts \<and> pe_host pe j (hosts ! (j - (i + 1))) = Inr cd"
      by (auto split: if_splits)
    moreover from this have "j - i = Suc (j - (i + 1))" by linarith
    ultimately show ?thesis by simp
  qed (use 2 in auto)
qed simp

lemma poll_keeps_hosts:
  assumes "poll pe cancelled toSend hosts = (r, hosts')"
  shows "mset hosts' = mset hosts" and "r = Inr active \<Longrightarrow> \<exists>i cd. i < length hosts \<and> hosts' ! 0 = hosts ! i \<and> pe_host pe i (hosts ! i) = Inr cd"
proof -
  have "mset hosts' = mset hosts \<and> (r = Inr active \<longrightarrow> (\<exists>i cd. i < length hosts \<and> hosts' ! 0 = hosts ! i \<and> pe_host pe i (hosts ! i) = Inr cd))"
  proof (cases "poll_hosts pe cancelled 0 hosts")
    case (Inl x)
    with assms show ?thesis by (auto simp: poll_def split: option.splits)
  next
    case (Inr p)
    obtain i cd where p: "p = (i, cd)" by force
    from poll_hosts_found [of pe cancelled 0 hosts i cd] Inr p have i: "i < length hosts" "pe_host pe i (hosts ! i) = Inr cd" by auto
    with assms Inr p mset_swap_front [OF i(1)] swap_front_hd [OF i(1)] show ?thesis
      by (auto simp: poll_def Let_def split: option.splits)
  qed
  then show "mset hosts' = mset hosts" and "r = Inr active \<Longrightarrow> \<exists>i cd. i < length hosts \<and> hosts' ! 0 = hosts ! i \<and> pe_host pe i (hosts ! i) = Inr cd"
    by blast+
qed

section \<open>Runs\<close>

fun poll_run :: "(Message \<Rightarrow> nat) \<Rightarrow> poll_event list \<Rightarrow> pollComm \<Rightarrow> (error + pollComm) option" where
  "poll_run Size [] c = Some (Inr c)"
| "poll_run Size (ev # evs) c = (case poll_step Size ev c of
     Some (Inr c') \<Rightarrow> poll_run Size evs c' | Some (Inl x) \<Rightarrow> (if evs = [] then Some (Inl x) else None) | None \<Rightarrow> None)"

lemma poll_run_reach: "poll_reach Size c \<Longrightarrow> poll_run Size evs c = Some (Inr c') \<Longrightarrow> poll_reach Size c'"
proof (induction evs arbitrary: c)
  case (Cons ev evs)
  then obtain c1 where c1: "poll_step Size ev c = Some (Inr c1)" "poll_run Size evs c1 = Some (Inr c')"
    by (auto split: option.splits sum.splits if_splits)
  with Cons.IH poll_reach.step [OF Cons.prems(1) c1(1)] show ?case by blast
qed simp

definition demo_configure :: "u8 \<Rightarrow> configure_env" where
  "demo_configure k = \<lparr>ce_transport = Inr (ClientID (replicate 8 k)), ce_servers = Inr [''a'', ''b''],
     ce_config = Some \<lparr>MaxPollDelaySeconds = 0, MaxBufferDelaySeconds = 0, MinFailureDelaySeconds = 0, FailureSuicideTimeSeconds = 0\<rparr>\<rparr>"

definition demo_comm :: pollComm where
  "demo_comm = snd (configure (demo_configure 1) new_pollComm)"

definition demo_poll :: "bool \<Rightarrow> poll_env" where
  "demo_poll ok = \<lparr>pe_contact = None, pe_host = (\<lambda>i h. if ok \<and> h = ''b''
       then Inr \<lparr>SequencingNonce = 0, Messages = [], ClientClock = None, AllowedMessages = []\<rparr> else Inl (Err ''refused'')),
     pe_cancel_at = 0, pe_process = None\<rparr>"

definition demo_mi :: "nat \<Rightarrow> MessageInfo" where
  "demo_mi n = \<lparr>mi_M = empty_Message, mi_callbacks = n\<rparr>"

lemma demo_comm_reach: "poll_reach Size demo_comm"
proof (rule poll_reach.start)
  show "Setup (demo_configure 1) = Inr demo_comm" by code_simp
qed

text \<open>One message is delivered by the second host; the next one is received, its poll fails, and the client is stopped.\<close>

definition demo_polls :: "poll_event list" where
  "demo_polls = [LoopTop 5 0 0, PollResult (demo_poll True) 6, LoopTop 7 300 5, SelectMessage (demo_mi 1) 8, LoopTop 8 300 5,
     SelectTimer, PollResult (demo_poll True) 9, LoopTop 9 300 5, SelectMessage (demo_mi 2) 10, LoopTop 10 300 5, SelectTimer,
     CallStop, PollResult (demo_poll False) 11, DelayDone, LoopTop 12 300 5]"

definition demo_polled :: pollComm where
  "demo_polled = (case poll_run (\<lambda>_. 3) demo_polls demo_comm of Some (Inr c) \<Rightarrow> c | _ \<Rightarrow> demo_comm)"

lemma demo_polled_reach: "poll_reach (\<lambda>_. 3) demo_polled"
proof -
  have "(case poll_run (\<lambda>_. 3) demo_polls demo_comm of Some (Inr c) \<Rightarrow> True | _ \<Rightarrow> False)" by code_simp
  then obtain c where "poll_run (\<lambda>_. 3) demo_polls demo_comm = Some (Inr c)" by (auto split: option.splits sum.splits)
  with poll_run_reach [OF demo_comm_reach this] show ?thesis by (simp add: demo_polled_def)
qed

theorem polling_exactly_once_witness:
  "pl_phase demo_polled = Ended \<and> h_acked demo_polled = [demo_mi 1] \<and> h_nacked demo_polled = [demo_mi 2] \<and>
   h_received demo_polled \<in> shuffles [demo_mi 1] [demo_mi 2] \<and> distinct (pl_closed demo_polled) \<and> length (pl_closed demo_polled) = 4 \<and>
   poll_step (\<lambda>_. 3) DelayTimer demo_polled \<noteq> Some (Inl (Fatal ''close of closed channel''))"
proof -
  note ok = polling_exactly_once [OF demo_polled_reach]
  have ended: "pl_phase demo_polled = Ended" and h: "h_acked demo_polled = [demo_mi 1]" "h_nacked demo_polled = [demo_mi 2]"
    and n: "length (pl_closed demo_polled) = 4" by code_simp+
  have "pl_toSend demo_polled = []" using ok ended by (elim conjE) simp
  with ok h have "h_received demo_polled \<in> shuffles [demo_mi 1] [demo_mi 2]" by (elim conjE) auto
  moreover have "poll_step (\<lambda>_. 3) DelayTimer demo_polled \<noteq> Some (Inl (Fatal ''close of closed channel''))"
    using ok by (elim conjE) fastforce
  moreover have "distinct (pl_closed demo_polled)" using ok by (elim conjE)
  ultimately show ?thesis using ended h n by blast
qed

definition week :: int where
  "week = 604800 * 1000000000"

definition lonely_polls :: "poll_event list" where
  "lonely_polls = [LoopTop 5 0 0, PollResult (demo_poll True) 6, LoopTop (week + 8) 300 5]"

definition lonely_comm :: pollComm where
  "lonely_comm = (case poll_run (\<lambda>_. 3) lonely_polls demo_comm of Some (Inr c) \<Rightarrow> c | _ \<Rightarrow> demo_comm)"

lemma polling_ends_only_lonely_instance:
  "poll_step (\<lambda>_. 3) (PollResult (demo_poll False) (week + 9)) lonely_comm = Some (Inl (Fatal ''Too Lonely! Failed to contact server''))"
proof -
  have "(case poll_run (\<lambda>_. 3) lonely_polls demo_comm of Some (Inr c) \<Rightarrow> True | _ \<Rightarrow> False)" by code_simp
  then obtain c where "poll_run (\<lambda>_. 3) lonely_polls demo_comm = Some (Inr c)" by (auto split: option.splits sum.splits)
  with poll_run_reach [OF demo_comm_reach this] have r: "poll_reach (\<lambda>_. 3) lonely_comm" by (simp add: lonely_comm_def)
  have "(case poll_step (\<lambda>_. 3) (PollResult (demo_poll False) (week + 9)) lonely_comm of Some (Inl x) \<Rightarrow> True | _ \<Rightarrow> False)" by code_simp
  then obtain x where "poll_step (\<lambda>_. 3) (PollResult (demo_poll False) (week + 9)) lonely_comm = Some (Inl x)"
    by (auto split: option.splits sum.splits)
  with polling_ends_only_lonely [OF r this] show ?thesis by simp
qed

text \<open>
  Two runs in which the other goroutines do not get what they ask for. A change of identity during a poll
  replaces \<^verbatim>\<open>c.ctx\<close>, so that a \<^verbatim>\<open>Stop\<close> just before it is forgotten: the loop goes on, and \<^verbatim>\<open>Stop\<close> waits for it.
  And a \<^verbatim>\<open>Reset\<close> during the delay after a failed poll ends the delay, but the loop then waits for its next
  deadline instead of polling at once.
\<close>

lemma stop_lost_on_rekey:
  "map_option (map_sum (\<lambda>x. x) (\<lambda>c. (pl_phase c = Ended, pl_ctx_done c)))
     (poll_run (\<lambda>_. 3) [LoopTop 5 0 0, CallStop, Reconfigure (demo_configure 2), PollResult (demo_poll True) 6, LoopTop 7 300 5] demo_comm)
   = Some (Inr (False, False))"
  by code_simp

lemma reset_lost_in_delay:
  "map_option (map_sum (\<lambda>x. x) (\<lambda>c. (pl_phase c, pl_wakeUp c)))
     (poll_run (\<lambda>_. 3) [LoopTop 5 0 0, PollResult (demo_poll True) 6, LoopTop 7 300 5, SelectTimer, PollResult (demo_poll False) 8,
        CallReset, DelayWake, LoopTop 9 300 5] demo_comm)
   = Some (Inr (Selecting, False))"
  by code_simp

end
