(* ===== verification/Admin.thy ===== *)
theory Admin
  imports Message_Looper Sqlite_Store
begin

text \<open>
  The administration interface of the server, \<^verbatim>\<open>fleetspeak/src/server/admin/admin.go\<close>: one
  definition per remote procedure, over the SQLite datastore.

  A call gives the response or an error (\<open>Inr\<close>), or ends the handler with a panic (\<open>Inl\<close>). The random
  source, \<^verbatim>\<open>proto.Size\<close> and the \<^verbatim>\<open>Send\<close> of a response stream are arguments; the calls of the notifier,
  whose errors are only logged, are recorded in the order they are made.
\<close>

record adminServer =
  as_store :: sqldb
  as_notified :: "(string \<times> ClientID) list"

type_synonym 'a rpc = "(adminServer, error + 'a) gofn"

definition store_call :: "'a dbop \<Rightarrow> 'a rpc" where
  "store_call f s = (case f (as_store s) of
       (Inl (Fatal x), _) \<Rightarrow> Inl (Fatal x)
     | (r, d) \<Rightarrow> Inr (r, s\<lparr>as_store := d\<rparr>))"

text \<open>\<^verbatim>\<open>if err != nil { return nil, fmt.Errorf("...: %v", err) }\<close>.\<close>

definition errorf :: "string \<Rightarrow> 'a rpc \<Rightarrow> 'a rpc" where
  "errorf msg f = abind f (\<lambda>r. aret (case r of Inl x \<Rightarrow> Inl (Err (msg @ Error x)) | Inr a \<Rightarrow> Inr a))"

definition ret_sum :: "error + 'a \<Rightarrow> 'a rpc" where
  "ret_sum r = aret r"

definition panic :: "string \<Rightarrow> 'a rpc" where
  "panic x s = Inl (Fatal x)"

definition maxMsgSize :: int where
  "maxMsgSize = 2 * 1024 * 1024"

section \<open>Broadcasts\<close>

definition adm_CreateBroadcast :: "env \<Rightarrow> error + bytes \<Rightarrow> Broadcast option \<Rightarrow> u64 \<Rightarrow> unit rpc" where
  "adm_CreateBroadcast e rnd broadcast limit = (case broadcast of
       None \<Rightarrow> panic ''nil pointer dereference''
     | Some b \<Rightarrow>
         atry (ret_sum (if raw (BroadcastId b) = []
               then ebind (RandomBroadcastID rnd) (\<lambda>bid. Inr (b\<lparr>BroadcastId := BroadcastID_Bytes bid\<rparr>))
               else Inr b)) (\<lambda>b.
         store_call (CreateBroadcast e (Some b) limit)))"

text \<open>A broadcast the store returns always has a source, see \<open>toBroadcastProto\<close>.\<close>

definition adm_ListActiveBroadcasts :: "env \<Rightarrow> string \<Rightarrow> Broadcast list rpc" where
  "adm_ListActiveBroadcasts e service =
     atry (store_call (ListActiveBroadcasts e)) (\<lambda>bis.
       ret_sum (Inr (map bi_Broadcast (filter (\<lambda>bi.
         \<not> (service \<noteq> [] \<and> service \<noteq> addr_service (b_Source (bi_Broadcast bi)))) bis))))"

definition adm_DisableBroadcasts :: "env \<Rightarrow> gobytes list \<Rightarrow> unit rpc" where
  "adm_DisableBroadcasts e ids =
     (if ids = [] then ret_sum (Inr ())
      else atry (ret_sum (mapE BytesToBroadcastID ids)) (\<lambda>bIDs. store_call (DisableBroadcasts e bIDs)))"

section \<open>Clients\<close>

definition parse_ids :: "gobytes list \<Rightarrow> error + ClientID list" where
  "parse_ids ids = mapE (\<lambda>b. case BytesToClientID b of
       Inl x \<Rightarrow> Inl (Err (''unable to parse id: '' @ Error x)) | Inr c \<Rightarrow> Inr c) ids"

definition adm_ListClients :: "env \<Rightarrow> gobytes list \<Rightarrow> spb_Client list rpc" where
  "adm_ListClients e ids = atry (ret_sum (parse_ids ids)) (\<lambda>cs. store_call (ListClients e cs))"

text \<open>The time of a missing \<^verbatim>\<open>LastContactAfter\<close> is the epoch.\<close>

definition adm_StreamClientIds :: "env \<Rightarrow> bool \<Rightarrow> Timestamp option \<Rightarrow> (gobytes \<Rightarrow> 's \<Rightarrow> error + 's) \<Rightarrow> 's \<Rightarrow> 's rpc" where
  "adm_StreamClientIds e includeBlacklisted lastContactAfter Send s =
     store_call (StreamClientIds e includeBlacklisted
       (Some (case lastContactAfter of None \<Rightarrow> 0 | Some t \<Rightarrow> AsTime t)) (\<lambda>i. Send (ClientID_Bytes i)) s)"

definition adm_ListClientContacts :: "env \<Rightarrow> gobytes \<Rightarrow> spb_ClientContact list rpc" where
  "adm_ListClientContacts e b =
     atry (errorf ''unable to parse id: '' (ret_sum (BytesToClientID b))) (\<lambda>i. store_call (ListClientContacts e i))"

definition adm_StreamClientContacts :: "env \<Rightarrow> gobytes \<Rightarrow> (spb_ClientContact \<Rightarrow> 's \<Rightarrow> error + 's) \<Rightarrow> 's \<Rightarrow> 's rpc" where
  "adm_StreamClientContacts e b Send s =
     atry (ret_sum (BytesToClientID b)) (\<lambda>i. store_call (StreamClientContacts e i Send s))"

definition adm_BlacklistClient :: "gobytes \<Rightarrow> unit rpc" where
  "adm_BlacklistClient b =
     atry (errorf ''unable to parse id: '' (ret_sum (BytesToClientID b))) (\<lambda>i. store_call (BlacklistClient i))"

definition adm_FetchClientResourceUsageRecords ::
  "env \<Rightarrow> gobytes \<Rightarrow> Timestamp option \<Rightarrow> Timestamp option \<Rightarrow> ClientResourceUsageRecord list rpc" where
  "adm_FetchClientResourceUsageRecords e b start finish =
     atry (ret_sum (BytesToClientID b)) (\<lambda>i. store_call (FetchResourceUsageRecords e i start finish))"

section \<open>Messages\<close>

definition adm_GetMessageStatus :: "env \<Rightarrow> codec \<Rightarrow> gobytes \<Rightarrow> (Timestamp option \<times> MessageResult option) rpc" where
  "adm_GetMessageStatus e cd b =
     atry (ret_sum (BytesToMessageID b)) (\<lambda>mid.
     abind (store_call (GetMessages e cd [mid] False)) (\<lambda>r. ret_sum (case r of
         Inl x \<Rightarrow> if IsNotFound x then Inr (None, None) else Inl x
       | Inr msgs \<Rightarrow> if length msgs \<noteq> 1 then Inl (Err ''Internal error, expected 1 message'')
           else Inr (CreationTime (msgs ! 0), Result (msgs ! 0)))))"

definition bytesToClientIds :: "gobytes list \<Rightarrow> error + ClientID list" where
  "bytesToClientIds ids = mapE (\<lambda>b. case BytesToClientID b of
       Inl x \<Rightarrow> Inl (Err (''Can't convert bytes to ClientID: '' @ Error x)) | Inr i \<Rightarrow> Inr i) ids"

definition adm_DeletePendingMessages :: "env \<Rightarrow> gobytes list \<Rightarrow> unit rpc" where
  "adm_DeletePendingMessages e bs =
     atry (ret_sum (bytesToClientIds bs)) (\<lambda>ids.
       errorf ''Can't delete pending messages: '' (store_call (DeletePendingMessages e ids)))"

definition adm_GetPendingMessages ::
  "bool \<Rightarrow> env \<Rightarrow> codec \<Rightarrow> gobytes list \<Rightarrow> u64 \<Rightarrow> u64 \<Rightarrow> bool \<Rightarrow> Message list rpc" where
  "adm_GetPendingMessages RestrictPayloadRetrieval e cd bs offset limit wantData =
     (if wantData \<and> RestrictPayloadRetrieval
      then ret_sum (Inl (Err ''retrieving payloads of pending messages is not permitted''))
      else atry (ret_sum (bytesToClientIds bs)) (\<lambda>ids.
        errorf ''Can't read pending messages: '' (store_call (GetPendingMessages e cd ids offset limit wantData))))"

definition adm_GetPendingMessageCount :: "env \<Rightarrow> gobytes list \<Rightarrow> u64 rpc" where
  "adm_GetPendingMessageCount e bs =
     atry (ret_sum (bytesToClientIds bs)) (\<lambda>ids.
       errorf ''Can't read pending message count: '' (store_call (GetPendingMessageCount e ids)))"

text \<open>The sanity checks of \<^verbatim>\<open>InsertMessage\<close> and the metadata it fills in.\<close>

definition insert_checks :: "env \<Rightarrow> error + bytes \<Rightarrow> Message \<Rightarrow> error + Message" where
  "insert_checks e rnd m =
     (if Destination m = None \<or> addr_service (Destination m) = [] then Inl (Err ''message must have Destination'')
      else if Source m = None \<or> addr_service (Source m) = [] then Inl (Err ''message must have Source'')
      else if Result m \<noteq> None then Inl (Err ''cannot insert message with pre-set Result'')
      else ebind (if raw (MessageId m) = []
          then (case RandomMessageID rnd of
              Inl x \<Rightarrow> Inl (Err (''unable to create random MessageID: '' @ Error x))
            | Inr i \<Rightarrow> Inr (m\<lparr>MessageId := MessageID_Bytes i\<rparr>))
          else Inr m) (\<lambda>m.
        Inr (if CreationTime m = None then m\<lparr>CreationTime := Some (NowProto e)\<rparr> else m)))"

text \<open>The client a message is for, the server it last contacted and when: \<^verbatim>\<open>cid\<close>, \<^verbatim>\<open>st\<close> and \<^verbatim>\<open>lc\<close>.\<close>

definition insert_target :: "env \<Rightarrow> (Message \<Rightarrow> nat) \<Rightarrow> Message \<Rightarrow> (ClientID \<times> string \<times> gotime) rpc" where
  "insert_target e Size m =
     (if addr_client (Destination m) = None then ret_sum (Inr (ClientID [], [], zero_time))
      else
        atry (errorf ''error parsing destination.client_id: '' (ret_sum (BytesToClientID (addr_client (Destination m))))) (\<lambda>cid.
        atry (errorf ''error listing destination client: '' (store_call (ListClients e [cid]))) (\<lambda>cls.
        if length cls \<noteq> 1 then ret_sum (Inl (Err ''expected 1 destination client result''))
        else
          (let st = sc_LastContactStreamingTo (cls ! 0);
               lc = (case CheckValid (Some (sc_LastContactTime (cls ! 0))) of Inl _ \<Rightarrow> zero_time | Inr t \<Rightarrow> AsTime t)
           in if int (Size m) > maxMsgSize then ret_sum (Inl (Err ''message exceeds the size limit''))
              else ret_sum (Inr (cid, st, lc))))))"

definition notify :: "string \<Rightarrow> ClientID \<Rightarrow> (adminServer, unit) gofn" where
  "notify st cid s = Inr ((), s\<lparr>as_notified := as_notified s @ [(st, cid)]\<rparr>)"

definition adm_InsertMessage :: "env \<Rightarrow> codec \<Rightarrow> error + bytes \<Rightarrow> (Message \<Rightarrow> nat) \<Rightarrow> Message \<Rightarrow> gobytes rpc" where
  "adm_InsertMessage e cd rnd Size m =
     atry (ret_sum (insert_checks e rnd m)) (\<lambda>m.
     atry (insert_target e Size m) (\<lambda>(cid, st, lc).
     atry (store_call (StoreMessages e cd [m] [])) (\<lambda>_.
     abind (if st \<noteq> [] \<and> Now e - lc < 10 * minute then notify st cid else aret ()) (\<lambda>_.
       ret_sum (Inr (MessageId m))))))"

section \<open>Files\<close>

definition adm_StoreFile :: "env \<Rightarrow> string \<Rightarrow> string \<Rightarrow> bytes \<Rightarrow> unit rpc" where
  "adm_StoreFile e service name data =
     (if service = [] \<or> name = [] then ret_sum (Inl (Err ''file must have service_name and file_name''))
      else store_call (StoreFile e service name (Inr data)))"

definition adm_DeleteFile :: "env \<Rightarrow> string \<Rightarrow> string \<Rightarrow> unit rpc" where
  "adm_DeleteFile e service name =
     (if service = [] \<or> name = [] then ret_sum (Inl (Err ''file must have service_name and file_name''))
      else store_call (DeleteFile e service name))"

definition adm_KeepAlive :: "unit rpc" where
  "adm_KeepAlive = ret_sum (Inr ())"


section \<open>What the calls change\<close>

lemma store_call_eq_Inr:
  "store_call f s = Inr (r, s') \<longleftrightarrow>
     (\<exists>d. f (as_store s) = (r, d) \<and> s' = s\<lparr>as_store := d\<rparr> \<and> (\<forall>x. r \<noteq> Inl (Fatal x)))"
  by (auto simp: store_call_def split: prod.splits sum.splits error.splits)

lemma ret_sum_eq_Inr [simp]: "ret_sum r s = Inr (r', s') \<longleftrightarrow> r' = r \<and> s' = s"
  by (auto simp: ret_sum_def)

lemma errorf_eq_Inr:
  "errorf msg f s = Inr (r, s') \<longleftrightarrow> (\<exists>r0. f s = Inr (r0, s') \<and>
     r = (case r0 of Inl x \<Rightarrow> Inl (Err (msg @ Error x)) | Inr a \<Rightarrow> Inr a))"
  by (auto simp: errorf_def)

lemma atry_okE:
  assumes "atry f k w = Inr (Inr b, w')"
  obtains a w1 where "f w = Inr (Inr a, w1)" "k a w1 = Inr (Inr b, w')"
  using assms that by (auto simp: atry_eq_Inr)

lemmas rpc_simps = atry_eq_Inr store_call_eq_Inr errorf_eq_Inr

text \<open>\<^verbatim>\<open>rand.Read\<close> fills the 32 bytes it is given, or fails.\<close>

definition random_32 :: "error + bytes \<Rightarrow> bool" where
  "random_32 rnd \<longleftrightarrow> (case rnd of Inl _ \<Rightarrow> True | Inr b \<Rightarrow> length b = 32)"

lemma RandomMessageID_raw: "random_32 rnd \<Longrightarrow> RandomMessageID rnd = Inr i \<Longrightarrow> raw (MessageID_Bytes i) \<noteq> []"
  by (auto simp: random_32_def RandomMessageID_def BytesToMessageID_def MessageID_Bytes_def MessageID_IsNil_def
      split: if_splits)

lemma insert_checks_ok:
  assumes "insert_checks e rnd m = Inr m'"
  shows "Result m = None" "random_32 rnd \<Longrightarrow> raw (MessageId m') \<noteq> []"
    "m' = m\<lparr>MessageId := MessageId m', CreationTime := Some (case CreationTime m of None \<Rightarrow> NowProto e | Some t \<Rightarrow> t)\<rparr>"
    "Destination m' = Destination m" "Result m' = None"
  using assms RandomMessageID_raw [of rnd]
  by (auto simp: insert_checks_def split: if_splits sum.splits option.splits)

text \<open>The one client that \<^verbatim>\<open>ListClients\<close> finds is a row of the table.\<close>

definition lists_row :: "sqldb \<Rightarrow> ClientID \<Rightarrow> spb_Client \<Rightarrow> bool" where
  "lists_row d i c \<longleftrightarrow> (\<exists>r \<in> set (t_clients d). cl_client_id r = ClientID_String i
     \<and> sc_LastContactStreamingTo c = fromNULLString (cl_last_contact_streaming_to r)
     \<and> sc_LastContactTime c = tspb_New (cl_last_contact_time r)
     \<and> CheckValid (Some (sc_LastContactTime c)) = Inr (sc_LastContactTime c))"

definition lists_rows :: "sqldb \<Rightarrow> ClientID \<Rightarrow> (string, spb_Client) gomap \<Rightarrow> bool" where
  "lists_rows d i m \<longleftrightarrow> list_all (\<lambda>p. lists_row d i (snd p)) m"

lemma lists_rows_upd: "lists_rows d i m \<Longrightarrow> lists_row d i c \<Longrightarrow> lists_rows d i (gomap_upd k c m)"
  unfolding lists_rows_def by (induction k c m rule: gomap_upd.induct) auto

lemma CheckValid_same: "CheckValid (Some t) = Inr t' \<Longrightarrow> t' = t"
  by (auto simp: CheckValid_def split: if_splits)

lemma lists_row_h:
  assumes "listClients_h r m = Inr m'" and "lists_rows d i m"
    and "r \<in> set (t_clients d)" "cl_client_id r = ClientID_String i"
  shows "lists_rows d i m'"
proof -
  obtain ts c where "CheckValid (Some (tspb_New (cl_last_contact_time r))) = Inr ts"
    "m' = gomap_upd (cl_client_id r) c m" "sc_LastContactTime c = ts"
    "sc_LastContactStreamingTo c = fromNULLString (cl_last_contact_streaming_to r)"
    using assms(1) unfolding listClients_h_def by auto
  moreover from this have "ts = tspb_New (cl_last_contact_time r)" by (auto dest: CheckValid_same)
  ultimately have "lists_row d i c" unfolding lists_row_def using assms(3,4) by auto
  with assms(2) show ?thesis unfolding \<open>m' = _\<close> by (rule lists_rows_upd)
qed

lemma lists_row_j:
  assumes "listClients_j r m = Inr m'" and "lists_rows d i m"
  shows "lists_rows d i m'"
proof -
  obtain c where c: "map_of m (l_client_id r) = Some c"
    using assms(1) by (auto simp: listClients_j_def split: option.splits)
  then have "lists_row d i c" using assms(2) by (auto simp: lists_rows_def list_all_iff dest!: map_of_SomeD)
  with c assms show ?thesis
    by (auto intro!: lists_rows_upd simp: listClients_j_def lists_row_def)
qed

lemma ListClients_row:
  assumes "ListClients e [i] d = (Inr cls, d')" and "c \<in> set cls"
  shows "lists_row d i c"
proof -
  obtain m1 m2 where m1: "foldE listClients_h (filter (\<lambda>r. cl_client_id r = ClientID_String i) (t_clients d)) [] = Inr m1"
    and m2: "foldE listClients_j (filter (\<lambda>r. l_client_id r = ClientID_String i) (t_client_labels d)) m1 = Inr m2"
    and fin: "cls = map snd m2"
    using runInTx_success [OF assms(1) [unfolded ListClients_def]] by auto
  have "lists_rows d i []" by (simp add: lists_rows_def)
  then have "lists_rows d i m1" by (rule foldE_invariant [OF m1]) (auto intro: lists_row_h)
  then have "lists_rows d i m2" by (rule foldE_invariant [OF m2]) (rule lists_row_j)
  with fin assms(2) show ?thesis by (auto simp: lists_rows_def list_all_iff)
qed

lemma ListClients_frame: "snd (ListClients e is d) = d"
  unfolding ListClients_def by (rule runInTx_invariant [where P = "\<lambda>x. x = d"]) auto

text \<open>The server that is notified: the last the client streamed to, within ten minutes.\<close>

definition connected :: "env \<Rightarrow> sqldb \<Rightarrow> ClientID \<Rightarrow> string \<Rightarrow> bool" where
  "connected e d i st \<longleftrightarrow> st \<noteq> [] \<and> (\<exists>r \<in> set (t_clients d). cl_client_id r = ClientID_String i
     \<and> cl_last_contact_streaming_to r = Some st \<and> Now e - cl_last_contact_time r < 10 * minute)"

lemma ListClients_same: "ListClients e is d = (r, d') \<Longrightarrow> d' = d"
  using ListClients_frame [of e "is" d] by simp

lemma insert_target_frame: "insert_target e Size m s = Inr (r, s') \<Longrightarrow> s' = s"
  by (auto simp: insert_target_def rpc_simps Let_def split: if_splits dest!: ListClients_same)

lemma insert_target_connected:
  assumes "insert_target e Size m s = Inr (Inr (cid, st, lc), s')" and "st \<noteq> []" "Now e - lc < 10 * minute"
  shows "connected e (as_store s) cid st \<and> BytesToClientID (addr_client (Destination m)) = Inr cid"
proof -
  obtain cls d where cls: "ListClients e [cid] (as_store s) = (Inr cls, d)" "length cls = 1"
    and id: "BytesToClientID (addr_client (Destination m)) = Inr cid"
    and st: "st = sc_LastContactStreamingTo (cls ! 0)"
      "lc = (case CheckValid (Some (sc_LastContactTime (cls ! 0))) of Inl _ \<Rightarrow> zero_time | Inr t \<Rightarrow> AsTime t)"
    using assms(1,2) by (auto simp: insert_target_def rpc_simps Let_def split: if_splits sum.splits)
  then have "lists_row (as_store s) cid (cls ! 0)" by (intro ListClients_row [OF cls(1)]) simp
  then obtain r where "r \<in> set (t_clients (as_store s))" "cl_client_id r = ClientID_String cid"
    "st = fromNULLString (cl_last_contact_streaming_to r)" "lc = cl_last_contact_time r"
    unfolding lists_row_def st by auto
  then show ?thesis
    using assms(2,3) id
    by (auto simp: connected_def fromNULLString_def split: option.splits)
qed


lemma StoreMessages_error: "StoreMessages e cd ms c d = (Inl x, d') \<Longrightarrow> d' = d"
  unfolding StoreMessages_def by (rule runInTx_error)

lemma StoreMessages_single:
  assumes "StoreMessages e cd [m] [] d = (Inr u, d')"
  obtains acc where "storeOne e cd m ([], d) = Inr (acc, d')"
  using StoreMessages_okE [OF assms] that by auto

text \<open>What a successful call did: the message as completed, the target, the store and the notification.\<close>

lemma InsertMessage_okE:
  assumes "adm_InsertMessage e cd rnd Size m s = Inr (Inr mid, s')"
  obtains m' cid st lc where "insert_checks e rnd m = Inr m'" "mid = MessageId m'"
    "insert_target e Size m' s = Inr (Inr (cid, st, lc), s)"
    "StoreMessages e cd [m'] [] (as_store s) = (Inr (), as_store s')"
    "as_notified s' = as_notified s @ (if st \<noteq> [] \<and> Now e - lc < 10 * minute then [(st, cid)] else [])"
proof -
  let ?n = "\<lambda>cid st lc. if st \<noteq> [] \<and> Now e - lc < 10 * minute then notify st cid else aret ()"
  obtain m' where m': "insert_checks e rnd m = Inr m'" and tail: "atry (insert_target e Size m') (\<lambda>(cid, st, lc).
     atry (store_call (StoreMessages e cd [m'] [])) (\<lambda>_. abind (?n cid st lc) (\<lambda>_. ret_sum (Inr (MessageId m'))))) s = Inr (Inr mid, s')"
    using assms unfolding adm_InsertMessage_def by (rule atry_okE) (simp add: eq_commute [of _ "insert_checks e rnd m"])
  obtain cid st lc s1 where tgt: "insert_target e Size m' s = Inr (Inr (cid, st, lc), s1)"
    and rest: "atry (store_call (StoreMessages e cd [m'] [])) (\<lambda>_. abind (?n cid st lc) (\<lambda>_. ret_sum (Inr (MessageId m')))) s1 = Inr (Inr mid, s')"
    using tail by (rule atry_okE) auto
  obtain d u where run: "StoreMessages e cd [m'] [] (as_store s1) = (Inr (), d)"
    "?n cid st lc (s1\<lparr>as_store := d\<rparr>) = Inr (u, s')" "mid = MessageId m'"
    using rest by (rule atry_okE) (auto simp: store_call_eq_Inr simp del: split_paired_Ex)
  have "s1 = s" using tgt by (rule insert_target_frame)
  moreover have "as_store s' = d" "as_notified s' = as_notified s1 @ (if st \<noteq> [] \<and> Now e - lc < 10 * minute then [(st, cid)] else [])"
    using run(2) by (auto simp: notify_def split: if_splits)
  ultimately show thesis using m' tgt run by (intro that [of m' cid st lc]) simp_all
qed

lemma InsertMessage_errE:
  assumes "adm_InsertMessage e cd rnd Size m s = Inr (Inl x, s')"
  shows "s' = s"
  using assms
  by (fastforce simp: adm_InsertMessage_def rpc_simps notify_def split: if_splits dest: insert_target_frame StoreMessages_error)

lemma message_key_raw: "raw (MessageId m) \<noteq> [] \<Longrightarrow> message_key m = EncodeToString (raw (MessageId m))"
  by (simp add: message_key_def)

lemma insert_results:
  assumes "StoreMessages e cd [m] [] d = (Inr u, d')" and "Result m = None"
  shows "result_of d' = (result_of d)(message_key m :=
    (case result_of d (message_key m) of None \<Rightarrow> Some None | Some r \<Rightarrow> Some r))"
proof -
  obtain acc where "storeOne e cd m ([], d) = Inr (acc, d')" using assms(1) by (rule StoreMessages_single)
  then have "result_of d' = spec_store m (result_of d)"
    by (rule result_of_storeOne) (simp add: results_timed_def assms(2))
  then show ?thesis by (simp add: spec_store_def assms(2) split: option.split)
qed












section \<open>Properties\<close>

text \<open>
  C24. \<^verbatim>\<open>InsertMessage\<close> is all or nothing: a call that reports an error has changed nothing and notified no one.
  A call that succeeds returns a proper id, whose message is known afterwards: as unprocessed if it was
  not known before, with the result it had otherwise; no other message is affected; and it notifies at most one server,
  the one the destination client last streamed to, and that only if this was within the last ten minutes.
\<close>
theorem InsertMessage_effect:
  assumes "adm_InsertMessage e cd rnd Size m s = Inr (r, s')" and "random_32 rnd"
  shows "case r of
      Inl x \<Rightarrow> s' = s
    | Inr mid \<Rightarrow> raw mid \<noteq> []
        \<and> result_of (as_store s') = (result_of (as_store s))(EncodeToString (raw mid) :=
            Some (case result_of (as_store s) (EncodeToString (raw mid)) of None \<Rightarrow> None | Some old \<Rightarrow> old))
        \<and> (as_notified s' = as_notified s \<or> (\<exists>i st. BytesToClientID (addr_client (Destination m)) = Inr i
            \<and> connected e (as_store s) i st \<and> as_notified s' = as_notified s @ [(st, i)]))"
proof (cases r)
  case (Inl x)
  with assms(1) show ?thesis by (auto dest: InsertMessage_errE)
next
  case (Inr mid)
  obtain m' cid st lc where run: "insert_checks e rnd m = Inr m'" "mid = MessageId m'"
    "insert_target e Size m' s = Inr (Inr (cid, st, lc), s)"
    "StoreMessages e cd [m'] [] (as_store s) = (Inr (), as_store s')"
    "as_notified s' = as_notified s @ (if st \<noteq> [] \<and> Now e - lc < 10 * minute then [(st, cid)] else [])"
    using assms(1) unfolding Inr by (rule InsertMessage_okE)
  have m': "Result m = None" "raw mid \<noteq> []" "Destination m' = Destination m" "Result m' = None"
    using insert_checks_ok(1,2,4,5) [OF run(1)] assms(2) run(2) by simp_all
  have key: "message_key m' = EncodeToString (raw mid)" using m'(2) run(2) message_key_raw by simp
  have "result_of (as_store s') = (result_of (as_store s))(EncodeToString (raw mid) :=
      Some (case result_of (as_store s) (EncodeToString (raw mid)) of None \<Rightarrow> None | Some old \<Rightarrow> old))"
    using insert_results [OF run(4) m'(4)] unfolding key by (simp split: option.split)
  moreover have "as_notified s' = as_notified s \<or> (\<exists>i st. BytesToClientID (addr_client (Destination m)) = Inr i
      \<and> connected e (as_store s) i st \<and> as_notified s' = as_notified s @ [(st, i)])"
    using run(5) insert_target_connected [OF run(3)] m'(3) by (auto split: if_splits)
  ultimately show ?thesis unfolding Inr using m'(2) by simp
qed


section \<open>A concrete run\<close>

text \<open>A client that streams to the server \<^verbatim>\<open>srv\<close> gets a message without an id.\<close>

definition demo_admin :: adminServer where
  "demo_admin = \<lparr>as_store = snd (RecordClientContact demo_env (demo_contact\<lparr>con_StreamingTo := ''srv''\<rparr>) demo_clients), as_notified = []\<rparr>"

definition demo_order :: Message where
  "demo_order = (demo_message 1 ''a'')\<lparr>MessageId := None, CreationTime := None\<rparr>"

definition demo_insert :: "error + (error + gobytes) \<times> adminServer" where
  "demo_insert = adm_InsertMessage demo_env demo_codec (Inr (replicate 32 9)) (\<lambda>_. 100) demo_order demo_admin"

definition demo_admin1 :: adminServer where
  "demo_admin1 = snd (projr demo_insert)"

lemma returned: "map_sum (\<lambda>x. x) fst r = Inr a \<Longrightarrow> r = Inr (a, snd (projr r))"
  by (cases r) auto

lemma demo_insert_run: "demo_insert = Inr (Inr (Some (replicate 32 9)), demo_admin1)"
proof -
  have "map_sum (\<lambda>x. x) fst demo_insert = Inr (Inr (Some (replicate 32 9)))" by code_simp
  then show ?thesis unfolding demo_admin1_def by (rule returned)
qed

theorem InsertMessage_effect_witness:
  "random_32 (Inr (replicate 32 9)) \<and> result_of (as_store demo_admin1) (EncodeToString (replicate 32 9)) = Some None
    \<and> as_notified demo_admin1 = [(''srv'', demo_client)]"
proof -
  have rnd: "random_32 (Inr (replicate 32 9))" by (simp add: random_32_def)
  have "as_notified demo_admin1 = [(''srv'', demo_client)]" by code_simp
  moreover have "result_of (as_store demo_admin) (EncodeToString (replicate 32 9)) = None" by code_simp
  ultimately show ?thesis
    using InsertMessage_effect [OF demo_insert_run [unfolded demo_insert_def] rnd] rnd by simp
qed



end
