(* ===== verification/Broadcast_Machine.thy ===== *)
theory Broadcast_Machine
  imports Broadcast_Manager
begin

text \<open>
  The broadcast manager of \<^verbatim>\<open>fleetspeak/src/server/internal/broadcasts/broadcasts.go\<close> under
  concurrency: requests that reserve and save messages, the goroutine of \<^verbatim>\<open>refreshLoop\<close>, \<^verbatim>\<open>Close\<close>, and
  other users of the same datastore, in every order.

  The steps are the pieces of \<open>Broadcast_Manager\<close>. \<open>bs_held\<close> lists the infos that requests hold, one
  entry for each \<^verbatim>\<open>useCount.Add(1)\<close> without its \<^verbatim>\<open>Done()\<close>, and whether saving the message has
  failed, so that the reservation is about to be given back; \<^verbatim>\<open>useCount.Wait()\<close> is the condition that
  no entry is left. \<open>bs_pc\<close> is where the refreshing goroutine stands.

  Other servers are steps of \<open>store_step\<close>, the honest calls of the store, that leave the rows of this
  manager's allocations alone or remove them. Allocation ids are random; a new one differs from
  those this manager has used before.
\<close>

datatype refresh_pc =
    RIdle
  | RListing "BroadcastID list"
  | RAllocating "BroadcastID list" "BroadcastInfo list" "BroadcastID list"
  | RCleaning
  | RClosing
  | RClosed

record bstate =
  bs_m :: bManager
  bs_db :: sqldb
  bs_held :: "(nat \<times> bool) list"
  bs_new :: "(BroadcastID, nat) gomap"
  bs_dead :: "nat list"
  bs_pc :: refresh_pc

abbreviation bs_heap :: "bstate \<Rightarrow> bInfo list" where
  "bs_heap s \<equiv> bm_heap (bs_m s)"

definition bs_set_info :: "nat \<Rightarrow> bInfo \<Rightarrow> bstate \<Rightarrow> bstate" where
  "bs_set_info p info s = s\<lparr>bs_m := (bs_m s)\<lparr>bm_heap := (bs_heap s)[p := info]\<rparr>\<rparr>"

definition info_limited :: "bInfo \<Rightarrow> bool" where
  "info_limited i \<longleftrightarrow> bI_limit i \<noteq> BroadcastUnlimited"

definition info_key :: "bInfo \<Rightarrow> string \<times> string" where
  "info_key i = (BroadcastID_String (bI_bID i), AllocationID_String (bI_aID i))"

definition info_aid :: "bInfo \<Rightarrow> AllocationID" where
  "info_aid i = (if info_limited i then bI_aID i else AllocationID [])"

definition own_keys :: "bInfo list \<Rightarrow> (string \<times> string) set" where
  "own_keys h = info_key ` {i \<in> set h. info_limited i}"

definition random_8 :: "error + bytes \<Rightarrow> bool" where
  "random_8 rnd \<longleftrightarrow> (case rnd of Inl _ \<Rightarrow> True | Inr b \<Rightarrow> length b = 8)"

inductive bm_step :: "bstate \<Rightarrow> bstate \<Rightarrow> bool" where
  reserve: "p \<in> snd ` set (bm_infos (bs_m s)) \<Longrightarrow> info_eligible now sent labels (bs_heap s ! p) \<Longrightarrow>
    info_reserve (bs_heap s ! p) = Some info \<Longrightarrow>
    bm_step s ((bs_set_info p info s)\<lparr>bs_held := bs_held s @ [(p, False)]\<rparr>)"
| no_id: "bs_held s = xs @ (p, False) # ys \<Longrightarrow> bm_step s (s\<lparr>bs_held := xs @ (p, True) # ys\<rparr>)"
| save: "bs_held s = xs @ (p, False) # ys \<Longrightarrow>
    SaveBroadcastMessage e cd (broadcast_message e i mid (bI_b (bs_heap s ! p))) (bI_bID (bs_heap s ! p)) i
      (info_aid (bs_heap s ! p)) (bs_db s) = (r, d) \<Longrightarrow>
    held = (if isl r then xs @ (p, True) # ys else xs @ ys) \<Longrightarrow>
    bm_step s (s\<lparr>bs_db := d, bs_held := held\<rparr>)"
| release: "bs_held s = xs @ (p, True) # ys \<Longrightarrow>
    bm_step s ((bs_set_info p (info_release (bs_heap s ! p)) s)\<lparr>bs_held := xs @ ys\<rparr>)"
| refresh: "bs_pc s = RIdle \<Longrightarrow> bm_step s (s\<lparr>bs_pc := RListing (findCurrentAllocs e (bs_m s))\<rparr>)"
| listed: "bs_pc s = RListing cur \<Longrightarrow> ListActiveBroadcasts e (bs_db s) = (Inr bs, d) \<Longrightarrow>
    bm_step s (s\<lparr>bs_db := d, bs_pc := RAllocating cur bs []\<rparr>)"
| list_failed: "bs_pc s = RListing cur \<Longrightarrow> ListActiveBroadcasts e (bs_db s) = (Inl x, d) \<Longrightarrow>
    bm_step s (s\<lparr>bs_db := d, bs_pc := RIdle\<rparr>)"
| alloc: "bs_pc s = RAllocating cur (b # bs) act \<Longrightarrow> random_8 rnd \<Longrightarrow>
    alloc_loop e [rnd] cur [b] (bs_new s) act (bs_heap s, bs_db s) = (new, act', bs_heap s @ hs, d) \<Longrightarrow>
    own_keys hs \<inter> own_keys (bs_heap s) = {} \<Longrightarrow>
    bm_step s (s\<lparr>bs_m := (bs_m s)\<lparr>bm_heap := bs_heap s @ hs\<rparr>, bs_db := d, bs_new := new, bs_pc := RAllocating cur bs act'\<rparr>)"
| swap: "bs_pc s = RAllocating cur [] act \<Longrightarrow>
    updateAllocs (filter (\<lambda>i. i \<in> set act) cur) (bs_new s) (bm_infos (bs_m s), bs_heap s) = (dead, infos) \<Longrightarrow>
    bm_step s (s\<lparr>bs_m := (bs_m s)\<lparr>bm_infos := infos\<rparr>, bs_new := [], bs_dead := dead, bs_pc := RCleaning\<rparr>)"
| cleanup: "bs_pc s \<in> {RCleaning, RClosing} \<Longrightarrow> bs_dead s = p # ps \<Longrightarrow> p \<notin> fst ` set (bs_held s) \<Longrightarrow>
    d = snd (CleanupAllocation e (bI_bID (bs_heap s ! p)) (bI_aID (bs_heap s ! p)) (bI_sent (bs_heap s ! p)) (bs_db s)) \<Longrightarrow>
    bm_step s (s\<lparr>bs_db := d, bs_dead := ps\<rparr>)"
| cleaned: "bs_pc s = RCleaning \<Longrightarrow> bs_dead s = [] \<Longrightarrow> bm_step s (s\<lparr>bs_pc := RIdle\<rparr>)"
| close: "bs_pc s = RIdle \<Longrightarrow> bm_step s (s\<lparr>bs_dead := map snd (bm_infos (bs_m s)), bs_pc := RClosing\<rparr>)"
| closed: "bs_pc s = RClosing \<Longrightarrow> bs_dead s = [] \<Longrightarrow>
    bm_step s (s\<lparr>bs_m := (bs_m s)\<lparr>bm_infos := []\<rparr>, bs_pc := RClosed\<rparr>)"
| others: "store_step (bs_db s) d \<Longrightarrow>
    list_all (\<lambda>a. alloc_key a \<in> own_keys (bs_heap s) \<longrightarrow> a \<in> set (t_allocations (bs_db s))) (t_allocations d) \<Longrightarrow>
    bm_step s (s\<lparr>bs_db := d\<rparr>)"

text \<open>The state \<^verbatim>\<open>MakeManager\<close> starts from, before its first refresh.\<close>

definition bm_init :: "sqldb \<Rightarrow> int \<Rightarrow> bstate" where
  "bm_init d pw = \<lparr>bs_m = \<lparr>bm_infos = [], bm_heap = [], bm_basePollWait = pw\<rparr>, bs_db = d, bs_held = [],
     bs_new = [], bs_dead = [], bs_pc = RIdle\<rparr>"

section \<open>What store calls do to the limits of broadcasts\<close>

text \<open>Broadcasts stay, their ids are printed ids, and a limit changes only to 0.\<close>

definition printed_ids :: "string set" where
  "printed_ids = BroadcastID_String ` Collect BroadcastID_ok"

definition limit_kept :: "sqldb \<Rightarrow> sqldb \<Rightarrow> bool" where
  "limit_kept d d' \<longleftrightarrow> broadcast_ids d \<subseteq> broadcast_ids d' \<and> broadcast_ids d' \<subseteq> broadcast_ids d \<union> printed_ids \<and>
     (\<forall>b' \<in> set (t_broadcasts d'). br_broadcast_id b' \<in> broadcast_ids d \<longrightarrow>
       (\<exists>b \<in> set (t_broadcasts d). br_broadcast_id b = br_broadcast_id b'
          \<and> (br_message_limit b' = br_message_limit b \<or> br_message_limit b' = 0)))"

lemma limit_kept_same: "t_broadcasts d' = t_broadcasts d \<Longrightarrow> limit_kept d d'"
  by (auto simp: limit_kept_def broadcast_ids_def)

lemma limit_kept_update:
  assumes "t_broadcasts d' = update_where p f (t_broadcasts d)" and "\<And>r. br_broadcast_id (f r) = br_broadcast_id r"
    and "\<And>r. br_message_limit (f r) = br_message_limit r \<or> br_message_limit (f r) = 0"
  shows "limit_kept d d'"
  using assms(2,3) unfolding limit_kept_def broadcast_ids_def assms(1) update_where_def by (fastforce simp: image_iff)

lemma limit_kept_trans:
  assumes "limit_kept a b" "limit_kept b c"
  shows "limit_kept a c"
proof -
  have "broadcast_ids a \<subseteq> broadcast_ids c" "broadcast_ids c \<subseteq> broadcast_ids a \<union> printed_ids"
    using assms unfolding limit_kept_def by blast+
  moreover have "\<exists>b0 \<in> set (t_broadcasts a). br_broadcast_id b0 = br_broadcast_id b'
      \<and> (br_message_limit b' = br_message_limit b0 \<or> br_message_limit b' = 0)"
    if "b' \<in> set (t_broadcasts c)" "br_broadcast_id b' \<in> broadcast_ids a" for b'
    using assms that unfolding limit_kept_def by (metis (no_types, lifting) subset_iff)
  ultimately show ?thesis by (simp add: limit_kept_def)
qed

lemma limit_kept_frame: "client_frame d d' \<Longrightarrow> limit_kept d d'"
  by (rule limit_kept_same) (simp add: client_frame_def frame_defs)

lemma limit_kept_message_frame: "message_frame d d' \<Longrightarrow> limit_kept d d'"
  by (rule limit_kept_same) (simp add: message_frame_def other_tables_def)

lemma limit_kept_runInTx:
  "(\<And>a d'. f d = Inr (a, d') \<Longrightarrow> limit_kept d d') \<Longrightarrow> limit_kept d (snd (runInTx e f d))"
  by (rule runInTx_frame) (auto intro: limit_kept_same)

lemma limit_kept_disableOne: "disableOne i d = Inr d' \<Longrightarrow> limit_kept d d'"
  by (auto simp: disableOne_def Let_def intro: limit_kept_same limit_kept_update split: sum.splits)

lemma limit_kept_DisableBroadcasts: "limit_kept d (snd (DisableBroadcasts e bids d))"
proof -
  have "limit_kept d (snd (runInTx e (tryDisableBroadcasts bids) d))"
  proof (rule limit_kept_runInTx)
    fix a d'
    assume "tryDisableBroadcasts bids d = Inr (a, d')"
    then have "foldE disableOne bids d = Inr d'" by (auto simp: tryDisableBroadcasts_def)
    then show "limit_kept d d'"
      by (rule foldE_invariant [where P = "limit_kept d"]) (auto intro: limit_kept_same limit_kept_disableOne limit_kept_trans)
  qed
  then show ?thesis by (simp add: DisableBroadcasts_def limit_kept_same)
qed

lemma limit_kept_append:
  assumes "t_broadcasts d' = t_broadcasts d @ [b]" and "br_broadcast_id b \<notin> broadcast_ids d" "br_broadcast_id b \<in> printed_ids"
  shows "limit_kept d d'"
  using assms by (auto simp: limit_kept_def broadcast_ids_def)

lemma fromBroadcastProto_printed: "fromBroadcastProto b = Inr r \<Longrightarrow> br_broadcast_id r \<in> printed_ids"
  by (auto simp: fromBroadcastProto_def printed_ids_def split: option.splits dest!: broadcast_id.of_bytes_wf)

lemma limit_kept_CreateBroadcast: "limit_kept d (snd (CreateBroadcast e bo limit d))"
proof (cases bo)
  case (Some b)
  have "limit_kept d (snd (runInTx e (\<lambda>d.
           if GroupName b \<noteq> [] then Inl ErrNotSupported
           else ebind (sql_u64 limit) (\<lambda>limit.
             ebind (sql_insert br_broadcast_id True (dbB\<lparr>br_message_limit := limit\<rparr>) (t_broadcasts d)) (\<lambda>bs.
             ebind (foldE (insert_broadcast_label (br_broadcast_id dbB)) (RequiredLabels b)
                (d\<lparr>t_broadcasts := bs\<rparr>)) (\<lambda>d'. Inr ((), d'))))) d))" if "br_broadcast_id dbB \<in> printed_ids" for dbB
  proof (rule limit_kept_runInTx, goal_cases)
    case (1 a d')
    then obtain l bs where new: "br_broadcast_id dbB \<notin> br_broadcast_id ` set (t_broadcasts d)"
      "bs = t_broadcasts d @ [dbB\<lparr>br_message_limit := l\<rparr>]"
      and fold: "foldE (insert_broadcast_label (br_broadcast_id dbB)) (RequiredLabels b) (d\<lparr>t_broadcasts := bs\<rparr>) = Inr d'"
      by (auto simp: sql_insert_eq_Inr split: if_splits)
    have "t_broadcasts d' = t_broadcasts (d\<lparr>t_broadcasts := bs\<rparr>)"
      by (rule foldE_frame [OF fold]) (auto simp: insert_broadcast_label_def)
    with new show ?case
      by (intro limit_kept_append [where b = "dbB\<lparr>br_message_limit := l\<rparr>"]) (use that in \<open>auto simp: broadcast_ids_def\<close>)
  qed
  then show ?thesis
    by (auto simp: CreateBroadcast_def Some limit_kept_same split: sum.split dest: fromBroadcastProto_printed)
qed (simp add: CreateBroadcast_def fromBroadcastProto_def limit_kept_same)

lemma limit_kept_CreateAllocation: "limit_kept d (snd (CreateAllocation e rnd i frac expiry d))"
  unfolding CreateAllocation_def Let_def
proof (rule limit_kept_runInTx, goal_cases)
  case (1 a d')
  then have "d' = d \<or> (\<exists>na. t_broadcasts d' = update_where (\<lambda>r. br_broadcast_id r = BroadcastID_String i)
      (\<lambda>r. r\<lparr>br_allocated := na\<rparr>) (t_broadcasts d))"
    by (auto simp: insertAllocation_def case_prod_beta split: if_splits)
  then show ?case by (auto intro: limit_kept_same limit_kept_update)
qed

text \<open>A clean-up changes counters and removes at most the row of the allocation.\<close>

lemma CleanupAllocation_tables:
  defines "d' e i aid fs d \<equiv> snd (CleanupAllocation e i aid fs d)"
  shows "limit_kept d (d' e i aid fs d)" "set (t_allocations (d' e i aid fs d)) \<subseteq> set (t_allocations d)"
proof -
  have "limit_kept d (d' e i aid fs d) \<and> set (t_allocations (d' e i aid fs d)) \<subseteq> set (t_allocations d)"
    unfolding d'_def CleanupAllocation_def Let_def
  proof (rule runInTx_frame, goal_cases)
    case (2 a d')
    then obtain b where b: "sql_row (\<lambda>r. br_broadcast_id r = BroadcastID_String i) (t_broadcasts d) = Inr b" by auto
    show ?case
    proof (cases "sql_row (\<lambda>a. alloc_key a = (BroadcastID_String i, AllocationID_String aid)) (t_allocations d)")
      case (Inl x)
      with 2 b show ?thesis by (auto split: if_splits intro: limit_kept_same limit_kept_update)
    next
      case (Inr r)
      with 2 b show ?thesis
        by (cases "ComputeBroadcastAllocationCleanup (al_message_limit r) (br_allocated b)")
          (auto split: if_splits intro: limit_kept_update)
    qed
  qed (simp add: limit_kept_same)
  then show "limit_kept d (d' e i aid fs d)" "set (t_allocations (d' e i aid fs d)) \<subseteq> set (t_allocations d)" by simp_all
qed

text \<open>A saved message adds one to the row of its allocation.\<close>

lemma SaveBroadcastMessage_tables:
  assumes "SaveBroadcastMessage e cd msg bID cID aID d = (r, d')"
  shows "t_broadcasts d' = t_broadcasts d"
    "isl r \<Longrightarrow> d' = d" "AllocationID_Bytes aID = [] \<Longrightarrow> t_allocations d' = t_allocations d"
    "AllocationID_Bytes aID \<noteq> [] \<Longrightarrow> \<not> isl r \<Longrightarrow> \<exists>a \<in> set (t_allocations d).
       alloc_key a = (BroadcastID_String bID, AllocationID_String aID) \<and> al_sent a < al_message_limit a
       \<and> t_allocations d' = update_where (\<lambda>r. alloc_key r = alloc_key a) (\<lambda>r. r\<lparr>al_sent := al_sent a + 1\<rparr>) (t_allocations d)"
proof -
  have err: "d' = d" if "isl r" using assms that SaveBroadcastMessage_error by (auto simp: isl_def)
  have ok: "t_broadcasts d' = t_broadcasts d \<and> (AllocationID_Bytes aID = [] \<longrightarrow> t_allocations d' = t_allocations d)
    \<and> (AllocationID_Bytes aID \<noteq> [] \<longrightarrow> (\<exists>a \<in> set (t_allocations d).
       alloc_key a = (BroadcastID_String bID, AllocationID_String aID) \<and> al_sent a < al_message_limit a
       \<and> t_allocations d' = update_where (\<lambda>r. alloc_key r = alloc_key a) (\<lambda>r. r\<lparr>al_sent := al_sent a + 1\<rparr>) (t_allocations d)))"
    if "\<not> isl r"
  proof -
    have run: "SaveBroadcastMessage e cd msg bID cID aID d = (Inr (), d')" using assms that by (cases r) auto
    show ?thesis
      by (rule SaveBroadcastMessage_okE [OF run])
        (cases "AllocationID_Bytes aID = []"; auto simp: insert_sent_eq_Inr dest: tryStoreMessage_same(1,2))
  qed
  show "t_broadcasts d' = t_broadcasts d" "isl r \<Longrightarrow> d' = d" "AllocationID_Bytes aID = [] \<Longrightarrow> t_allocations d' = t_allocations d"
    "AllocationID_Bytes aID \<noteq> [] \<Longrightarrow> \<not> isl r \<Longrightarrow> \<exists>a \<in> set (t_allocations d).
       alloc_key a = (BroadcastID_String bID, AllocationID_String aID) \<and> al_sent a < al_message_limit a
       \<and> t_allocations d' = update_where (\<lambda>r. alloc_key r = alloc_key a) (\<lambda>r. r\<lparr>al_sent := al_sent a + 1\<rparr>) (t_allocations d)"
    using err ok by (cases "isl r"; simp)+
qed

lemma limit_kept_StoreMessages: "limit_kept d (snd (StoreMessages e cd ms c d))"
  unfolding StoreMessages_def
proof (rule limit_kept_runInTx, goal_cases)
  case (1 a d')
  then obtain ids d1 where d1: "foldE (storeOne e cd) ms ([], d) = Inr (ids, d1)" by auto
  have "limit_kept d (snd (ids, d1))"
  proof (rule foldE_invariant [OF d1, where P = "\<lambda>s. limit_kept d (snd s)"], goal_cases)
    case (2 m s s')
    then show ?case using message_frame_storeOne [of e cd m "fst s" "snd s" "fst s'" "snd s'"]
      by (auto intro: limit_kept_trans limit_kept_message_frame)
  qed (simp add: limit_kept_same)
  moreover have "limit_kept d1 d'" if "foldE (linkIgnore w) ids d1 = Inr d'" for w
    by (rule limit_kept_same, rule foldE_frame [OF that]) (auto simp: linkIgnore_def)
  ultimately show ?case using 1 d1 by (auto split: if_splits sum.splits intro: limit_kept_trans)
qed

lemma limit_kept_apply: "limit_kept d (apply_op e cd op d)"
proof -
  have ifp: "limit_kept d (snd (internalMessagesForProcessing e cd c lim l d))" for c lim l
    unfolding internalMessagesForProcessing_def
    by (rule limit_kept_runInTx) (auto dest: message_frame_ifp_loop limit_kept_message_frame)
  have "limit_kept d (snd (SetMessageResult e c j r d))" for c j r
    unfolding SetMessageResult_def
    by (rule limit_kept_runInTx) (auto dest: message_frame_trySetMessageResult limit_kept_message_frame)
  moreover have "limit_kept d (snd (DeletePendingMessages e cs d))" for cs
    unfolding DeletePendingMessages_def
    by (rule limit_kept_runInTx) (auto simp: Let_def split: if_splits intro: limit_kept_same)
  moreover have "limit_kept d (snd (SaveBroadcastMessage e cd m b c a d))" for m b c a
    using SaveBroadcastMessage_tables(1) [OF prod.collapse [symmetric]] by (rule limit_kept_same)
  moreover have "limit_kept d (snd (SetBroadcastLimit e i lim d))" for i lim
    unfolding SetBroadcastLimit_def by (rule limit_kept_runInTx) auto
  moreover have "limit_kept d (snd (RecordResourceUsageData e j u d))" for j u
    by (cases rule: RecordResourceUsageData_snd [of e j u d]) (simp_all add: limit_kept_same)
  moreover have "limit_kept d (snd (StoreFile e s n b d))" for s n b
    by (rule limit_kept_same) (cases b; cases "begin_err e"; cases "commit_err e"; simp add: StoreFile_def runInTx_def)
  moreover have "limit_kept d (snd (DeleteFile e s n d))" for s n
    by (rule limit_kept_same) (cases "begin_err e"; cases "commit_err e"; simp add: DeleteFile_def runInTx_def)
  ultimately show ?thesis
    using ifp
    by (cases op) (simp_all add: limit_kept_StoreMessages ClientMessagesForProcessing_def limit_kept_same
        limit_kept_frame client_frames limit_kept_DisableBroadcasts limit_kept_CreateBroadcast
        limit_kept_CreateAllocation CleanupAllocation_tables(1))
qed

lemma limit_kept_step: "store_step d d' \<Longrightarrow> limit_kept d d'"
  by (auto elim!: store_stepE simp: limit_kept_apply)

section \<open>The invariant\<close>

definition off_limit :: "sqldb \<Rightarrow> string \<Rightarrow> bool" where
  "off_limit d bid \<longleftrightarrow> list_all (\<lambda>b. br_broadcast_id b = bid \<longrightarrow>
     br_message_limit b = BroadcastUnlimited \<or> br_message_limit b = 0) (t_broadcasts d)"

definition has_limit :: "sqldb \<Rightarrow> string \<Rightarrow> bool" where
  "has_limit d bid \<longleftrightarrow> list_all (\<lambda>b. br_broadcast_id b = bid \<longrightarrow> br_message_limit b \<noteq> BroadcastUnlimited) (t_broadcasts d)"

definition held_count :: "nat \<Rightarrow> (nat \<times> bool) list \<Rightarrow> nat" where
  "held_count p held = length (filter (\<lambda>x. fst x = p) held)"

text \<open>
  An info and the database: the counter of the info is within its limit and ahead of the row of the allocation by
  the reservations under way. Without an allocation the broadcast is unlimited, or has been disabled.
\<close>

definition info_ok :: "sqldb \<Rightarrow> nat \<Rightarrow> bInfo \<Rightarrow> bool" where
  "info_ok d n i \<longleftrightarrow> BroadcastID_String (bI_bID i) \<in> broadcast_ids d \<and>
     (if info_limited i
      then AllocationID_Bytes (bI_aID i) \<noteq> [] \<and> n \<le> unat (bI_sent i) \<and> bI_sent i \<le> bI_limit i
        \<and> (\<forall>a \<in> set (t_allocations d). alloc_key a = info_key i \<longrightarrow> unat (al_sent a) + n = unat (bI_sent i))
      else bI_aID i = AllocationID [] \<and> off_limit d (BroadcastID_String (bI_bID i)))"

definition listed_ok :: "sqldb \<Rightarrow> BroadcastInfo \<Rightarrow> bool" where
  "listed_ok d b \<longleftrightarrow> (case BytesToBroadcastID (BroadcastId (bi_Broadcast b)) of Inl _ \<Rightarrow> True
     | Inr i \<Rightarrow> BroadcastID_String i \<in> broadcast_ids d \<and>
         (if bi_Limit b = BroadcastUnlimited then off_limit d (BroadcastID_String i) else has_limit d (BroadcastID_String i)))"

fun pc_ok :: "sqldb \<Rightarrow> refresh_pc \<Rightarrow> bool" where
  "pc_ok d (RAllocating cur bs act) \<longleftrightarrow> list_all (listed_ok d) bs"
| "pc_ok d _ \<longleftrightarrow> True"

definition heap_ok :: "sqldb \<Rightarrow> (nat \<times> bool) list \<Rightarrow> bInfo list \<Rightarrow> bool" where
  "heap_ok d held h \<longleftrightarrow> (\<forall>p < length h. info_ok d (held_count p held) (h ! p))
     \<and> (\<forall>p < length h. \<forall>q < length h. info_limited (h ! p) \<longrightarrow> info_limited (h ! q) \<longrightarrow>
          info_key (h ! p) = info_key (h ! q) \<longrightarrow> p = q)"

definition bm_ok :: "sqldb \<Rightarrow> bstate \<Rightarrow> bool" where
  "bm_ok d0 s \<longleftrightarrow> reach store_step d0 (bs_db s) \<and> store_ok (bs_db s) \<and> broadcast_ids (bs_db s) \<subseteq> printed_ids \<and> heap_ok (bs_db s) (bs_held s) (bs_heap s)
     \<and> pc_ok (bs_db s) (bs_pc s)
     \<and> fst ` set (bs_held s) \<union> snd ` set (bm_infos (bs_m s)) \<union> snd ` set (bs_new s) \<union> set (bs_dead s)
         \<subseteq> {..< length (bs_heap s)}"

lemma off_limit_kept: "limit_kept d d' \<Longrightarrow> bid \<in> broadcast_ids d \<Longrightarrow> off_limit d bid \<Longrightarrow> off_limit d' bid"
  by (fastforce simp: limit_kept_def off_limit_def list_all_iff)

lemma has_limit_kept: "limit_kept d d' \<Longrightarrow> bid \<in> broadcast_ids d \<Longrightarrow> has_limit d bid \<Longrightarrow> has_limit d' bid"
  by (fastforce simp: limit_kept_def has_limit_def list_all_iff BroadcastUnlimited_def)

lemma ids_kept: "limit_kept d d' \<Longrightarrow> bid \<in> broadcast_ids d \<Longrightarrow> bid \<in> broadcast_ids d'"
  by (auto simp: limit_kept_def)

lemma listed_ok_kept: "limit_kept d d' \<Longrightarrow> listed_ok d b \<Longrightarrow> listed_ok d' b"
  by (auto simp: listed_ok_def ids_kept off_limit_kept has_limit_kept split: sum.splits if_splits)

lemma pc_ok_kept: "limit_kept d d' \<Longrightarrow> pc_ok d pc \<Longrightarrow> pc_ok d' pc"
  by (cases pc) (auto simp: list_all_iff intro: listed_ok_kept)

lemma info_ok_kept:
  assumes "limit_kept d d'" and "info_ok d n i"
    and "info_limited i \<Longrightarrow> \<forall>a \<in> set (t_allocations d'). alloc_key a = info_key i \<longrightarrow> a \<in> set (t_allocations d)"
  shows "info_ok d' n i"
  using assms by (auto simp: info_ok_def ids_kept off_limit_kept split: if_splits)

text \<open>A step of the database that leaves the rows of the manager's allocations alone or removes them.\<close>

lemma heap_ok_kept:
  assumes "heap_ok d held h" and "limit_kept d d'"
    and "list_all (\<lambda>a. alloc_key a \<in> own_keys h \<longrightarrow> a \<in> set (t_allocations d)) (t_allocations d')"
  shows "heap_ok d' held h"
proof -
  have "info_ok d' (held_count p held) (h ! p)" if "p < length h" for p
  proof (rule info_ok_kept [OF assms(2)])
    show "info_ok d (held_count p held) (h ! p)" using assms(1) that by (simp add: heap_ok_def)
    show "\<forall>a \<in> set (t_allocations d'). alloc_key a = info_key (h ! p) \<longrightarrow> a \<in> set (t_allocations d)"
      if "info_limited (h ! p)"
      using assms(3) that \<open>p < length h\<close> by (auto simp: list_all_iff own_keys_def)
  qed
  with assms(1) show ?thesis by (simp add: heap_ok_def)
qed

lemma store_facts_kept:
  assumes "reach store_step d0 d \<and> store_ok d \<and> broadcast_ids d \<subseteq> printed_ids" and "store_step d d'"
  shows "reach store_step d0 d' \<and> store_ok d' \<and> broadcast_ids d' \<subseteq> printed_ids"
  using assms store.step_inv [of d d'] limit_kept_step [of d d'] reach_step [of store_step d0 d d']
  unfolding limit_kept_def by blast

lemma bm_ok_db:
  assumes "bm_ok d0 s" and "store_step (bs_db s) d"
    and "list_all (\<lambda>a. alloc_key a \<in> own_keys (bs_heap s) \<longrightarrow> a \<in> set (t_allocations (bs_db s))) (t_allocations d)"
  shows "bm_ok d0 (s\<lparr>bs_db := d\<rparr>)"
  using assms(1) store_facts_kept [OF _ assms(2), of d0] heap_ok_kept [OF _ limit_kept_step [OF assms(2)] assms(3)]
    pc_ok_kept [OF limit_kept_step [OF assms(2)]]
  unfolding bm_ok_def by simp

text \<open>A change of one info together with the reservations for it.\<close>

lemma heap_ok_set:
  assumes "heap_ok d held h" and "p < length h"
    and "\<And>q. q \<noteq> p \<Longrightarrow> held_count q held' = held_count q held"
    and "bI_bID i = bI_bID (h ! p)" "bI_aID i = bI_aID (h ! p)" "bI_limit i = bI_limit (h ! p)"
    and "info_ok d (held_count p held) (h ! p) \<Longrightarrow> info_ok d (held_count p held') i"
  shows "heap_ok d held' (h[p := i])"
  using assms by (auto simp: heap_ok_def nth_list_update info_key_def info_limited_def)

lemma held_count_simps [simp]:
  "held_count p [] = 0" "held_count p (x # xs) = (if fst x = p then 1 else 0) + held_count p xs"
  "held_count p (xs @ ys) = held_count p xs + held_count p ys"
  by (simp_all add: held_count_def)

lemma held_count_zero: "p \<notin> fst ` set held \<Longrightarrow> held_count p held = 0"
  by (auto simp: held_count_def filter_empty_conv)

lemma info_ok_reserve:
  assumes "info_ok d n i" and "info_reserve i = Some i'"
  shows "info_ok d (n + 1) i'" "bI_bID i' = bI_bID i" "bI_aID i' = bI_aID i" "bI_limit i' = bI_limit i"
proof -
  show same: "bI_bID i' = bI_bID i" "bI_aID i' = bI_aID i" "bI_limit i' = bI_limit i"
    using assms(2) by (auto simp: info_reserve_def split: if_splits)
  show "info_ok d (n + 1) i'"
  proof (cases "info_limited i")
    case True
    then have i': "i' = i\<lparr>bI_sent := bI_sent i + 1\<rparr>" "bI_sent i < bI_limit i"
      using assms(2) by (auto simp: info_reserve_def info_limited_def limitedAtomicIncrement_def split: if_splits)
    have "unat (bI_sent i + 1) = unat (bI_sent i) + 1" "bI_sent i + 1 \<le> bI_limit i"
      using word_less_imp_unat_add1 [OF i'(2)] inc_le [OF i'(2)] by simp_all
    with True assms(1) show ?thesis by (simp add: info_ok_def i' info_limited_def info_key_def)
  next
    case False
    with assms same show ?thesis by (simp add: info_ok_def info_limited_def)
  qed
qed

lemma info_ok_release: "info_ok d (n + 1) i \<Longrightarrow> info_ok d n (info_release i)"
proof (cases "info_limited i")
  case True
  assume ok: "info_ok d (n + 1) i"
  then have "bI_sent i \<noteq> 0" using True by (auto simp: info_ok_def)
  then have "unat (bI_sent i + (- 1)) = unat (bI_sent i) - 1" "bI_sent i + (- 1) \<le> bI_sent i"
    by (simp_all add: unat_minus_one word_le_nat_alt)
  with ok True show ?thesis
    by (auto simp: info_ok_def info_release_def info_limited_def info_key_def)
qed (simp add: info_ok_def info_release_def info_limited_def)

section \<open>The calls of the datastore\<close>

lemma info_key_pair: "(BroadcastID_String (bI_bID i), AllocationID_String (bI_aID i)) = info_key i"
  by (simp add: info_key_def)

lemma cleanup_is_honest: "info_ok d 0 i \<Longrightarrow> cleanup_honest d (bI_bID i) (bI_aID i) (bI_sent i)"
  by (auto simp: info_ok_def cleanup_honest_def off_limit_def list_all_iff info_key_pair AllocationID_Bytes_def word_unat_eq_iff
      split: if_splits)

lemma save_is_honest: "info_ok d n i \<Longrightarrow> save_honest d (bI_bID i) (info_aid i)"
  by (auto simp: info_ok_def save_honest_def off_limit_def info_aid_def split: if_splits)

lemma save_step: "save_honest d b a \<Longrightarrow> SaveBroadcastMessage e cd m b c a d = (r, d') \<Longrightarrow> store_step d d'"
  by (rule store_stepI [where op = "OpSaveBroadcastMessage m b c a" and e = e and cd = cd]) simp_all

lemma cleanup_step: "cleanup_honest d b a n \<Longrightarrow> store_step d (snd (CleanupAllocation e b a n d))"
  by (rule store_stepI [where op = "OpCleanupAllocation b a n" and e = e]) simp_all

lemma allocation_step: "CreateAllocation e rnd b f x d = (r, d') \<Longrightarrow> store_step d d'"
  by (rule store_stepI [where op = "OpCreateAllocation rnd b f x" and e = e]) simp_all

text \<open>The row of the allocation follows the counter of the info.\<close>

lemma info_ok_counted:
  assumes ok: "heap_ok d held h" and pq: "p < length h" "q < length h" and lim: "info_limited (h ! p)"
    and kept: "limit_kept d d'" and n: "held_count q held = n + (if q = p then 1 else 0)"
    and a: "a \<in> set (t_allocations d)" "alloc_key a = info_key (h ! p)" "al_sent a < al_message_limit a"
      "t_allocations d' = update_where (\<lambda>r. alloc_key r = alloc_key a) (\<lambda>r. r\<lparr>al_sent := al_sent a + 1\<rparr>) (t_allocations d)"
  shows "info_ok d' n (h ! q)"
proof -
  have old: "info_ok d (held_count q held) (h ! q)" using ok pq by (simp add: heap_ok_def)
  have inc: "unat (al_sent a + 1) = unat (al_sent a) + 1" using a(3) by (rule word_less_imp_unat_add1)
  show ?thesis
  proof (cases "q = p")
    case same: True
    have count: "held_count p held = n + 1" using n by (simp add: same)
    have "unat (al_sent a) + (n + 1) = unat (bI_sent (h ! p))"
      using old a(1,2) lim by (simp add: same count info_ok_def)
    moreover have "unat (al_sent a') = unat (al_sent a) + 1"
      if "a' \<in> set (t_allocations d')" "alloc_key a' = alloc_key a" for a'
      using that inc by (auto simp: a(4) set_update_where alloc_key_def)
    ultimately show ?thesis
      using old lim a(2) ids_kept [OF kept] by (simp add: same count info_ok_def)
  next
    case False
    have "info_key (h ! q) \<noteq> info_key (h ! p)" if "info_limited (h ! q)"
      using ok pq lim False that by (auto simp: heap_ok_def)
    moreover have "a' \<in> set (t_allocations d)" if "a' \<in> set (t_allocations d')" "alloc_key a' \<noteq> alloc_key a" for a'
      using that by (auto simp: a(4) set_update_where alloc_key_def)
    ultimately have "info_ok d' (held_count q held) (h ! q)"
      using a(2) by (intro info_ok_kept [OF kept old]) auto
    then show ?thesis using False n by simp
  qed
qed

lemma heap_ok_saved:
  assumes ok: "heap_ok d (xs @ (p, False) # ys) h" and p: "p < length h"
    and run: "SaveBroadcastMessage e cd m (bI_bID (h ! p)) c (info_aid (h ! p)) d = (Inr u, d')"
    and kept: "limit_kept d d'"
  shows "heap_ok d' (xs @ ys) h"
proof -
  have "info_ok d' (held_count q (xs @ ys)) (h ! q)" if q: "q < length h" for q
  proof (cases "info_limited (h ! p)")
    case False
    have old: "info_ok d (held_count q (xs @ (p, False) # ys)) (h ! q)" using ok q by (simp add: heap_ok_def)
    have "t_allocations d' = t_allocations d"
      using SaveBroadcastMessage_tables(3) [OF run] False by (simp add: info_aid_def AllocationID_Bytes_def)
    then have "info_ok d' (held_count q (xs @ (p, False) # ys)) (h ! q)" by (intro info_ok_kept [OF kept old]) simp
    with False show ?thesis by (cases "q = p") (simp_all add: info_ok_def)
  next
    case True
    have "AllocationID_Bytes (info_aid (h ! p)) \<noteq> []"
      using ok p True by (simp add: heap_ok_def info_ok_def info_aid_def)
    then obtain a where "a \<in> set (t_allocations d)" "alloc_key a = info_key (h ! p)" "al_sent a < al_message_limit a"
      "t_allocations d' = update_where (\<lambda>r. alloc_key r = alloc_key a) (\<lambda>r. r\<lparr>al_sent := al_sent a + 1\<rparr>) (t_allocations d)"
      using SaveBroadcastMessage_tables(4) [OF run] True by (auto simp: info_aid_def info_key_def)
    then show ?thesis by (rule info_ok_counted [OF ok p q True kept, rotated]) simp
  qed
  with ok show ?thesis by (simp add: heap_ok_def)
qed

lemma CreateAllocation_tables:
  assumes "CreateAllocation e rnd i frac x d = (r, d')"
  shows "(\<forall>a. r \<noteq> Inr (Some a)) \<and> t_allocations d' = t_allocations d \<or>
    (\<exists>a row. r = Inr (Some a) \<and> t_allocations d' = t_allocations d @ [row] \<and> rnd = Inr (AllocationID_Bytes (ai_ID a))
       \<and> alloc_key row = (BroadcastID_String i, AllocationID_String (ai_ID a)) \<and> al_sent row = 0
       \<and> al_message_limit row = ai_Limit a \<and> alloc_key row \<notin> alloc_key ` set (t_allocations d))"
proof (cases r)
  case (Inl y)
  with assms show ?thesis unfolding CreateAllocation_def by (auto dest: runInTx_error)
next
  case (Inr ao)
  from runInTx_success [OF assms [unfolded Inr CreateAllocation_def]] show ?thesis
    unfolding Inr
    by (auto simp: Let_def insertAllocation_def case_prod_beta RandomAllocationID_def AllocationID_Bytes_def
        sql_insert_eq_Inr alloc_key_def split: if_splits)
qed

lemma heap_ok_append:
  assumes "heap_ok d held h" and "info_ok d (held_count (length h) held) i" and "own_keys [i] \<inter> own_keys h = {}"
  shows "heap_ok d held (h @ [i])"
proof -
  have new: "info_key i \<noteq> info_key (h ! p)" if "info_limited i" "info_limited (h ! p)" "p < length h" for p
    using assms(3) that by (auto simp: own_keys_def)
  show ?thesis
    using assms(1,2) new unfolding heap_ok_def by (auto simp: nth_append less_Suc_eq) metis+
qed

lemma alloc_limit_finite:
  assumes "store_ok d" and "has_limit d bid" "bid \<in> broadcast_ids d" and "row \<in> set (t_allocations d)" "al_broadcast_id row = bid"
  shows "al_message_limit row \<noteq> BroadcastUnlimited"
proof -
  obtain b where b: "b \<in> set (t_broadcasts d)" "br_broadcast_id b = bid" using assms(3) by (auto simp: broadcast_ids_def)
  then have "counters_ok b (allocs_of d bid) (sent_count d bid)" "br_message_limit b \<noteq> BroadcastUnlimited"
    using assms(1,2) by (auto simp: store_ok_def broadcasts_ok_def has_limit_def list_all_iff)
  then show ?thesis using assms(4,5) by (auto simp: counters_ok_def list_all_iff allocs_of_def)
qed

lemma new_allocation_ok:
  assumes step: "store_step d d'" and ok: "store_ok d" and rnd: "random_8 rnd"
    and bid: "BroadcastID_String i \<in> broadcast_ids d" "has_limit d (BroadcastID_String i)"
    and row: "t_allocations d' = t_allocations d @ [row]" "rnd = Inr (AllocationID_Bytes (ai_ID a))"
      "alloc_key row = (BroadcastID_String i, AllocationID_String (ai_ID a))" "al_sent row = 0"
      "al_message_limit row = ai_Limit a" "alloc_key row \<notin> alloc_key ` set (t_allocations d)"
    and n: "bI_bID n = i" "bI_aID n = ai_ID a" "bI_limit n = ai_Limit a" "bI_sent n = 0"
  shows "info_ok d' 0 n \<and> info_limited n \<and> info_key n = alloc_key row"
proof -
  note kept = limit_kept_step [OF step]
  have "has_limit d' (BroadcastID_String i)" "BroadcastID_String i \<in> broadcast_ids d'"
    using bid has_limit_kept [OF kept] ids_kept [OF kept] by auto
  then have "ai_Limit a \<noteq> BroadcastUnlimited"
    using alloc_limit_finite [of d' "BroadcastID_String i" row] store.step_inv [OF ok step] row(1,3,5)
    by (auto simp: alloc_key_def)
  moreover have "AllocationID_Bytes (ai_ID a) \<noteq> []" using rnd row(2) by (auto simp: random_8_def)
  moreover have "info_key n = alloc_key row" using row(3) by (simp add: info_key_def n)
  moreover have "alloc_key a' \<noteq> alloc_key row" if "a' \<in> set (t_allocations d)" for a'
    using row(6) that by (metis image_eqI)
  ultimately show ?thesis
    using row(1,4) ids_kept [OF kept bid(1)] by (auto simp: info_ok_def info_limited_def n)
qed

text \<open>What one round of the allocation loop does.\<close>

lemma alloc_one_ok:
  assumes "alloc_one e rnd i b d = (io, d')" and "random_8 rnd" and "store_ok d"
    and "BytesToBroadcastID (BroadcastId (bi_Broadcast b)) = Inr i" "listed_ok d b"
  shows "d' = d \<or> store_step d d'" "io = None \<Longrightarrow> t_allocations d' = t_allocations d"
    "io = Some info \<Longrightarrow> info_ok d' 0 info
       \<and> (\<forall>a \<in> set (t_allocations d'). a \<in> set (t_allocations d) \<or> (info_limited info \<and> alloc_key a = info_key info))"
proof -
  have listed: "BroadcastID_String i \<in> broadcast_ids d"
    "if bi_Limit b = BroadcastUnlimited then off_limit d (BroadcastID_String i) else has_limit d (BroadcastID_String i)"
    using assms(4,5) by (auto simp: listed_ok_def)
  let ?new = "\<lparr>bI_bID = i, bI_b = bi_Broadcast b, bI_aID = AllocationID [], bI_limit = bi_Limit b, bI_sent = 0, bI_expiry = None\<rparr>"
  consider (full) "bi_Sent b = bi_Limit b" "io = None" "d' = d"
    | (free) "bi_Limit b = BroadcastUnlimited" "io = Some ?new" "d' = d"
    | (lim) r where "bi_Limit b \<noteq> BroadcastUnlimited" "CreateAllocation e rnd i allocFrac (Now e + allocDuration) d = (r, d')"
        "io = (case r of Inr (Some a) \<Rightarrow> Some (?new\<lparr>bI_aID := ai_ID a, bI_limit := ai_Limit a, bI_expiry := Some (ai_Expiry a)\<rparr>)
           | _ \<Rightarrow> None)"
    using assms(1) by (auto simp: alloc_one_def Let_def split: if_splits prod.splits sum.splits option.splits)
  then have "(d' = d \<or> store_step d d') \<and> (io = None \<longrightarrow> t_allocations d' = t_allocations d)
    \<and> (io = Some info \<longrightarrow> info_ok d' 0 info
       \<and> (\<forall>a \<in> set (t_allocations d'). a \<in> set (t_allocations d) \<or> (info_limited info \<and> alloc_key a = info_key info)))"
  proof cases
    case (lim r)
    note step = allocation_step [OF lim(2)]
    note kept = limit_kept_step [OF step]
    from CreateAllocation_tables [OF lim(2)] show ?thesis
    proof (elim disjE exE conjE)
      assume "\<forall>a. r \<noteq> Inr (Some a)" "t_allocations d' = t_allocations d"
      with step lim(3) show ?thesis by (cases r; auto split: option.splits)
    next
      fix a row
      assume a: "r = Inr (Some a)" "t_allocations d' = t_allocations d @ [row]" "rnd = Inr (AllocationID_Bytes (ai_ID a))"
        "alloc_key row = (BroadcastID_String i, AllocationID_String (ai_ID a))" "al_sent row = 0"
        "al_message_limit row = ai_Limit a" "alloc_key row \<notin> alloc_key ` set (t_allocations d)"
      define n where "n = ?new\<lparr>bI_aID := ai_ID a, bI_limit := ai_Limit a, bI_expiry := Some (ai_Expiry a)\<rparr>"
      have "info_ok d' 0 n \<and> info_limited n \<and> info_key n = alloc_key row"
        by (rule new_allocation_ok [OF step assms(3,2) listed(1) _ a(2-7)]) (use listed(2) lim(1) in \<open>simp_all add: n_def\<close>)
      with step a(1,2) lim(3) show ?thesis by (auto simp: n_def)
    qed
  qed (use listed in \<open>auto simp: info_ok_def info_limited_def\<close>)
  then show "d' = d \<or> store_step d d'" "io = None \<Longrightarrow> t_allocations d' = t_allocations d"
    "io = Some info \<Longrightarrow> info_ok d' 0 info
       \<and> (\<forall>a \<in> set (t_allocations d'). a \<in> set (t_allocations d) \<or> (info_limited info \<and> alloc_key a = info_key info))"
    by simp_all
qed

lemma listed_ok_ListActiveBroadcasts:
  assumes "ListActiveBroadcasts e d = (Inr bs, d')" and "store_ok d" "broadcast_ids d \<subseteq> printed_ids"
  shows "d' = d" "list_all (listed_ok d) bs"
proof -
  obtain bs0 where m1: "mapE (\<lambda>r. ebind (toBroadcastProto r) (\<lambda>bp. Inr \<lparr>bi_Broadcast = bp, bi_Sent = br_sent r, bi_Limit = br_message_limit r\<rparr>))
        (filter (broadcast_active (NowProto e)) (t_broadcasts d)) = Inr bs0"
    and m2: "mapE (\<lambda>i. ebind (BytesToBroadcastID (BroadcastId (bi_Broadcast i))) (\<lambda>bid.
         Inr (i\<lparr>bi_Broadcast := (bi_Broadcast i)\<lparr>RequiredLabels :=
           map (\<lambda>l. \<lparr>lbl_service = l_service_name l, lbl_label = l_label l\<rparr>)
             (filter (\<lambda>l. l_client_id l = BroadcastID_String bid) (t_broadcast_labels d))\<rparr>\<rparr>))) bs0 = Inr bs"
    and "d' = d"
    using runInTx_success [OF assms(1) [unfolded ListActiveBroadcasts_def]] by auto
  show "d' = d" by fact
  have "listed_ok d b" if b: "b \<in> set bs" for b
  proof -
    obtain b0 where b0: "b0 \<in> set bs0" "BroadcastId (bi_Broadcast b) = BroadcastId (bi_Broadcast b0)" "bi_Limit b = bi_Limit b0"
      using m2 b by (auto simp: mapE_eq_Inr elim!: list_all2_set2D)
    then obtain r i where r: "r \<in> set (t_broadcasts d)" "StringToBroadcastID (br_broadcast_id r) = Inr i"
      "BroadcastId (bi_Broadcast b0) = BroadcastID_Bytes i" "bi_Limit b0 = br_message_limit r"
      using m1 by (auto simp: mapE_eq_Inr toBroadcastProto_def elim!: list_all2_set2D)
    have id: "br_broadcast_id r = BroadcastID_String i" "BroadcastID_ok i"
    proof -
      obtain j where j: "BroadcastID_ok j" "br_broadcast_id r = BroadcastID_String j"
        using r(1) assms(3) by (force simp: broadcast_ids_def printed_ids_def)
      have "length (bid_id j) = 8"
        using j r(2) by (auto simp: BroadcastID_ok_def StringToBroadcastID_def BroadcastID_String_def split: if_splits)
      then show "br_broadcast_id r = BroadcastID_String i" "BroadcastID_ok i"
        using StringToBroadcastID_String [of j] j r(2) by simp_all
    qed
    have uniq: "br_broadcast_id r' = BroadcastID_String i \<longrightarrow> br_message_limit r' = bi_Limit b" if "r' \<in> set (t_broadcasts d)" for r'
      using assms(2) r(1,4) b0(3) id(1) that by (auto simp: store_ok_def broadcasts_ok_def distinct_map inj_on_def)
    then have "if bi_Limit b = BroadcastUnlimited then off_limit d (BroadcastID_String i) else has_limit d (BroadcastID_String i)"
      by (simp add: off_limit_def has_limit_def list_all_iff)
    moreover have "BroadcastID_String i \<in> broadcast_ids d" using r(1) id(1) by (force simp: broadcast_ids_def)
    moreover have "BytesToBroadcastID (BroadcastId (bi_Broadcast b)) = Inr i"
      using b0(2) r(3) broadcast_id.of_bytes_to_bytes [OF id(2)] by simp
    ultimately show ?thesis by (simp add: listed_ok_def)
  qed
  then show "list_all (listed_ok d) bs" by (simp add: list_all_iff)
qed

lemma gomap_upd_pointers: "snd ` set (gomap_upd k p m) \<subseteq> insert p (snd ` set m)"
  by (induction k p m rule: gomap_upd.induct) auto

lemma updateAllocs_pointers:
  assumes "updateAllocs keep new (infos, h) = (dead, infos')"
  shows "set dead \<union> snd ` set infos' \<subseteq> snd ` set infos \<union> snd ` set new"
proof -
  have del: "snd ` set (fold (\<lambda>(_, p) m. gomap_del (bI_bID (h ! p)) m) xs m) \<subseteq> snd ` set m" for xs :: "(BroadcastID \<times> nat) list" and m
  proof (induction xs arbitrary: m)
    case (Cons x xs)
    have "snd ` set (gomap_del (bI_bID (h ! snd x)) m) \<subseteq> snd ` set m" by (auto simp: gomap_del_def)
    with Cons.IH [of "gomap_del (bI_bID (h ! snd x)) m"] show ?case by (simp add: case_prod_beta)
  qed simp
  have new: "set ret' \<union> snd ` set m' \<subseteq> set ret \<union> snd ` set m \<union> snd ` set xs"
    if "fold (\<lambda>(i, p) (ret, infos). (case map_of infos i of None \<Rightarrow> ret | Some q \<Rightarrow> ret @ [q], gomap_upd i p infos)) xs (ret, m) = (ret', m')"
    for xs :: "(BroadcastID \<times> nat) list" and ret ret' m m'
    using that
  proof (induction xs arbitrary: ret m)
    case (Cons x xs)
    obtain i p where x: "x = (i, p)" by force
    define ret1 where "ret1 = (case map_of m i of None \<Rightarrow> ret | Some q \<Rightarrow> ret @ [q])"
    have "set ret' \<union> snd ` set m' \<subseteq> set ret1 \<union> snd ` set (gomap_upd i p m) \<union> snd ` set xs"
      using Cons.prems by (intro Cons.IH) (simp add: x ret1_def)
    moreover have "set ret1 \<subseteq> set ret \<union> snd ` set m"
    proof (cases "map_of m i")
      case (Some q)
      then have "(i, q) \<in> set m" by (rule map_of_SomeD)
      then have "q \<in> snd ` set m" by (rule rev_image_eqI) simp
      with Some show ?thesis by (simp add: ret1_def)
    qed (simp add: ret1_def)
    moreover have "snd ` set (x # xs) = insert p (snd ` set xs)" by (simp add: x)
    ultimately show ?case using gomap_upd_pointers [of i p m] by blast
  qed auto
  define gone where "gone = (\<lambda>(_ :: BroadcastID, p). bI_bID (h ! p) \<notin> set keep \<and> map_of new (bI_bID (h ! p)) = None)"
  have "set dead \<union> snd ` set infos' \<subseteq> set (map snd (filter gone infos))
      \<union> snd ` set (fold (\<lambda>(_, p) m. gomap_del (bI_bID (h ! p)) m) (filter gone infos) infos) \<union> snd ` set new"
    by (rule new) (use assms in \<open>simp add: updateAllocs_def Let_def gone_def\<close>)
  moreover have "set (map snd (filter gone infos)) \<subseteq> snd ` set infos" by auto
  ultimately show ?thesis using del [of "filter gone infos" infos] by blast
qed

section \<open>Every step keeps the invariant\<close>

text \<open>The parts of the invariant, and how to put it together for a changed state.\<close>

lemma bm_okD:
  assumes "bm_ok d0 s"
  shows "reach store_step d0 (bs_db s) \<and> store_ok (bs_db s) \<and> broadcast_ids (bs_db s) \<subseteq> printed_ids"
    "heap_ok (bs_db s) (bs_held s) (bs_heap s)" "pc_ok (bs_db s) (bs_pc s)"
    "fst ` set (bs_held s) \<union> snd ` set (bm_infos (bs_m s)) \<union> snd ` set (bs_new s) \<union> set (bs_dead s) \<subseteq> {..< length (bs_heap s)}"
  using assms by (simp_all add: bm_ok_def)

lemma bm_okI:
  assumes "reach store_step d0 (bs_db s) \<and> store_ok (bs_db s) \<and> broadcast_ids (bs_db s) \<subseteq> printed_ids"
    "heap_ok (bs_db s) (bs_held s) (bs_heap s)" "pc_ok (bs_db s) (bs_pc s)"
    "fst ` set (bs_held s) \<union> snd ` set (bm_infos (bs_m s)) \<union> snd ` set (bs_new s) \<union> set (bs_dead s) \<subseteq> {..< length (bs_heap s)}"
  shows "bm_ok d0 s"
  using assms by (simp add: bm_ok_def)

lemma info_ok_at: "bm_ok d0 s \<Longrightarrow> p < length (bs_heap s) \<Longrightarrow> info_ok (bs_db s) (held_count p (bs_held s)) (bs_heap s ! p)"
  by (simp add: bm_ok_def heap_ok_def)

lemma bm_ok_reserve:
  assumes ok: "bm_ok d0 s" and "p \<in> snd ` set (bm_infos (bs_m s))" "info_reserve (bs_heap s ! p) = Some info"
  shows "bm_ok d0 ((bs_set_info p info s)\<lparr>bs_held := bs_held s @ [(p, False)]\<rparr>)"
proof -
  note D = bm_okD [OF ok]
  have p: "p < length (bs_heap s)" using D(4) assms(2) by auto
  note r = info_ok_reserve [OF info_ok_at [OF ok p] assms(3)]
  have "heap_ok (bs_db s) (bs_held s @ [(p, False)]) ((bs_heap s)[p := info])"
    by (rule heap_ok_set [OF D(2) p]) (use r in auto)
  with D p show ?thesis by (intro bm_okI) (simp_all add: bs_set_info_def)
qed

lemma bm_ok_release:
  assumes ok: "bm_ok d0 s" and held: "bs_held s = xs @ (p, True) # ys"
  shows "bm_ok d0 ((bs_set_info p (info_release (bs_heap s ! p)) s)\<lparr>bs_held := xs @ ys\<rparr>)"
proof -
  note D = bm_okD [OF ok]
  have p: "p < length (bs_heap s)" using D(4) held by auto
  have "heap_ok (bs_db s) (xs @ ys) ((bs_heap s)[p := info_release (bs_heap s ! p)])"
    by (rule heap_ok_set [OF D(2) p])
      (use info_ok_release [of "bs_db s" "held_count p (xs @ ys)"] in \<open>auto simp: held info_release_def\<close>)
  with D held show ?thesis by (intro bm_okI) (simp_all add: bs_set_info_def)
qed

lemma bm_ok_failed:
  assumes ok: "bm_ok d0 s" and held: "bs_held s = xs @ (p, False) # ys"
  shows "bm_ok d0 (s\<lparr>bs_held := xs @ (p, True) # ys\<rparr>)"
proof -
  have "held_count q (xs @ (p, True) # ys) = held_count q (bs_held s)" for q by (simp add: held)
  with bm_okD [OF ok] held show ?thesis by (intro bm_okI) (simp_all add: heap_ok_def)
qed

lemma bm_ok_save:
  assumes ok: "bm_ok d0 s" and held: "bs_held s = xs @ (p, False) # ys"
    and run: "SaveBroadcastMessage e cd m (bI_bID (bs_heap s ! p)) c (info_aid (bs_heap s ! p)) (bs_db s) = (r, d)"
  shows "bm_ok d0 (s\<lparr>bs_db := d, bs_held := (if isl r then xs @ (p, True) # ys else xs @ ys)\<rparr>)"
proof (cases r)
  case (Inl x)
  then have "d = bs_db s" using run SaveBroadcastMessage_tables(2) by fastforce
  with bm_ok_failed [OF ok held] Inl show ?thesis by simp
next
  case (Inr u)
  note D = bm_okD [OF ok]
  have p: "p < length (bs_heap s)" using D(4) held by auto
  have step: "store_step (bs_db s) d" using save_step [OF save_is_honest [OF info_ok_at [OF ok p]] run] .
  have "heap_ok d (xs @ ys) (bs_heap s)"
    by (rule heap_ok_saved [OF D(2) [unfolded held] p run [unfolded Inr] limit_kept_step [OF step]])
  with D held Inr store_facts_kept [OF D(1) step] pc_ok_kept [OF limit_kept_step [OF step]]
  show ?thesis by (intro bm_okI) simp_all
qed

lemma bm_ok_cleanup:
  assumes ok: "bm_ok d0 s" and dead: "bs_dead s = p # ps" and free: "p \<notin> fst ` set (bs_held s)"
    and d: "d = snd (CleanupAllocation e (bI_bID (bs_heap s ! p)) (bI_aID (bs_heap s ! p)) (bI_sent (bs_heap s ! p)) (bs_db s))"
  shows "bm_ok d0 (s\<lparr>bs_db := d, bs_dead := ps\<rparr>)"
proof -
  have p: "p < length (bs_heap s)" using bm_okD(4) [OF ok] dead by auto
  have "info_ok (bs_db s) 0 (bs_heap s ! p)" using info_ok_at [OF ok p] held_count_zero [OF free] by simp
  then have step: "store_step (bs_db s) d" unfolding d by (intro cleanup_step cleanup_is_honest)
  have "set (t_allocations d) \<subseteq> set (t_allocations (bs_db s))" unfolding d by (rule CleanupAllocation_tables)
  then have "bm_ok d0 (s\<lparr>bs_db := d\<rparr>)" by (intro bm_ok_db [OF ok step]) (auto simp: list_all_iff)
  from bm_okD [OF this] dead show ?thesis by (intro bm_okI) simp_all
qed

lemma alloc_round:
  assumes "alloc_loop e [rnd] cur [b] new0 act (h, d0) = (new, act', h @ hs, d)"
  obtains (skip) "hs = []" "d = d0" "new = new0"
  | (alloc) i io where "BytesToBroadcastID (BroadcastId (bi_Broadcast b)) = Inr i" "alloc_one e rnd i b d0 = (io, d)"
      "hs = (case io of None \<Rightarrow> [] | Some info \<Rightarrow> [info])"
      "new = (case io of None \<Rightarrow> new0 | Some _ \<Rightarrow> gomap_upd i (length h) new0)"
  using assms by (auto split: sum.splits if_splits prod.splits option.splits)

lemma heap_ok_alloc:
  assumes "heap_ok d held h" and "fst ` set held \<subseteq> {..< length h}" and "limit_kept d d'"
    and none: "io = None \<Longrightarrow> t_allocations d' = t_allocations d"
    and some: "\<And>info. io = Some info \<Longrightarrow> info_ok d' 0 info
       \<and> (\<forall>a \<in> set (t_allocations d'). a \<in> set (t_allocations d) \<or> (info_limited info \<and> alloc_key a = info_key info))"
    and hs: "hs = (case io of None \<Rightarrow> [] | Some info \<Rightarrow> [info])" and fresh: "own_keys hs \<inter> own_keys h = {}"
  shows "heap_ok d' held (h @ hs)"
proof (cases io)
  case None
  then have "heap_ok d' held h" by (intro heap_ok_kept [OF assms(1,3)]) (simp add: none list_all_iff)
  with None show ?thesis by (simp add: hs)
next
  case (Some info)
  have "a \<in> set (t_allocations d) \<or> alloc_key a \<in> own_keys hs" if "a \<in> set (t_allocations d')" for a
    using some [OF Some] that by (auto simp: hs Some own_keys_def)
  with fresh have "list_all (\<lambda>a. alloc_key a \<in> own_keys h \<longrightarrow> a \<in> set (t_allocations d)) (t_allocations d')"
    by (auto simp: list_all_iff)
  from heap_ok_kept [OF assms(1,3) this] have "heap_ok d' held h" .
  moreover have "held_count (length h) held = 0" using assms(2) by (intro held_count_zero) auto
  ultimately show ?thesis using some [OF Some] fresh heap_ok_append [of d' held h info] by (simp add: hs Some)
qed

lemma bm_ok_alloc:
  assumes ok: "bm_ok d0 s" and pc: "bs_pc s = RAllocating cur (b # bs) act" and rnd: "random_8 rnd"
    and run: "alloc_loop e [rnd] cur [b] (bs_new s) act (bs_heap s, bs_db s) = (new, act', bs_heap s @ hs, d)"
    and fresh: "own_keys hs \<inter> own_keys (bs_heap s) = {}"
  shows "bm_ok d0 (s\<lparr>bs_m := (bs_m s)\<lparr>bm_heap := bs_heap s @ hs\<rparr>, bs_db := d, bs_new := new, bs_pc := RAllocating cur bs act'\<rparr>)"
proof -
  note D = bm_okD [OF ok]
  have pcs: "listed_ok (bs_db s) b" "list_all (listed_ok (bs_db s)) bs" using D(3) pc by simp_all
  show ?thesis
  proof (cases rule: alloc_round [OF run, consumes 0, case_names skip alloc])
    case skip
    with D pcs show ?thesis by (intro bm_okI) simp_all
  next
    case (alloc i io)
    note one = alloc_one_ok [OF alloc(2) rnd _ alloc(1) pcs(1)]
    have step: "d = bs_db s \<or> store_step (bs_db s) d" using one(1) D(1) by blast
    then have kept: "limit_kept (bs_db s) d" using limit_kept_step limit_kept_same by blast
    have facts: "reach store_step d0 d \<and> store_ok d \<and> broadcast_ids d \<subseteq> printed_ids"
      using step D(1) store_facts_kept [OF D(1)] by blast
    have heap: "heap_ok d (bs_held s) (bs_heap s @ hs)"
      by (rule heap_ok_alloc [OF D(2) _ kept _ _ alloc(3) fresh]) (use D(1,4) one(2,3) in blast)+
    have "snd ` set new \<subseteq> {..< length (bs_heap s @ hs)}"
    proof (cases io)
      case (Some info)
      have "snd ` set new \<subseteq> insert (length (bs_heap s)) (snd ` set (bs_new s))"
        by (simp add: alloc(4) Some gomap_upd_pointers)
      also have "\<dots> \<subseteq> {..< length (bs_heap s @ hs)}" using D(4) by (auto simp: alloc(3) Some)
      finally show ?thesis .
    qed (use D(4) in \<open>simp add: alloc(3,4)\<close>)
    moreover have "{..< length (bs_heap s)} \<subseteq> {..< length (bs_heap s @ hs)}" by auto
    ultimately have "fst ` set (bs_held s) \<union> snd ` set (bm_infos (bs_m s)) \<union> snd ` set new \<union> set (bs_dead s)
        \<subseteq> {..< length (bs_heap s @ hs)}" using D(4) by (meson Un_subset_iff subset_trans)
    moreover have "list_all (listed_ok d) bs" using pcs(2) listed_ok_kept [OF kept] by (simp add: list_all_iff)
    ultimately show ?thesis using facts heap unfolding bm_ok_def by simp
  qed
qed

lemma bm_ok_step:
  assumes "bm_ok d0 s" and "bm_step s t"
  shows "bm_ok d0 t"
  using assms(2,1)
proof (cases rule: bm_step.cases)
  case (listed cur e bs d)
  with bm_okD [OF assms(1)] listed_ok_ListActiveBroadcasts [OF listed(3)] show ?thesis
    by (intro bm_okI) simp_all
next
  case (list_failed cur e x d)
  have "d = bs_db s" using list_failed(3) unfolding ListActiveBroadcasts_def by (rule runInTx_error)
  with list_failed bm_okD [OF assms(1)] show ?thesis by (intro bm_okI) simp_all
next
  case (swap cur act dead infos)
  with bm_okD [OF assms(1)] updateAllocs_pointers [OF swap(3)] show ?thesis by (intro bm_okI) (simp_all, blast)
next
  case (others d)
  with bm_ok_db [OF assms(1)] show ?thesis by simp
next
  case (save xs p ys e cd i mid r d held)
  with bm_ok_save [OF assms(1) save(2,3)] show ?thesis by simp
next
  case (alloc cur b bs act rnd e new act' hs d)
  show ?thesis unfolding alloc(1) by (rule bm_ok_alloc [OF assms(1) alloc(2-5)])
next
  case (cleanup p ps d e)
  show ?thesis unfolding cleanup(1) by (rule bm_ok_cleanup [OF assms(1) cleanup(3-5)])
next
  case (reserve p now sent labels info)
  show ?thesis unfolding reserve(1) by (rule bm_ok_reserve [OF assms(1) reserve(2,4)])
next
  case (no_id xs p ys)
  show ?thesis unfolding no_id(1) by (rule bm_ok_failed [OF assms(1) no_id(2)])
next
  case (release xs p ys)
  show ?thesis unfolding release(1) by (rule bm_ok_release [OF assms(1) release(2)])
qed (use assms(1) in \<open>simp_all add: bm_ok_def\<close>)

lemma printed_ids_reach: "reach store_step d d' \<Longrightarrow> broadcast_ids d \<subseteq> printed_ids \<Longrightarrow> broadcast_ids d' \<subseteq> printed_ids"
proof (induction rule: reach.induct)
  case (reach_step s t u)
  with limit_kept_step [of t u] show ?case unfolding limit_kept_def by blast
qed

lemma bm_ok_init:
  assumes "reach store_step initSchema d"
  shows "bm_ok initSchema (bm_init d pw)"
proof -
  have "broadcast_ids initSchema \<subseteq> printed_ids" by (simp add: broadcast_ids_def initSchema_def)
  with assms store.reachable_inv [OF refl assms] printed_ids_reach [OF assms] show ?thesis
    by (simp add: bm_ok_def bm_init_def heap_ok_def)
qed

interpretation managing: step_invariant "\<lambda>s. \<exists>d pw. s = bm_init d pw \<and> reach store_step initSchema d" bm_step "bm_ok initSchema"
  by unfold_locales (auto intro: bm_ok_init bm_ok_step)

section \<open>The contract with the datastore\<close>

text \<open>
  C33. However requests, refreshes, the shutdown of the manager and honest calls of other servers
  interleave, the broadcast manager uses the datastore as its contract asks: the database
  is one that honest store calls lead to, so that what holds of all of those holds of it; an info with an allocation never counts more messages than
  the allocation allows; and its counter is ahead of the row of the allocation exactly by the
  reservations that are under way, so that what a clean-up reports is what was sent.
\<close>
theorem broadcast_manager_honest:
  assumes "reach store_step initSchema d" and "reach bm_step (bm_init d pw) s"
    and "p < length (bs_heap s)" and "info_limited (bs_heap s ! p)"
  shows "reach store_step initSchema (bs_db s) \<and> bI_sent (bs_heap s ! p) \<le> bI_limit (bs_heap s ! p)
    \<and> list_all (\<lambda>a. alloc_key a \<noteq> info_key (bs_heap s ! p)
        \<or> unat (al_sent a) + held_count p (bs_held s) = unat (bI_sent (bs_heap s ! p))) (t_allocations (bs_db s))"
proof -
  have "bm_ok initSchema s" by (rule managing.reachable_inv [OF _ assms(2)]) (use assms(1) in blast)
  then have "reach store_step initSchema (bs_db s)" "info_ok (bs_db s) (held_count p (bs_held s)) (bs_heap s ! p)"
    using assms(3) by (simp_all add: bm_ok_def heap_ok_def)
  with assms(4) show ?thesis by (auto simp: info_ok_def list_all_iff)
qed

section \<open>Running the machine\<close>

datatype bm_event =
    EvReserve nat gotime "BroadcastID list" "Label list"
  | EvNoId nat
  | EvSave nat env codec ClientID MessageID
  | EvRelease nat
  | EvRefresh env
  | EvListed env
  | EvAlloc "error + bytes" env
  | EvSwap
  | EvCleanup env
  | EvCleaned
  | EvClose
  | EvClosed

definition held_at :: "nat \<Rightarrow> bool \<Rightarrow> bstate \<Rightarrow> nat option" where
  "held_at k f s = (if k < length (bs_held s) \<and> snd (bs_held s ! k) = f then Some (fst (bs_held s ! k)) else None)"

fun bm_exec :: "bm_event \<Rightarrow> bstate \<Rightarrow> bstate option" where
  "bm_exec (EvReserve p now sent labels) s =
     (if p \<in> snd ` set (bm_infos (bs_m s)) \<and> info_eligible now sent labels (bs_heap s ! p)
      then map_option (\<lambda>info. (bs_set_info p info s)\<lparr>bs_held := bs_held s @ [(p, False)]\<rparr>) (info_reserve (bs_heap s ! p))
      else None)"
| "bm_exec (EvNoId k) s = map_option (\<lambda>p. s\<lparr>bs_held := take k (bs_held s) @ (p, True) # drop (Suc k) (bs_held s)\<rparr>) (held_at k False s)"
| "bm_exec (EvSave k e cd i mid) s = map_option (\<lambda>p.
     (case SaveBroadcastMessage e cd (broadcast_message e i mid (bI_b (bs_heap s ! p))) (bI_bID (bs_heap s ! p)) i
        (info_aid (bs_heap s ! p)) (bs_db s) of (r, d) \<Rightarrow>
        s\<lparr>bs_db := d, bs_held := (if isl r then take k (bs_held s) @ (p, True) # drop (Suc k) (bs_held s)
            else take k (bs_held s) @ drop (Suc k) (bs_held s))\<rparr>)) (held_at k False s)"
| "bm_exec (EvRelease k) s = map_option (\<lambda>p. (bs_set_info p (info_release (bs_heap s ! p)) s)
     \<lparr>bs_held := take k (bs_held s) @ drop (Suc k) (bs_held s)\<rparr>) (held_at k True s)"
| "bm_exec (EvRefresh e) s = (if bs_pc s = RIdle then Some (s\<lparr>bs_pc := RListing (findCurrentAllocs e (bs_m s))\<rparr>) else None)"
| "bm_exec (EvListed e) s = (case bs_pc s of
     RListing cur \<Rightarrow> (case ListActiveBroadcasts e (bs_db s) of
         (Inl _, d) \<Rightarrow> Some (s\<lparr>bs_db := d, bs_pc := RIdle\<rparr>)
       | (Inr bs, d) \<Rightarrow> Some (s\<lparr>bs_db := d, bs_pc := RAllocating cur bs []\<rparr>))
   | _ \<Rightarrow> None)"
| "bm_exec (EvAlloc rnd e) s = (case bs_pc s of
     RAllocating cur (b # bs) act \<Rightarrow> (case alloc_loop e [rnd] cur [b] (bs_new s) act (bs_heap s, bs_db s) of
         (new, act', h, d) \<Rightarrow>
           if random_8 rnd \<and> take (length (bs_heap s)) h = bs_heap s
             \<and> list_all (\<lambda>i. \<not> info_limited i \<or> info_key i \<notin> own_keys (bs_heap s)) (drop (length (bs_heap s)) h)
           then Some (s\<lparr>bs_m := (bs_m s)\<lparr>bm_heap := h\<rparr>, bs_db := d, bs_new := new, bs_pc := RAllocating cur bs act'\<rparr>)
           else None)
   | _ \<Rightarrow> None)"
| "bm_exec EvSwap s = (case bs_pc s of
     RAllocating cur [] act \<Rightarrow> (case updateAllocs (filter (\<lambda>i. i \<in> set act) cur) (bs_new s) (bm_infos (bs_m s), bs_heap s) of
         (dead, infos) \<Rightarrow> Some (s\<lparr>bs_m := (bs_m s)\<lparr>bm_infos := infos\<rparr>, bs_new := [], bs_dead := dead, bs_pc := RCleaning\<rparr>))
   | _ \<Rightarrow> None)"
| "bm_exec (EvCleanup e) s = (case bs_dead s of
     p # ps \<Rightarrow> if (bs_pc s = RCleaning \<or> bs_pc s = RClosing) \<and> p \<notin> fst ` set (bs_held s)
       then Some (s\<lparr>bs_db := snd (CleanupAllocation e (bI_bID (bs_heap s ! p)) (bI_aID (bs_heap s ! p)) (bI_sent (bs_heap s ! p)) (bs_db s)),
          bs_dead := ps\<rparr>)
       else None
   | [] \<Rightarrow> None)"
| "bm_exec EvCleaned s = (if bs_pc s = RCleaning \<and> bs_dead s = [] then Some (s\<lparr>bs_pc := RIdle\<rparr>) else None)"
| "bm_exec EvClose s = (if bs_pc s = RIdle then Some (s\<lparr>bs_dead := map snd (bm_infos (bs_m s)), bs_pc := RClosing\<rparr>) else None)"
| "bm_exec EvClosed s = (if bs_pc s = RClosing \<and> bs_dead s = []
     then Some (s\<lparr>bs_m := (bs_m s)\<lparr>bm_infos := []\<rparr>, bs_pc := RClosed\<rparr>) else None)"

lemma held_atD:
  assumes "held_at k f s = Some p"
  shows "bs_held s = take k (bs_held s) @ (p, f) # drop (Suc k) (bs_held s)"
proof -
  have "bs_held s ! k = (p, f)" "k < length (bs_held s)"
    using assms by (auto simp: held_at_def prod_eq_iff split: if_splits)
  then show ?thesis using id_take_nth_drop [of k "bs_held s"] by simp
qed

lemma bm_exec_step: "bm_exec ev s = Some t \<Longrightarrow> bm_step s t"
proof (induction ev s rule: bm_exec.induct)
  case (7 rnd e s)
  then obtain cur b bs act new act' h d where pc: "bs_pc s = RAllocating cur (b # bs) act" "random_8 rnd"
    and run: "alloc_loop e [rnd] cur [b] (bs_new s) act (bs_heap s, bs_db s) = (new, act', h, d)"
    and h: "take (length (bs_heap s)) h = bs_heap s"
      "list_all (\<lambda>i. \<not> info_limited i \<or> info_key i \<notin> own_keys (bs_heap s)) (drop (length (bs_heap s)) h)"
    and t: "t = s\<lparr>bs_m := (bs_m s)\<lparr>bm_heap := h\<rparr>, bs_db := d, bs_new := new, bs_pc := RAllocating cur bs act'\<rparr>"
    by (auto split: refresh_pc.splits list.splits prod.splits if_splits simp del: alloc_loop.simps)
  have "own_keys (drop (length (bs_heap s)) h) \<inter> own_keys (bs_heap s) = {}"
    using h(2) unfolding own_keys_def [of "drop (length (bs_heap s)) h"] by (auto simp: list_all_iff)
  moreover have "bs_heap s @ drop (length (bs_heap s)) h = h" using h(1) append_take_drop_id by metis
  ultimately show ?case using bm_step.alloc [OF pc, of e new act' "drop (length (bs_heap s)) h" d] run t by simp
next
  case (3 k e cd i mid s)
  then obtain p where p: "held_at k False s = Some p" by auto
  obtain r d where run: "SaveBroadcastMessage e cd (broadcast_message e i mid (bI_b (bs_heap s ! p))) (bI_bID (bs_heap s ! p)) i
      (info_aid (bs_heap s ! p)) (bs_db s) = (r, d)" by (rule prod.exhaust)
  with 3 p bm_step.save [OF held_atD [OF p] run refl] show ?case by auto
qed (auto split: if_splits refresh_pc.splits prod.splits sum.splits list.splits dest!: held_atD intro: bm_step.intros)

fun bm_run :: "bm_event list \<Rightarrow> bstate \<Rightarrow> bstate option" where
  "bm_run [] s = Some s"
| "bm_run (ev # evs) s = (case bm_exec ev s of None \<Rightarrow> None | Some t \<Rightarrow> bm_run evs t)"

lemma bm_run_reach: "bm_run evs s = Some t \<Longrightarrow> reach bm_step s t"
proof (induction evs s rule: bm_run.induct)
  case (2 ev evs s)
  then show ?case by (auto split: option.splits intro: reach_Cons bm_exec_step)
qed auto

text \<open>
  A broadcast with limit 10 is allocated, reserved twice and saved for one client, so that the counter
  of the info is one ahead of the row of the allocation.
\<close>

definition demo_bm_db :: sqldb where
  "demo_bm_db = the (store_run (map (\<lambda>op. (demo_env, demo_codec, op))
     [OpAddClient (demo_cid 1) demo_data, OpCreateBroadcast (Some demo_broadcast) 10]) initSchema)"

definition demo_bm_events :: "bm_event list" where
  "demo_bm_events = [EvRefresh demo_env, EvListed demo_env, EvAlloc (Inr (replicate 8 1)) demo_env, EvSwap, EvCleaned,
     EvReserve 0 (1000 * second) [] [], EvReserve 0 (1000 * second) [] [],
     EvSave 0 demo_env demo_codec (demo_cid 1) (MessageID (replicate 32 5))]"

definition demo_bm :: bstate where
  "demo_bm = the (bm_run demo_bm_events (bm_init demo_bm_db 60))"

lemma demo_bm_db_reach: "reach store_step initSchema demo_bm_db"
proof (rule store_run_reach)
  have "store_run (map (\<lambda>op. (demo_env, demo_codec, op))
     [OpAddClient (demo_cid 1) demo_data, OpCreateBroadcast (Some demo_broadcast) 10]) initSchema \<noteq> None" by code_simp
  then show "store_run (map (\<lambda>op. (demo_env, demo_codec, op))
     [OpAddClient (demo_cid 1) demo_data, OpCreateBroadcast (Some demo_broadcast) 10]) initSchema = Some demo_bm_db"
    unfolding demo_bm_db_def by (rule option.collapse [symmetric])
qed

lemma demo_bm_facts:
  "map_option (\<lambda>s. (map (\<lambda>i. (bI_sent i, bI_limit i, info_limited i)) (bs_heap s), bs_held s, map al_sent (t_allocations (bs_db s))))
     (bm_run demo_bm_events (bm_init demo_bm_db 60)) = Some ([(2, 2, True)], [(0, False)], [1])"
  by code_simp

lemma demo_bm_run: "bm_run demo_bm_events (bm_init demo_bm_db 60) = Some demo_bm"
  using demo_bm_facts by (auto simp: demo_bm_def)

theorem broadcast_manager_honest_witness:
  "reach store_step initSchema (bs_db demo_bm) \<and> bI_sent (bs_heap demo_bm ! 0) = 2 \<and> held_count 0 (bs_held demo_bm) = 1
    \<and> map al_sent (t_allocations (bs_db demo_bm)) = [1]"
proof -
  have facts: "map (\<lambda>i. (bI_sent i, bI_limit i, info_limited i)) (bs_heap demo_bm) = [(2, 2, True)]"
    "bs_held demo_bm = [(0, False)]" "map al_sent (t_allocations (bs_db demo_bm)) = [1]"
    using demo_bm_facts by (simp_all add: demo_bm_run)
  then have "0 < length (bs_heap demo_bm)" "info_limited (bs_heap demo_bm ! 0)" "bI_sent (bs_heap demo_bm ! 0) = 2" by auto
  with broadcast_manager_honest [OF demo_bm_db_reach bm_run_reach [OF demo_bm_run], of 0] facts
  show ?thesis by simp
qed

end
