(* ===== verification/Mysql_Messages.thy ===== *)
theory Mysql_Messages
  imports Message_Looper
begin

text \<open>
  The message store on MySQL: \<^verbatim>\<open>fleetspeak/src/server/mysql/messagestore.go\<close>, with the transactions of
  \<^verbatim>\<open>mysql.go\<close>.

  The engine is the record \<open>mysql\<close>: what \<^verbatim>\<open>INSERT IGNORE\<close> stores of a row whose values do not fit their columns, and the
  order in which a locking query without \<^verbatim>\<open>ORDER BY\<close> returns its rows. A transaction that ends in a lock
  error is run again, at most \<^verbatim>\<open>maxRetries\<close> times or until the context ends; an operation takes the
  environments of its attempts, one for each. The function that is run again keeps the variables it
  captured: they are passed from attempt to attempt. A \<^verbatim>\<open>*mysql.MySQLError\<close> is a
  \<open>SqlErr\<close> with its number. A value too long for its column is truncated by \<^verbatim>\<open>INSERT IGNORE\<close>; the
  errors that the other statements raise on one are not modelled.

  The second half relates the tables to those of the SQLite store and shows that storing messages and setting
  results do the same on both.
\<close>

record my_dbMessage =
  my_messageID :: gobytes
  my_sourceClientID :: gobytes
  my_sourceServiceName :: string
  my_sourceMessageID :: gobytes
  my_destinationClientID :: gobytes
  my_destinationServiceName :: string
  my_messageType :: string
  my_creationTimeSeconds :: int
  my_creationTimeNanos :: int
  my_processedTimeSeconds :: "int option"
  my_processedTimeNanos :: "int option"
  my_validationInfo :: bytes
  my_failed :: "bool option"
  my_failedReason :: "string option"
  my_retryCount :: u32
  my_dataTypeURL :: "string option"
  my_dataValue :: bytes
  my_annotations :: bytes

record my_pending =
  mp_for_server :: bool
  mp_message_id :: gobytes
  mp_retry_count :: u32
  mp_scheduled_time :: int
  mp_data_type_url :: "string option"
  mp_data_value :: bytes

record mydb =
  m_messages :: "my_dbMessage list"
  m_pending :: "my_pending list"
  m_contacts :: "nat list"
  m_contact_messages :: "(u64 \<times> gobytes) list"

record mysql =
  coerce :: "my_dbMessage \<Rightarrow> my_dbMessage"
  lock_rows :: "gobytes list \<Rightarrow> gobytes list"

section \<open>Transactions\<close>

definition my_retriable :: "error \<Rightarrow> bool" where
  "my_retriable x \<longleftrightarrow> x \<in> {SqlErr ''1205'', SqlErr ''1213'', SqlErr ''1637''}"

type_synonym 'c my_tx = "env \<Rightarrow> 'c \<Rightarrow> mydb \<Rightarrow> (error + mydb) \<times> 'c"

definition runOnce :: "env \<Rightarrow> 'c my_tx \<Rightarrow> 'c \<Rightarrow> mydb \<Rightarrow> (error + unit) \<times> 'c \<times> mydb" where
  "runOnce e f c d = (case begin_err e of Some x \<Rightarrow> (Inl x, c, d)
     | None \<Rightarrow> (case f e c d of
           (Inl x, c') \<Rightarrow> (Inl x, c', d)
         | (Inr d', c') \<Rightarrow> (case commit_err e of Some x \<Rightarrow> (Inl x, c', d) | None \<Rightarrow> (Inr (), c', d'))))"

fun my_runInTx :: "env list \<Rightarrow> 'c my_tx \<Rightarrow> 'c \<Rightarrow> mydb \<Rightarrow> (error + unit) \<times> 'c \<times> mydb" where
  "my_runInTx [] f c d = (Inr (), c, d)"
| "my_runInTx (e # es) f c d = (case runOnce e f c d of
      (Inl x, c', d') \<Rightarrow> if my_retriable x \<and> es \<noteq> [] then my_runInTx es f c' d' else (Inl x, c', d')
    | (Inr _, c', d') \<Rightarrow> (Inr (), c', d'))"

text \<open>Operations whose function captures nothing, and those that assign one result.\<close>

definition my_exec :: "env list \<Rightarrow> (env \<Rightarrow> mydb \<Rightarrow> error + mydb) \<Rightarrow> mydb \<Rightarrow> (error + unit) \<times> mydb" where
  "my_exec es f d = (case my_runInTx es (\<lambda>e c d. (f e d, c)) () d of (r, _, d') \<Rightarrow> (r, d'))"

definition my_query :: "env list \<Rightarrow> 'a \<Rightarrow> (env \<Rightarrow> mydb \<Rightarrow> error + 'a) \<Rightarrow> mydb \<Rightarrow> (error + 'a) \<times> mydb" where
  "my_query es zero f d = (case my_runInTx es (\<lambda>e c d. case f e d of Inl x \<Rightarrow> (Inl x, c) | Inr a \<Rightarrow> (Inr d, a)) zero d of
     (Inl x, _, d') \<Rightarrow> (Inl x, d') | (Inr _, a, d') \<Rightarrow> (Inr a, d'))"

section \<open>Rows and messages\<close>

definition my_trySetMessageResult :: "bool \<Rightarrow> MessageID \<Rightarrow> MessageResult \<Rightarrow> mydb \<Rightarrow> error + mydb" where
  "my_trySetMessageResult forServer i res d = (case ProcessedTime res of
       None \<Rightarrow> Inl (Fatal ''nil pointer dereference'')
     | Some pt \<Rightarrow> (let mid = MessageID_Bytes i;
            fl = (if Failed res then Some True else None);
            fr = (if Failed res then Some (FailedReason res) else None)
         in Inr (d\<lparr>
              m_messages := update_where (\<lambda>r. my_messageID r = mid)
                (\<lambda>r. r\<lparr>my_failed := fl, my_failedReason := fr,
                   my_processedTimeSeconds := Some (Seconds pt), my_processedTimeNanos := Some (Nanos pt)\<rparr>) (m_messages d),
              m_pending := filter (\<lambda>p. \<not> (mp_for_server p = forServer \<and> mp_message_id p = mid)) (m_pending d)\<rparr>)))"

definition my_SetMessageResult :: "env list \<Rightarrow> ClientID \<Rightarrow> MessageID \<Rightarrow> MessageResult \<Rightarrow> mydb \<Rightarrow> (error + unit) \<times> mydb" where
  "my_SetMessageResult es dest i res = my_exec es (\<lambda>e. my_trySetMessageResult (ClientID_IsNil dest) i res)"

definition my_fromMessageProto :: "codec \<Rightarrow> Message \<Rightarrow> error + my_dbMessage" where
  "my_fromMessageProto cd m =
     ebind (BytesToMessageID (MessageId m)) (\<lambda>i.
     ebind (case ValidationInfo m of None \<Rightarrow> Inr [] | Some v \<Rightarrow> marshal_ValidationInfo cd v) (\<lambda>vi.
     ebind (case Annotations m of None \<Rightarrow> Inr [] | Some a \<Rightarrow> marshal_Annotations cd a) (\<lambda>an.
     Inr \<lparr>my_messageID = MessageID_Bytes i,
       my_sourceClientID = addr_client (Source m), my_sourceServiceName = addr_service (Source m),
       my_sourceMessageID = (if raw (SourceMessageId m) = [] then None else SourceMessageId m),
       my_destinationClientID = addr_client (Destination m), my_destinationServiceName = addr_service (Destination m),
       my_messageType = MessageType m,
       my_creationTimeSeconds = (case CreationTime m of None \<Rightarrow> 0 | Some t \<Rightarrow> Seconds t),
       my_creationTimeNanos = (case CreationTime m of None \<Rightarrow> 0 | Some t \<Rightarrow> Nanos t),
       my_processedTimeSeconds = (case Result m of None \<Rightarrow> None | Some r \<Rightarrow> map_option Seconds (ProcessedTime r)),
       my_processedTimeNanos = (case Result m of None \<Rightarrow> None | Some r \<Rightarrow> map_option Nanos (ProcessedTime r)),
       my_validationInfo = vi,
       my_failed = (case Result m of None \<Rightarrow> None | Some r \<Rightarrow> if Failed r then Some True else None),
       my_failedReason = (case Result m of None \<Rightarrow> None | Some r \<Rightarrow> if Failed r then Some (FailedReason r) else None),
       my_retryCount = 0,
       my_dataTypeURL = map_option TypeUrl (Data m),
       my_dataValue = (case Data m of None \<Rightarrow> [] | Some a \<Rightarrow> Value a),
       my_annotations = an\<rparr>)))"

definition my_toMessageResultProto :: "my_dbMessage \<Rightarrow> MessageResult option" where
  "my_toMessageResultProto m = (case my_processedTimeSeconds m of None \<Rightarrow> None
     | Some s \<Rightarrow> Some \<lparr>ProcessedTime = Some \<lparr>Seconds = s,
           Nanos = (case my_processedTimeNanos m of None \<Rightarrow> 0 | Some n \<Rightarrow> n)\<rparr>,
         Failed = (my_failed m = Some True),
         FailedReason = (case my_failedReason m of None \<Rightarrow> [] | Some r \<Rightarrow> r)\<rparr>)"

definition my_toMessageProto :: "codec \<Rightarrow> my_dbMessage \<Rightarrow> error + Message" where
  "my_toMessageProto cd m =
     ebind (BytesToMessageID (my_messageID m)) (\<lambda>mid.
     ebind (if length (my_validationInfo m) > 0
            then ebind (unmarshal_ValidationInfo cd (my_validationInfo m)) (\<lambda>v. Inr (Some v)) else Inr None) (\<lambda>vi.
     ebind (if length (my_annotations m) > 0
            then ebind (unmarshal_Annotations cd (my_annotations m)) (\<lambda>a. Inr (Some a)) else Inr None) (\<lambda>an.
     Inr (empty_Message\<lparr>
       MessageId := MessageID_Bytes mid,
       Source := Some \<lparr>ClientId = my_sourceClientID m, ServiceName = my_sourceServiceName m\<rparr>,
       SourceMessageId := my_sourceMessageID m,
       Destination := Some \<lparr>ClientId = my_destinationClientID m, ServiceName = my_destinationServiceName m\<rparr>,
       MessageType := my_messageType m,
       CreationTime := Some \<lparr>Seconds = my_creationTimeSeconds m, Nanos = my_creationTimeNanos m\<rparr>,
       Result := my_toMessageResultProto m,
       Data := (case my_dataTypeURL m of None \<Rightarrow> None | Some u \<Rightarrow> Some \<lparr>TypeUrl = u, Value = my_dataValue m\<rparr>),
       ValidationInfo := vi,
       Annotations := an\<rparr>))))"

section \<open>Storing\<close>

definition my_columns :: "my_dbMessage \<Rightarrow> my_dbMessage" where
  "my_columns m = m\<lparr>my_retryCount := 0, my_dataTypeURL := None, my_dataValue := []\<rparr>"

text \<open>\<^verbatim>\<open>INSERT INTO pending_messages\<close>, with its primary key and its foreign key.\<close>

definition my_insert_pending :: "my_pending \<Rightarrow> mydb \<Rightarrow> error + mydb" where
  "my_insert_pending p d =
     (if mp_message_id p = None then Inl (SqlErr ''1048'')
      else if (mp_for_server p, mp_message_id p) \<in> (\<lambda>q. (mp_for_server q, mp_message_id q)) ` set (m_pending d) then Inl (SqlErr ''1062'')
      else if mp_message_id p \<notin> my_messageID ` set (m_messages d) then Inl (SqlErr ''1452'')
      else Inr (d\<lparr>m_pending := m_pending d @ [p]\<rparr>))"

definition my_tryStoreMessage :: "mysql \<Rightarrow> env \<Rightarrow> my_dbMessage \<Rightarrow> bool \<Rightarrow> mydb \<Rightarrow> error + mydb" where
  "my_tryStoreMessage en e dbm isBroadcast d =
     (if my_creationTimeSeconds dbm = 0 then Inl (Err ''message CreationTime must be set'')
      else
        (let row = coerce en (my_columns dbm);
             inserted = my_messageID row \<notin> my_messageID ` set (m_messages d);
             d = (if inserted then d\<lparr>m_messages := m_messages d @ [row]\<rparr> else d)
         in if inserted \<and> my_processedTimeSeconds dbm = None then
              (let due = (if my_destinationClientID dbm = None then toMicro (ServerRetryTime e 0)
                          else if isBroadcast then toMicro (ClientRetryTime e)
                          else toMicro (Now e))
               in my_insert_pending \<lparr>mp_for_server = (my_destinationClientID dbm = None), mp_message_id = my_messageID dbm,
                    mp_retry_count = 0, mp_scheduled_time = due, mp_data_type_url = my_dataTypeURL dbm,
                    mp_data_value = my_dataValue dbm\<rparr> d)
            else Inr d))"

text \<open>\<^verbatim>\<open>m.Destination.ClientId == nil\<close>; a message without a destination is a nil dereference.\<close>

definition my_for_server :: "Message \<Rightarrow> error + bool" where
  "my_for_server m = (case Destination m of None \<Rightarrow> Inl (Fatal ''nil pointer dereference'') | Some a \<Rightarrow> Inr (ClientId a = None))"

definition my_storeOne :: "mysql \<Rightarrow> env \<Rightarrow> codec \<Rightarrow> Message \<Rightarrow> gobytes list \<times> mydb \<Rightarrow> error + gobytes list \<times> mydb" where
  "my_storeOne en e cd m = (\<lambda>(ids, d).
     ebind (my_fromMessageProto cd m) (\<lambda>dbm0.
      (let dbm = (if Result m \<noteq> None then dbm0\<lparr>my_dataTypeURL := None, my_dataValue := []\<rparr> else dbm0);
           ids' = ids @ [my_messageID dbm]
       in case Result m of
            Some r \<Rightarrow>
              if \<not> Failed r then
                ebind (my_tryStoreMessage en e dbm False d) (\<lambda>d1.
                ebind (BytesToMessageID (MessageId m)) (\<lambda>mid.
                ebind (my_for_server m) (\<lambda>fs.
                ebind (my_trySetMessageResult fs mid r d1) (\<lambda>d2. Inr (ids', d2)))))
              else (case sql_row (\<lambda>x. my_messageID x = my_messageID dbm) (m_messages d) of
                  Inl _ \<Rightarrow> ebind (my_tryStoreMessage en e dbm False d) (\<lambda>d1. Inr (ids', d1))
                | Inr x \<Rightarrow>
                    if my_processedTimeSeconds x \<noteq> None \<and> my_failed x \<noteq> Some True then Inr (ids', d)
                    else if my_processedTimeSeconds x = None \<or> \<not> Failed r then
                      ebind (BytesToMessageID (MessageId m)) (\<lambda>mid.
                      ebind (my_for_server m) (\<lambda>fs.
                      ebind (my_trySetMessageResult fs mid r d) (\<lambda>d1. Inr (ids', d1))))
                    else Inr (ids', d))
          | None \<Rightarrow>
              (case sql_row (\<lambda>x. my_messageID x = my_messageID dbm) (m_messages d) of
                  Inl _ \<Rightarrow> ebind (my_tryStoreMessage en e dbm False d) (\<lambda>d1. Inr (ids', d1))
                | Inr x \<Rightarrow> Inr (ids', d)))))"

text \<open>\<^verbatim>\<open>INSERT IGNORE INTO client_contact_messages\<close>: rows with a present key or without their parents are left out.\<close>

definition my_link :: "u64 \<Rightarrow> gobytes \<Rightarrow> mydb \<Rightarrow> mydb" where
  "my_link c i d = (if (c, i) \<notin> set (m_contact_messages d) \<and> unat c \<in> set (m_contacts d) \<and> i \<in> my_messageID ` set (m_messages d)
     then d\<lparr>m_contact_messages := m_contact_messages d @ [(c, i)]\<rparr> else d)"

definition my_storeAll :: "mysql \<Rightarrow> codec \<Rightarrow> Message list \<Rightarrow> string \<Rightarrow> env \<Rightarrow> mydb \<Rightarrow> error + mydb" where
  "my_storeAll en cd msgs contact e d =
     ebind (foldE (my_storeOne en e cd) msgs ([], d)) (\<lambda>(ids, d1).
       if contact = [] then Inr d1
       else (case ParseUint16 contact of
           Inl _ \<Rightarrow> Inl (Err ''unable to parse ContactID'')
         | Inr c \<Rightarrow> Inr (fold (my_link c) ids d1)))"

definition my_StoreMessages :: "mysql \<Rightarrow> env list \<Rightarrow> codec \<Rightarrow> Message list \<Rightarrow> string \<Rightarrow> mydb \<Rightarrow> (error + unit) \<times> mydb" where
  "my_StoreMessages en es cd msgs contact = my_exec es (my_storeAll en cd msgs contact)"

section \<open>Reading and deleting\<close>

definition my_pending_for :: "ClientID list \<Rightarrow> mydb \<Rightarrow> (my_dbMessage \<times> my_pending) list" where
  "my_pending_for ids d =
     concat (map (\<lambda>m. map (Pair m) (filter (\<lambda>p. my_messageID m = mp_message_id p) (m_pending d)))
       (filter (\<lambda>m. my_destinationClientID m \<noteq> None \<and> my_destinationClientID m \<in> ClientID_Bytes ` set ids) (m_messages d)))"

text \<open>The list \<^verbatim>\<open>IN ()\<close> of no ids is a syntax error.\<close>

definition my_getPendingMessageRawIds :: "ClientID list \<Rightarrow> u64 \<Rightarrow> u64 \<Rightarrow> mydb \<Rightarrow> error + bytes list" where
  "my_getPendingMessageRawIds ids offset limit d =
     (if offset \<noteq> 0 \<and> limit = 0 then Inl (Err ''if offset is provided, a limit must be provided as well'')
      else if ids = [] then Inl (Err ''Failed to fetch the list of pending messages'')
      else
        (let rows = drop (unat offset) (sort (map (raw \<circ> my_messageID \<circ> fst) (my_pending_for ids d)))
         in Inr (if limit \<noteq> 0 then take (unat limit) rows else rows)))"

definition my_GetPendingMessageCount :: "env list \<Rightarrow> ClientID list \<Rightarrow> mydb \<Rightarrow> (error + u64) \<times> mydb" where
  "my_GetPendingMessageCount es ids = my_query es 0 (\<lambda>e d.
     if ids = [] then Inl (Err ''Failed to fetch the pending message count'')
     else Inr (word_of_nat (length (my_pending_for ids d))))"

definition my_getMessage :: "codec \<Rightarrow> bool \<Rightarrow> mydb \<Rightarrow> MessageID \<Rightarrow> error + Message" where
  "my_getMessage cd wantData d i =
     ebind (sql_row (\<lambda>r. my_messageID r = MessageID_Bytes i) (m_messages d)) (\<lambda>r.
     (let dbm = r\<lparr>my_failed := None, my_failedReason := None\<rparr>;
          dbm = (if wantData then
              (case find (\<lambda>p. mp_message_id p = MessageID_Bytes i) (m_pending d) of
                 None \<Rightarrow> dbm
               | Some p \<Rightarrow> dbm\<lparr>my_dataTypeURL := mp_data_type_url p, my_dataValue := mp_data_value p\<rparr>)
            else dbm)
      in my_toMessageProto cd dbm))"

definition my_getMessages :: "codec \<Rightarrow> MessageID list \<Rightarrow> bool \<Rightarrow> mydb \<Rightarrow> error + Message list" where
  "my_getMessages cd ids wantData d = mapE (my_getMessage cd wantData d) ids"

definition my_GetMessages :: "env list \<Rightarrow> codec \<Rightarrow> MessageID list \<Rightarrow> bool \<Rightarrow> mydb \<Rightarrow> (error + Message list) \<times> mydb" where
  "my_GetMessages es cd ids wantData = my_query es [] (\<lambda>e. my_getMessages cd ids wantData)"

definition my_GetPendingMessages ::
  "env list \<Rightarrow> codec \<Rightarrow> ClientID list \<Rightarrow> u64 \<Rightarrow> u64 \<Rightarrow> bool \<Rightarrow> mydb \<Rightarrow> (error + Message list) \<times> mydb" where
  "my_GetPendingMessages es cd ids offset cnt wantData = my_query es [] (\<lambda>e d.
     ebind (my_getPendingMessageRawIds ids offset cnt d) (\<lambda>rawIds.
     ebind (mapE (\<lambda>b. BytesToMessageID (Some b)) rawIds) (\<lambda>mids. my_getMessages cd mids wantData d)))"

definition my_DeletePendingMessages :: "env list \<Rightarrow> ClientID list \<Rightarrow> mydb \<Rightarrow> (error + unit) \<times> mydb" where
  "my_DeletePendingMessages es ids = my_exec es (\<lambda>e d.
     ebind (my_getPendingMessageRawIds ids 0 0 d) (\<lambda>rawIds.
       if rawIds = [] then Inr d
       else (let now = NowProto e in
         Inr (d\<lparr>
           m_messages := update_where (\<lambda>r. raw (my_messageID r) \<in> set rawIds)
             (\<lambda>r. r\<lparr>my_failed := Some True, my_failedReason := Some ''Removed by admin action.'',
                my_processedTimeSeconds := Some (Seconds now), my_processedTimeNanos := Some (Nanos now)\<rparr>) (m_messages d),
           m_pending := filter (\<lambda>p. raw (mp_message_id p) \<notin> set rawIds) (m_pending d)\<rparr>))))"

definition my_GetMessageResult :: "env list \<Rightarrow> MessageID \<Rightarrow> mydb \<Rightarrow> (error + MessageResult option) \<times> mydb" where
  "my_GetMessageResult es i = my_query es None (\<lambda>e d.
     case sql_row (\<lambda>r. my_messageID r = MessageID_Bytes i) (m_messages d) of
        Inl _ \<Rightarrow> Inr None
      | Inr r \<Rightarrow> Inr (my_toMessageResultProto r))"

section \<open>Messages for a client\<close>

definition my_due_rows :: "env \<Rightarrow> ClientID \<Rightarrow> mydb \<Rightarrow> (my_dbMessage \<times> my_pending) list" where
  "my_due_rows e i d =
     concat (map (\<lambda>m. map (Pair m) (filter (\<lambda>p. my_messageID m = mp_message_id p
            \<and> mp_scheduled_time p < toMicro (Now e)) (m_pending d)))
       (filter (\<lambda>m. my_destinationClientID m \<noteq> None \<and> my_destinationClientID m = ClientID_Bytes i) (m_messages d)))"

definition my_row_message :: "my_dbMessage \<times> my_pending \<Rightarrow> my_dbMessage" where
  "my_row_message mp = (fst mp)\<lparr>my_processedTimeSeconds := None, my_processedTimeNanos := None,
     my_failed := None, my_failedReason := None, my_retryCount := mp_retry_count (snd mp),
     my_dataTypeURL := mp_data_type_url (snd mp), my_dataValue := mp_data_value (snd mp)\<rparr>"

text \<open>
  The loop over the rows of the first query: \<^verbatim>\<open>read\<close> and the map \<^verbatim>\<open>msgByID\<close>, whose keys are the
  ids in hexadecimal.
\<close>

fun my_collect :: "(string, u64) gomap option \<Rightarrow> (my_dbMessage \<times> my_pending) list \<Rightarrow> (string, u64) gomap \<Rightarrow>
    (gobytes, my_dbMessage) gomap \<Rightarrow> (string, u64) gomap \<times> (gobytes, my_dbMessage) gomap" where
  "my_collect limits [] nread byID = (nread, byID)"
| "my_collect limits ((m, p) # rows) nread byID =
     (let svc = my_destinationServiceName m;
          byID' = gomap_upd (my_messageID m) (my_row_message (m, p)) byID
      in case limits of
           None \<Rightarrow> my_collect limits rows nread byID'
         | Some sl \<Rightarrow>
             if gomap_get0 nread svc \<ge> gomap_get0 sl svc then my_collect limits rows nread byID
             else my_collect limits rows (gomap_upd svc (gomap_get0 nread svc + 1) nread) byID')"

text \<open>The rows that the second query locks, at most \<^verbatim>\<open>lim\<close> of the infos found, in an order of the engine's.\<close>

definition my_locked :: "mysql \<Rightarrow> u64 \<Rightarrow> gobytes list \<Rightarrow> mydb \<Rightarrow> gobytes list" where
  "my_locked en lim ids d =
     take (unat lim) (lock_rows en (map mp_message_id (filter (\<lambda>p. \<not> mp_for_server p \<and> mp_message_id p \<in> set ids) (m_pending d))))"

fun my_append :: "codec \<Rightarrow> (gobytes, my_dbMessage) gomap \<Rightarrow> gobytes list \<Rightarrow> Message list \<Rightarrow> error option \<times> Message list" where
  "my_append cd byID [] res = (None, res)"
| "my_append cd byID (i # ks) res = (case map_of byID i of
      None \<Rightarrow> (Some (Fatal ''nil pointer dereference''), res)
    | Some dbm \<Rightarrow> (case my_toMessageProto cd dbm of
        Inl x \<Rightarrow> (Some x, res)
      | Inr m \<Rightarrow> my_append cd byID ks (res @ [m])))"

definition my_reschedule :: "env \<Rightarrow> gobytes list \<Rightarrow> mydb \<Rightarrow> mydb" where
  "my_reschedule e ids d = d\<lparr>m_pending := update_where (\<lambda>p. \<not> mp_for_server p \<and> mp_message_id p \<in> set ids)
     (\<lambda>p. p\<lparr>mp_retry_count := mp_retry_count p + 1, mp_scheduled_time := toMicro (ClientRetryTime e)\<rparr>) (m_pending d)\<rparr>"

text \<open>The function that is run in the transaction; it captured \<^verbatim>\<open>read\<close> and \<^verbatim>\<open>res\<close>.\<close>

definition my_clientMessages ::
  "mysql \<Rightarrow> codec \<Rightarrow> ClientID \<Rightarrow> u64 \<Rightarrow> (string, u64) gomap option \<Rightarrow> ((string, u64) gomap \<times> Message list) my_tx" where
  "my_clientMessages en cd i lim limits e c d = (case c of (nread, res) \<Rightarrow>
     (case my_collect limits (my_due_rows e i d) nread [] of (nread, byID) \<Rightarrow>
        if byID = [] then (Inr d, (nread, res))
        else
          (let ids = my_locked en lim (map fst byID) d in
           case my_append cd byID ids res of
             (Some x, res) \<Rightarrow> (Inl x, (nread, res))
           | (None, res) \<Rightarrow>
               if res = [] then (Inr d, (nread, res))
               else if ids = [] then (Inl (SqlErr ''1064''), (nread, res))
               else (Inr (my_reschedule e ids d), (nread, res)))))"

definition my_ClientMessagesForProcessing ::
  "mysql \<Rightarrow> env list \<Rightarrow> codec \<Rightarrow> ClientID \<Rightarrow> u64 \<Rightarrow> (string, u64) gomap option \<Rightarrow> mydb \<Rightarrow> (error + Message list) \<times> mydb" where
  "my_ClientMessagesForProcessing en es cd i lim limits d =
     (if i = ClientID [] then (Inl (Err ''a client is required''), d)
      else case my_runInTx es (my_clientMessages en cd i lim limits) ([], []) d of
          (Inl x, _, d') \<Rightarrow> (Inl x, d')
        | (Inr _, (_, res), d') \<Rightarrow> (Inr res, d'))"

section \<open>Messages for the server\<close>

text \<open>The two random bytes in hexadecimal, as the bytes they are compared as.\<close>

definition my_start :: "bytes \<Rightarrow> bytes" where
  "my_start b = map byte_of_char (EncodeToString b)"

definition my_server_rows :: "env \<Rightarrow> (bytes \<Rightarrow> bool) \<Rightarrow> int \<Rightarrow> mydb \<Rightarrow> my_pending list" where
  "my_server_rows e inr l d = take (nat l) (sort_key (raw \<circ> mp_message_id)
     (filter (\<lambda>p. mp_for_server p \<and> inr (raw (mp_message_id p)) \<and> mp_scheduled_time p < toMicro (Now e)) (m_pending d)))"

definition my_server_update :: "env \<Rightarrow> my_pending \<Rightarrow> mydb \<Rightarrow> mydb" where
  "my_server_update e q d = d\<lparr>m_pending := update_where (\<lambda>p. mp_for_server p \<and> mp_message_id p = mp_message_id q)
     (\<lambda>p. p\<lparr>mp_retry_count := mp_retry_count q + 1, mp_scheduled_time := toMicro (ServerRetryTime e (mp_retry_count q + 1))\<rparr>) (m_pending d)\<rparr>"

text \<open>The function captured \<^verbatim>\<open>dbms\<close>; the random bytes of an attempt are given by its environment.\<close>

definition my_serverMessages :: "(env \<Rightarrow> bytes) \<Rightarrow> int \<Rightarrow> my_pending list my_tx" where
  "my_serverMessages rnd lim e dbms d =
     (let start = my_start (rnd e);
          dbms = dbms @ my_server_rows e (\<lambda>i. i > start) lim d;
          dbms = (if int (length dbms) < lim then dbms @ my_server_rows e (\<lambda>i. i < start) (lim - int (length dbms)) d else dbms)
      in (Inr (fold (my_server_update e) dbms d), dbms))"

definition my_read_message :: "codec \<Rightarrow> mydb \<Rightarrow> my_pending \<Rightarrow> error + Message" where
  "my_read_message cd d p =
     ebind (sql_row (\<lambda>r. my_messageID r = mp_message_id p) (m_messages d)) (\<lambda>m.
       my_toMessageProto cd (my_row_message (m, p)))"

definition my_ServerMessages :: "(env \<Rightarrow> bytes) \<Rightarrow> env list \<Rightarrow> codec \<Rightarrow> int \<Rightarrow> mydb \<Rightarrow> (error + Message list) \<times> mydb" where
  "my_ServerMessages rnd es cd lim d = (case my_runInTx es (my_serverMessages rnd lim) [] d of
       (Inl x, _, d') \<Rightarrow> (Inl x, d')
     | (Inr _, dbms, d') \<Rightarrow> (mapE (my_read_message cd d') dbms, d'))"

partial_function (option) my_processMessages ::
  "(env \<Rightarrow> bytes) \<Rightarrow> (nat \<Rightarrow> env list) \<Rightarrow> codec \<Rightarrow> (Message list \<Rightarrow> mydb \<Rightarrow> mydb) \<Rightarrow> nat \<Rightarrow> mydb \<Rightarrow> (nat \<times> mydb) option" where
  "my_processMessages rnd es cd mp k d =
     (case my_ServerMessages rnd (es k) cd 10 d of
        (Inl err, d') \<Rightarrow> my_processMessages rnd es cd mp (k + 1) d'
      | (Inr msgs, d') \<Rightarrow>
          if length msgs = 0 then Some (k, mp msgs d')
          else my_processMessages rnd es cd mp (k + 1) (mp msgs d'))"

section \<open>The SQLite store it is equivalent to\<close>

text \<open>
  The two stores keep the same rows; MySQL holds identifiers as bytes, SQLite in hexadecimal, and
  MySQL's pending rows also say whether the message is for the server. \<open>as_sqlite d s\<close> is the SQLite database
  with the message tables of \<open>d\<close> and the other tables of \<open>s\<close>.
\<close>

definition hex_bytes :: "gobytes \<Rightarrow> string" where
  "hex_bytes b = EncodeToString (raw b)"

definition as_dbMessage :: "my_dbMessage \<Rightarrow> dbMessage" where
  "as_dbMessage r = \<lparr>messageID = hex_bytes (my_messageID r),
     sourceClientID = hex_bytes (my_sourceClientID r), sourceServiceName = my_sourceServiceName r,
     sourceMessageID = hex_bytes (my_sourceMessageID r),
     destinationClientID = hex_bytes (my_destinationClientID r), destinationServiceName = my_destinationServiceName r,
     messageType = my_messageType r,
     creationTimeSeconds = my_creationTimeSeconds r, creationTimeNanos = my_creationTimeNanos r,
     processedTimeSeconds = my_processedTimeSeconds r, processedTimeNanos = my_processedTimeNanos r,
     validationInfo = my_validationInfo r, failed = my_failed r, failedReason = my_failedReason r,
     retryCount = my_retryCount r, dataTypeURL = my_dataTypeURL r, dataValue = my_dataValue r,
     annotations = my_annotations r\<rparr>"

definition as_pending :: "my_pending \<Rightarrow> pending_row" where
  "as_pending p = \<lparr>p_message_id = hex_bytes (mp_message_id p), p_retry_count = mp_retry_count p,
     p_scheduled_time = mp_scheduled_time p, p_data_type_url = mp_data_type_url p, p_data_value = mp_data_value p\<rparr>"

definition as_sqlite :: "mydb \<Rightarrow> sqldb \<Rightarrow> sqldb" where
  "as_sqlite d s = s\<lparr>t_messages := map as_dbMessage (m_messages d), t_pending := map as_pending (m_pending d),
     t_contact_messages := map (map_prod (\<lambda>c. c) hex_bytes) (m_contact_messages d)\<rparr>"

text \<open>
  The rows MySQL can hold: what fits the columns of \<^verbatim>\<open>initSchema\<close>.
\<close>

definition my_cid_ok :: "gobytes \<Rightarrow> bool" where
  "my_cid_ok b \<longleftrightarrow> (case b of None \<Rightarrow> True | Some x \<Rightarrow> length x = 8)"

definition my_fits :: "my_dbMessage \<Rightarrow> bool" where
  "my_fits r \<longleftrightarrow> length (raw (my_messageID r)) = 32 \<and> my_cid_ok (my_sourceClientID r) \<and> my_cid_ok (my_destinationClientID r)
     \<and> int (length (my_sourceServiceName r)) \<le> 128 \<and> int (length (my_destinationServiceName r)) \<le> 128 \<and> int (length (my_messageType r)) \<le> 128
     \<and> length (raw (my_sourceMessageID r)) \<le> 16
     \<and> - (2 ^ 63) \<le> my_creationTimeSeconds r \<and> my_creationTimeSeconds r < 2 ^ 63
     \<and> - (2 ^ 31) \<le> my_creationTimeNanos r \<and> my_creationTimeNanos r < 2 ^ 31
     \<and> (case my_processedTimeSeconds r of None \<Rightarrow> True | Some t \<Rightarrow> - (2 ^ 63) \<le> t \<and> t < 2 ^ 63)
     \<and> (case my_processedTimeNanos r of None \<Rightarrow> True | Some t \<Rightarrow> - (2 ^ 31) \<le> t \<and> t < 2 ^ 31)
     \<and> (case my_failedReason r of None \<Rightarrow> True | Some t \<Rightarrow> int (length t) < 65536)
     \<and> int (length (my_validationInfo r)) < 65536 \<and> int (length (my_annotations r)) < 65536"

text \<open>What the engine documents: a row that fits its columns is stored as it is.\<close>

definition stores_fitting :: "mysql \<Rightarrow> bool" where
  "stores_fitting en \<longleftrightarrow> (\<forall>r. my_fits r \<longrightarrow> coerce en r = r)"

text \<open>
  \<open>forServer\<close> says which messages are for the server. A message is admissible when it
  has an identifier and a destination of the kind its identifier stands for, and its row fits.
\<close>

definition my_admissible :: "(gobytes \<Rightarrow> bool) \<Rightarrow> codec \<Rightarrow> Message \<Rightarrow> bool" where
  "my_admissible forServer cd m \<longleftrightarrow> Destination m \<noteq> None \<and> (addr_client (Destination m) = None) = forServer (MessageId m)
     \<and> length (raw (MessageId m)) = 32
     \<and> my_cid_ok (addr_client (Source m)) \<and> my_cid_ok (addr_client (Destination m))
     \<and> (case my_fromMessageProto cd m of Inl _ \<Rightarrow> True | Inr r \<Rightarrow> my_fits r)"

definition my_ok :: "(gobytes \<Rightarrow> bool) \<Rightarrow> mydb \<Rightarrow> bool" where
  "my_ok forServer d \<longleftrightarrow> list_all (\<lambda>r. my_messageID r \<noteq> None) (m_messages d)
     \<and> list_all (\<lambda>p. mp_for_server p = forServer (mp_message_id p) \<and> mp_message_id p \<in> my_messageID ` set (m_messages d)) (m_pending d)
     \<and> list_all (\<lambda>l. snd l \<in> my_messageID ` set (m_messages d)) (m_contact_messages d)"

lemma hex_bytes_inj: "a \<noteq> None \<Longrightarrow> b \<noteq> None \<Longrightarrow> hex_bytes a = hex_bytes b \<longleftrightarrow> a = b"
  by (auto simp: hex_bytes_def EncodeToString_inj raw_def)

lemma hex_bytes_cid: "my_cid_ok b \<Longrightarrow> toClientIDString b = Inr (hex_bytes b) \<and> (hex_bytes b = [] \<longleftrightarrow> b = None)"
  by (cases b) (auto simp: my_cid_ok_def toClientIDString_def hex_bytes_def raw_def BytesToClientID_def
      ClientID_String_def ClientID_IsNil_def)

lemma as_dbMessage_simps [simp]:
  "messageID (as_dbMessage r) = hex_bytes (my_messageID r)"
  "destinationClientID (as_dbMessage r) = hex_bytes (my_destinationClientID r)"
  "creationTimeSeconds (as_dbMessage r) = my_creationTimeSeconds r"
  "processedTimeSeconds (as_dbMessage r) = my_processedTimeSeconds r"
  "failed (as_dbMessage r) = my_failed r"
  "dataTypeURL (as_dbMessage r) = my_dataTypeURL r"
  "dataValue (as_dbMessage r) = my_dataValue r"
  "as_dbMessage (my_columns r) = message_columns (as_dbMessage r)"
  "p_message_id (as_pending p) = hex_bytes (mp_message_id p)"
  by (simp_all add: as_dbMessage_def my_columns_def message_columns_def as_pending_def)

lemma as_sqlite_simps [simp]:
  "t_messages (as_sqlite d s) = map as_dbMessage (m_messages d)"
  "t_pending (as_sqlite d s) = map as_pending (m_pending d)"
  "t_contact_messages (as_sqlite d s) = map (map_prod (\<lambda>c. c) hex_bytes) (m_contact_messages d)"
  "t_client_contacts (as_sqlite d s) = t_client_contacts s"
  by (simp_all add: as_sqlite_def)

lemma my_fromMessageProto_as:
  assumes "my_admissible K cd m"
  shows "fromMessageProto cd m = map_sum (\<lambda>x. x) as_dbMessage (my_fromMessageProto cd m)"
proof -
  have cols: "address_columns a = Inr (hex_bytes (addr_client a), addr_service a)" if "my_cid_ok (addr_client a)" for a
    using that hex_bytes_cid [of "addr_client a"] by (cases a) (simp_all add: address_columns_def hex_bytes_def raw_def)
  have mid: "BytesToMessageID (MessageId m) = Inr (MessageID (raw (MessageId m)))" "raw (MessageId m) \<noteq> []"
    using assms by (auto simp: my_admissible_def BytesToMessageID_def)
  then have id_eq: "MessageID_String (MessageID (raw (MessageId m))) = hex_bytes (MessageID_Bytes (MessageID (raw (MessageId m))))"
    by (simp add: MessageID_String_def hex_bytes_def MessageID_Bytes_def MessageID_IsNil_def raw_def)
  obtain sc ss dc ds where "address_columns (Source m) = Inr (sc, ss)" "address_columns (Destination m) = Inr (dc, ds)"
    "sc = hex_bytes (addr_client (Source m))" "ss = addr_service (Source m)"
    "dc = hex_bytes (addr_client (Destination m))" "ds = addr_service (Destination m)"
    using assms cols by (auto simp: my_admissible_def)
  moreover have "EncodeToString (raw (SourceMessageId m)) = hex_bytes (if raw (SourceMessageId m) = [] then None else SourceMessageId m)"
    by (simp add: hex_bytes_def raw_def)
  ultimately show ?thesis
    by (simp add: fromMessageProto_def my_fromMessageProto_def mid id_eq as_dbMessage_def empty_dbMessage_def
        split: ebind_split)
qed

text \<open>A statement of MySQL and the same statement of SQLite, from the same tables to the same tables or error.\<close>

definition tx_same :: "sqldb \<Rightarrow> error + unit \<times> sqldb \<Rightarrow> error + mydb \<Rightarrow> bool" where
  "tx_same s r q \<longleftrightarrow> r = map_sum (\<lambda>x. x) (\<lambda>d. ((), as_sqlite d s)) q"

lemma tx_same_simps [simp]:
  "tx_same s r (Inl x) \<longleftrightarrow> r = Inl x" "tx_same s r (Inr d) \<longleftrightarrow> r = Inr ((), as_sqlite d s)"
  by (simp_all add: tx_same_def)

lemma as_sqlite_key:
  assumes "my_ok K d" "i \<noteq> None"
  shows "hex_bytes i \<in> messageID ` set (t_messages (as_sqlite d s)) \<longleftrightarrow> i \<in> my_messageID ` set (m_messages d)"
    "hex_bytes i \<in> p_message_id ` set (t_pending (as_sqlite d s)) \<longleftrightarrow> i \<in> mp_message_id ` set (m_pending d)"
proof -
  have some: "my_messageID r \<noteq> None" if "r \<in> set (m_messages d)" for r
    using assms(1) that by (simp add: my_ok_def list_all_iff)
  have "mp_message_id p \<noteq> None" if "p \<in> set (m_pending d)" for p
    using assms(1) that some by (auto simp: my_ok_def list_all_iff)
  with some show "hex_bytes i \<in> messageID ` set (t_messages (as_sqlite d s)) \<longleftrightarrow> i \<in> my_messageID ` set (m_messages d)"
    "hex_bytes i \<in> p_message_id ` set (t_pending (as_sqlite d s)) \<longleftrightarrow> i \<in> mp_message_id ` set (m_pending d)"
    using assms(2) by (auto simp: image_iff hex_bytes_inj)
qed

lemma my_ok_more:
  assumes "my_ok K d" "my_messageID r \<noteq> None" "m_messages d' = m_messages d @ [r]" "m_contact_messages d' = m_contact_messages d"
    and "m_pending d' = m_pending d @ ps" "list_all (\<lambda>p. mp_message_id p = my_messageID r \<and> mp_for_server p = K (my_messageID r)) ps"
  shows "my_ok K d'"
proof -
  have ids: "my_messageID ` set (m_messages d') = insert (my_messageID r) (my_messageID ` set (m_messages d))" by (simp add: assms(3))
  show ?thesis using assms(1,2,6) unfolding my_ok_def ids assms(3-5) list_all_append by (auto simp: list_all_iff)
qed

lemma my_tryStoreMessage_same:
  assumes "my_ok K d" "stores_fitting en" "my_fits (my_columns dbm)" and i: "my_messageID dbm \<noteq> None"
    and K: "(my_destinationClientID dbm = None) = K (my_messageID dbm)"
  shows "tx_same s (tryStoreMessage e (as_dbMessage dbm) b (as_sqlite d s)) (my_tryStoreMessage en e dbm b d)"
    and "my_tryStoreMessage en e dbm b d = Inr d' \<Longrightarrow> my_ok K d' \<and> m_contacts d' = m_contacts d
      \<and> my_messageID ` set (m_messages d') = insert (my_messageID dbm) (my_messageID ` set (m_messages d))"
proof -
  have row: "coerce en (my_columns dbm) = my_columns dbm" using assms(2,3) by (simp add: stores_fitting_def)
  have key: "my_messageID (my_columns dbm) = my_messageID dbm" by (simp add: my_columns_def)
  have dest: "hex_bytes (my_destinationClientID dbm) = [] \<longleftrightarrow> my_destinationClientID dbm = None"
    using assms(3) hex_bytes_cid by (simp add: my_fits_def my_columns_def)
  have absent: "my_messageID dbm \<notin> mp_message_id ` set (m_pending d)" if "my_messageID dbm \<notin> my_messageID ` set (m_messages d)"
    using assms(1) that by (auto simp: my_ok_def list_all_iff)
  note keys = as_sqlite_key [OF assms(1) i, where s = s, unfolded as_sqlite_simps]
  show "tx_same s (tryStoreMessage e (as_dbMessage dbm) b (as_sqlite d s)) (my_tryStoreMessage en e dbm b d)"
    unfolding tx_same_def tryStoreMessage_def my_tryStoreMessage_def sql_insert_or_ignore_def sql_insert_def my_insert_pending_def
    using i absent keys dest
    by (simp add: row key Let_def image_image as_sqlite_def as_pending_def message_columns_def) (auto simp: image_iff)
  show "my_tryStoreMessage en e dbm b d = Inr d' \<Longrightarrow> my_ok K d' \<and> m_contacts d' = m_contacts d
      \<and> my_messageID ` set (m_messages d') = insert (my_messageID dbm) (my_messageID ` set (m_messages d))"
  proof -
    assume res: "my_tryStoreMessage en e dbm b d = Inr d'"
    show ?thesis
    proof (cases "my_messageID dbm \<in> my_messageID ` set (m_messages d)")
      case True
      then show ?thesis using res assms(1) by (auto simp: my_tryStoreMessage_def row key Let_def split: if_splits)
    next
      case False
      then obtain ps where "m_messages d' = m_messages d @ [my_columns dbm]" "m_contact_messages d' = m_contact_messages d"
        "m_pending d' = m_pending d @ ps" "m_contacts d' = m_contacts d"
        "list_all (\<lambda>p. mp_message_id p = my_messageID dbm \<and> mp_for_server p = K (my_messageID dbm)) ps"
        using res K by (auto simp: my_tryStoreMessage_def row key Let_def my_insert_pending_def split: if_splits)
      with my_ok_more [OF assms(1), of "my_columns dbm" d' ps] i show ?thesis by (simp add: key)
    qed
  qed
qed

lemma my_ok_fewer:
  assumes "my_ok K d" "map my_messageID (m_messages d') = map my_messageID (m_messages d)" "set (m_pending d') \<subseteq> set (m_pending d)"
    "m_contact_messages d' = m_contact_messages d"
  shows "my_ok K d'"
proof -
  have ids: "my_messageID ` set (m_messages d') = my_messageID ` set (m_messages d)"
    using assms(2) by (metis set_map)
  have "None \<notin> my_messageID ` set (m_messages d')" using assms(1) by (auto simp: ids my_ok_def list_all_iff)
  then have "list_all (\<lambda>r. my_messageID r \<noteq> None) (m_messages d')" unfolding list_all_iff by force
  then show ?thesis using assms(1,3,4) unfolding my_ok_def list_all_iff ids by auto
qed

lemma my_trySetMessageResult_same:
  assumes "my_ok K d" and i: "length (mid_id i) = 32" and K: "fs = K (MessageID_Bytes i)"
  shows "tx_same s (trySetMessageResult i r (as_sqlite d s)) (my_trySetMessageResult fs i r d)"
    and "my_trySetMessageResult fs i r d = Inr d' \<Longrightarrow> my_ok K d' \<and> m_contacts d' = m_contacts d
      \<and> my_messageID ` set (m_messages d') = my_messageID ` set (m_messages d)"
proof -
  have mid: "MessageID_String i = hex_bytes (MessageID_Bytes i)" "MessageID_Bytes i \<noteq> None"
    using i by (auto simp: MessageID_String_def hex_bytes_def MessageID_Bytes_def MessageID_IsNil_def raw_def)
  have some: "my_messageID r \<noteq> None" if "r \<in> set (m_messages d)" for r
    using assms(1) that by (simp add: my_ok_def list_all_iff)
  have pend: "mp_message_id p \<noteq> None" "mp_for_server p = K (mp_message_id p)" if "p \<in> set (m_pending d)" for p
    using assms(1) that some by (auto simp: my_ok_def list_all_iff)
  have filt: "filter (\<lambda>p. p_message_id p \<noteq> hex_bytes (MessageID_Bytes i)) (map as_pending (m_pending d)) =
      map as_pending (filter (\<lambda>p. \<not> (mp_for_server p = fs \<and> mp_message_id p = MessageID_Bytes i)) (m_pending d))"
    using pend mid(2) K by (auto simp: filter_map comp_def hex_bytes_inj intro!: filter_cong arg_cong [where f = "map as_pending"])
  have upd: "update_where (\<lambda>r. messageID r = hex_bytes (MessageID_Bytes i)) (\<lambda>r. r\<lparr>failed := a, failedReason := b, processedTimeSeconds := c, processedTimeNanos := n\<rparr>)
        (map as_dbMessage (m_messages d)) =
      map as_dbMessage (update_where (\<lambda>r. my_messageID r = MessageID_Bytes i)
        (\<lambda>r. r\<lparr>my_failed := a, my_failedReason := b, my_processedTimeSeconds := c, my_processedTimeNanos := n\<rparr>) (m_messages d))" for a b c n
    using some mid(2) by (auto simp: update_where_def hex_bytes_inj as_dbMessage_def)
  show "tx_same s (trySetMessageResult i r (as_sqlite d s)) (my_trySetMessageResult fs i r d)"
    by (simp add: tx_same_def trySetMessageResult_def my_trySetMessageResult_def Let_def mid filt upd as_sqlite_def
        split: option.split)
  show "my_trySetMessageResult fs i r d = Inr d' \<Longrightarrow> my_ok K d' \<and> m_contacts d' = m_contacts d
      \<and> my_messageID ` set (m_messages d') = my_messageID ` set (m_messages d)"
  proof (cases "ProcessedTime r")
    case (Some pt)
    assume d': "my_trySetMessageResult fs i r d = Inr d'"
    have ids: "map my_messageID (m_messages d') = map my_messageID (m_messages d)" and "set (m_pending d') \<subseteq> set (m_pending d)"
      and "m_contacts d' = m_contacts d" "m_contact_messages d' = m_contact_messages d"
      using d' Some by (auto simp: my_trySetMessageResult_def Let_def)
    moreover have "my_messageID ` set (m_messages d') = my_messageID ` set (m_messages d)" using ids by (metis set_map)
    ultimately show ?thesis using my_ok_fewer [OF assms(1)] by blast
  qed (simp add: my_trySetMessageResult_def)
qed

lemma my_row_same:
  assumes "my_ok K d" "i \<noteq> None"
  shows "sql_row (\<lambda>x. messageID x = hex_bytes i) (t_messages (as_sqlite d s)) =
    map_sum (\<lambda>x. x) as_dbMessage (sql_row (\<lambda>x. my_messageID x = i) (m_messages d))"
proof -
  have "list_all (\<lambda>r. my_messageID r \<noteq> None) rs \<Longrightarrow> find (\<lambda>x. messageID x = hex_bytes i) (map as_dbMessage rs) =
      map_option as_dbMessage (find (\<lambda>x. my_messageID x = i) rs)" for rs
    using assms(2) by (induction rs) (simp_all add: hex_bytes_inj)
  with assms(1) show ?thesis by (simp add: my_ok_def sql_row_def split: option.split)
qed

lemma my_admissible_row:
  assumes "my_admissible K cd m" "my_fromMessageProto cd m = Inr dbm"
  shows "my_fits dbm" "my_fits (my_columns dbm)" "my_messageID dbm = Some (raw (MessageId m))" "MessageId m = Some (raw (MessageId m))"
    "my_destinationClientID dbm = addr_client (Destination m)" "BytesToMessageID (MessageId m) = Inr (MessageID (raw (MessageId m)))"
    "length (raw (MessageId m)) = 32" "my_for_server m = Inr (K (MessageId m))"
    "(addr_client (Destination m) = None) = K (Some (raw (MessageId m)))"
proof -
  have len: "length (raw (MessageId m)) = 32" using assms(1) by (simp add: my_admissible_def)
  then show mid: "length (raw (MessageId m)) = 32" "MessageId m = Some (raw (MessageId m))"
      "BytesToMessageID (MessageId m) = Inr (MessageID (raw (MessageId m)))"
    by (cases "MessageId m"; auto simp: raw_def BytesToMessageID_def)+
  show "my_fits dbm" using assms by (simp add: my_admissible_def)
  then show "my_fits (my_columns dbm)" by (simp add: my_fits_def my_columns_def)
  show "my_messageID dbm = Some (raw (MessageId m))" "my_destinationClientID dbm = addr_client (Destination m)"
    using assms(2) mid(1) by (auto simp: my_fromMessageProto_def mid(3) MessageID_Bytes_def MessageID_IsNil_def)
  show "my_for_server m = Inr (K (MessageId m))"
    using assms(1) by (auto simp: my_admissible_def my_for_server_def)
  show "(addr_client (Destination m) = None) = K (Some (raw (MessageId m)))"
    using assms(1) mid(2) by (simp add: my_admissible_def)
qed

definition my_storing :: "(gobytes \<Rightarrow> bool) \<Rightarrow> nat list \<Rightarrow> gobytes list \<times> mydb \<Rightarrow> bool" where
  "my_storing K contacts = (\<lambda>(ids, d). my_ok K d \<and> m_contacts d = contacts \<and> set ids \<subseteq> my_messageID ` set (m_messages d))"

abbreviation as_stored :: "sqldb \<Rightarrow> gobytes list \<times> mydb \<Rightarrow> string list \<times> sqldb" where
  "as_stored s \<equiv> (\<lambda>(ids, d). (map hex_bytes ids, as_sqlite d s))"

lemma tx_same_bind:
  assumes "tx_same s r q" and "\<And>d. q = Inr d \<Longrightarrow> F (as_sqlite d s) = map_sum (\<lambda>x. x) h (G d)"
  shows "ebind r (\<lambda>(u, d). F d) = map_sum (\<lambda>x. x) h (ebind q G)"
  using assms by (cases q) simp_all

text \<open>The statements of an iteration, and the iteration.\<close>

abbreviation sq_finish :: "Message \<Rightarrow> MessageResult \<Rightarrow> string list \<Rightarrow> sqldb \<Rightarrow> error + string list \<times> sqldb" where
  "sq_finish m r ids d \<equiv> ebind (BytesToMessageID (MessageId m)) (\<lambda>mid. ebind (trySetMessageResult mid r d) (\<lambda>(u, d1). Inr (ids, d1)))"

abbreviation my_finish :: "Message \<Rightarrow> MessageResult \<Rightarrow> gobytes list \<Rightarrow> mydb \<Rightarrow> error + gobytes list \<times> mydb" where
  "my_finish m r ids d \<equiv> ebind (BytesToMessageID (MessageId m)) (\<lambda>mid. ebind (my_for_server m) (\<lambda>fs.
     ebind (my_trySetMessageResult fs mid r d) (\<lambda>d1. Inr (ids, d1))))"

definition my_without_data :: "Message \<Rightarrow> my_dbMessage \<Rightarrow> my_dbMessage" where
  "my_without_data m dbm = (if Result m \<noteq> None then dbm\<lparr>my_dataTypeURL := None, my_dataValue := []\<rparr> else dbm)"

lemma my_finish_same:
  assumes "my_admissible K cd m" "my_fromMessageProto cd m = Inr dbm" and ok: "my_ok K d"
  shows "sq_finish m r (map hex_bytes ids) (as_sqlite d s) = map_sum (\<lambda>x. x) (as_stored s) (my_finish m r ids d)"
    and "my_storing K C (ids, d) \<Longrightarrow> my_finish m r ids d = Inr q \<Longrightarrow> my_storing K C q"
proof -
  note row = my_admissible_row [OF assms(1,2)]
  have mid: "MessageID_Bytes (MessageID (raw (MessageId m))) = MessageId m"
    using row(4,7) by (auto simp: MessageID_Bytes_def MessageID_IsNil_def)
  have set: "tx_same s (trySetMessageResult (MessageID (raw (MessageId m))) r (as_sqlite d s))
      (my_trySetMessageResult (K (MessageId m)) (MessageID (raw (MessageId m))) r d)"
    by (rule my_trySetMessageResult_same(1) [OF ok]) (simp_all add: row(7) mid)
  show "sq_finish m r (map hex_bytes ids) (as_sqlite d s) = map_sum (\<lambda>x. x) (as_stored s) (my_finish m r ids d)"
    unfolding row(6,8) ebind_simps by (rule tx_same_bind [OF set]) simp
  show "my_storing K C (ids, d) \<Longrightarrow> my_finish m r ids d = Inr q \<Longrightarrow> my_storing K C q"
    unfolding row(6,8) ebind_simps
    using my_trySetMessageResult_same(2) [OF ok, of "MessageID (raw (MessageId m))" "K (MessageId m)" r]
    by (auto simp: row(7) mid my_storing_def)
qed

lemma my_store_same:
  assumes st: "my_storing K C (ids, d)" and en: "stores_fitting en"
    and m: "my_admissible K cd m" "my_fromMessageProto cd m = Inr dbm" and i: "i = my_messageID dbm"
  shows "tx_same s (tryStoreMessage e (as_dbMessage (my_without_data m dbm)) False (as_sqlite d s))
      (my_tryStoreMessage en e (my_without_data m dbm) False d)"
    and "my_tryStoreMessage en e (my_without_data m dbm) False d = Inr d1 \<Longrightarrow> my_storing K C (ids @ [i], d1)"
    and "sql_row (\<lambda>x. my_messageID x = i) (m_messages d) = Inr x \<Longrightarrow> my_storing K C (ids @ [i], d)"
proof -
  note row = my_admissible_row [OF m]
  have ok: "my_ok K d" using st by (simp add: my_storing_def)
  have dbm: "my_messageID (my_without_data m dbm) = i" "my_columns (my_without_data m dbm) = my_columns dbm"
    "my_destinationClientID (my_without_data m dbm) = my_destinationClientID dbm"
    by (simp_all add: my_without_data_def i my_columns_def)
  show "tx_same s (tryStoreMessage e (as_dbMessage (my_without_data m dbm)) False (as_sqlite d s))
      (my_tryStoreMessage en e (my_without_data m dbm) False d)"
    by (rule my_tryStoreMessage_same(1) [OF ok en]) (simp_all add: dbm i row(2,3,5,9))
  show "my_tryStoreMessage en e (my_without_data m dbm) False d = Inr d1 \<Longrightarrow> my_storing K C (ids @ [i], d1)"
    using my_tryStoreMessage_same(2) [OF ok en, of "my_without_data m dbm" e False d1] st
    by (auto simp: my_storing_def dbm i row(2,3,5,9))
  show "sql_row (\<lambda>x. my_messageID x = i) (m_messages d) = Inr x \<Longrightarrow> my_storing K C (ids @ [i], d)"
    using st by (auto simp: my_storing_def sql_row_eq_Inr find_Some_iff intro: imageI nth_mem)
qed

lemma sq_storeOne_eq:
  assumes "my_admissible K cd m" "my_fromMessageProto cd m = Inr dbm0"
  defines "i \<equiv> my_messageID dbm0" and "dbm \<equiv> my_without_data m dbm0"
  shows "storeOne e cd m (acc, d) = (case Result m of
        Some r \<Rightarrow> if \<not> Failed r then ebind (tryStoreMessage e (as_dbMessage dbm) False d) (\<lambda>(u, d1). sq_finish m r (acc @ [hex_bytes i]) d1)
          else (case sql_row (\<lambda>x. messageID x = hex_bytes i) (t_messages d) of
              Inl _ \<Rightarrow> ebind (tryStoreMessage e (as_dbMessage dbm) False d) (\<lambda>(u, d1). Inr (acc @ [hex_bytes i], d1))
            | Inr x \<Rightarrow> if processedTimeSeconds x = None then sq_finish m r (acc @ [hex_bytes i]) d else Inr (acc @ [hex_bytes i], d))
      | None \<Rightarrow> (case sql_row (\<lambda>x. messageID x = hex_bytes i) (t_messages d) of
              Inl _ \<Rightarrow> ebind (tryStoreMessage e (as_dbMessage dbm) False d) (\<lambda>(u, d1). Inr (acc @ [hex_bytes i], d1))
            | Inr x \<Rightarrow> Inr (acc @ [hex_bytes i], d)))"
proof -
  have "as_dbMessage (dbm0\<lparr>my_dataTypeURL := None, my_dataValue := []\<rparr>) = (as_dbMessage dbm0)\<lparr>dataTypeURL := None, dataValue := []\<rparr>"
    by (simp add: as_dbMessage_def)
  moreover have "fromMessageProto cd m = Inr (as_dbMessage dbm0)" using my_fromMessageProto_as [OF assms(1)] assms(2) by simp
  ultimately show ?thesis
    unfolding storeOne_def i_def dbm_def by (cases "Result m") (auto simp: my_without_data_def Let_def split: sum.split)
qed

lemma my_storeOne_eq:
  assumes "my_fromMessageProto cd m = Inr dbm0"
  defines "i \<equiv> my_messageID dbm0" and "dbm \<equiv> my_without_data m dbm0"
  shows "my_storeOne en e cd m (ids, md) = (case Result m of
        Some r \<Rightarrow> if \<not> Failed r then ebind (my_tryStoreMessage en e dbm False md) (\<lambda>d1. my_finish m r (ids @ [i]) d1)
          else (case sql_row (\<lambda>x. my_messageID x = i) (m_messages md) of
              Inl _ \<Rightarrow> ebind (my_tryStoreMessage en e dbm False md) (\<lambda>d1. Inr (ids @ [i], d1))
            | Inr x \<Rightarrow> if my_processedTimeSeconds x = None then my_finish m r (ids @ [i]) md else Inr (ids @ [i], md))
      | None \<Rightarrow> (case sql_row (\<lambda>x. my_messageID x = i) (m_messages md) of
              Inl _ \<Rightarrow> ebind (my_tryStoreMessage en e dbm False md) (\<lambda>d1. Inr (ids @ [i], d1))
            | Inr x \<Rightarrow> Inr (ids @ [i], md)))"
  unfolding my_storeOne_def i_def dbm_def by (cases "Result m") (auto simp: assms(1) my_without_data_def Let_def split: sum.split)

lemma my_store_branches:
  fixes e :: env and s :: sqldb
  assumes st: "my_storing K C (ids, d)" and en: "stores_fitting en"
    and m: "my_admissible K cd m" "my_fromMessageProto cd m = Inr dbm" and i: "i = my_messageID dbm"
  defines "sq \<equiv> tryStoreMessage e (as_dbMessage (my_without_data m dbm)) False (as_sqlite d s)"
    and "my \<equiv> my_tryStoreMessage en e (my_without_data m dbm) False d"
  shows "ebind sq (\<lambda>(u, d1). Inr (map hex_bytes ids @ [hex_bytes i], d1)) = map_sum (\<lambda>x. x) (as_stored s) (ebind my (\<lambda>d1. Inr (ids @ [i], d1)))"
    and "ebind my (\<lambda>d1. Inr (ids @ [i], d1)) = Inr q \<Longrightarrow> my_storing K C q"
    and "ebind sq (\<lambda>(u, d1). sq_finish m r (map hex_bytes ids @ [hex_bytes i]) d1) =
      map_sum (\<lambda>x. x) (as_stored s) (ebind my (\<lambda>d1. my_finish m r (ids @ [i]) d1))"
    and "ebind my (\<lambda>d1. my_finish m r (ids @ [i]) d1) = Inr q \<Longrightarrow> my_storing K C q"
proof -
  note store = my_store_same(1) [OF st en m i, of s e, folded sq_def my_def] my_store_same(2) [OF st en m i, of e]
  have ok: "my_ok K d1" if "my = Inr d1" for d1 using store(2) that by (simp add: my_storing_def my_def)
  note finish = my_finish_same [OF m, where ids = "ids @ [i]", unfolded map_append list.map]
  show "ebind sq (\<lambda>(u, d1). Inr (map hex_bytes ids @ [hex_bytes i], d1)) = map_sum (\<lambda>x. x) (as_stored s) (ebind my (\<lambda>d1. Inr (ids @ [i], d1)))"
    by (rule tx_same_bind [OF store(1)]) simp
  show "ebind my (\<lambda>d1. Inr (ids @ [i], d1)) = Inr q \<Longrightarrow> my_storing K C q" using store(2) by (auto simp: my_def)
  show "ebind sq (\<lambda>(u, d1). sq_finish m r (map hex_bytes ids @ [hex_bytes i]) d1) =
      map_sum (\<lambda>x. x) (as_stored s) (ebind my (\<lambda>d1. my_finish m r (ids @ [i]) d1))"
    by (rule tx_same_bind [OF store(1)]) (rule finish(1) [OF ok])
  show "ebind my (\<lambda>d1. my_finish m r (ids @ [i]) d1) = Inr q \<Longrightarrow> my_storing K C q"
  proof (cases my)
    case (Inr d1)
    assume "ebind my (\<lambda>d1. my_finish m r (ids @ [i]) d1) = Inr q"
    then have "my_finish m r (ids @ [i]) d1 = Inr q" unfolding Inr ebind_simps .
    moreover have "my_storing K C (ids @ [i], d1)" using store(2) Inr by (simp add: my_def)
    ultimately show ?thesis using finish(2) ok Inr by blast
  qed simp
qed

lemma my_storeOne_same:
  assumes st: "my_storing K C (ids, d)" and en: "stores_fitting en" and m: "my_admissible K cd m"
  shows "storeOne e cd m (as_stored s (ids, d)) = map_sum (\<lambda>x. x) (as_stored s) (my_storeOne en e cd m (ids, d))
    \<and> (my_storeOne en e cd m (ids, d) = Inr q \<longrightarrow> my_storing K C q)"
proof (cases "my_fromMessageProto cd m")
  case (Inl x)
  then show ?thesis using my_fromMessageProto_as [OF m] by (simp add: storeOne_def my_storeOne_def)
next
  case (Inr dbm)
  define i where "i = my_messageID dbm"
  have ok: "my_ok K d" using st by (simp add: my_storing_def)
  note eqs = sq_storeOne_eq [OF m Inr, folded i_def] my_storeOne_eq [OF Inr, folded i_def]
  note present = my_store_same(3) [OF st en m Inr i_def]
  note branches = my_store_branches [OF st en m Inr i_def, where e = e]
  have "i \<noteq> None" using my_admissible_row(3) [OF m Inr] by (simp add: i_def)
  note found = my_row_same [OF ok this, of s]
  note finish = my_finish_same(1) [OF m Inr ok, where ids = "ids @ [i]" and s = s, unfolded map_append list.map]
    my_finish_same(2) [OF m Inr ok, where ids = "ids @ [i]" and C = C]
  consider "Result m = None" | r where "Result m = Some r" "\<not> Failed r" | r where "Result m = Some r" "Failed r" by blast
  then show ?thesis
  proof cases
    case 1
    then show ?thesis using found branches(1,2) present
      by (cases "sql_row (\<lambda>x. my_messageID x = i) (m_messages d)") (auto simp: eqs simp del: ebind_eq_Inr)
  next
    case 2
    then show ?thesis using branches(3) [of s r] branches(4) [of r] by (simp add: eqs del: ebind_eq_Inr)
  next
    case 3
    show ?thesis
    proof (cases "sql_row (\<lambda>x. my_messageID x = i) (m_messages d)")
      case (Inl x)
      with found branches(1,2) 3 show ?thesis by (simp add: eqs del: ebind_eq_Inr)
    next
      case (Inr x)
      with found finish present [OF Inr] 3 show ?thesis by (simp add: eqs del: ebind_eq_Inr) blast
    qed
  qed
qed

text \<open>The whole transaction.\<close>

lemma foldE_same:
  assumes "P a" and step: "\<And>x a b. x \<in> set xs \<Longrightarrow> P a \<Longrightarrow> f x (h a) = map_sum (\<lambda>x. x) h (g x a) \<and> (g x a = Inr b \<longrightarrow> P b)"
  shows "foldE f xs (h a) = map_sum (\<lambda>x. x) h (foldE g xs a) \<and> (foldE g xs a = Inr b \<longrightarrow> P b)"
  using assms
proof (induction xs arbitrary: a)
  case (Cons x xs)
  have x: "f x (h a) = map_sum (\<lambda>x. x) h (g x a) \<and> (g x a = Inr c \<longrightarrow> P c)" for c
    by (rule Cons.prems(2)) (simp_all add: Cons.prems(1))
  show ?case
  proof (cases "g x a")
    case (Inr c)
    have "foldE f xs (h c) = map_sum (\<lambda>x. x) h (foldE g xs c) \<and> (foldE g xs c = Inr b \<longrightarrow> P b)"
      by (rule Cons.IH) (use x Inr Cons.prems(2) in auto)
    with x Inr show ?thesis by simp
  qed (use x in simp)
qed auto

lemma my_link_same:
  assumes "my_storing K C (ids, d)" "unat c \<in> set C" "unat c < 2 ^ 63" and contacts: "cc_id ` set (t_client_contacts s) = set C"
  shows "foldE (linkIgnore c) (map hex_bytes ids) (as_sqlite d s) = Inr (as_sqlite (fold (my_link c) ids d) s)
    \<and> my_ok K (fold (my_link c) ids d)"
  using assms(1)
proof (induction ids arbitrary: d)
  case (Cons i ids)
  have d: "my_ok K d" "m_contacts d = C" "i \<in> my_messageID ` set (m_messages d)" using Cons.prems by (simp_all add: my_storing_def)
  have some: "j \<noteq> None" if "j \<in> my_messageID ` set (m_messages d)" for j using d(1) that by (auto simp: my_ok_def list_all_iff)
  have "j \<noteq> None" if "(b, j) \<in> set (m_contact_messages d)" for b j
    using d(1) that some by (auto simp: my_ok_def list_all_iff)
  then have link: "(c, hex_bytes i) \<in> map_prod (\<lambda>c. c) hex_bytes ` set (m_contact_messages d) \<longleftrightarrow> (c, i) \<in> set (m_contact_messages d)"
    using some [OF d(3)] by (force simp: hex_bytes_inj)
  have "hex_bytes i \<in> (\<lambda>r. hex_bytes (my_messageID r)) ` set (m_messages d)" using d(3) by auto
  then have step: "linkIgnore c (hex_bytes i) (as_sqlite d s) = Inr (as_sqlite (my_link c i d) s)"
    using assms(2,3) link d(2,3) contacts
    by (auto simp: linkIgnore_def sql_u64_def word_less_nat_alt sql_insert_or_ignore_def link_fk_def my_link_def as_sqlite_def image_image)
  have "my_storing K C (ids, my_link c i d)"
    using Cons.prems by (auto simp: my_storing_def my_link_def my_ok_def)
  from Cons.IH [OF this] step show ?case by simp
qed (simp add: my_storing_def)

definition my_contact_ok :: "string \<Rightarrow> mydb \<Rightarrow> bool" where
  "my_contact_ok contact d \<longleftrightarrow> (case ParseUint16 contact of Inl _ \<Rightarrow> True | Inr c \<Rightarrow> unat c \<in> set (m_contacts d) \<and> unat c < 2 ^ 63)"

lemma my_storeAll_same:
  assumes "my_ok K d" "stores_fitting en" "list_all (my_admissible K cd) msgs" "my_contact_ok contact d"
    and contacts: "cc_id ` set (t_client_contacts s) = set (m_contacts d)"
  shows "tx_same s (ebind (foldE (storeOne e cd) msgs ([], as_sqlite d s)) (\<lambda>(ids, d1).
       if contact = [] then Inr ((), d1)
       else (case ParseUint16 contact of
           Inl _ \<Rightarrow> Inl (Err ''unable to parse ContactID'')
         | Inr c \<Rightarrow> ebind (foldE (linkIgnore c) ids d1) (\<lambda>d2. Inr ((), d2))))) (my_storeAll en cd msgs contact e d)"
    and "my_storeAll en cd msgs contact e d = Inr d' \<Longrightarrow> my_ok K d'"
proof -
  have st: "my_storing K (m_contacts d) ([], d)" using assms(1) by (simp add: my_storing_def)
  have loop: "foldE (storeOne e cd) msgs (as_stored s ([], d)) = map_sum (\<lambda>x. x) (as_stored s) (foldE (my_storeOne en e cd) msgs ([], d))
      \<and> (foldE (my_storeOne en e cd) msgs ([], d) = Inr q \<longrightarrow> my_storing K (m_contacts d) q)" for q
    by (rule foldE_same [where P = "my_storing K (m_contacts d)", OF st])
      (use assms(2,3) my_storeOne_same in \<open>auto simp: list_all_iff split: prod.splits\<close>)
  have link: "foldE (linkIgnore c) (map hex_bytes ids) (as_sqlite d1 s) = Inr (as_sqlite (fold (my_link c) ids d1) s)
      \<and> my_ok K (fold (my_link c) ids d1)"
    if "my_storing K (m_contacts d) (ids, d1)" "ParseUint16 contact = Inr c" for ids d1 c
    by (rule my_link_same [OF that(1)]) (use that(2) assms(4) contacts in \<open>auto simp: my_contact_ok_def\<close>)
  show "tx_same s (ebind (foldE (storeOne e cd) msgs ([], as_sqlite d s)) (\<lambda>(ids, d1).
       if contact = [] then Inr ((), d1)
       else (case ParseUint16 contact of
           Inl _ \<Rightarrow> Inl (Err ''unable to parse ContactID'')
         | Inr c \<Rightarrow> ebind (foldE (linkIgnore c) ids d1) (\<lambda>d2. Inr ((), d2))))) (my_storeAll en cd msgs contact e d)"
    using loop link by (cases "foldE (my_storeOne en e cd) msgs ([], d)")
      (auto simp: my_storeAll_def tx_same_def split: sum.split)
  show "my_storeAll en cd msgs contact e d = Inr d' \<Longrightarrow> my_ok K d'"
    using loop link by (auto simp: my_storeAll_def my_storing_def split: if_splits sum.splits)
qed

text \<open>A transaction whose function captures nothing is one of its attempts.\<close>

lemma my_exec_attempt:
  assumes "es \<noteq> []"
  shows "\<exists>e \<in> set es. my_exec es f d = my_exec [e] f d"
  using assms
proof (induction es)
  case (Cons e es)
  show ?case
  proof (cases "es \<noteq> [] \<and> (\<exists>x. fst (my_exec [e] f d) = Inl x \<and> my_retriable x)")
    case True
    then have "my_exec (e # es) f d = my_exec es f d"
      by (auto simp: my_exec_def runOnce_def split: option.splits sum.splits prod.splits)
    with Cons.IH True show ?thesis by auto
  next
    case False
    then have "my_exec (e # es) f d = my_exec [e] f d"
      by (auto simp: my_exec_def split: sum.splits prod.splits)
    then show ?thesis by auto
  qed
qed simp

lemma my_exec_same:
  assumes "tx_same s (g (as_sqlite d s)) (f e d)"
  shows "runInTx e g (as_sqlite d s) = (case my_exec [e] f d of (r, d') \<Rightarrow> (r, as_sqlite d' s))"
  using assms by (cases "f e d") (simp_all add: my_exec_def runOnce_def runInTx_def split: option.split)

lemma my_exec_keeps:
  assumes "P d" and "\<And>e d'. f e d = Inr d' \<Longrightarrow> P d'" and "es \<noteq> []"
  shows "P (snd (my_exec es f d))"
proof -
  obtain e where "my_exec es f d = my_exec [e] f d" using my_exec_attempt [OF assms(3)] by blast
  then show ?thesis using assms(1,2)
    by (cases "f e d") (auto simp: my_exec_def runOnce_def split: option.split)
qed

lemma my_SetMessageResult_as_sqlite:
  assumes "es \<noteq> []" "my_ok forServer d" "length (mid_id i) = 32" "ClientID_IsNil dest = forServer (MessageID_Bytes i)"
  shows "(\<exists>e \<in> set es. SetMessageResult e dest i r (as_sqlite d s) =
      (case my_SetMessageResult es dest i r d of (r, d') \<Rightarrow> (r, as_sqlite d' s)))
    \<and> my_ok forServer (snd (my_SetMessageResult es dest i r d))"
proof -
  let ?f = "\<lambda>e. my_trySetMessageResult (ClientID_IsNil dest) i r"
  note same = my_trySetMessageResult_same [OF assms(2,3,4)]
  obtain e where e: "e \<in> set es" "my_SetMessageResult es dest i r d = my_exec [e] ?f d"
    using my_exec_attempt [OF assms(1)] unfolding my_SetMessageResult_def by blast
  have "SetMessageResult e dest i r (as_sqlite d s) = (case my_SetMessageResult es dest i r d of (r, d') \<Rightarrow> (r, as_sqlite d' s))"
    unfolding SetMessageResult_def e(2) by (rule my_exec_same) (rule same(1))
  moreover have "my_ok forServer (snd (my_SetMessageResult es dest i r d))"
    unfolding my_SetMessageResult_def by (rule my_exec_keeps [where P = "my_ok forServer"]) (use assms same(2) in auto)
  ultimately show ?thesis using e(1) by blast
qed

text \<open>
  C26. The MySQL store is equivalent to the SQLite one: whatever lock errors make it run the
  transaction again, \<^verbatim>\<open>StoreMessages\<close> on MySQL gives the result, and leaves the message tables, that
  \<^verbatim>\<open>StoreMessages\<close> on SQLite gives and leaves in the environment of one of the attempts, when the identifiers,
  names and times fit MySQL's columns, every message names its destination and the contact exists; and it keeps the
  invariant under which this holds.
\<close>

theorem my_StoreMessages_as_sqlite:
  assumes "es \<noteq> []" "stores_fitting en" "my_ok forServer d" "list_all (my_admissible forServer cd) msgs" "my_contact_ok contact d"
    and "cc_id ` set (t_client_contacts s) = set (m_contacts d)"
  shows "(\<exists>e. e \<in> set es \<and> StoreMessages e cd msgs contact (as_sqlite d s) =
      (case my_StoreMessages en es cd msgs contact d of (r, d') \<Rightarrow> (r, as_sqlite d' s)))
    \<and> my_ok forServer (snd (my_StoreMessages en es cd msgs contact d))"
proof -
  note same = my_storeAll_same [OF assms(3,2,4,5,6)]
  obtain e where e: "e \<in> set es" "my_StoreMessages en es cd msgs contact d = my_exec [e] (my_storeAll en cd msgs contact) d"
    using my_exec_attempt [OF assms(1)] unfolding my_StoreMessages_def by blast
  have "StoreMessages e cd msgs contact (as_sqlite d s) = (case my_StoreMessages en es cd msgs contact d of (r, d') \<Rightarrow> (r, as_sqlite d' s))"
    unfolding StoreMessages_def e(2) by (rule my_exec_same) (rule same(1))
  moreover have "my_ok forServer (snd (my_StoreMessages en es cd msgs contact d))"
    unfolding my_StoreMessages_def by (rule my_exec_keeps [where P = "my_ok forServer", OF assms(3) same(2) assms(1)])
  ultimately show ?thesis using e(1) by blast
qed

end
