(* ===== verification/Mysql_Delivery.thy ===== *)
theory Mysql_Delivery
  imports Mysql_Messages
begin

text \<open>
  What \<^verbatim>\<open>ClientMessagesForProcessing\<close> of \<^verbatim>\<open>fleetspeak/src/server/mysql/messagestore.go\<close> hands out
  when its transaction is run once, and what it hands out when the transaction is run again.
\<close>

section \<open>The loop over the due rows\<close>

abbreviation by_service :: "string \<Rightarrow> (gobytes, my_dbMessage) gomap \<Rightarrow> nat" where
  "by_service svc byID \<equiv> length (filter (\<lambda>km. my_destinationServiceName (snd km) = svc) byID)"

lemma by_service_upd:
  "by_service svc (gomap_upd k m byID) \<le> by_service svc byID + (if my_destinationServiceName m = svc then 1 else 0)"
  by (induction byID) auto

text \<open>Every entry comes from a row, and no service has more entries than \<^verbatim>\<open>read\<close> counts.\<close>

definition collected :: "(string, u64) gomap option \<Rightarrow> (my_dbMessage \<times> my_pending) set \<Rightarrow> (string, u64) gomap \<Rightarrow> (gobytes, my_dbMessage) gomap \<Rightarrow> bool" where
  "collected limits rows nread byID \<longleftrightarrow> gomap_ok byID
     \<and> (\<forall>(k, m) \<in> set byID. \<exists>row \<in> rows. k = my_messageID (fst row) \<and> m = my_row_message row)
     \<and> (case limits of None \<Rightarrow> True
        | Some sl \<Rightarrow> (\<forall>svc. by_service svc byID \<le> unat (gomap_get0 nread svc) \<and> gomap_get0 nread svc \<le> gomap_get0 sl svc))"

lemma set_gomap_upd: "set (gomap_upd k v m) \<subseteq> insert (k, v) (set m)"
proof (induction m)
  case (Cons q m)
  then show ?case by (cases q) auto
qed simp

lemma collected_step:
  assumes "collected limits rows nread byID" "row \<in> rows" and svc: "svc = my_destinationServiceName (fst row)"
    and nread': "nread' = (case limits of None \<Rightarrow> nread | Some sl \<Rightarrow> gomap_upd svc (gomap_get0 nread svc + 1) nread)"
    and room: "case limits of None \<Rightarrow> True | Some sl \<Rightarrow> gomap_get0 nread svc < gomap_get0 sl svc"
  shows "collected limits rows nread' (gomap_upd (my_messageID (fst row)) (my_row_message row) byID)"
proof -
  let ?byID = "gomap_upd (my_messageID (fst row)) (my_row_message row) byID"
  have "\<exists>row \<in> rows. k = my_messageID (fst row) \<and> m = my_row_message row" if "(k, m) \<in> set ?byID" for k m
    using that assms(1,2) set_gomap_upd [of "my_messageID (fst row)" "my_row_message row" byID]
    by (auto simp: collected_def)
  moreover have "case limits of None \<Rightarrow> True
      | Some sl \<Rightarrow> (\<forall>t. by_service t ?byID \<le> unat (gomap_get0 nread' t) \<and> gomap_get0 nread' t \<le> gomap_get0 sl t)"
  proof (cases limits)
    case (Some sl)
    have less: "gomap_get0 nread svc < gomap_get0 sl svc" using room Some by simp
    then have inc: "unat (gomap_get0 nread svc + 1) = unat (gomap_get0 nread svc) + 1" "gomap_get0 nread svc + 1 \<le> gomap_get0 sl svc"
      by (rule word_less_imp_unat_add1, rule inc_le)
    have "by_service t ?byID \<le> unat (gomap_get0 nread' t) \<and> gomap_get0 nread' t \<le> gomap_get0 sl t" for t
      using assms(1) by_service_upd [of t "my_messageID (fst row)" "my_row_message row" byID] inc
      by (auto simp: collected_def Some nread' svc my_row_message_def dest!: spec [of _ t])
    then show ?thesis by (simp add: Some)
  qed simp
  ultimately show ?thesis using assms(1) by (auto simp: collected_def)
qed

lemma my_collect_collected:
  assumes "collected limits rows nread byID" "set rs \<subseteq> rows" "my_collect limits rs nread byID = (nread', byID')"
  shows "collected limits rows nread' byID'"
  using assms
proof (induction rs arbitrary: nread byID)
  case (Cons row rs)
  let ?svc = "my_destinationServiceName (fst row)"
  let ?nread = "case limits of None \<Rightarrow> nread | Some sl \<Rightarrow> gomap_upd ?svc (gomap_get0 nread ?svc + 1) nread"
  let ?byID = "gomap_upd (my_messageID (fst row)) (my_row_message row) byID"
  have rows: "row \<in> rows" "set rs \<subseteq> rows" using Cons.prems(2) by simp_all
  show ?case
  proof (cases "case limits of None \<Rightarrow> True | Some sl \<Rightarrow> gomap_get0 nread ?svc < gomap_get0 sl ?svc")
    case True
    have "my_collect limits rs ?nread ?byID = (nread', byID')"
      using Cons.prems(3) True by (cases row) (auto simp: Let_def not_le [symmetric] split: option.splits if_splits)
    then show ?thesis by (rule Cons.IH [OF collected_step [OF Cons.prems(1) rows(1) refl refl True] rows(2)])
  next
    case False
    have "my_collect limits rs nread byID = (nread', byID')"
      using Cons.prems(3) False by (cases row) (auto simp: Let_def not_le [symmetric] split: option.splits if_splits)
    then show ?thesis by (rule Cons.IH [OF Cons.prems(1) rows(2)])
  qed
qed simp

section \<open>The messages handed out\<close>

lemma my_append_messages:
  assumes "my_append cd byID ids res = (None, res')"
  obtains msgs where "res' = res @ msgs"
    "list_all2 (\<lambda>i m. \<exists>dbm. map_of byID i = Some dbm \<and> my_toMessageProto cd dbm = Inr m) ids msgs"
  using assms
proof (induction ids arbitrary: res thesis)
  case (Cons i ids)
  from Cons.prems(2) obtain dbm m where m: "map_of byID i = Some dbm" "my_toMessageProto cd dbm = Inr m"
    and rest: "my_append cd byID ids (res @ [m]) = (None, res')"
    by (auto split: option.splits sum.splits)
  from Cons.IH [OF _ rest] obtain msgs where "res' = (res @ [m]) @ msgs"
    "list_all2 (\<lambda>i m. \<exists>dbm. map_of byID i = Some dbm \<and> my_toMessageProto cd dbm = Inr m) ids msgs" by blast
  then show ?case using m by (intro Cons.prems(1) [of "m # msgs"]) simp_all
qed simp

lemma my_toMessageProto_fields:
  assumes "my_toMessageProto cd dbm = Inr m"
  shows "addr_service (Destination m) = my_destinationServiceName dbm" "addr_client (Destination m) = my_destinationClientID dbm"
    "raw (MessageId m) = raw (my_messageID dbm)"
  using assms by (auto simp: my_toMessageProto_def BytesToMessageID_def MessageID_Bytes_def MessageID_IsNil_def raw_def empty_Message_def
      split: if_splits option.splits)

lemma service_count_by_service:
  assumes ids: "distinct ids" and "list_all2 (\<lambda>i m. \<exists>dbm. map_of byID i = Some dbm \<and> my_toMessageProto cd dbm = Inr m) ids msgs"
  shows "service_count svc msgs \<le> by_service svc byID"
proof -
  let ?of = "\<lambda>i. \<exists>dbm. map_of byID i = Some dbm \<and> my_destinationServiceName dbm = svc"
  have "service_count svc msgs = length (filter ?of ids)"
    using assms(2) by (induction rule: list_all2_induct) (auto simp: service_count_def my_toMessageProto_fields)
  also have "\<dots> = card (set (filter ?of ids))" using ids by (intro distinct_card [symmetric] distinct_filter)
  also have "\<dots> \<le> card (fst ` set (filter (\<lambda>km. my_destinationServiceName (snd km) = svc) byID))"
    by (intro card_mono) (force dest: map_of_SomeD)+
  also have "\<dots> \<le> by_service svc byID"
    using card_image_le [of "set (filter (\<lambda>km. my_destinationServiceName (snd km) = svc) byID)" fst] card_length
    by (metis (no_types, lifting) List.finite_set le_trans)
  finally show ?thesis .
qed

text \<open>
  The engine may return the locked rows in any order but returns each of them; the rows of
  \<^verbatim>\<open>pending_messages\<close> have distinct keys.
\<close>

definition any_order :: "mysql \<Rightarrow> bool" where
  "any_order en \<longleftrightarrow> (\<forall>ids. mset (lock_rows en ids) = mset ids)"

definition my_keys :: "mydb \<Rightarrow> bool" where
  "my_keys d \<longleftrightarrow> distinct (map (\<lambda>p. (mp_for_server p, mp_message_id p)) (m_pending d))"

lemma distinct_my_locked:
  assumes "any_order en" "my_keys d"
  shows "distinct (my_locked en lim ids d)" "length (my_locked en lim ids d) \<le> unat lim"
proof -
  have "distinct (map mp_message_id (filter (\<lambda>p. \<not> mp_for_server p \<and> mp_message_id p \<in> set ids) ps))"
    if "distinct (map (\<lambda>p. (mp_for_server p, mp_message_id p)) ps)" for ps
    using that by (induction ps) (auto simp: image_iff)
  then have "distinct (map mp_message_id (filter (\<lambda>p. \<not> mp_for_server p \<and> mp_message_id p \<in> set ids) (m_pending d)))"
    using assms(2) by (simp add: my_keys_def)
  moreover have "mset (lock_rows en xs) = mset xs" for xs using assms(1) by (simp add: any_order_def)
  ultimately show "distinct (my_locked en lim ids d)"
    unfolding my_locked_def by (intro distinct_take) (rule mset_eq_imp_distinct_iff [THEN iffD2])
  show "length (my_locked en lim ids d) \<le> unat lim" by (simp add: my_locked_def)
qed

lemma my_clientMessages_run:
  assumes "my_clientMessages en cd i lim limits e ([], []) d = (Inr d', (nread, msgs))"
  obtains byID ids where "my_collect limits (my_due_rows e i d) [] [] = (nread, byID)"
    "list_all2 (\<lambda>i m. \<exists>dbm. map_of byID i = Some dbm \<and> my_toMessageProto cd dbm = Inr m) ids msgs"
    "ids = [] \<or> ids = my_locked en lim (map fst byID) d" "d' = my_reschedule e ids d"
proof -
  obtain nread1 byID where byID: "my_collect limits (my_due_rows e i d) [] [] = (nread1, byID)" by force
  have same: "my_reschedule e [] d = d" by (simp add: my_reschedule_def update_where_def)
  show thesis
  proof (cases "byID = []")
    case True
    then show ?thesis using assms byID same by (intro that [of byID "[]"]) (auto simp: my_clientMessages_def)
  next
    case False
    obtain res where res: "my_append cd byID (my_locked en lim (map fst byID) d) [] = (None, res)"
      and rest: "res = msgs" "nread1 = nread" "d' = my_reschedule e (if res = [] then [] else my_locked en lim (map fst byID) d) d"
      using assms byID False same by (auto simp: my_clientMessages_def Let_def split: prod.splits option.splits if_splits)
    obtain ms where ms: "res = [] @ ms"
      "list_all2 (\<lambda>i m. \<exists>dbm. map_of byID i = Some dbm \<and> my_toMessageProto cd dbm = Inr m) (my_locked en lim (map fst byID) d) ms"
      by (rule my_append_messages [OF res])
    show ?thesis
      by (rule that [of byID "if res = [] then [] else my_locked en lim (map fst byID) d"]) (use byID rest ms in auto)
  qed
qed

lemma my_due_rowsD:
  "row \<in> set (my_due_rows e cid d) \<Longrightarrow> fst row \<in> set (m_messages d) \<and> my_destinationClientID (fst row) = ClientID_Bytes cid"
  by (auto simp: my_due_rows_def)

lemma my_messages_handed:
  assumes "collected limits (set (my_due_rows e cid d)) nread byID" "my_ok forServer d"
    and "list_all2 (\<lambda>i m. \<exists>dbm. map_of byID i = Some dbm \<and> my_toMessageProto cd dbm = Inr m) ids msgs" "m \<in> set msgs"
  shows "addr_client (Destination m) = ClientID_Bytes cid" "MessageId m \<noteq> None \<Longrightarrow> MessageId m \<in> set ids"
proof -
  obtain i dbm where i: "i \<in> set ids" "map_of byID i = Some dbm" "my_toMessageProto cd dbm = Inr m"
    using list_all2_set2D [OF assms(3,4)] by blast
  obtain row where row: "row \<in> set (my_due_rows e cid d)" "i = my_messageID (fst row)" "dbm = my_row_message row"
    using assms(1) map_of_SomeD [OF i(2)] by (auto simp: collected_def)
  have dest: "my_destinationClientID dbm = ClientID_Bytes cid" "my_messageID dbm = i"
    using my_due_rowsD [OF row(1)] by (simp_all add: row my_row_message_def)
  show "addr_client (Destination m) = ClientID_Bytes cid" using my_toMessageProto_fields(2) [OF i(3)] dest by simp
  have "i \<noteq> None" using assms(2) my_due_rowsD [OF row(1)] row(2) by (auto simp: my_ok_def list_all_iff)
  then show "MessageId m \<noteq> None \<Longrightarrow> MessageId m \<in> set ids"
    using my_toMessageProto_fields(3) [OF i(3)] dest i(1) by (auto simp: raw_def)
qed

text \<open>
  When its transaction is run once, \<^verbatim>\<open>ClientMessagesForProcessing\<close> on MySQL returns at most
  \<^verbatim>\<open>lim\<close> messages, of every service at most what its limit allows, all of them for the client, and the
  pending rows of the messages returned are rescheduled to the client retry time, in whatever order the engine
  returns the locked rows.
\<close>

lemma my_ClientMessagesForProcessing_limits:
  assumes run: "my_ClientMessagesForProcessing en [e] cd cid lim limits d = (Inr msgs, d')"
    and en: "any_order en" and keys: "my_keys d" and ok: "my_ok forServer d"
  shows "length msgs \<le> unat lim
    \<and> (\<forall>svc. case limits of None \<Rightarrow> True | Some sl \<Rightarrow> service_count svc msgs \<le> unat (gomap_get0 sl svc))
    \<and> list_all (\<lambda>m. addr_client (Destination m) = ClientID_Bytes cid) msgs
    \<and> list_all (\<lambda>p. mp_message_id p \<in> MessageId ` set msgs \<and> \<not> mp_for_server p \<longrightarrow> mp_scheduled_time p = toMicro (ClientRetryTime e)) (m_pending d')"
proof -
  obtain nread where "my_clientMessages en cd cid lim limits e ([], []) d = (Inr d', (nread, msgs))"
    using run by (auto simp: my_ClientMessagesForProcessing_def runOnce_def split: if_splits option.splits sum.splits prod.splits)
  then obtain byID ids where byID: "my_collect limits (my_due_rows e cid d) [] [] = (nread, byID)"
    and msgs: "list_all2 (\<lambda>i m. \<exists>dbm. map_of byID i = Some dbm \<and> my_toMessageProto cd dbm = Inr m) ids msgs"
    and ids: "ids = [] \<or> ids = my_locked en lim (map fst byID) d" "d' = my_reschedule e ids d"
    by (rule my_clientMessages_run)
  have col: "collected limits (set (my_due_rows e cid d)) nread byID"
    by (rule my_collect_collected [OF _ subset_refl byID]) (simp add: collected_def split: option.split)
  have distinct: "distinct ids" "length ids \<le> unat lim" using ids(1) distinct_my_locked [OF en keys] by auto
  have "length msgs \<le> unat lim" using distinct(2) list_all2_lengthD [OF msgs] by simp
  moreover have "case limits of None \<Rightarrow> True | Some sl \<Rightarrow> service_count svc msgs \<le> unat (gomap_get0 sl svc)" for svc
    using col service_count_by_service [OF distinct(1) msgs, of svc]
    by (auto simp: collected_def word_le_nat_alt split: option.split dest!: spec [of _ svc])
  moreover have "list_all (\<lambda>m. addr_client (Destination m) = ClientID_Bytes cid) msgs"
    using my_messages_handed(1) [OF col ok msgs] by (simp add: list_all_iff)
  moreover have "mp_scheduled_time p = toMicro (ClientRetryTime e)"
    if "p \<in> set (m_pending d')" "mp_message_id p \<in> MessageId ` set msgs" "\<not> mp_for_server p" for p
  proof -
    have "mp_message_id p \<noteq> None" using that(1) ok by (auto simp: ids(2) my_reschedule_def set_update_where my_ok_def list_all_iff split: if_splits)
    then have "mp_message_id p \<in> set ids" using that(2) my_messages_handed(2) [OF col ok msgs] by (metis imageE)
    then show ?thesis using that(1,3) by (auto simp: ids(2) my_reschedule_def set_update_where split: if_splits)
  qed
  ultimately show ?thesis by (simp add: list_all_iff)
qed

section \<open>A transaction that is run again\<close>





section \<open>Concrete stores\<close>

definition demo_mysql :: mysql where
  "demo_mysql = \<lparr>coerce = (\<lambda>r. r), lock_rows = rev\<rparr>"

definition demo_mydb0 :: mydb where
  "demo_mydb0 = \<lparr>m_messages = [], m_pending = [], m_contacts = [7], m_contact_messages = []\<rparr>"

definition demo_mydb :: mydb where
  "demo_mydb = snd (my_StoreMessages demo_mysql [demo_env] demo_codec [demo_message 1 ''a'', demo_message 2 ''a'', demo_message 3 ''b''] [] demo_mydb0)"

definition demo_deadlock :: env where
  "demo_deadlock = demo_later\<lparr>commit_err := Some (SqlErr ''1213'')\<rparr>"

lemma demo_mydb_stored:
  "fst (my_StoreMessages demo_mysql [demo_env] demo_codec [demo_message 1 ''a'', demo_message 2 ''a'', demo_message 3 ''b''] [] demo_mydb0) = Inr ()"
  by code_simp


text \<open>
  With service limits the count of the first attempt is kept instead: the second attempt finds every service
  at its limit and ends without an update, and the messages of the first attempt are returned although
  nothing was rescheduled.
\<close>

lemma demo_retry_limits:
  "map_prod (map_sum (\<lambda>x. x) (map MessageId)) (\<lambda>d. d)
      (my_ClientMessagesForProcessing demo_mysql [demo_deadlock, demo_later] demo_codec demo_client 3 (Some [(''a'', 2), (''b'', 1)]) demo_mydb)
     = (Inr [Some (replicate 32 3), Some (replicate 32 2), Some (replicate 32 1)], demo_mydb)"
  by code_simp

definition demo_for_server :: "gobytes \<Rightarrow> bool" where
  "demo_for_server i \<longleftrightarrow> False"

definition demo_contact_row :: contact_row where
  "demo_contact_row = \<lparr>cc_id = 7, cc_client_id = [], cc_time = 0, cc_sent_nonce = [], cc_received_nonce = [], cc_address = None\<rparr>"

lemma demo_mysql_ok: "stores_fitting demo_mysql" "any_order demo_mysql"
  by (simp_all add: demo_mysql_def stores_fitting_def any_order_def)

lemma demo_mydb_ok: "my_ok demo_for_server demo_mydb" "my_keys demo_mydb"
  by code_simp+

theorem my_StoreMessages_as_sqlite_witness:
  "StoreMessages demo_env demo_codec [demo_message 1 ''a'', demo_message 2 ''a''] [] (as_sqlite demo_mydb0 (initSchema\<lparr>t_client_contacts := [demo_contact_row]\<rparr>)) =
     (case my_StoreMessages demo_mysql [demo_env] demo_codec [demo_message 1 ''a'', demo_message 2 ''a''] [] demo_mydb0 of
        (r, d') \<Rightarrow> (r, as_sqlite d' (initSchema\<lparr>t_client_contacts := [demo_contact_row]\<rparr>)))"
proof -
  have "my_ok demo_for_server demo_mydb0" "list_all (my_admissible demo_for_server demo_codec) [demo_message 1 ''a'', demo_message 2 ''a'']"
    "my_contact_ok [] demo_mydb0" by code_simp+
  moreover have "cc_id ` set (t_client_contacts (initSchema\<lparr>t_client_contacts := [demo_contact_row]\<rparr>)) = set (m_contacts demo_mydb0)"
    by (simp add: demo_contact_row_def demo_mydb0_def)
  ultimately show ?thesis
    using my_StoreMessages_as_sqlite [of "[demo_env]", OF _ demo_mysql_ok(1)] by simp
qed

lemma my_ClientMessagesForProcessing_limits_instance:
  "\<exists>msgs d'. my_ClientMessagesForProcessing demo_mysql [demo_later] demo_codec demo_client 3 (Some [(''a'', 1), (''b'', 1)]) demo_mydb = (Inr msgs, d')
     \<and> length msgs \<le> 3 \<and> service_count ''a'' msgs \<le> 1"
proof -
  let ?run = "my_ClientMessagesForProcessing demo_mysql [demo_later] demo_codec demo_client 3 (Some [(''a'', 1), (''b'', 1)]) demo_mydb"
  have "isl (fst ?run) = False" by code_simp
  then obtain msgs d' where run: "?run = (Inr msgs, d')" by (cases ?run; cases "fst ?run") simp_all
  with my_ClientMessagesForProcessing_limits [OF run demo_mysql_ok(2) demo_mydb_ok(2,1)]
  show ?thesis by (auto simp: gomap_get0_def dest!: spec [of _ "''a''"])
qed


end
