(* ===== verification/Stream_Wire.thy ===== *)
theory Stream_Wire
  imports Proto
begin

text \<open>
  The bytes of a streaming connection between \<^verbatim>\<open>fleetspeak/src/client/https/streaming.go\<close> and
  \<^verbatim>\<open>fleetspeak/src/server/https/streaming_message_server.go\<close>: a magic number, then records, each preceded by its length as a
  varint of \<^verbatim>\<open>encoding/binary\<close>.

  A reader is the bytes it still has; reading returns a value and the rest. \<^verbatim>\<open>proto.Marshal\<close> and
  \<^verbatim>\<open>proto.Unmarshal\<close> are arguments.
\<close>

text \<open>\<^verbatim>\<open>fspb.ContactData\<close> as it is sent to a client on a stream.\<close>

record StreamData = ContactData +
  AckIndex :: u64
  DoneSending :: bool

definition magic :: u32 where
  "magic = 0xf1ee1001"

definition MaxContactSize :: int where
  "MaxContactSize = 20 * 1024 * 1024"

definition io_EOF :: error where
  "io_EOF = Err ''EOF''"

definition io_ErrUnexpectedEOF :: error where
  "io_ErrUnexpectedEOF = Err ''unexpected EOF''"

section \<open>Integers\<close>

text \<open>\<^verbatim>\<open>binary.Write\<close> of a little-endian \<^verbatim>\<open>uint32\<close>, and the server's \<^verbatim>\<open>readUint32\<close>.\<close>

definition writeUint32 :: "u32 \<Rightarrow> bytes" where
  "writeUint32 i = map (\<lambda>k. ucast (drop_bit (8 * k) i)) [0, 1, 2, 3]"

definition readUint32 :: "bytes \<Rightarrow> error + u32 \<times> bytes" where
  "readUint32 body = (if length body < 4 then Inl (if body = [] then io_EOF else io_ErrUnexpectedEOF)
     else Inr (foldr (\<lambda>b acc. acc * 256 + ucast b) (take 4 body) 0, drop 4 body))"

text \<open>
  \<^verbatim>\<open>binary.AppendUvarint\<close>, and \<^verbatim>\<open>binary.ReadUvarint\<close>, which reads at most ten bytes. The bits that \<^verbatim>\<open>|=\<close>
  sets are disjoint, so that it is an addition.
\<close>

fun AppendUvarint :: "nat \<Rightarrow> bytes" where
  "AppendUvarint n = (if n < 128 then [word_of_nat n] else word_of_nat (n mod 128 + 128) # AppendUvarint (n div 128))"

declare AppendUvarint.simps [simp del]

fun read_uvarint :: "nat \<Rightarrow> nat \<Rightarrow> bytes \<Rightarrow> error + nat \<times> bytes" where
  "read_uvarint i x [] = Inl (if i > 0 then io_ErrUnexpectedEOF else io_EOF)"
| "read_uvarint i x (b # bs) =
     (if i \<ge> 10 then Inl (Err ''binary: varint overflows a 64-bit integer'')
      else if b < 128 then
        (if i = 9 \<and> b > 1 then Inl (Err ''binary: varint overflows a 64-bit integer'')
         else Inr (x + 2 ^ (7 * i) * unat b, bs))
      else read_uvarint (i + 1) (x + 2 ^ (7 * i) * (unat b - 128)) bs)"

definition ReadUvarint :: "bytes \<Rightarrow> error + nat \<times> bytes" where
  "ReadUvarint bs = read_uvarint 0 0 bs"

section \<open>Records\<close>

text \<open>A record as both sides write it: \<^verbatim>\<open>sizeBuf\<close> and \<^verbatim>\<open>buf\<close>.\<close>

definition record_bytes :: "bytes \<Rightarrow> bytes" where
  "record_bytes buf = AppendUvarint (length buf) @ buf"

text \<open>
  The client's \<^verbatim>\<open>readContact\<close>. A size beyond what the runtime can allocate panics; \<open>maxAlloc\<close> is that limit.
\<close>

definition readContact :: "nat \<Rightarrow> (bytes \<Rightarrow> error + 'c) \<Rightarrow> bytes \<Rightarrow> error + 'c \<times> bytes" where
  "readContact maxAlloc unmarshal body =
     ebind (ReadUvarint body) (\<lambda>(size, body).
       if size > maxAlloc then Inl (Fatal ''makeslice: len out of range'')
       else if length body < size then Inl (if body = [] then io_EOF else io_ErrUnexpectedEOF)
       else ebind (unmarshal (take size body)) (\<lambda>cd. Inr (cd, drop size body)))"

text \<open>
  The server's \<^verbatim>\<open>readWrappedContactData\<close>: a size of 0 means that the length is not known, and the reader is
  read to its end.
\<close>

definition readWrappedContactData :: "(bytes \<Rightarrow> error + 'w) \<Rightarrow> int \<Rightarrow> bytes \<Rightarrow> error + 'w \<times> bytes" where
  "readWrappedContactData unmarshal sz r =
     (if sz > 0 then
        (if int (length r) < sz then Inl (Err ''error reading body'')
         else case unmarshal (take (nat sz) r) of
             Inl _ \<Rightarrow> Inl (Err ''error parsing body'')
           | Inr wcd \<Rightarrow> Inr (wcd, drop (nat sz) r))
      else case unmarshal r of
             Inl _ \<Rightarrow> Inl (Err ''error parsing body'')
           | Inr wcd \<Rightarrow> Inr (wcd, []))"

text \<open>The reading part of the server's \<^verbatim>\<open>readOne\<close> and of \<^verbatim>\<open>initialPoll\<close>.\<close>

definition read_record :: "(bytes \<Rightarrow> error + 'w) \<Rightarrow> bytes \<Rightarrow> error + 'w \<times> bytes" where
  "read_record unmarshal body =
     ebind (ReadUvarint body) (\<lambda>(size, body).
       if int size > MaxContactSize then Inl (Err ''streaming contact size too large'')
       else readWrappedContactData unmarshal (int size) body)"

definition read_initial :: "(bytes \<Rightarrow> error + 'w) \<Rightarrow> bytes \<Rightarrow> error + 'w \<times> bytes" where
  "read_initial unmarshal body = (case readUint32 body of
       Inl _ \<Rightarrow> Inl (Err ''error reading magic number'')
     | Inr (m, body) \<Rightarrow>
         if m \<noteq> magic then Inl (Err ''unknown magic number'')
         else (case ReadUvarint body of
             Inl _ \<Rightarrow> Inl (Err ''error reading size'')
           | Inr (sz, body) \<Rightarrow>
               if int sz > MaxContactSize then Inl (Err ''initial contact size too large'')
               else readWrappedContactData unmarshal (int sz) body))"

section \<open>Reading what was written\<close>

lemma AppendUvarint_neq_Nil [simp]: "AppendUvarint n \<noteq> []"
  by (subst AppendUvarint.simps) simp

lemma unat_small: "n < 256 \<Longrightarrow> unat (word_of_nat n :: u8) = n"
  by (simp add: unat_of_nat)

lemma read_uvarint_append:
  assumes "i < 10" "n * 2 ^ (7 * i) < 2 ^ 64"
  shows "read_uvarint i x (AppendUvarint n @ rest) = Inr (x + 2 ^ (7 * i) * n, rest)"
  using assms
proof (induction n arbitrary: i x rule: AppendUvarint.induct)
  case (1 n)
  show ?case
  proof (cases "n < 128")
    case True
    have "\<not> (i = 9 \<and> (word_of_nat n :: u8) > 1)"
    proof
      assume *: "i = 9 \<and> (word_of_nat n :: u8) > 1"
      then have "n > 1" using True by (simp add: word_less_nat_alt unat_small)
      then show False using * 1(3) by simp
    qed
    then show ?thesis using True 1(2)
      by (simp add: AppendUvarint.simps [of n] word_less_nat_alt unat_small)
  next
    case False
    have big: "128 * 2 ^ (7 * i) \<le> n * 2 ^ (7 * i)" using False by simp
    have i: "i < 9"
    proof (rule ccontr)
      assume "\<not> i < 9"
      with 1(2) have "i = 9" by simp
      with big 1(3) show False by simp
    qed
    have "(n div 128) * 2 ^ (7 * (i + 1)) = (n div 128) * 128 * 2 ^ (7 * i)" by (simp add: power_add algebra_simps)
    also have "\<dots> \<le> n * 2 ^ (7 * i)" by (intro mult_right_mono) simp_all
    finally have "(n div 128) * 2 ^ (7 * (i + 1)) < 2 ^ 64" using 1(3) by simp
    from 1(1) [OF False _ this] i
    have "read_uvarint (i + 1) y (AppendUvarint (n div 128) @ rest) = Inr (y + 2 ^ (7 * (i + 1)) * (n div 128), rest)" for y by simp
    moreover have "unat (word_of_nat (n mod 128 + 128) :: u8) = n mod 128 + 128" by (rule unat_small) simp
    moreover have "\<not> (word_of_nat (n mod 128 + 128) :: u8) < 128" using calculation(2) by (simp only: word_less_nat_alt) simp
    moreover have "x + 2 ^ (7 * i) * (n mod 128) + 2 ^ (7 * (i + 1)) * (n div 128) = x + 2 ^ (7 * i) * n"
    proof -
      have "2 ^ (7 * i) * n = 2 ^ (7 * i) * (n mod 128 + 128 * (n div 128))" by simp
      also have "\<dots> = 2 ^ (7 * i) * (n mod 128) + 2 ^ (7 * (i + 1)) * (n div 128)"
        by (simp only: distrib_left power_add) simp
      finally show ?thesis by simp
    qed
    ultimately show ?thesis using False 1(2) by (simp add: AppendUvarint.simps [of n])
  qed
qed

lemma ReadUvarint_AppendUvarint: "n < 2 ^ 64 \<Longrightarrow> ReadUvarint (AppendUvarint n @ rest) = Inr (n, rest)"
  using read_uvarint_append [of 0 n 0 rest] by (simp add: ReadUvarint_def)


lemma bytes_of_nat: "n < 2 ^ 32 \<Longrightarrow>
    (((n div 16777216) mod 256 * 256 + (n div 65536) mod 256) * 256 + (n div 256) mod 256) * 256 + n mod 256 = (n :: nat)"
proof -
  assume "n < 2 ^ 32"
  then have "n div 16777216 mod 256 = n div 65536 div 256" by (simp add: div_mult2_eq [symmetric])
  moreover have "n div 65536 = n div 256 div 256" by (simp add: div_mult2_eq [symmetric])
  ultimately show ?thesis by simp
qed

lemma readUint32_writeUint32: "readUint32 (writeUint32 i @ rest) = Inr (i, rest)"
proof -
  let ?b = "\<lambda>k. ucast (drop_bit (8 * k) i) :: u8"
  have b: "unat (ucast (?b k) :: u32) = unat i div 2 ^ (8 * k) mod 256" if "k \<in> {0, 1, 2, 3}" for k
    using that by (auto simp: unsigned_ucast_eq unsigned_drop_bit_eq drop_bit_eq_div take_bit_eq_mod unat_div unat_mod)
  have "unat i < 2 ^ 32" using unsigned_less [of i] by simp
  then have "((ucast (?b 3) * 256 + ucast (?b 2)) * 256 + ucast (?b 1)) * 256 + ucast (?b 0) = i"
    using bytes_of_nat [of "unat i"] b [of 3] b [of 2] b [of 1] b [of 0]
    by (simp add: word_unat_eq_iff unat_word_ariths mod_simps)
  then show ?thesis by (simp add: readUint32_def writeUint32_def)
qed

text \<open>A whole stream, read record by record until the reader is empty.\<close>

fun read_all :: "(bytes \<Rightarrow> error + 'c \<times> bytes) \<Rightarrow> nat \<Rightarrow> bytes \<Rightarrow> error + 'c list \<times> bytes" where
  "read_all rd 0 body = Inr ([], body)"
| "read_all rd (Suc k) body = ebind (rd body) (\<lambda>(c, body). ebind (read_all rd k body) (\<lambda>(cs, body). Inr (c # cs, body)))"

lemma readContact_record:
  assumes "unmarshal buf = Inr cd" "length buf \<le> maxAlloc" "length buf < 2 ^ 64"
  shows "readContact maxAlloc unmarshal (record_bytes buf @ rest) = Inr (cd, rest)"
  using assms by (simp add: readContact_def record_bytes_def ReadUvarint_AppendUvarint)

lemma read_record_record:
  assumes "unmarshal buf = Inr wcd" "int (length buf) \<le> MaxContactSize" "buf \<noteq> []"
  shows "read_record unmarshal (record_bytes buf @ rest) = Inr (wcd, rest)"
proof -
  have "length buf < 2 ^ 64" using assms(2) by (simp add: MaxContactSize_def)
  then show ?thesis using assms
    by (simp add: read_record_def record_bytes_def ReadUvarint_AppendUvarint readWrappedContactData_def)
qed

text \<open>A record of length 0 is read as one of unknown length and swallows the rest of the stream.\<close>

lemma empty_record_swallows:
  "unmarshal rest = Inr wcd \<Longrightarrow> read_record unmarshal (record_bytes [] @ rest) = Inr (wcd, [])"
  using ReadUvarint_AppendUvarint [of 0 rest]
  by (simp add: read_record_def record_bytes_def MaxContactSize_def readWrappedContactData_def)

lemma read_all_records:
  assumes "mapE unmarshal bufs = Inr wcds" "list_all (\<lambda>b. b \<noteq> [] \<and> int (length b) \<le> MaxContactSize) bufs"
  shows "read_all (read_record unmarshal) (length bufs) (concat (map record_bytes bufs) @ rest) = Inr (wcds, rest)"
  using assms
proof (induction bufs arbitrary: wcds)
  case (Cons b bufs)
  then show ?case by (auto simp: read_record_record)
qed simp

text \<open>
  C15. What a client writes on a stream, the magic number and its records, each with its length before it, the
  server reads back: the first exchange and every later read give the contact data that was written, and the rest of the
  stream is left, whatever the encoding, as long as the records are not empty and within the limit.
\<close>

theorem stream_roundtrip:
  assumes "unmarshal b = Inr w" "mapE unmarshal bufs = Inr ws"
    and "list_all (\<lambda>b. b \<noteq> [] \<and> int (length b) \<le> MaxContactSize) (b # bufs)"
  shows "ebind (read_initial unmarshal (writeUint32 magic @ record_bytes b @ concat (map record_bytes bufs) @ rest)) (\<lambda>(c, body).
      ebind (read_all (read_record unmarshal) (length bufs) body) (\<lambda>(cs, body). Inr (c # cs, body))) = Inr (w # ws, rest)"
proof -
  have "length b < 2 ^ 64" using assms(3) by (simp add: MaxContactSize_def)
  then have "read_initial unmarshal (writeUint32 magic @ record_bytes b @ more) = Inr (w, more)" for more
    using assms(1,3)
    by (simp add: read_initial_def readUint32_writeUint32 record_bytes_def ReadUvarint_AppendUvarint readWrappedContactData_def)
  then show ?thesis using read_all_records [OF assms(2)] assms(3) by simp
qed

theorem stream_roundtrip_witness:
  "ebind (read_initial (\<lambda>b. Inr b) (writeUint32 magic @ record_bytes [7] @ concat (map record_bytes [[8, 9], [10]]) @ [255])) (\<lambda>(c, body).
      ebind (read_all (read_record (\<lambda>b. Inr b)) (length [[8, 9], [10 :: u8]]) body) (\<lambda>(cs, body). Inr (c # cs, body)))
    = Inr ([7] # [[8, 9], [10]], [255])"
  by (rule stream_roundtrip) (simp_all add: MaxContactSize_def)

end
