(* ===== verification/Client_Streaming.thy ===== *)
theory Client_Streaming
  imports Stream_Wire Client_Polling
begin

text \<open>
  The streaming communicator of a client, \<^verbatim>\<open>fleetspeak/src/client/https/streaming.go\<close>, as a state machine: the goroutine of
  \<^verbatim>\<open>connectLoop\<close>, the two goroutines \<^verbatim>\<open>writeLoop\<close> and \<^verbatim>\<open>readLoop\<close> of a connection, and \<^verbatim>\<open>Reset\<close>,
  \<^verbatim>\<open>Flush\<close> and \<^verbatim>\<open>Stop\<close> that other goroutines call.

  The HTTP exchange of a connection attempt, the encodings, the clock, the measured rate of a write and the
  identity of the client are inputs of the steps. The context of a connection is the flag \<open>cn_ctx_done\<close>; a channel
  that is only closed is a flag too, and closing it again panics. The fields \<open>h_\<close> and \<open>cn_added\<close>, \<open>cn_written\<close>, \<open>cn_acked\<close> are histories: the records
  numbered so far, those handed to the connection, and the messages acknowledged on it.
  The watchdog, statistics and the file download are left out.
\<close>

definition minSendBytesThreshold :: int where
  "minSendBytesThreshold = 100 * 1024"

section \<open>The state\<close>

text \<open>\<^verbatim>\<open>writeLoop\<close> is in \<^verbatim>\<open>groupMessages\<close>, has its result (\<open>None\<close> for nil), writes, waits for the end of the
  context or has returned.\<close>

datatype write_phase = WGroup | WGrouped "MessageInfo list option" | WWrite "MessageInfo list option" | WWait | WEnded

datatype read_phase = RRead | RServerDone StreamData | REnded

record connection =
  cn_ctx_done :: bool
  cn_pending :: "(nat, MessageInfo list) gomap"
  cn_serverDone :: bool
  cn_writingDone :: bool
  cn_pendingEmpty :: bool
  cn_processed :: "(string, u64) gomap"
  cn_write :: write_phase
  cn_wcnt :: nat
  cn_lastRate :: "int option"
  cn_read :: read_phase
  cn_rcnt :: nat
  cn_rdone :: bool
  cn_added :: "MessageInfo list option list"
  cn_written :: "MessageInfo list option list"
  cn_acked :: "MessageInfo list"

text \<open>\<^verbatim>\<open>connectLoop\<close> is at its top, before the host at a position, in \<^verbatim>\<open>connect\<close> with messages to send, in the delay after
  a failure, waiting for the connection to end, or has returned.\<close>

datatype stream_phase = StTop | StHosts nat | StConnect nat "MessageInfo list" | StDelay | StConnected | StEnded

record streamComm =
  st_id :: ClientID
  st_hosts :: "string list"
  st_conf :: CommunicatorConfig
  st_ctx_done :: bool
  st_wakeUp :: bool
  st_lastContact :: gotime
  st_phase :: stream_phase
  st_con :: connection
  h_taken :: "MessageInfo list"
  h_stacked :: "MessageInfo list"
  h_stnacked :: "MessageInfo list"
  h_delivered :: "Message list"

section \<open>Configuration\<close>

definition st_configure :: "configure_env \<Rightarrow> streamComm \<Rightarrow> error option \<times> streamComm" where
  "st_configure ce s = (case ce_transport ce of
       Inl x \<Rightarrow> (Some x, s)
     | Inr i \<Rightarrow> (let s = s\<lparr>st_id := i\<rparr> in case ce_servers ce of
         Inl _ \<Rightarrow> (Some (Err ''unable to configure communicator, could not get server information''), s)
       | Inr hs \<Rightarrow> (let s = s\<lparr>st_hosts := hs\<rparr> in
           if hs = [] then (Some (Err ''no server_addresses in client configuration''), s) else (None, s))))"

definition stream_defaults :: "CommunicatorConfig \<Rightarrow> CommunicatorConfig" where
  "stream_defaults cf = cf\<lparr>
     MinFailureDelaySeconds := (if MinFailureDelaySeconds cf = 0 then 60 * 5 else MinFailureDelaySeconds cf),
     FailureSuicideTimeSeconds := (if FailureSuicideTimeSeconds cf = 0 then 60 * 60 * 24 * 7 else FailureSuicideTimeSeconds cf)\<rparr>"

definition new_connection_state :: "(string, u64) gomap \<Rightarrow> connection" where
  "new_connection_state pm = \<lparr>cn_ctx_done = False, cn_pending = [], cn_serverDone = False, cn_writingDone = False,
     cn_pendingEmpty = False, cn_processed = pm, cn_write = WGroup, cn_wcnt = 1, cn_lastRate = None,
     cn_read = RRead, cn_rcnt = 1, cn_rdone = False, cn_added = [], cn_written = [], cn_acked = []\<rparr>"

text \<open>\<^verbatim>\<open>Setup\<close>, and \<^verbatim>\<open>Start\<close> at time \<open>now\<close>.\<close>

definition st_Setup :: "configure_env \<Rightarrow> gotime \<Rightarrow> error + streamComm" where
  "st_Setup ce now = (case ce_config ce of
       None \<Rightarrow> Inl (Err ''no communicator_config in client configuration'')
     | Some cf \<Rightarrow> (case st_configure ce \<lparr>st_id = ClientID [], st_hosts = [], st_conf = stream_defaults cf, st_ctx_done = False,
           st_wakeUp = False, st_lastContact = now, st_phase = StTop, st_con = new_connection_state [],
           h_taken = [], h_stacked = [], h_stnacked = [], h_delivered = []\<rparr> of
         (Some x, _) \<Rightarrow> Inl x
       | (None, s) \<Rightarrow> Inr s))"

section \<open>Grouping messages\<close>

text \<open>
  The threshold for a rate of \<open>r\<close> bytes per ten seconds, \<^verbatim>\<open>int(rate * 10.0)\<close>; \<open>None\<close> when no rate
  is known. \<open>group_more\<close> is the loop over the messages that arrive before its timeout.
\<close>

definition size_threshold :: "int option \<Rightarrow> int" where
  "size_threshold rate = (let t = sendBytesThreshold div 2 in case rate of
       None \<Rightarrow> t
     | Some ns \<Rightarrow> (let t = (if ns < t then ns else t) in if t < minSendBytesThreshold then minSendBytesThreshold else t))"

fun group_more :: "(Message \<Rightarrow> nat) \<Rightarrow> int \<Rightarrow> MessageInfo list \<Rightarrow> int \<Rightarrow> MessageInfo list \<Rightarrow> MessageInfo list" where
  "group_more Size sizeT r sz [] = r"
| "group_more Size sizeT r sz (m # offered) =
     (if sz \<ge> sizeT \<or> length r \<ge> sendCountThreshold then r
      else group_more Size sizeT (r @ [m]) (sz + int (Size (mi_M m))) offered)"

definition groupMessages :: "(Message \<Rightarrow> nat) \<Rightarrow> int option \<Rightarrow> MessageInfo list \<Rightarrow> MessageInfo list" where
  "groupMessages Size rate offered = (case offered of
       [] \<Rightarrow> []
     | m # offered \<Rightarrow> group_more Size (size_threshold rate) [m] (2 + int (Size (mi_M m))) offered)"

section \<open>Connecting\<close>

definition connect_begin :: "(Message \<Rightarrow> nat) \<Rightarrow> nat \<Rightarrow> MessageInfo list \<Rightarrow> streamComm \<Rightarrow> streamComm" where
  "connect_begin Size i offered s = (let toSend = groupMessages Size None offered in
     s\<lparr>st_phase := StConnect i toSend, h_taken := h_taken s @ toSend\<rparr>)"

text \<open>The result of the exchange with host \<open>i\<close>: an error, or the processed counts that \<^verbatim>\<open>MakeContactData\<close>
  returned and the answer of the server, which \<^verbatim>\<open>ProcessContactData\<close> has accepted.\<close>

definition connect_result :: "nat \<Rightarrow> MessageInfo list \<Rightarrow> error + (string, u64) gomap \<times> StreamData \<Rightarrow> streamComm \<Rightarrow> streamComm" where
  "connect_result i toSend r s = (case r of
       Inl err \<Rightarrow> s\<lparr>h_stnacked := h_stnacked s @ toSend, st_phase := (if st_ctx_done s then StEnded else StHosts (i + 1))\<rparr>
     | Inr (pm, cd) \<Rightarrow> s\<lparr>h_stacked := h_stacked s @ toSend, h_delivered := h_delivered s @ Messages cd,
         st_hosts := swap_front i (st_hosts s),
         st_con := (new_connection_state pm)\<lparr>cn_ctx_done := st_ctx_done s\<rparr>, st_phase := StConnected\<rparr>)"

definition hosts_failed :: "gotime \<Rightarrow> streamComm \<Rightarrow> error + streamComm" where
  "hosts_failed now s =
     (if now - st_lastContact s > FailureSuicideTimeSeconds (st_conf s) * second
      then Inl (Fatal ''Too Lonely! Failed to contact server'')
      else Inr (s\<lparr>st_phase := StDelay\<rparr>))"

text \<open>After \<^verbatim>\<open>con.working.Wait()\<close>: what was not acknowledged is nacked.\<close>

definition connection_over :: "gotime \<Rightarrow> streamComm \<Rightarrow> streamComm" where
  "connection_over now s = s\<lparr>st_phase := StTop, st_lastContact := now,
     h_stnacked := h_stnacked s @ concat (map snd (cn_pending (st_con s)))\<rparr>"

section \<open>The write loop\<close>

definition close_writingDone :: "connection \<Rightarrow> error + connection" where
  "close_writingDone c = (if cn_writingDone c then Inl (Fatal ''close of closed channel'') else Inr (c\<lparr>cn_writingDone := True\<rparr>))"

definition write_return :: "bool \<Rightarrow> connection \<Rightarrow> error + connection" where
  "write_return steppedShutdown c = (let c = c\<lparr>cn_ctx_done := True\<rparr> in
     ebind (if steppedShutdown then Inr c else close_writingDone c) (\<lambda>c. Inr (c\<lparr>cn_write := WEnded\<rparr>)))"

definition write_fin :: "connection \<Rightarrow> error + connection" where
  "write_fin c = (if \<not> cn_ctx_done c then ebind (close_writingDone c) (\<lambda>c. Inr (c\<lparr>cn_write := WWait\<rparr>)) else write_return False c)"

definition write_add :: "MessageInfo list option \<Rightarrow> connection \<Rightarrow> error + connection" where
  "write_add msgs c = (let c = (case msgs of None \<Rightarrow> c | Some ms \<Rightarrow> c\<lparr>cn_pending := gomap_upd (cn_wcnt c) ms (cn_pending c)\<rparr>);
          c = c\<lparr>cn_wcnt := cn_wcnt c + 1, cn_added := cn_added c @ [msgs]\<rparr>
      in if cn_ctx_done c then write_return False c else Inr (c\<lparr>cn_write := WWrite msgs\<rparr>))"

text \<open>
  The counts that \<^verbatim>\<open>MakeContactData\<close> returned or its error, the error of the write if any, and the rate if
  the write was large enough to measure one. A write that fails may have reached the server.
\<close>

definition write_result :: "error + (string, u64) gomap \<Rightarrow> error option \<Rightarrow> int option \<Rightarrow> MessageInfo list option \<Rightarrow> connection \<Rightarrow> error + connection" where
  "write_result mk err rate msgs c = (case mk of
       Inl _ \<Rightarrow> write_return False (c\<lparr>cn_processed := []\<rparr>)
     | Inr pm \<Rightarrow> (let c = c\<lparr>cn_processed := pm, cn_written := cn_written c @ [msgs]\<rparr> in
         if err \<noteq> None then write_return False c
         else Inr (c\<lparr>cn_lastRate := (if rate \<noteq> None then rate else cn_lastRate c), cn_write := WGroup\<rparr>)))"

section \<open>The read loop\<close>

definition read_return :: "connection \<Rightarrow> connection" where
  "read_return c = c\<lparr>cn_ctx_done := True, cn_read := REnded\<rparr>"

text \<open>The acknowledgement of the next record, whatever the index the server sent.\<close>

definition read_ack :: "StreamData \<Rightarrow> connection \<Rightarrow> connection" where
  "read_ack cd c = (if AckIndex cd \<noteq> 0 then
       (let toAck = (case map_of (cn_pending c) (cn_rcnt c) of None \<Rightarrow> [] | Some ms \<Rightarrow> ms);
            c = c\<lparr>cn_pending := gomap_del (cn_rcnt c) (cn_pending c)\<rparr>;
            l = length (cn_pending c);
            c = (if l = 0 then c\<lparr>cn_pendingEmpty := True\<rparr> else c);
            c = c\<lparr>cn_rcnt := cn_rcnt c + 1, cn_acked := cn_acked c @ toAck\<rparr>
        in if cn_rdone c \<and> l = 0 then read_return c else c\<lparr>cn_read := RRead\<rparr>)
     else c\<lparr>cn_read := RRead\<rparr>)"

definition read_contact_step :: "error + StreamData \<Rightarrow> connection \<Rightarrow> error + connection" where
  "read_contact_step r c = (case r of
       Inl _ \<Rightarrow> Inr (read_return c)
     | Inr cd \<Rightarrow>
         if DoneSending cd then
           (if cn_serverDone c then Inl (Fatal ''close of closed channel'')
            else Inr (c\<lparr>cn_serverDone := True, cn_read := RServerDone cd\<rparr>))
         else Inr (read_ack cd c))"

text \<open>The \<^verbatim>\<open>select\<close> after \<^verbatim>\<open>DoneSending\<close>, when \<^verbatim>\<open>writingDone\<close> is closed.\<close>

definition read_writing_done :: "StreamData \<Rightarrow> connection \<Rightarrow> connection" where
  "read_writing_done cd c = (let c = c\<lparr>cn_rdone := True\<rparr> in
     if cn_pending c = [] then read_return c else read_ack cd c)"

section \<open>Other goroutines\<close>

definition st_Reset :: "streamComm \<Rightarrow> streamComm" where
  "st_Reset s = (let s = (if st_phase s = StConnected then s\<lparr>st_con := (st_con s)\<lparr>cn_ctx_done := True\<rparr>\<rparr> else s) in s\<lparr>st_wakeUp := True\<rparr>)"

definition st_Stop :: "streamComm \<Rightarrow> streamComm" where
  "st_Stop s = s\<lparr>st_ctx_done := True, st_con := (st_con s)\<lparr>cn_ctx_done := True\<rparr>\<rparr>"

text \<open>\<^verbatim>\<open>Flush\<close> polls for an active connection, returns if nothing is pending, and otherwise waits for a token of
  \<^verbatim>\<open>pendingEmpty\<close>.\<close>

datatype flush_state = FlushNoConnection | FlushReturn | FlushWaitEmpty

definition st_Flush :: "streamComm \<Rightarrow> flush_state" where
  "st_Flush s = (if st_phase s \<noteq> StConnected \<or> cn_ctx_done (st_con s) then FlushNoConnection
     else if cn_pending (st_con s) = [] then FlushReturn else FlushWaitEmpty)"

definition flush_token :: "streamComm \<Rightarrow> streamComm option" where
  "flush_token s = (if st_phase s = StConnected \<and> cn_pendingEmpty (st_con s)
     then Some (s\<lparr>st_con := (st_con s)\<lparr>cn_pendingEmpty := False\<rparr>\<rparr>) else None)"

section \<open>Steps\<close>

datatype stream_event =
    LoopStart "configure_env option"
  | ConnectBegin "MessageInfo list"
  | ConnectResult "error + (string, u64) gomap \<times> StreamData"
  | HostsFailed gotime
  | StDelayTimer
  | StDelayStop
  | StDelayWake
  | GroupFin
  | GroupBeacon
  | GroupMessages "MessageInfo list"
  | AddPending
  | WriteResult "error + (string, u64) gomap" "error option" "int option"
  | WriteWaited
  | ReadContact "error + StreamData"
  | ReadWritingDone
  | ReadCtxDone
  | ConnectionLife
  | ConnectionOver gotime
  | StReset
  | StStop
  | FlushToken

definition on_con :: "(connection \<Rightarrow> error + connection) \<Rightarrow> streamComm \<Rightarrow> error + streamComm" where
  "on_con f s = ebind (f (st_con s)) (\<lambda>c. Inr (s\<lparr>st_con := c,
     h_stacked := h_stacked s @ drop (length (cn_acked (st_con s))) (cn_acked c)\<rparr>))"

definition con_step :: "(Message \<Rightarrow> nat) \<Rightarrow> stream_event \<Rightarrow> streamComm \<Rightarrow> (error + streamComm) option" where
  "con_step Size ev s = (let c = st_con s in case ev of
       GroupFin \<Rightarrow> if cn_write c = WGroup \<and> (cn_serverDone c \<or> cn_ctx_done c) then Some (on_con write_fin s) else None
     | GroupBeacon \<Rightarrow> if cn_write c = WGroup then Some (on_con (\<lambda>c. Inr (c\<lparr>cn_write := WGrouped None\<rparr>)) s) else None
     | GroupMessages offered \<Rightarrow> if cn_write c = WGroup \<and> offered \<noteq> [] then
           (let ms = groupMessages Size (cn_lastRate c) offered in
            Some (on_con (\<lambda>c. Inr (c\<lparr>cn_write := WGrouped (Some ms)\<rparr>)) (s\<lparr>h_taken := h_taken s @ ms\<rparr>))) else None
     | AddPending \<Rightarrow> (case cn_write c of WGrouped msgs \<Rightarrow> Some (on_con (write_add msgs) s) | _ \<Rightarrow> None)
     | WriteResult mk err rate \<Rightarrow> (case cn_write c of WWrite msgs \<Rightarrow> Some (on_con (write_result mk err rate msgs) s) | _ \<Rightarrow> None)
     | WriteWaited \<Rightarrow> if cn_write c = WWait \<and> cn_ctx_done c then Some (on_con (write_return True) s) else None
     | ReadContact r \<Rightarrow> if cn_read c = RRead then
           Some (map_sum (\<lambda>x. x) (\<lambda>s. case r of Inl _ \<Rightarrow> s | Inr cd \<Rightarrow>
               if DoneSending cd \<or> cn_read (st_con s) = REnded then s else s\<lparr>h_delivered := h_delivered s @ Messages cd\<rparr>)
             (on_con (read_contact_step r) s)) else None
     | ReadWritingDone \<Rightarrow> (case cn_read c of RServerDone cd \<Rightarrow> if cn_writingDone c then
           Some (map_sum (\<lambda>x. x) (\<lambda>s. if cn_read (st_con s) = REnded then s else s\<lparr>h_delivered := h_delivered s @ Messages cd\<rparr>)
             (on_con (\<lambda>c. Inr (read_writing_done cd c)) s)) else None | _ \<Rightarrow> None)
     | ReadCtxDone \<Rightarrow> (case cn_read c of RServerDone cd \<Rightarrow> if cn_ctx_done c then Some (on_con (\<lambda>c. Inr (read_return c)) s) else None | _ \<Rightarrow> None)
     | ConnectionLife \<Rightarrow> Some (on_con (\<lambda>c. Inr (c\<lparr>cn_ctx_done := True\<rparr>)) s)
     | _ \<Rightarrow> None)"

fun stream_step :: "(Message \<Rightarrow> nat) \<Rightarrow> stream_event \<Rightarrow> streamComm \<Rightarrow> (error + streamComm) option" where
  "stream_step Size (LoopStart ce) s = (if st_phase s = StTop
     then Some (Inr ((case ce of None \<Rightarrow> s | Some ce \<Rightarrow> snd (st_configure ce s))\<lparr>st_phase := StHosts 0\<rparr>)) else None)"
| "stream_step Size (ConnectBegin offered) s = (case st_phase s of
     StHosts i \<Rightarrow> if i < length (st_hosts s) then Some (Inr (connect_begin Size i offered s)) else None | _ \<Rightarrow> None)"
| "stream_step Size (ConnectResult r) s = (case st_phase s of StConnect i toSend \<Rightarrow> Some (Inr (connect_result i toSend r s)) | _ \<Rightarrow> None)"
| "stream_step Size (HostsFailed now) s = (case st_phase s of
     StHosts i \<Rightarrow> if i \<ge> length (st_hosts s) then Some (hosts_failed now s) else None | _ \<Rightarrow> None)"
| "stream_step Size StDelayTimer s = (if st_phase s = StDelay then Some (Inr (s\<lparr>st_phase := StTop\<rparr>)) else None)"
| "stream_step Size StDelayStop s = (if st_phase s = StDelay \<and> st_ctx_done s then Some (Inr (s\<lparr>st_phase := StEnded\<rparr>)) else None)"
| "stream_step Size StDelayWake s = (if st_phase s = StDelay \<and> st_wakeUp s then Some (Inr (s\<lparr>st_wakeUp := False, st_phase := StTop\<rparr>)) else None)"
| "stream_step Size (ConnectionOver now) s = (if st_phase s = StConnected \<and> cn_write (st_con s) = WEnded \<and> cn_read (st_con s) = REnded
     then Some (Inr (connection_over now s)) else None)"
| "stream_step Size StReset s = Some (Inr (st_Reset s))"
| "stream_step Size StStop s = Some (Inr (st_Stop s))"
| "stream_step Size FlushToken s = map_option Inr (flush_token s)"
| "stream_step Size ev s = (if st_phase s = StConnected then con_step Size ev s else None)"

definition stream_next :: "(Message \<Rightarrow> nat) \<Rightarrow> streamComm \<Rightarrow> streamComm \<Rightarrow> bool" where
  "stream_next Size s t \<longleftrightarrow> (\<exists>ev. stream_step Size ev s = Some (Inr t))"

section \<open>Every message is answered once\<close>

definition in_group :: "write_phase \<Rightarrow> MessageInfo list" where
  "in_group w = (case w of WGrouped (Some ms) \<Rightarrow> ms | _ \<Rightarrow> [])"

definition con_flight :: "connection \<Rightarrow> MessageInfo list" where
  "con_flight c = concat (map snd (cn_pending c)) @ in_group (cn_write c)"

definition in_flight :: "streamComm \<Rightarrow> MessageInfo list" where
  "in_flight s = (case st_phase s of StConnect i toSend \<Rightarrow> toSend | StConnected \<Rightarrow> con_flight (st_con s) | _ \<Rightarrow> [])"

definition keys_below :: "nat \<Rightarrow> (nat, 'v) gomap \<Rightarrow> bool" where
  "keys_below n m \<longleftrightarrow> fst ` set m \<subseteq> {..<n}"

lemma keys_below_simps [simp]:
  "keys_below n []" "keys_below n m \<Longrightarrow> keys_below n (gomap_del k m)"
  "keys_below n m \<Longrightarrow> keys_below (Suc n) (gomap_upd n v m)" "keys_below n m \<Longrightarrow> keys_below (Suc n) m"
  by (auto simp: keys_below_def gomap_del_def less_Suc_eq)

text \<open>The pending records have distinct indices that have been given out, and \<^verbatim>\<open>writingDone\<close> is closed exactly
  when the write loop is done.\<close>

definition con_ok :: "connection \<Rightarrow> bool" where
  "con_ok c \<longleftrightarrow> gomap_ok (cn_pending c) \<and> keys_below (cn_wcnt c) (cn_pending c)
     \<and> (cn_writingDone c \<longleftrightarrow> cn_write c = WWait \<or> cn_write c = WEnded)"

definition stream_ok :: "streamComm \<Rightarrow> bool" where
  "stream_ok s \<longleftrightarrow> con_ok (st_con s) \<and> mset (h_taken s) = mset (h_stacked s) + mset (h_stnacked s) + mset (in_flight s)"

text \<open>A step of a connection: from \<open>c\<close>, to which the group \<open>new\<close> was given, to \<open>c'\<close>.\<close>

definition con_moves :: "MessageInfo list \<Rightarrow> connection \<Rightarrow> connection \<Rightarrow> bool" where
  "con_moves new c c' \<longleftrightarrow> con_ok c' \<and> (\<exists>acks. cn_acked c' = cn_acked c @ acks
     \<and> mset (con_flight c) + mset new = mset (con_flight c') + mset acks)"

lemma mset_pending_upd:
  "k \<notin> fst ` set m \<Longrightarrow> mset (concat (map snd (gomap_upd k ms m))) = mset (concat (map snd m)) + mset ms"
  by (induction m) auto

lemma mset_pending_del:
  assumes "gomap_ok m"
  shows "mset (concat (map snd m)) = mset (concat (map snd (gomap_del k m))) + mset (case map_of m k of None \<Rightarrow> [] | Some ms \<Rightarrow> ms)"
  using assms
proof (induction m)
  case (Cons p m)
  obtain j ms where p: "p = (j, ms)" by force
  have "gomap_ok m" and j: "j \<notin> fst ` set m" using Cons.prems by (auto simp: gomap_ok_def p)
  show ?case
  proof (cases "j = k")
    case True
    have "gomap_del k m = m" using j True by (force simp: gomap_del_def intro!: filter_True)
    then show ?thesis by (simp add: p True gomap_del_def)
  next
    case False
    then show ?thesis using Cons.IH [OF \<open>gomap_ok m\<close>] by (simp add: p gomap_del_def)
  qed
qed (simp add: gomap_del_def)

lemma con_moves_write_return:
  assumes "con_ok c" "write_return b c = Inr c'" "in_group (cn_write c) = []" "b \<longleftrightarrow> cn_write c = WWait"
  shows "con_moves [] c c'"
  using assms by (auto simp: con_moves_def write_return_def close_writingDone_def con_ok_def con_flight_def in_group_def split: if_splits)

lemma con_moves_write_add:
  assumes "con_ok c" "cn_write c = WGrouped msgs" "write_add msgs c = Inr c'"
  shows "con_moves [] c c'"
proof -
  have fresh: "cn_wcnt c \<notin> fst ` set (cn_pending c)" using assms(1) by (auto simp: con_ok_def keys_below_def)
  show ?thesis using assms mset_pending_upd [OF fresh]
    by (auto simp: con_moves_def write_add_def write_return_def close_writingDone_def con_ok_def con_flight_def in_group_def
        Let_def split: if_splits option.splits)
qed

lemma con_moves_write_result:
  assumes "con_ok c" "cn_write c = WWrite msgs" "write_result mk err rate msgs c = Inr c'"
  shows "con_moves [] c c'"
  using assms by (auto simp: con_moves_def write_result_def write_return_def close_writingDone_def con_ok_def con_flight_def in_group_def
      Let_def split: if_splits sum.splits)

lemma con_moves_write_fin:
  assumes "con_ok c" "cn_write c = WGroup" "write_fin c = Inr c'"
  shows "con_moves [] c c'"
  using assms by (auto simp: con_moves_def write_fin_def write_return_def close_writingDone_def con_ok_def con_flight_def in_group_def
      Let_def split: if_splits)

lemma con_moves_read_ack:
  assumes "con_ok c"
  shows "con_moves [] c (read_ack cd c)"
proof -
  have "gomap_ok (cn_pending c)" using assms by (simp add: con_ok_def)
  note del = mset_pending_del [OF this, of "cn_rcnt c"]
  show ?thesis using assms del
    by (auto simp: con_moves_def read_ack_def read_return_def con_ok_def con_flight_def in_group_def Let_def split: option.splits)
qed

lemma con_moves_read:
  assumes "con_ok c"
  shows "read_contact_step r c = Inr c' \<Longrightarrow> con_moves [] c c'" "con_moves [] c (read_writing_done cd c)" "con_moves [] c (read_return c)"
proof -
  have rdone: "con_moves [] c c'" if "con_moves [] (c\<lparr>cn_rdone := True\<rparr>) c'" for c'
    using that by (simp add: con_moves_def con_flight_def)
  show stop: "con_moves [] c (read_return c)"
    using assms by (simp add: con_moves_def con_ok_def con_flight_def read_return_def)
  have ok: "con_ok (c\<lparr>cn_rdone := True\<rparr>)" using assms by (simp add: con_ok_def)
  have "con_moves [] (c\<lparr>cn_rdone := True\<rparr>) (read_return (c\<lparr>cn_rdone := True\<rparr>))"
    using ok by (simp add: con_moves_def con_ok_def con_flight_def read_return_def)
  with ok show "con_moves [] c (read_writing_done cd c)"
    by (simp add: read_writing_done_def Let_def rdone con_moves_read_ack)
  have "con_moves [] c (c\<lparr>cn_serverDone := True, cn_read := p\<rparr>)" for p
    using assms by (simp add: con_moves_def con_ok_def con_flight_def)
  with assms stop show "read_contact_step r c = Inr c' \<Longrightarrow> con_moves [] c c'"
    by (auto simp: read_contact_step_def con_moves_read_ack split: sum.splits if_splits)
qed

lemma con_moves_same:
  "con_ok c \<Longrightarrow> con_moves [] c (c\<lparr>cn_ctx_done := b\<rparr>)"
  "con_ok c \<Longrightarrow> cn_write c = WGroup \<Longrightarrow> con_moves (case msgs of None \<Rightarrow> [] | Some ms \<Rightarrow> ms) c (c\<lparr>cn_write := WGrouped msgs\<rparr>)"
  by (auto simp: con_moves_def con_ok_def con_flight_def in_group_def split: option.splits)

text \<open>What a step of the connection does to the communicator.\<close>

definition con_outcome :: "MessageInfo list \<Rightarrow> connection \<Rightarrow> streamComm \<Rightarrow> streamComm \<Rightarrow> bool" where
  "con_outcome new c s s' \<longleftrightarrow> st_con s' = c \<and> st_phase s' = st_phase s \<and> h_taken s' = h_taken s @ new
     \<and> h_stacked s' = h_stacked s @ drop (length (cn_acked (st_con s))) (cn_acked c) \<and> h_stnacked s' = h_stnacked s"

lemma on_con_outcome: "on_con f s = Inr s' \<Longrightarrow> f (st_con s) = Inr (st_con s') \<and> con_outcome [] (st_con s') s s'"
  by (auto simp: on_con_def con_outcome_def)

lemma moved:
  assumes "on_con f s = Inr t" "\<And>c. f (st_con s) = Inr c \<Longrightarrow> con_moves [] (st_con s) c" "s' = t \<or> s' = t\<lparr>h_delivered := ms\<rparr>"
  shows "\<exists>new c. con_moves new (st_con s) c \<and> con_outcome new c s s'"
proof -
  have "con_outcome [] (st_con t) s s'" using on_con_outcome [OF assms(1)] assms(3) by (auto simp: con_outcome_def)
  then show ?thesis using on_con_outcome [OF assms(1)] assms(2) by blast
qed

lemma grouped:
  assumes "on_con (\<lambda>c. Inr (c\<lparr>cn_write := WGrouped msgs\<rparr>)) (s\<lparr>h_taken := h_taken s @ ms\<rparr>) = Inr s'"
    and "con_ok (st_con s)" "cn_write (st_con s) = WGroup" "ms = (case msgs of None \<Rightarrow> [] | Some ms \<Rightarrow> ms)"
  shows "\<exists>new c. con_moves new (st_con s) c \<and> con_outcome new c s s'"
  using on_con_outcome [OF assms(1)] con_moves_same(2) [OF assms(2,3), of msgs] assms(4)
  by (intro exI [of _ ms] exI [of _ "st_con s'"]) (auto simp: con_outcome_def)

text \<open>The steps of the write loop, then those of the read loop.\<close>

lemma write_step_moves:
  assumes "con_step Size ev s = Some (Inr s')" and ok: "con_ok (st_con s)"
    and "ev \<in> {GroupFin, GroupBeacon, AddPending, WriteWaited} \<union> range GroupMessages \<union> {WriteResult mk err rate | mk err rate. True}"
  shows "\<exists>new c. con_moves new (st_con s) c \<and> con_outcome new c s s'"
proof -
  have fin: ?thesis if "on_con write_fin s = Inr s'" "cn_write (st_con s) = WGroup"
    using moved [OF that(1)] con_moves_write_fin [OF ok that(2)] by blast
  have beacon: ?thesis if "on_con (\<lambda>c. Inr (c\<lparr>cn_write := WGrouped None\<rparr>)) s = Inr s'" "cn_write (st_con s) = WGroup"
    by (rule grouped [of None s "[]"]) (use that ok in simp_all)
  have group: ?thesis
    if "on_con (\<lambda>c. Inr (c\<lparr>cn_write := WGrouped (Some ms)\<rparr>)) (s\<lparr>h_taken := h_taken s @ ms\<rparr>) = Inr s'" "cn_write (st_con s) = WGroup" for ms
    by (rule grouped [OF that(1) ok that(2)]) simp
  have add: ?thesis if "on_con (write_add msgs) s = Inr s'" "cn_write (st_con s) = WGrouped msgs" for msgs
    using moved [OF that(1)] con_moves_write_add [OF ok that(2)] by blast
  have result: ?thesis if "on_con (write_result mk err rate msgs) s = Inr s'" "cn_write (st_con s) = WWrite msgs" for mk err rate msgs
    using moved [OF that(1)] con_moves_write_result [OF ok that(2)] by blast
  have waited: ?thesis if "on_con (write_return True) s = Inr s'" "cn_write (st_con s) = WWait"
    using moved [OF that(1)] con_moves_write_return [OF ok, of True] that(2) by (auto simp: in_group_def)
  show ?thesis using assms(1,3) fin beacon group add result waited
    by (auto simp: con_step_def Let_def split: if_splits write_phase.splits)
qed

lemma read_step_moves:
  assumes "con_step Size ev s = Some (Inr s')" and ok: "con_ok (st_con s)"
    and "ev \<in> {ReadWritingDone, ReadCtxDone, ConnectionLife} \<union> range ReadContact"
  shows "\<exists>new c. con_moves new (st_con s) c \<and> con_outcome new c s s'"
proof -
  have contact: ?thesis if "on_con (read_contact_step r) s = Inr t" "s' = t \<or> s' = t\<lparr>h_delivered := ms\<rparr>" for r t ms
    using moved [OF that(1) _ that(2)] con_moves_read(1) [OF ok] by blast
  have writing: ?thesis if "on_con (\<lambda>c. Inr (read_writing_done cd c)) s = Inr t" "s' = t \<or> s' = t\<lparr>h_delivered := ms\<rparr>" for cd t ms
    by (rule moved [OF that(1) _ that(2)]) (use con_moves_read(2) [OF ok, of cd] in simp)
  have ctx: ?thesis if "on_con (\<lambda>c. Inr (read_return c)) s = Inr s'"
    by (rule moved [OF that]) (use con_moves_read(3) [OF ok] in simp_all)
  have life: ?thesis if "on_con (\<lambda>c. Inr (c\<lparr>cn_ctx_done := True\<rparr>)) s = Inr s'"
    by (rule moved [OF that]) (use con_moves_same(1) [OF ok, of True] in simp_all)
  consider r where "ev = ReadContact r" | "ev = ReadWritingDone" | "ev = ReadCtxDone" | "ev = ConnectionLife" using assms(3) by auto
  then show ?thesis
  proof cases
    case (1 r)
    with assms(1) obtain t ms where "on_con (read_contact_step r) s = Inr t" "s' = t \<or> s' = t\<lparr>h_delivered := ms\<rparr>"
      by (cases "on_con (read_contact_step r) s") (auto simp: con_step_def Let_def split: if_splits sum.splits)
    then show ?thesis by (rule contact)
  next
    case 2
    with assms(1) obtain cd where cd: "cn_read (st_con s) = RServerDone cd" by (cases "cn_read (st_con s)") (auto simp: con_step_def)
    with assms(1) 2 obtain t ms where "on_con (\<lambda>c. Inr (read_writing_done cd c)) s = Inr t" "s' = t \<or> s' = t\<lparr>h_delivered := ms\<rparr>"
      by (cases "on_con (\<lambda>c. Inr (read_writing_done cd c)) s") (auto simp: con_step_def Let_def split: if_splits)
    then show ?thesis by (rule writing)
  next
    case 3
    with assms(1) ctx show ?thesis by (auto simp: con_step_def Let_def split: if_splits read_phase.splits)
  next
    case 4
    with assms(1) life show ?thesis by (simp add: con_step_def)
  qed
qed

lemma con_step_moves:
  assumes "con_step Size ev s = Some (Inr s')" "con_ok (st_con s)"
  shows "\<exists>new c. con_moves new (st_con s) c \<and> con_outcome new c s s'"
proof -
  have "ev \<in> {GroupFin, GroupBeacon, AddPending, WriteWaited} \<union> range GroupMessages \<union> {WriteResult mk err rate | mk err rate. True}
      \<or> ev \<in> {ReadWritingDone, ReadCtxDone, ConnectionLife} \<union> range ReadContact"
    using assms(1) by (cases ev) (auto simp: con_step_def)
  then show ?thesis using write_step_moves [OF assms] read_step_moves [OF assms] by blast
qed

lemma stream_ok_con:
  assumes "stream_ok s" "st_phase s = StConnected" "con_moves new (st_con s) c" "con_outcome new c s s'"
  shows "stream_ok s'"
  using assms by (auto simp: stream_ok_def con_moves_def con_outcome_def in_flight_def)

lemma st_configure_frame:
  "st_con (snd (st_configure ce s)) = st_con s" "h_taken (snd (st_configure ce s)) = h_taken s"
  "h_stacked (snd (st_configure ce s)) = h_stacked s" "h_stnacked (snd (st_configure ce s)) = h_stnacked s"
  by (auto simp: st_configure_def Let_def split: sum.split)

lemma con_ok_new: "con_ok ((new_connection_state pm)\<lparr>cn_ctx_done := b\<rparr>)" "con_ok (new_connection_state pm)"
  "con_flight ((new_connection_state pm)\<lparr>cn_ctx_done := b\<rparr>) = []"
  by (simp_all add: con_ok_def new_connection_state_def con_flight_def in_group_def)

lemma stream_ok_start: "st_Setup ce now = Inr s \<Longrightarrow> stream_ok s"
  by (auto simp: st_Setup_def st_configure_def stream_ok_def in_flight_def con_ok_new Let_def split: option.splits sum.splits if_splits)

lemma stream_ok_frame [simp]:
  "stream_ok (s\<lparr>st_wakeUp := b\<rparr>) = stream_ok s" "stream_ok (s\<lparr>st_ctx_done := b\<rparr>) = stream_ok s"
  "stream_ok (s\<lparr>st_con := (st_con s)\<lparr>cn_ctx_done := b\<rparr>\<rparr>) = stream_ok s"
  "stream_ok (s\<lparr>st_con := (st_con s)\<lparr>cn_pendingEmpty := b\<rparr>\<rparr>) = stream_ok s"
  by (simp_all add: stream_ok_def in_flight_def con_ok_def con_flight_def cong: stream_phase.case_cong)

lemma stream_ok_idle:
  assumes "stream_ok s" "in_flight s = []" "p \<in> {StTop, StDelay, StEnded} \<union> range StHosts"
  shows "stream_ok (s\<lparr>st_phase := p\<rparr>)" "stream_ok (s\<lparr>st_wakeUp := b, st_phase := p\<rparr>)"
  using assms by (auto simp: stream_ok_def in_flight_def)

lemma stream_ok_step:
  assumes "stream_ok s" "stream_step Size ev s = Some (Inr s')"
  shows "stream_ok s'"
proof -
  have con: ?thesis if "st_phase s = StConnected" "con_step Size ev s = Some (Inr s')"
    using con_step_moves [OF that(2)] stream_ok_con [OF assms(1) that(1)] assms(1) by (auto simp: stream_ok_def)
  have base: "con_ok (st_con s)" "mset (h_taken s) = mset (h_stacked s) + mset (h_stnacked s) + mset (in_flight s)"
    using assms(1) by (simp_all add: stream_ok_def)
  show ?thesis
  proof (cases ev)
    case (LoopStart ce)
    then show ?thesis using assms(2) base
      by (auto simp: stream_ok_def in_flight_def st_configure_frame split: if_splits option.splits)
  next
    case (ConnectBegin offered)
    then obtain i where "st_phase s = StHosts i" "s' = connect_begin Size i offered s"
      using assms(2) by (auto split: stream_phase.splits if_splits)
    then show ?thesis using base by (simp add: stream_ok_def connect_begin_def in_flight_def Let_def)
  next
    case (ConnectResult r)
    then obtain i toSend where "st_phase s = StConnect i toSend" "s' = connect_result i toSend r s"
      using assms(2) by (auto split: stream_phase.splits)
    then show ?thesis using base by (auto simp: stream_ok_def connect_result_def in_flight_def con_ok_new split: sum.split)
  next
    case (HostsFailed now)
    then obtain i where "st_phase s = StHosts i" "s' = s\<lparr>st_phase := StDelay\<rparr>"
      using assms(2) by (auto simp: hosts_failed_def split: stream_phase.splits if_splits)
    then show ?thesis using base by (simp add: stream_ok_def in_flight_def)
  next
    case (ConnectionOver now)
    then have "st_phase s = StConnected" "cn_write (st_con s) = WEnded" "s' = connection_over now s"
      using assms(2) by (auto split: if_splits)
    then show ?thesis using base by (simp add: stream_ok_def connection_over_def in_flight_def con_flight_def in_group_def)
  next
    case StReset
    then show ?thesis using assms by (auto simp: st_Reset_def Let_def)
  next
    case StStop
    have "stream_ok ((s\<lparr>st_ctx_done := True\<rparr>)\<lparr>st_con := (st_con (s\<lparr>st_ctx_done := True\<rparr>))\<lparr>cn_ctx_done := True\<rparr>\<rparr>)"
      using assms(1) by (simp only: stream_ok_frame)
    with StStop show ?thesis using assms(2) by (auto simp: st_Stop_def)
  next
    case FlushToken
    then show ?thesis using assms by (auto simp: flush_token_def split: if_splits)
  next
    case StDelayTimer
    then show ?thesis using assms by (auto simp: in_flight_def intro!: stream_ok_idle split: if_splits)
  next
    case StDelayStop
    then show ?thesis using assms by (auto simp: in_flight_def intro!: stream_ok_idle split: if_splits)
  next
    case StDelayWake
    then show ?thesis using assms by (auto simp: in_flight_def intro!: stream_ok_idle split: if_splits)
  qed (use assms(2) con in \<open>simp_all split: if_splits\<close>)
qed

lemma write_no_panic:
  assumes "con_ok c"
  shows "cn_write c = WGroup \<Longrightarrow> \<exists>c'. write_fin c = Inr c'"
    "cn_write c = WGrouped msgs \<Longrightarrow> \<exists>c'. write_add msgs c = Inr c'"
    "cn_write c = WWrite msgs \<Longrightarrow> \<exists>c'. write_result mk err rate msgs c = Inr c'"
    "\<exists>c'. write_return True c = Inr c'"
  using assms by (auto simp: con_ok_def write_fin_def write_add_def write_result_def write_return_def close_writingDone_def Let_def
      split: option.split sum.split)

lemma con_step_panic:
  assumes "con_step Size ev s = Some (Inl x)" "con_ok (st_con s)"
  shows "\<exists>cd. ev = ReadContact (Inr cd) \<and> DoneSending cd \<and> cn_serverDone (st_con s)"
proof -
  have "on_con f s = Inl x \<longleftrightarrow> f (st_con s) = Inl x" for f by (cases "f (st_con s)") (simp_all add: on_con_def)
  note on = this
  show ?thesis
  proof (cases ev)
    case (GroupMessages offered)
    then show ?thesis using assms(1) by (auto simp: con_step_def Let_def on_con_def split: if_splits)
  next
    case (WriteResult mk err rate)
    then obtain msgs where "cn_write (st_con s) = WWrite msgs" "write_result mk err rate msgs (st_con s) = Inl x"
      using assms(1) by (auto simp: con_step_def Let_def on split: write_phase.splits)
    then show ?thesis using write_no_panic(3) [OF assms(2), of msgs mk err rate] by auto
  next
    case (ReadContact r)
    then show ?thesis using assms(1)
      by (auto simp: con_step_def Let_def on_con_def read_contact_step_def split: if_splits sum.splits)
  qed (use assms write_no_panic [OF assms(2)] in \<open>auto simp: con_step_def Let_def on on_con_def split: if_splits write_phase.splits read_phase.splits\<close>)
qed

interpretation streaming: step_invariant "\<lambda>s. \<exists>ce now. st_Setup ce now = Inr s" "stream_next Size" stream_ok for Size
  by unfold_locales (auto simp: stream_next_def intro: stream_ok_start stream_ok_step)

lemma stream_step_panic:
  assumes "stream_ok s" "stream_step Size ev s = Some (Inl x)"
  shows "(\<exists>now. ev = HostsFailed now \<and> now - st_lastContact s > FailureSuicideTimeSeconds (st_conf s) * second)
    \<or> (\<exists>cd. ev = ReadContact (Inr cd) \<and> DoneSending cd \<and> cn_serverDone (st_con s))"
proof -
  have con: ?thesis if "con_step Size ev s = Some (Inl x)"
    using con_step_panic [OF that] assms(1) by (auto simp: stream_ok_def)
  show ?thesis
    by (cases ev) (use assms(2) con in \<open>auto simp: hosts_failed_def split: if_splits stream_phase.splits\<close>)
qed

text \<open>
  C14. In every run of the streaming communicator, under every interleaving of its three loops with \<^verbatim>\<open>Reset\<close>, \<^verbatim>\<open>Stop\<close>
  and \<^verbatim>\<open>Flush\<close>, each message taken from the outbox is acknowledged once, nacked once or still in flight, and none is in flight
  outside a connection attempt or a connection; and the only steps that end the process are the deliberate one, after connections have
  failed for longer than \<^verbatim>\<open>FailureSuicideTimeSeconds\<close>, and a second \<^verbatim>\<open>DoneSending\<close> from the server, which closes a
  closed channel.
\<close>

theorem streaming_exactly_once:
  assumes "st_Setup ce now = Inr s0" "reach (stream_next Size) s0 s"
  shows "mset (h_taken s) = mset (h_stacked s) + mset (h_stnacked s) + mset (in_flight s)
    \<and> (st_phase s \<in> {StTop, StDelay, StEnded} \<longrightarrow> in_flight s = [])
    \<and> (\<forall>ev x. stream_step Size ev s = Some (Inl x) \<longrightarrow>
        (\<exists>now. ev = HostsFailed now \<and> now - st_lastContact s > FailureSuicideTimeSeconds (st_conf s) * second)
        \<or> (\<exists>cd. ev = ReadContact (Inr cd) \<and> DoneSending cd \<and> cn_serverDone (st_con s)))"
proof -
  have ok: "stream_ok s" using streaming.reachable_inv [of s0 Size s] assms by blast
  then show ?thesis using stream_step_panic [OF ok] by (auto simp: stream_ok_def in_flight_def)
qed

fun stream_run :: "(Message \<Rightarrow> nat) \<Rightarrow> stream_event list \<Rightarrow> streamComm \<Rightarrow> streamComm option" where
  "stream_run Size [] s = Some s"
| "stream_run Size (ev # evs) s = (case stream_step Size ev s of Some (Inr t) \<Rightarrow> stream_run Size evs t | _ \<Rightarrow> None)"

lemma stream_run_reach: "stream_run Size evs s = Some t \<Longrightarrow> reach (stream_next Size) s0 s \<Longrightarrow> reach (stream_next Size) s0 t"
proof (induction evs arbitrary: s)
  case (Cons ev evs)
  then obtain u where u: "stream_step Size ev s = Some (Inr u)" "stream_run Size evs u = Some t"
    by (auto split: option.splits sum.splits)
  have "stream_next Size s u" using u(1) by (auto simp: stream_next_def)
  with Cons.prems(2) have "reach (stream_next Size) s0 u" by (rule reach.intros)
  then show ?case by (rule Cons.IH [OF u(2)])
qed simp

definition demo_answer :: "u64 \<Rightarrow> StreamData" where
  "demo_answer n = \<lparr>SequencingNonce = 0, Messages = [], ClientClock = None, AllowedMessages = [], AckIndex = n, DoneSending = False\<rparr>"

definition demo_stream_start :: streamComm where
  "demo_stream_start = (case st_Setup (demo_configure 1) 5 of Inr s \<Rightarrow> s | Inl _ \<Rightarrow> undefined)"

definition demo_records :: "stream_event list" where
  "demo_records = [LoopStart None, ConnectBegin [demo_mi 1], ConnectResult (Inr ([], demo_answer 0)),
     GroupMessages [demo_mi 2], AddPending, WriteResult (Inr []) None None, GroupMessages [demo_mi 3], ReadContact (Inr (demo_answer 1)),
     AddPending]"

definition demo_streamed :: streamComm where
  "demo_streamed = (case stream_run (\<lambda>_. 3) (demo_records @ [StStop, WriteResult (Inl io_EOF) None None, ReadContact (Inl io_EOF),
     ConnectionOver 9]) demo_stream_start of Some s \<Rightarrow> s | None \<Rightarrow> demo_stream_start)"

theorem streaming_exactly_once_witness:
  "st_phase demo_streamed = StTop
   \<and> mset (h_taken demo_streamed) = mset (h_stacked demo_streamed) + mset (h_stnacked demo_streamed) + mset (in_flight demo_streamed)
   \<and> in_flight demo_streamed = []
   \<and> h_stacked demo_streamed = [demo_mi 1, demo_mi 2] \<and> h_stnacked demo_streamed = [demo_mi 3]"
proof -
  have start: "st_Setup (demo_configure 1) 5 = Inr demo_stream_start" by code_simp
  have "(case stream_run (\<lambda>_. 3) (demo_records @ [StStop, WriteResult (Inl io_EOF) None None, ReadContact (Inl io_EOF),
     ConnectionOver 9]) demo_stream_start of Some s \<Rightarrow> True | None \<Rightarrow> False)" by code_simp
  then have "reach (stream_next (\<lambda>_. 3)) demo_stream_start demo_streamed"
    by (auto simp: demo_streamed_def intro: stream_run_reach reach.intros split: option.splits)
  moreover have "st_phase demo_streamed = StTop" "h_stacked demo_streamed = [demo_mi 1, demo_mi 2]" "h_stnacked demo_streamed = [demo_mi 3]"
    by code_simp+
  ultimately show ?thesis using streaming_exactly_once [OF start] by simp
qed

text \<open>
  A \<^verbatim>\<open>Flush\<close> can return too early: the acknowledgement of the only pending record leaves a token in
  \<^verbatim>\<open>pendingEmpty\<close>, and a \<^verbatim>\<open>Flush\<close> after the next record was sent takes it although that record is pending.
\<close>

lemma stale_flush_token:
  "map_option (\<lambda>s. (st_Flush s, map fst (cn_pending (st_con s)), flush_token s \<noteq> None)) (stream_run (\<lambda>_. 3) demo_records demo_stream_start)
     = Some (FlushWaitEmpty, [2], True)"
  by code_simp

section \<open>Acknowledgements\<close>

text \<open>
  The records of a connection in the order of their numbers, and the acknowledgements that fit them: as long as
  the server acknowledges no more records than were written, the messages acknowledged are those of the first
  records, in order, and the others are pending.
\<close>

definition msgs_of :: "MessageInfo list option \<Rightarrow> MessageInfo list" where
  "msgs_of r = (case r of None \<Rightarrow> [] | Some ms \<Rightarrow> ms)"

definition written_ok :: "write_phase \<Rightarrow> MessageInfo list option list \<Rightarrow> MessageInfo list option list \<Rightarrow> bool" where
  "written_ok w added written \<longleftrightarrow> (case w of
       WWrite msgs \<Rightarrow> added = written @ [msgs]
     | WGroup \<Rightarrow> added = written
     | WGrouped _ \<Rightarrow> added = written
     | _ \<Rightarrow> (\<exists>rest. added = written @ rest))"

definition con_ordered :: "connection \<Rightarrow> bool" where
  "con_ordered c \<longleftrightarrow> cn_wcnt c = length (cn_added c) + 1 \<and> 1 \<le> cn_rcnt c \<and> cn_rcnt c \<le> cn_wcnt c
     \<and> cn_acked c = concat (map msgs_of (take (cn_rcnt c - 1) (cn_added c)))
     \<and> (\<forall>k. map_of (cn_pending c) k = (if cn_rcnt c \<le> k \<and> k < cn_wcnt c then cn_added c ! (k - 1) else None))
     \<and> written_ok (cn_write c) (cn_added c) (cn_written c)"

lemma con_ordered_new: "con_ordered ((new_connection_state pm)\<lparr>cn_ctx_done := b\<rparr>)"
  by (simp add: con_ordered_def new_connection_state_def written_ok_def)

lemma con_ordered_frame [simp]:
  "con_ordered (c\<lparr>cn_read := x\<rparr>) = con_ordered c" "con_ordered (c\<lparr>cn_ctx_done := b\<rparr>) = con_ordered c"
  "con_ordered (c\<lparr>cn_pendingEmpty := b\<rparr>) = con_ordered c" "con_ordered (c\<lparr>cn_rdone := b\<rparr>) = con_ordered c"
  "con_ordered (c\<lparr>cn_serverDone := b\<rparr>) = con_ordered c" "con_ordered (c\<lparr>cn_writingDone := b\<rparr>) = con_ordered c"
  "con_ordered (c\<lparr>cn_processed := pm\<rparr>) = con_ordered c" "con_ordered (c\<lparr>cn_lastRate := r\<rparr>) = con_ordered c"
  by (simp_all add: con_ordered_def)

lemma con_ordered_pop:
  assumes "con_ordered c" "cn_rcnt c < cn_wcnt c" "gomap_del (cn_rcnt c) (cn_pending c) = p"
  shows "con_ordered (c\<lparr>cn_pending := p, cn_pendingEmpty := b, cn_rcnt := cn_rcnt c + 1,
    cn_acked := cn_acked c @ (case map_of (cn_pending c) (cn_rcnt c) of None \<Rightarrow> [] | Some ms \<Rightarrow> ms)\<rparr>)"
proof -
  let ?r = "cn_rcnt c"
  have r: "1 \<le> ?r" "?r - 1 < length (cn_added c)" using assms by (auto simp: con_ordered_def)
  have get: "map_of (cn_pending c) ?r = cn_added c ! (?r - 1)" using assms by (simp add: con_ordered_def)
  have "take ?r (cn_added c) = take (?r - 1) (cn_added c) @ [cn_added c ! (?r - 1)]"
    using take_Suc_conv_app_nth [OF r(2)] r(1) by simp
  then have "concat (map msgs_of (take ?r (cn_added c))) = cn_acked c @ (case map_of (cn_pending c) ?r of None \<Rightarrow> [] | Some ms \<Rightarrow> ms)"
    using assms by (simp add: con_ordered_def get msgs_of_def)
  moreover have "map_of (gomap_del ?r (cn_pending c)) k = (if Suc ?r \<le> k \<and> k < cn_wcnt c then cn_added c ! (k - 1) else None)" for k
    using assms(1) by (auto simp: con_ordered_def)
  ultimately show ?thesis using assms by (simp add: con_ordered_def)
qed

lemma con_ordered_ack:
  assumes "con_ordered c" "AckIndex cd \<noteq> 0 \<longrightarrow> cn_rcnt c < cn_wcnt c"
  shows "con_ordered (read_ack cd c)"
proof (cases "gomap_del (cn_rcnt c) (cn_pending c) = []")
  case True
  show ?thesis using con_ordered_pop [OF assms(1) _ True, of True] assms True by (simp add: read_ack_def read_return_def Let_def)
next
  case False
  show ?thesis using con_ordered_pop [OF assms(1) _ refl, of "cn_pendingEmpty c"] assms False by (simp add: read_ack_def read_return_def Let_def)
qed

text \<open>The operations of the two loops keep the order; an acknowledgement is only in order for a record that was numbered.\<close>

lemma con_ordered_write_phase:
  "con_ordered c \<Longrightarrow> written_ok w (cn_added c) (cn_written c) \<Longrightarrow> con_ordered (c\<lparr>cn_write := w\<rparr>)"
  by (simp add: con_ordered_def)

lemma written_ok_prefix: "written_ok w added written \<Longrightarrow> written_ok WEnded added written \<and> written_ok WWait added written"
  by (cases w) (auto simp: written_ok_def)

lemma con_ordered_return: "con_ordered c \<Longrightarrow> write_return b c = Inr c' \<Longrightarrow> con_ordered c'"
  using written_ok_prefix [of "cn_write c" "cn_added c" "cn_written c"]
  by (auto simp: write_return_def close_writingDone_def Let_def con_ordered_def split: if_splits)

lemma con_ordered_number:
  assumes "con_ordered c" "cn_write c = WGrouped msgs" "w = WWrite msgs \<or> w = WEnded"
  shows "con_ordered (c\<lparr>cn_pending := (case msgs of None \<Rightarrow> cn_pending c | Some ms \<Rightarrow> gomap_upd (cn_wcnt c) ms (cn_pending c)),
    cn_wcnt := cn_wcnt c + 1, cn_added := cn_added c @ [msgs], cn_write := w\<rparr>)"
  using assms by (auto simp: con_ordered_def written_ok_def nth_append less_Suc_eq split: option.split)

lemma con_ordered_add:
  assumes "con_ordered c" "cn_write c = WGrouped msgs" "write_add msgs c = Inr c'"
  shows "con_ordered c'"
proof -
  let ?c = "\<lambda>w. c\<lparr>cn_pending := (case msgs of None \<Rightarrow> cn_pending c | Some ms \<Rightarrow> gomap_upd (cn_wcnt c) ms (cn_pending c)),
    cn_wcnt := cn_wcnt c + 1, cn_added := cn_added c @ [msgs], cn_write := w\<rparr>"
  have "con_ordered (?c (WWrite msgs))" "con_ordered (?c WEnded)" using con_ordered_number [OF assms(1,2)] by blast+
  moreover have "c' = ?c (WWrite msgs) \<or> c' = (?c WEnded)\<lparr>cn_ctx_done := True, cn_writingDone := True\<rparr>"
    using assms(3) by (cases c) (auto simp: write_add_def write_return_def close_writingDone_def Let_def split: option.splits if_splits)
  ultimately show ?thesis by auto
qed

lemma con_ordered_result:
  assumes "con_ordered c" "cn_write c = WWrite msgs" "write_result mk err rate msgs c = Inr c'"
  shows "con_ordered c'"
proof (cases mk)
  case (Inl x)
  then show ?thesis using con_ordered_return [of "c\<lparr>cn_processed := []\<rparr>" False c'] assms by (simp add: write_result_def)
next
  case (Inr pm)
  let ?c = "\<lambda>w. c\<lparr>cn_processed := pm, cn_written := cn_written c @ [msgs], cn_write := w\<rparr>"
  have c: "con_ordered (?c w)" if "w = WGroup \<or> w = WEnded" for w
    using that assms(1,2) by (auto simp: con_ordered_def written_ok_def)
  have "c' = (?c WGroup)\<lparr>cn_lastRate := cn_lastRate c'\<rparr> \<or> c' = (?c WEnded)\<lparr>cn_ctx_done := True, cn_writingDone := True\<rparr>"
    using assms(3) Inr by (cases c) (auto simp: write_result_def write_return_def close_writingDone_def Let_def split: if_splits)
  then show ?thesis using c by (metis con_ordered_frame(2,6,8))
qed

lemma con_ordered_write:
  assumes "con_ordered c" "cn_write c = WGroup"
  shows "con_ordered (c\<lparr>cn_write := WGrouped msgs\<rparr>)" "write_fin c = Inr c' \<Longrightarrow> con_ordered c'"
proof -
  have w: "written_ok WGroup (cn_added c) (cn_written c)" using assms by (simp add: con_ordered_def)
  then show "con_ordered (c\<lparr>cn_write := WGrouped msgs\<rparr>)"
    by (intro con_ordered_write_phase [OF assms(1)]) (simp add: written_ok_def)
  have "con_ordered (c\<lparr>cn_write := WWait\<rparr>)" using con_ordered_write_phase [OF assms(1)] written_ok_prefix [OF w] by blast
  then show "write_fin c = Inr c' \<Longrightarrow> con_ordered c'" using con_ordered_return [OF assms(1), of False c']
    by (cases c) (auto simp: write_fin_def close_writingDone_def con_ordered_def split: if_splits)
qed

end
