(* ===== verification/Server_Streaming.thy ===== *)
theory Server_Streaming
  imports Stream_Wire Comms_Properties
begin

text \<open>
  The server's end of a streaming connection, \<^verbatim>\<open>fleetspeak/src/server/https/streaming_message_server.go\<close>: the first
  exchange \<^verbatim>\<open>initialPoll\<close>, and then the goroutines of a \<^verbatim>\<open>streamManager\<close>, which are \<^verbatim>\<open>readLoop\<close> with one more goroutine
  per record, \<^verbatim>\<open>notifyLoop\<close>, \<^verbatim>\<open>writeLoop\<close> and the end of \<^verbatim>\<open>ServeHTTP\<close>.

  A step is one operation of one goroutine: a channel operation, the read or the write of a record, or a call of the server. The
  record that a read returns, the error of a write, the clocks and the random inputs of a contact are inputs of the steps, and between
  two steps the rest of the server may do anything to the server's state. A send to a full channel is a step that is not
  enabled; a send to a closed one panics. A goroutine that waits for the client, in the read of a record or in the write of one, stays in
  that phase until the step that gives it the result: nothing in the model, as nothing in the code, makes that step happen. \<open>sm_ctx\<close> is \<^verbatim>\<open>m.ctx.Err()\<close>. The fields \<open>h_\<close> are histories: the
  records read, those processed and those whose processing failed, each with the count its goroutine was given, what was sent to
  \<^verbatim>\<open>m.out\<close> and what was written to the client.
\<close>

section \<open>State\<close>

text \<open>\<^verbatim>\<open>readLoop\<close> reads, sends a record to \<^verbatim>\<open>batchCh\<close> or has returned.\<close>

datatype sread_phase = SReading | SSending WrappedContactData | SReadEnded

text \<open>
  The goroutine of a record, with its \<^verbatim>\<open>curCnt\<close>: before the receive from \<^verbatim>\<open>batchCh\<close>, at the start of \<^verbatim>\<open>processOne\<close>, before
  \<^verbatim>\<open>HandleMessagesFromClient\<close> with the blocked services, after it, and at the send of the acknowledgement.
\<close>

datatype worker =
    KTake u64
  | KStart u64 WrappedContactData
  | KHandle u64 WrappedContactData "string list"
  | KNotify u64 "string list"
  | KAck u64

text \<open>\<^verbatim>\<open>notifyLoop\<close>, with \<^verbatim>\<open>errCnt\<close> and \<^verbatim>\<open>moreMsgs\<close>; \<open>NIdle\<close> waits for a notification and \<open>NSettle\<close> one more second.\<close>

datatype notify_phase =
    NTop nat bool
  | NErrWait nat
  | NIdle
  | NSettle
  | NGet nat
  | NSend ContactData nat bool
  | NSendDone
  | NEnded

text \<open>\<^verbatim>\<open>writeLoop\<close>: at its \<^verbatim>\<open>select\<close>, in \<^verbatim>\<open>writeOne\<close> with what it has taken from \<^verbatim>\<open>m.out\<close>, draining, or returned.\<close>

datatype out_phase = OLoop | OWriting StreamData | ODrain | OEnded

text \<open>\<^verbatim>\<open>ServeHTTP\<close> waits for the end of the context, calls \<^verbatim>\<open>info.Fin()\<close>, waits for the readers, then for the writer.\<close>

datatype serve_phase = VWait | VFin | VReaders | VWriter | VEnded

record ('k, 's) streamManager =
  sm_server :: "'s server"
  sm_ctx :: "error option"
  sm_info :: "'k ConnectionInfo"
  sm_localNotices :: bool
  sm_out :: "StreamData list"
  sm_out_closed :: bool
  sm_read :: sread_phase
  sm_cnt :: u64
  sm_batchCh :: "WrappedContactData list"
  sm_workers :: "worker list"
  sm_notify :: notify_phase
  sm_write :: out_phase
  sm_serve :: serve_phase
  h_read :: "WrappedContactData list"
  h_processed :: "(u64 \<times> WrappedContactData) list"
  h_failed :: "(u64 \<times> WrappedContactData) list"
  h_out :: "StreamData list"
  h_written :: "StreamData list"

definition ctx_Canceled :: error where
  "ctx_Canceled = Err ''context canceled''"

definition sm_cancel :: "('k, 's) streamManager \<Rightarrow> ('k, 's) streamManager" where
  "sm_cancel m = (if sm_ctx m = None then m\<lparr>sm_ctx := Some ctx_Canceled\<rparr> else m)"

definition out_capacity :: nat where
  "out_capacity = 5"

text \<open>A send to \<^verbatim>\<open>m.out\<close>.\<close>

definition send_out :: "StreamData \<Rightarrow> ('k, 's) streamManager \<Rightarrow> (error + ('k, 's) streamManager) option" where
  "send_out cd m = (if sm_out_closed m then Some (Inl (Fatal ''send on closed channel''))
     else if length (sm_out m) \<ge> out_capacity then None
     else Some (Inr (m\<lparr>sm_out := sm_out m @ [cd], h_out := h_out m @ [cd]\<rparr>)))"

definition call_server :: "('s server, 'a) gofn \<Rightarrow> ('k, 's) streamManager \<Rightarrow> error + 'a \<times> ('k, 's) streamManager" where
  "call_server f m = ebind (f (sm_server m)) (\<lambda>(a, s). Inr (a, m\<lparr>sm_server := s\<rparr>))"

section \<open>The first exchange\<close>

text \<open>
  \<^verbatim>\<open>initialPoll\<close> for a connection whose certificate has the key \<open>key\<close>: the status that is recorded, and the connection with what
  was written and whether there are more messages. \<open>werrs\<close> are the errors of the two writes.
\<close>

definition initialPoll :: "env \<Rightarrow> ('k, 'c, 's) server_cfg \<Rightarrow> contact_inputs \<Rightarrow> (bytes \<Rightarrow> error + WrappedContactData) \<Rightarrow>
    (ContactData \<Rightarrow> error + bytes) \<Rightarrow> error option \<times> error option \<Rightarrow> string \<Rightarrow> 'k \<Rightarrow> bytes \<Rightarrow>
    ('s server, nat \<times> (error + 'k ConnectionInfo \<times> bytes \<times> bool \<times> bytes)) gofn" where
  "initialPoll e cfg inp unmarshal marshal werrs addr key body =
     (case MakeClientID (sv_MarshalPKIX cfg) (sv_sha256 cfg) key of
        Inl _ \<Rightarrow> aret (400, Inl (Err ''unable to create client id from public key''))
      | Inr i \<Rightarrow> (case read_initial unmarshal body of
          Inl x \<Rightarrow> aret (400, Inl x)
        | Inr (wcd, body) \<Rightarrow>
            abind (InitializeConnection e cfg inp addr key wcd True) (\<lambda>r. case r of
                Inl x \<Rightarrow> if x = ErrNotAuthorized then aret (503, Inl (Err ''not authorized''))
                   else aret (500, Inl (Err ''error processing contact''))
              | Inr (info, toSend, moreMsgs) \<Rightarrow> (case marshal toSend of
                  Inl _ \<Rightarrow> abind (comms_Fin info) (\<lambda>_. aret (500, Inl (Err ''error preparing messages'')))
                | Inr outBuf \<Rightarrow>
                    if fst werrs \<noteq> None \<or> snd werrs \<noteq> None
                    then abind (comms_Fin info) (\<lambda>_. aret (500, Inl (Err ''error writing body'')))
                    else aret (200, Inr (info, record_bytes outBuf, moreMsgs, body))))))"

definition new_streamManager :: "'s server \<Rightarrow> 'k ConnectionInfo \<Rightarrow> bool \<Rightarrow> ('k, 's) streamManager" where
  "new_streamManager s info moreMsgs = \<lparr>sm_server = s, sm_ctx = None, sm_info = info, sm_localNotices = False, sm_out = [], sm_out_closed = False,
     sm_read = SReading, sm_cnt = 0, sm_batchCh = [], sm_workers = [], sm_notify = NTop 0 moreMsgs, sm_write = OLoop, sm_serve = VWait,
     h_read = [], h_processed = [], h_failed = [], h_out = [], h_written = []\<rparr>"

section \<open>Reading\<close>

text \<open>
  \<^verbatim>\<open>readOne\<close>, given what \<open>read_record\<close> returned for the next record: the status of the poll, if there is one, and the record.
\<close>

definition readOne :: "('k, 'c, 's) server_cfg \<Rightarrow> 'k ConnectionInfo \<Rightarrow> nat option \<times> (error + WrappedContactData) \<Rightarrow>
    ('s server, nat option \<times> (error + WrappedContactData)) gofn" where
  "readOne cfg info r = (case r of
       (st, Inl x) \<Rightarrow> aret (st, Inl x)
     | (_, Inr wcd) \<Rightarrow> abind (on_world (ValidateMessagesFromClient cfg info wcd)) (\<lambda>v. aret (case v of
           Inl _ \<Rightarrow> (Some 503, Inl (Err ''message validation failed''))
         | Inr _ \<Rightarrow> (Some 200, Inr wcd))))"

text \<open>The errors of reading: no \<^verbatim>\<open>PollInfo\<close> for the size, status 400 for the body.\<close>

definition read_status :: "(bytes \<Rightarrow> error + WrappedContactData) \<Rightarrow> bytes \<Rightarrow> nat option \<times> (error + WrappedContactData \<times> bytes)" where
  "read_status unmarshal body = (case ReadUvarint body of
       Inl x \<Rightarrow> (None, Inl x)
     | Inr (sz, rest) \<Rightarrow> if int sz > MaxContactSize then (None, Inl (Err ''streaming contact size too large''))
         else (Some (case readWrappedContactData unmarshal (int sz) rest of Inl _ \<Rightarrow> 400 | Inr _ \<Rightarrow> 200), read_record unmarshal body))"

lemma read_status_record: "snd (read_status unmarshal body) = read_record unmarshal body"
  by (auto simp: read_status_def read_record_def split: sum.splits)

definition read_step :: "('k, 'c, 's) server_cfg \<Rightarrow> nat option \<times> (error + WrappedContactData) \<Rightarrow>
    ('k, 's) streamManager \<Rightarrow> error + ('k, 's) streamManager" where
  "read_step cfg r m = ebind (call_server (readOne cfg (sm_info m) r) m) (\<lambda>((_, r), m). Inr (case r of
       Inl _ \<Rightarrow> (sm_cancel m)\<lparr>sm_read := SReadEnded\<rparr>
     | Inr wcd \<Rightarrow> m\<lparr>sm_cnt := sm_cnt m + 1, sm_read := SSending wcd, h_read := h_read m @ [wcd]\<rparr>))"

definition batch_send :: "nat \<Rightarrow> WrappedContactData \<Rightarrow> ('k, 's) streamManager \<Rightarrow> ('k, 's) streamManager option" where
  "batch_send cap wcd m = (if length (sm_batchCh m) < cap
     then Some (m\<lparr>sm_batchCh := sm_batchCh m @ [wcd], sm_workers := sm_workers m @ [KTake (sm_cnt m)], sm_read := SReading\<rparr>) else None)"

section \<open>Processing a record\<close>

text \<open>The services without tokens, in the order of the map.\<close>

definition blocked_services :: "'k ConnectionInfo \<Rightarrow> string list" where
  "blocked_services info = map fst (filter (\<lambda>(_, v). v = 0) (case MessageTokens info of None \<Rightarrow> [] | Some t \<Rightarrow> t))"

definition set_worker :: "nat \<Rightarrow> worker option \<Rightarrow> ('k, 's) streamManager \<Rightarrow> ('k, 's) streamManager" where
  "set_worker j k m = m\<lparr>sm_workers := (case k of
       None \<Rightarrow> take j (sm_workers m) @ drop (Suc j) (sm_workers m)
     | Some k \<Rightarrow> (sm_workers m)[j := k])\<rparr>"

text \<open>One step of goroutine \<open>j\<close>; the four middle steps are \<^verbatim>\<open>processOne\<close>.\<close>

definition worker_handle :: "env \<Rightarrow> ('k, 'c, 's) server_cfg \<Rightarrow> contact_inputs \<Rightarrow> nat \<Rightarrow> u64 \<Rightarrow> WrappedContactData \<Rightarrow> string list \<Rightarrow>
    ('k, 's) streamManager \<Rightarrow> error + ('k, 's) streamManager" where
  "worker_handle e cfg inp j n wcd bl m =
     ebind (call_server (on_world (HandleMessagesFromClient e cfg inp (sm_info m) wcd)) m) (\<lambda>((err, info), m).
       let m = m\<lparr>sm_info := info\<rparr> in
       Inr (if err \<noteq> None then (set_worker j None m)\<lparr>h_failed := h_failed m @ [(n, wcd)]\<rparr>
            else (set_worker j (Some (KNotify n bl)) m)\<lparr>h_processed := h_processed m @ [(n, wcd)]\<rparr>))"

definition worker_notify :: "nat \<Rightarrow> u64 \<Rightarrow> string list \<Rightarrow> ('k, 's) streamManager \<Rightarrow> ('k, 's) streamManager" where
  "worker_notify j n bl m = (let t = (case MessageTokens (sm_info m) of None \<Rightarrow> [] | Some t \<Rightarrow> t);
       m = (if list_ex (\<lambda>s. gomap_get0 t s > 0) bl then m\<lparr>sm_localNotices := True\<rparr> else m)
     in set_worker j (Some (KAck n)) m)"

definition ack_data :: "u64 \<Rightarrow> StreamData" where
  "ack_data n = \<lparr>SequencingNonce = 0, Messages = [], ClientClock = None, AllowedMessages = [], AckIndex = n, DoneSending = False\<rparr>"

definition worker_step :: "env \<Rightarrow> ('k, 'c, 's) server_cfg \<Rightarrow> contact_inputs \<Rightarrow> nat \<Rightarrow> ('k, 's) streamManager \<Rightarrow> (error + ('k, 's) streamManager) option" where
  "worker_step e cfg inp j m = (if j < length (sm_workers m) then (case sm_workers m ! j of
       KTake n \<Rightarrow> (case sm_batchCh m of [] \<Rightarrow> None | wcd # rest \<Rightarrow> Some (Inr (set_worker j (Some (KStart n wcd)) (m\<lparr>sm_batchCh := rest\<rparr>))))
     | KStart n wcd \<Rightarrow> Some (Inr (set_worker j (Some (KHandle n wcd (blocked_services (sm_info m)))) m))
     | KHandle n wcd bl \<Rightarrow> Some (worker_handle e cfg inp j n wcd bl m)
     | KNotify n bl \<Rightarrow> Some (Inr (worker_notify j n bl m))
     | KAck n \<Rightarrow> map_option (map_sum (\<lambda>x. x) (set_worker j None)) (send_out (ack_data n) m)) else None)"

section \<open>Messages for the client\<close>

definition sm_dispatcher_of :: "('k, 's) streamManager \<Rightarrow> Dispatcher" where
  "sm_dispatcher_of m = sv_dispatcher (sm_server m)"

definition set_dispatcher :: "Dispatcher \<Rightarrow> ('k, 's) streamManager \<Rightarrow> ('k, 's) streamManager" where
  "set_dispatcher d m = m\<lparr>sm_server := (sm_server m)\<lparr>sv_dispatcher := d\<rparr>\<rparr>"

text \<open>
  \<^verbatim>\<open>notifyLoop\<close>. A receive from \<^verbatim>\<open>m.info.Notices\<close> gives a notice or, when it is closed and empty, its end; a nil channel
  is never ready.
\<close>

datatype notice = NoticeNone | NoticeOk | NoticeClosed

definition recv_notice :: "('k, 's) streamManager \<Rightarrow> notice \<times> ('k, 's) streamManager" where
  "recv_notice m = (case Notices (sm_info m) of
       None \<Rightarrow> (NoticeNone, m)
     | Some ch \<Rightarrow> (let d = sm_dispatcher_of m; c = dp_chans d ! ch in
         if nc_buf c > 0 then (NoticeOk, set_dispatcher (d\<lparr>dp_chans := chan_recv ch (dp_chans d)\<rparr>) m)
         else if nc_closed c then (NoticeClosed, m) else (NoticeNone, m)))"

datatype notify_event =
    NTopStep bool
  | NCtx
  | NStop
  | NTimer
  | NNotice
  | NLocal
  | NGetStep env contact_inputs
  | NSendStep

definition to_StreamData :: "ContactData \<Rightarrow> StreamData" where
  "to_StreamData cd = \<lparr>SequencingNonce = SequencingNonce cd, Messages = Messages cd, ClientClock = ClientClock cd,
     AllowedMessages = AllowedMessages cd, AckIndex = 0, DoneSending = False\<rparr>"

definition done_data :: StreamData where
  "done_data = \<lparr>SequencingNonce = 0, Messages = [], ClientClock = None, AllowedMessages = [], AckIndex = 0, DoneSending = True\<rparr>"

text \<open>The call of \<^verbatim>\<open>GetMessagesForClient\<close>: an error counts, except that of the context itself.\<close>

definition notify_get :: "env \<Rightarrow> ('k, 'c, 's) server_cfg \<Rightarrow> contact_inputs \<Rightarrow> nat \<Rightarrow> ('k, 's) streamManager \<Rightarrow> error + ('k, 's) streamManager" where
  "notify_get e cfg inp errCnt m =
     ebind (call_server (GetMessagesForClient e cfg inp (sm_info m)) m) (\<lambda>((r, info), m).
       let m = m\<lparr>sm_info := info\<rparr> in
       Inr (m\<lparr>sm_notify := (case r of
           Inl x \<Rightarrow> if sm_ctx m = Some x then NEnded else NTop (errCnt + 1) False
         | Inr (None, moreMsgs) \<Rightarrow> NTop 0 moreMsgs
         | Inr (Some cd, moreMsgs) \<Rightarrow> NSend cd 0 moreMsgs)\<rparr>))"

text \<open>The \<^verbatim>\<open>switch\<close> at the top; \<open>late\<close> says that the time to stop has come.\<close>

definition notify_top :: "bool \<Rightarrow> nat \<Rightarrow> bool \<Rightarrow> ('k, 's) streamManager \<Rightarrow> notify_phase" where
  "notify_top late errCnt moreMsgs m =
     (if errCnt > 0 then NErrWait errCnt
      else if moreMsgs then (if late then NSendDone else if sm_ctx m \<noteq> None then NEnded else NGet 0)
      else NIdle)"

definition notify_to :: "notify_phase \<Rightarrow> ('k, 's) streamManager \<Rightarrow> (error + ('k, 's) streamManager) option" where
  "notify_to p m = Some (Inr (m\<lparr>sm_notify := p\<rparr>))"

definition notify_ctx :: "('k, 's) streamManager \<Rightarrow> (error + ('k, 's) streamManager) option" where
  "notify_ctx m = (if sm_ctx m \<noteq> None then notify_to NEnded m else None)"

definition notify_notice :: "notify_phase \<Rightarrow> ('k, 's) streamManager \<Rightarrow> (error + ('k, 's) streamManager) option" where
  "notify_notice closed m = (case recv_notice m of
       (NoticeNone, _) \<Rightarrow> None
     | (NoticeOk, m) \<Rightarrow> notify_to NSettle m
     | (NoticeClosed, m) \<Rightarrow> notify_to closed m)"

definition notify_send :: "StreamData \<Rightarrow> notify_phase \<Rightarrow> ('k, 's) streamManager \<Rightarrow> (error + ('k, 's) streamManager) option" where
  "notify_send cd p m = map_option (map_sum (\<lambda>x. x) (\<lambda>m. m\<lparr>sm_notify := p\<rparr>)) (send_out cd m)"

definition notify_step :: "('k, 'c, 's) server_cfg \<Rightarrow> notify_event \<Rightarrow> ('k, 's) streamManager \<Rightarrow> (error + ('k, 's) streamManager) option" where
  "notify_step cfg ev m = (case sm_notify m of
       NTop errCnt moreMsgs \<Rightarrow> (case ev of NTopStep late \<Rightarrow> notify_to (notify_top late errCnt moreMsgs m) m | _ \<Rightarrow> None)
     | NErrWait errCnt \<Rightarrow> (case ev of
           NCtx \<Rightarrow> notify_ctx m
         | NStop \<Rightarrow> notify_to NSendDone m
         | NTimer \<Rightarrow> notify_to (NGet errCnt) m
         | _ \<Rightarrow> None)
     | NIdle \<Rightarrow> (case ev of
           NCtx \<Rightarrow> notify_ctx m
         | NStop \<Rightarrow> notify_to NSendDone m
         | NNotice \<Rightarrow> notify_notice NEnded m
         | NLocal \<Rightarrow> if sm_localNotices m then notify_to NSettle (m\<lparr>sm_localNotices := False\<rparr>) else None
         | _ \<Rightarrow> None)
     | NSettle \<Rightarrow> (case ev of
           NCtx \<Rightarrow> notify_ctx m
         | NNotice \<Rightarrow> notify_notice (NGet 0) m
         | NTimer \<Rightarrow> notify_to (NGet 0) m
         | _ \<Rightarrow> None)
     | NGet errCnt \<Rightarrow> (case ev of NGetStep e inp \<Rightarrow> Some (notify_get e cfg inp errCnt m) | _ \<Rightarrow> None)
     | NSend cd errCnt moreMsgs \<Rightarrow> (case ev of NSendStep \<Rightarrow> notify_send (to_StreamData cd) (NTop errCnt moreMsgs) m | _ \<Rightarrow> None)
     | NSendDone \<Rightarrow> (case ev of NSendStep \<Rightarrow> notify_send done_data NEnded m | _ \<Rightarrow> None)
     | NEnded \<Rightarrow> None)"

section \<open>Writing and the end of the stream\<close>

text \<open>
  \<^verbatim>\<open>writeLoop\<close> takes from \<^verbatim>\<open>m.out\<close>, and the call of \<^verbatim>\<open>writeOne\<close> returns: an error ends the loop, and cancels the stream only if it was cancelled before. After the loop
  \<^verbatim>\<open>m.out\<close> is drained.
\<close>

definition write_take :: "('k, 's) streamManager \<Rightarrow> ('k, 's) streamManager option" where
  "write_take m = (if sm_write m = OLoop then (case sm_out m of
       [] \<Rightarrow> if sm_out_closed m then Some (m\<lparr>sm_write := ODrain\<rparr>) else None
     | cd # rest \<Rightarrow> Some (m\<lparr>sm_out := rest, sm_write := OWriting cd\<rparr>)) else None)"

definition write_step :: "error option \<Rightarrow> ('k, 's) streamManager \<Rightarrow> ('k, 's) streamManager option" where
  "write_step err m = (case sm_write m of
       OWriting cd \<Rightarrow> Some (if err \<noteq> None
         then (if sm_ctx m \<noteq> None then sm_cancel m else m)\<lparr>sm_write := ODrain\<rparr>
         else m\<lparr>h_written := h_written m @ [cd], sm_write := OLoop\<rparr>)
     | _ \<Rightarrow> None)"

definition write_ctx :: "('k, 's) streamManager \<Rightarrow> ('k, 's) streamManager option" where
  "write_ctx m = (if sm_write m = OLoop \<and> sm_ctx m \<noteq> None then Some (m\<lparr>sm_write := ODrain\<rparr>) else None)"

definition drain_step :: "('k, 's) streamManager \<Rightarrow> ('k, 's) streamManager option" where
  "drain_step m = (if sm_write m = ODrain then (case sm_out m of
       [] \<Rightarrow> if sm_out_closed m then Some (m\<lparr>sm_write := OEnded\<rparr>) else None
     | _ # rest \<Rightarrow> Some (m\<lparr>sm_out := rest\<rparr>)) else None)"

text \<open>The end of \<^verbatim>\<open>ServeHTTP\<close>; \<open>stopping\<close> is the server's.\<close>

definition serve_step :: "bool \<Rightarrow> ('k, 's) streamManager \<Rightarrow> (error + ('k, 's) streamManager) option" where
  "serve_step stopping m = (case sm_serve m of
       VWait \<Rightarrow> if sm_ctx m \<noteq> None \<or> stopping then Some (Inr ((sm_cancel m)\<lparr>sm_serve := VFin\<rparr>)) else None
     | VFin \<Rightarrow> Some (ebind (call_server (comms_Fin (sm_info m)) m) (\<lambda>(_, m). Inr (m\<lparr>sm_serve := VReaders\<rparr>)))
     | VReaders \<Rightarrow> if sm_read m = SReadEnded \<and> sm_notify m = NEnded \<and> sm_workers m = []
         then Some (if sm_out_closed m then Inl (Fatal ''close of closed channel'') else Inr (m\<lparr>sm_out_closed := True, sm_serve := VWriter\<rparr>)) else None
     | VWriter \<Rightarrow> if sm_write m = OEnded then Some (Inr (m\<lparr>sm_serve := VEnded\<rparr>)) else None
     | VEnded \<Rightarrow> None)"

section \<open>Steps\<close>

datatype 's server_event =
    SRead "nat option \<times> (error + WrappedContactData)"
  | SBatch
  | SWorker nat env contact_inputs
  | SNotify notify_event
  | STake
  | SWrite "error option"
  | SWriteCtx
  | SDrain
  | SServe bool
  | SContext error
  | SOther "'s server"

fun sm_step :: "('k, 'c, 's) server_cfg \<Rightarrow> nat \<Rightarrow> 's server_event \<Rightarrow> ('k, 's) streamManager \<Rightarrow> (error + ('k, 's) streamManager) option" where
  "sm_step cfg cap (SRead r) m = (if sm_read m = SReading then Some (read_step cfg r m) else None)"
| "sm_step cfg cap SBatch m = (case sm_read m of SSending wcd \<Rightarrow> map_option Inr (batch_send cap wcd m) | _ \<Rightarrow> None)"
| "sm_step cfg cap (SWorker j e inp) m = worker_step e cfg inp j m"
| "sm_step cfg cap (SNotify ev) m = notify_step cfg ev m"
| "sm_step cfg cap STake m = map_option Inr (write_take m)"
| "sm_step cfg cap (SWrite err) m = map_option Inr (write_step err m)"
| "sm_step cfg cap SWriteCtx m = map_option Inr (write_ctx m)"
| "sm_step cfg cap SDrain m = map_option Inr (drain_step m)"
| "sm_step cfg cap (SServe stopping) m = serve_step stopping m"
| "sm_step cfg cap (SContext x) m = (if sm_ctx m = None then Some (Inr (m\<lparr>sm_ctx := Some x\<rparr>)) else None)"
| "sm_step cfg cap (SOther s) m = Some (Inr (m\<lparr>sm_server := s\<rparr>))"

definition sm_next :: "('k, 'c, 's) server_cfg \<Rightarrow> nat \<Rightarrow> ('k, 's) streamManager \<Rightarrow> ('k, 's) streamManager \<Rightarrow> bool" where
  "sm_next cfg cap m m' \<longleftrightarrow> (\<exists>ev. sm_step cfg cap ev m = Some (Inr m'))"

section \<open>What becomes of the records\<close>

definition sending :: "sread_phase \<Rightarrow> WrappedContactData list" where
  "sending p = (case p of SSending wcd \<Rightarrow> [wcd] | _ \<Rightarrow> [])"

fun worker_wcd :: "worker \<Rightarrow> WrappedContactData list" where
  "worker_wcd (KStart n wcd) = [wcd]"
| "worker_wcd (KHandle n wcd bl) = [wcd]"
| "worker_wcd _ = []"

fun worker_cnt :: "worker \<Rightarrow> u64" where
  "worker_cnt (KTake n) = n"
| "worker_cnt (KStart n wcd) = n"
| "worker_cnt (KHandle n wcd bl) = n"
| "worker_cnt (KNotify n bl) = n"
| "worker_cnt (KAck n) = n"

fun is_taking :: "worker \<Rightarrow> bool" where
  "is_taking (KTake n) = True"
| "is_taking _ = False"

fun worker_processed :: "worker \<Rightarrow> bool" where
  "worker_processed (KNotify n bl) = True"
| "worker_processed (KAck n) = True"
| "worker_processed _ = False"

text \<open>The records that are still to be processed, and the acknowledgements in a list of answers.\<close>

definition waiting :: "('k, 's) streamManager \<Rightarrow> WrappedContactData list" where
  "waiting m = sending (sm_read m) @ sm_batchCh m @ concat (map worker_wcd (sm_workers m))"

definition acks :: "StreamData list \<Rightarrow> u64 list" where
  "acks cds = filter (\<lambda>n. n \<noteq> 0) (map AckIndex cds)"

definition records_ok :: "('k, 's) streamManager \<Rightarrow> bool" where
  "records_ok m \<longleftrightarrow> mset (h_read m) = mset (waiting m) + mset (map snd (h_processed m)) + mset (map snd (h_failed m))
     \<and> length (sm_batchCh m) = length (filter is_taking (sm_workers m))"

definition acks_ok :: "('k, 's) streamManager \<Rightarrow> bool" where
  "acks_ok m \<longleftrightarrow> mset (acks (h_out m)) + mset (map worker_cnt (filter worker_processed (sm_workers m))) \<subseteq># mset (map fst (h_processed m))"

text \<open>What the writer has in its hands, and whether it has dropped nothing yet.\<close>

fun in_write :: "out_phase \<Rightarrow> StreamData list" where
  "in_write (OWriting cd) = [cd]"
| "in_write _ = []"

definition lossless :: "out_phase \<Rightarrow> bool" where
  "lossless p \<longleftrightarrow> p \<noteq> ODrain \<and> p \<noteq> OEnded"

definition out_ok :: "('k, 's) streamManager \<Rightarrow> bool" where
  "out_ok m \<longleftrightarrow> (\<exists>lost. h_out m = h_written m @ lost @ in_write (sm_write m) @ sm_out m \<and> (lossless (sm_write m) \<longrightarrow> lost = []))
     \<and> length (sm_out m) \<le> out_capacity"

definition serve_ok :: "('k, 's) streamManager \<Rightarrow> bool" where
  "serve_ok m \<longleftrightarrow> (sm_out_closed m \<longleftrightarrow> sm_serve m \<in> {VWriter, VEnded})
     \<and> (sm_out_closed m \<longrightarrow> sm_read m = SReadEnded \<and> sm_notify m = NEnded \<and> sm_workers m = [])
     \<and> (sm_serve m \<noteq> VWait \<longrightarrow> sm_ctx m \<noteq> None)
     \<and> (sm_write m = OEnded \<longrightarrow> sm_out_closed m)"

definition sm_ok :: "('k, 's) streamManager \<Rightarrow> bool" where
  "sm_ok m \<longleftrightarrow> records_ok m \<and> acks_ok m \<and> out_ok m \<and> serve_ok m"

lemma sm_ok_new: "sm_ok (new_streamManager s info moreMsgs)"
  by (simp add: sm_ok_def new_streamManager_def records_ok_def waiting_def sending_def acks_ok_def acks_def out_ok_def serve_ok_def)

lemma sm_ok_frame [simp]:
  "sm_ok (m\<lparr>sm_server := s\<rparr>) = sm_ok m" "sm_ok (m\<lparr>sm_info := info\<rparr>) = sm_ok m" "sm_ok (m\<lparr>sm_localNotices := b\<rparr>) = sm_ok m"
  by (simp_all add: sm_ok_def records_ok_def waiting_def acks_ok_def out_ok_def serve_ok_def)

text \<open>Each part of the invariant depends on few fields.\<close>

lemma records_ok_cong:
  "records_ok m \<Longrightarrow> h_read m' = h_read m \<Longrightarrow> sm_read m' = sm_read m \<or> sending (sm_read m') = sending (sm_read m) \<Longrightarrow> sm_batchCh m' = sm_batchCh m \<Longrightarrow>
   sm_workers m' = sm_workers m \<Longrightarrow> h_processed m' = h_processed m \<Longrightarrow> h_failed m' = h_failed m \<Longrightarrow> records_ok m'"
  by (auto simp: records_ok_def waiting_def)

lemma acks_ok_cong:
  "acks_ok m \<Longrightarrow> acks (h_out m') = acks (h_out m) \<Longrightarrow> filter worker_processed (sm_workers m') = filter worker_processed (sm_workers m) \<Longrightarrow>
   h_processed m' = h_processed m \<Longrightarrow> acks_ok m'"
  by (simp add: acks_ok_def flip: mset_filter)

lemma out_ok_cong:
  "out_ok m \<Longrightarrow> h_out m' = h_out m \<Longrightarrow> h_written m' = h_written m \<Longrightarrow> sm_out m' = sm_out m \<Longrightarrow>
   in_write (sm_write m') = in_write (sm_write m) \<Longrightarrow> lossless (sm_write m') \<longrightarrow> lossless (sm_write m) \<Longrightarrow> out_ok m'"
  by (auto simp: out_ok_def)

lemma serve_ok_cong:
  "serve_ok m \<Longrightarrow> sm_out_closed m' = sm_out_closed m \<Longrightarrow> sm_serve m' = sm_serve m \<Longrightarrow> sm_ctx m \<noteq> None \<longrightarrow> sm_ctx m' \<noteq> None \<Longrightarrow>
   sm_write m' = OEnded \<longrightarrow> sm_out_closed m \<Longrightarrow>
   sm_out_closed m \<longrightarrow> sm_read m' = SReadEnded \<and> sm_notify m' = NEnded \<and> sm_workers m' = [] \<Longrightarrow> serve_ok m'"
  by (auto simp: serve_ok_def)

lemma sm_okI: "records_ok m \<Longrightarrow> acks_ok m \<Longrightarrow> out_ok m \<Longrightarrow> serve_ok m \<Longrightarrow> sm_ok m"
  by (simp add: sm_ok_def)

lemma sm_okD: "sm_ok m \<Longrightarrow> records_ok m" "sm_ok m \<Longrightarrow> acks_ok m" "sm_ok m \<Longrightarrow> out_ok m" "sm_ok m \<Longrightarrow> serve_ok m"
  by (simp_all add: sm_ok_def)

lemma serve_okD: "serve_ok m \<Longrightarrow> sm_out_closed m \<Longrightarrow> sm_read m = SReadEnded \<and> sm_notify m = NEnded \<and> sm_workers m = []"
    "serve_ok m \<Longrightarrow> sm_write m = OEnded \<Longrightarrow> sm_out_closed m" "serve_ok m \<Longrightarrow> sm_serve m \<noteq> VWait \<Longrightarrow> sm_ctx m \<noteq> None"
    "serve_ok m \<Longrightarrow> sm_out_closed m \<longleftrightarrow> sm_serve m \<in> {VWriter, VEnded}"
  by (auto simp: serve_ok_def)

lemmas frames = records_ok_cong [OF sm_okD(1)] acks_ok_cong [OF sm_okD(2)] out_ok_cong [OF sm_okD(3)] serve_ok_cong [OF sm_okD(4)]

lemma sm_ok_ctx: "sm_ok m \<Longrightarrow> sm_ok (m\<lparr>sm_ctx := Some x\<rparr>)" "sm_ok m \<Longrightarrow> sm_ok (sm_cancel m)"
  by (rule sm_okI; rule frames, assumption; use serve_okD [OF sm_okD(4)] in \<open>auto simp: sm_cancel_def\<close>)+

lemma sm_ok_notify: "sm_ok m \<Longrightarrow> sm_notify m \<noteq> NEnded \<or> p = NEnded \<Longrightarrow> sm_ok (m\<lparr>sm_notify := p\<rparr>)"
  by (rule sm_okI; rule frames, assumption; use serve_okD [OF sm_okD(4)] in auto)

lemma call_server_eq: "call_server f m = Inr (a, m') \<Longrightarrow> m' = m\<lparr>sm_server := sm_server m'\<rparr>"
  by (auto simp: call_server_def)

lemma call_server_ok: "call_server f m = Inr (a, m') \<Longrightarrow> sm_ok m' = sm_ok m"
  using call_server_eq [of f m a m'] sm_ok_frame(1) by metis

lemma send_out_ok:
  assumes "sm_ok m" "send_out cd m = Some (Inr m')" "AckIndex cd = 0"
  shows "sm_ok m'"
proof -
  have m': "m' = m\<lparr>sm_out := sm_out m @ [cd], h_out := h_out m @ [cd]\<rparr>" "length (sm_out m) < out_capacity"
    using assms(2) by (auto simp: send_out_def split: if_splits)
  show ?thesis
  proof (rule sm_okI)
    show "out_ok m'" using sm_okD(3) [OF assms(1)] m' by (auto simp: out_ok_def)
  qed (rule frames, rule assms(1); use m' assms(3) serve_okD [OF sm_okD(4) [OF assms(1)]] in \<open>auto simp: acks_def\<close>)+
qed

lemma read_step_ok:
  assumes "sm_ok m" "sm_read m = SReading" "read_step cfg r m = Inr m'"
  shows "sm_ok m'"
proof -
  from assms(3) obtain st q m1 where c: "call_server (readOne cfg (sm_info m) r) m = Inr ((st, q), m1)"
    and m': "m' = (case q of Inl _ \<Rightarrow> (sm_cancel m1)\<lparr>sm_read := SReadEnded\<rparr>
       | Inr wcd \<Rightarrow> m1\<lparr>sm_cnt := sm_cnt m1 + 1, sm_read := SSending wcd, h_read := h_read m1 @ [wcd]\<rparr>)"
    by (auto simp: read_step_def)
  have ok: "sm_ok m1" using call_server_ok [OF c] assms(1) by simp
  have r: "sm_read m1 = SReading" using call_server_eq [OF c] assms(2) by (metis streamManager.select_convs(7) streamManager.update_convs(1) streamManager.surjective)
  have open_out: "\<not> sm_out_closed m1" using serve_okD(1) [OF sm_okD(4) [OF ok]] r by auto
  show ?thesis
  proof (cases q)
    case (Inl x)
    have "sm_ok (sm_cancel m1)" "sm_read (sm_cancel m1) = SReading" using ok r by (simp_all add: sm_ok_ctx sm_cancel_def)
    then show ?thesis unfolding m' Inl
      by (simp only: sum.case) (rule sm_okI; rule frames, assumption; use serve_okD [OF sm_okD(4)] in \<open>auto simp: sending_def\<close>)
  next
    case (Inr wcd)
    show ?thesis
    proof (rule sm_okI)
      show "records_ok m'" using sm_okD(1) [OF ok] r by (simp add: m' Inr records_ok_def waiting_def sending_def)
    qed (rule frames, rule ok; use m' Inr open_out serve_okD [OF sm_okD(4) [OF ok]] in auto)+
  qed
qed

lemma batch_send_ok:
  assumes "sm_ok m" "sm_read m = SSending wcd" "batch_send cap wcd m = Some m'"
  shows "sm_ok m'"
proof -
  have m': "m' = m\<lparr>sm_batchCh := sm_batchCh m @ [wcd], sm_workers := sm_workers m @ [KTake (sm_cnt m)], sm_read := SReading\<rparr>"
    using assms(3) by (auto simp: batch_send_def split: if_splits)
  show ?thesis
  proof (rule sm_okI)
    show "records_ok m'" using sm_okD(1) [OF assms(1)] assms(2) by (simp add: m' records_ok_def waiting_def sending_def)
  qed (rule frames, rule assms(1); use m' assms(2) serve_okD [OF sm_okD(4) [OF assms(1)]] in auto)+
qed

lemma sm_ok_write:
  assumes "sm_ok m" "out_ok (m\<lparr>sm_out := cds, h_written := w, sm_write := p\<rparr>)" "p = OEnded \<longrightarrow> sm_out_closed m"
  shows "sm_ok (m\<lparr>sm_out := cds, h_written := w, sm_write := p\<rparr>)"
  by (rule sm_okI, rule frames(1), rule assms(1)) (use assms in \<open>auto simp: sm_ok_def acks_ok_def serve_ok_def\<close>)

lemma sm_ok_drop:
  assumes "sm_ok m" "sm_out m = cds @ rest" "sm_write m \<noteq> OEnded"
  shows "sm_ok (m\<lparr>sm_out := rest, sm_write := ODrain\<rparr>)"
proof -
  obtain lost where "h_out m = h_written m @ lost @ in_write (sm_write m) @ sm_out m" "length (sm_out m) \<le> out_capacity"
    using sm_okD(3) [OF assms(1)] by (auto simp: out_ok_def)
  then have "out_ok (m\<lparr>sm_out := rest, h_written := h_written m, sm_write := ODrain\<rparr>)"
    using assms(2) by (auto simp: out_ok_def lossless_def)
  from sm_ok_write [OF assms(1) this] show ?thesis by simp
qed

lemma write_take_ok:
  assumes "sm_ok m" "write_take m = Some m'"
  shows "sm_ok m'"
proof (cases "sm_out m")
  case Nil
  then have "m' = m\<lparr>sm_write := ODrain\<rparr>" "sm_write m = OLoop" using assms(2) by (auto simp: write_take_def split: if_splits)
  then show ?thesis using sm_ok_drop [OF assms(1), of "[]"] by simp
next
  case (Cons cd rest)
  then have m': "m' = m\<lparr>sm_out := rest, sm_write := OWriting cd\<rparr>" "sm_write m = OLoop"
    using assms(2) by (auto simp: write_take_def split: if_splits)
  have "out_ok (m\<lparr>sm_out := rest, h_written := h_written m, sm_write := OWriting cd\<rparr>)"
    using sm_okD(3) [OF assms(1)] Cons m'(2) by (auto simp: out_ok_def lossless_def)
  from sm_ok_write [OF assms(1) this] show ?thesis by (simp add: m')
qed

lemma write_result_ok:
  assumes "sm_ok m" "write_step err m = Some m'"
  shows "sm_ok m'"
proof -
  obtain cd where cd: "sm_write m = OWriting cd" using assms(2) by (auto simp: write_step_def split: out_phase.splits)
  have "out_ok (m\<lparr>sm_out := sm_out m, h_written := h_written m @ [cd], sm_write := OLoop\<rparr>)"
    using sm_okD(3) [OF assms(1)] cd by (auto simp: out_ok_def lossless_def)
  from sm_ok_write [OF assms(1) this] have "sm_ok (m\<lparr>h_written := h_written m @ [cd], sm_write := OLoop\<rparr>)" by simp
  moreover have "sm_ok (m\<lparr>sm_write := ODrain\<rparr>)" using sm_ok_drop [OF assms(1), of "[]"] cd by simp
  ultimately show ?thesis using assms(2) cd by (auto simp: write_step_def sm_cancel_def split: if_splits)
qed

lemma drain_step_ok:
  assumes "sm_ok m" "drain_step m = Some m'"
  shows "sm_ok m'"
proof (cases "sm_out m")
  case Nil
  then have m': "m' = m\<lparr>sm_write := OEnded\<rparr>" "sm_write m = ODrain" "sm_out_closed m" using assms(2) by (auto simp: drain_step_def split: if_splits)
  have "out_ok (m\<lparr>sm_out := sm_out m, h_written := h_written m, sm_write := OEnded\<rparr>)"
    using sm_okD(3) [OF assms(1)] m'(2) by (auto simp: out_ok_def lossless_def)
  from sm_ok_write [OF assms(1) this] m'(3) show ?thesis by (simp add: m'(1))
next
  case (Cons cd rest)
  then have m': "m' = m\<lparr>sm_out := rest\<rparr>" "sm_write m = ODrain" using assms(2) by (auto simp: drain_step_def split: if_splits)
  from sm_ok_drop [OF assms(1), of "[cd]" rest] Cons m' show ?thesis by (cases m) simp
qed

lemma write_ctx_ok: "sm_ok m \<Longrightarrow> write_ctx m = Some m' \<Longrightarrow> sm_ok m'"
  using sm_ok_drop [of m "[]"] by (auto simp: write_ctx_def split: if_splits)

lemmas write_step_ok = write_take_ok write_result_ok write_ctx_ok drain_step_ok

lemma serve_step_ok:
  assumes "sm_ok m" "serve_step stopping m = Some (Inr m')"
  shows "sm_ok m'"
proof -
  have phase: "sm_ok (n\<lparr>sm_serve := p\<rparr>)" if "sm_ok n" "sm_ctx n \<noteq> None" "p \<in> {VWriter, VEnded} \<longleftrightarrow> sm_out_closed n" for n :: "('a, 'b) streamManager" and p
  proof (rule sm_okI)
    show "serve_ok (n\<lparr>sm_serve := p\<rparr>)" using sm_okD(4) [OF that(1)] that(2,3) by (auto simp: serve_ok_def)
  qed (rule frames, rule that(1); auto)+
  note D = serve_okD [OF sm_okD(4) [OF assms(1)]]
  show ?thesis
  proof (cases "sm_serve m")
    case VWait
    then have m': "m' = (sm_cancel m)\<lparr>sm_serve := VFin\<rparr>" using assms(2) by (auto simp: serve_step_def split: if_splits)
    show ?thesis unfolding m' by (rule phase) (use sm_ok_ctx(2) [OF assms(1)] D(4) VWait in \<open>auto simp: sm_cancel_def\<close>)
  next
    case VFin
    then obtain m1 where c: "call_server (comms_Fin (sm_info m)) m = Inr ((), m1)" and m': "m' = m1\<lparr>sm_serve := VReaders\<rparr>"
      using assms(2) by (auto simp: serve_step_def)
    have "sm_ctx m1 = sm_ctx m" "sm_out_closed m1 = sm_out_closed m" using c by (auto simp: call_server_def)
    then show ?thesis unfolding m' using call_server_ok [OF c] assms(1) D(3,4) VFin by (intro phase) auto
  next
    case VReaders
    then have m': "m' = m\<lparr>sm_out_closed := True, sm_serve := VWriter\<rparr>" and e: "sm_read m = SReadEnded" "sm_notify m = NEnded" "sm_workers m = []"
      using assms(2) by (auto simp: serve_step_def split: if_splits)
    show ?thesis
    proof (rule sm_okI)
      show "serve_ok m'" using D(3) VReaders by (auto simp: m' e serve_ok_def)
    qed (rule frames, rule assms(1); use m' in auto)+
  next
    case VWriter
    then show ?thesis using assms D(3,4) by (auto simp: serve_step_def intro!: phase split: if_splits)
  qed (use assms(2) in \<open>simp add: serve_step_def\<close>)
qed

text \<open>A goroutine's step replaces its entry or removes it.\<close>

lemma worker_split:
  fixes m :: "('k, 's) streamManager"
  assumes "j < length (sm_workers m)"
  obtains a b where "sm_workers m = a @ (sm_workers m ! j) # b"
    "\<forall>k (n :: ('k, 's) streamManager). sm_workers n = sm_workers m \<longrightarrow> set_worker j (Some k) n = n\<lparr>sm_workers := a @ k # b\<rparr> \<and> set_worker j None n = n\<lparr>sm_workers := a @ b\<rparr>"
proof
  let ?a = "take j (sm_workers m)" and ?b = "drop (Suc j) (sm_workers m)"
  show "sm_workers m = ?a @ (sm_workers m ! j) # ?b" by (rule id_take_nth_drop [OF assms])
  show "\<forall>k (n :: ('k, 's) streamManager). sm_workers n = sm_workers m \<longrightarrow> set_worker j (Some k) n = n\<lparr>sm_workers := ?a @ k # ?b\<rparr> \<and> set_worker j None n = n\<lparr>sm_workers := ?a @ ?b\<rparr>"
    using upd_conv_take_nth_drop [OF assms] by (auto simp: set_worker_def)
qed

text \<open>A change of the goroutines, of the queue and of the histories of records only.\<close>

lemma sm_ok_workers:
  assumes "sm_ok m" "sm_workers m \<noteq> []"
    and "records_ok (m\<lparr>sm_batchCh := q, sm_workers := ws, h_processed := p, h_failed := f\<rparr>)"
    and "mset (map worker_cnt (filter worker_processed ws)) + mset (map fst (h_processed m))
      = mset (map worker_cnt (filter worker_processed (sm_workers m))) + mset (map fst p)"
  shows "sm_ok (m\<lparr>sm_batchCh := q, sm_workers := ws, h_processed := p, h_failed := f\<rparr>)"
proof (rule sm_okI)
  have "mset (acks (h_out m)) + mset (map worker_cnt (filter worker_processed (sm_workers m))) \<subseteq># mset (map fst (h_processed m))"
    using sm_okD(2) [OF assms(1)] by (simp add: acks_ok_def)
  then have "mset (acks (h_out m)) + mset (map worker_cnt (filter worker_processed (sm_workers m))) + mset (map worker_cnt (filter worker_processed ws)) + mset (map fst p)
      \<subseteq># mset (map fst (h_processed m)) + mset (map worker_cnt (filter worker_processed ws)) + mset (map fst p)"
    by (intro subset_mset.add_mono) simp_all
  also have "\<dots> = mset (map worker_cnt (filter worker_processed (sm_workers m))) + mset (map fst p) + mset (map fst p)"
    using assms(4) by (simp add: union_commute)
  finally have "mset (acks (h_out m)) + mset (map worker_cnt (filter worker_processed ws)) \<subseteq># mset (map fst p)"
    by (simp add: ac_simps)
  then show "acks_ok (m\<lparr>sm_batchCh := q, sm_workers := ws, h_processed := p, h_failed := f\<rparr>)" by (simp add: acks_ok_def)
qed (use assms(3) in simp, (rule frames, rule assms(1); use assms(2) serve_okD [OF sm_okD(4) [OF assms(1)]] in auto)+)

lemma sm_ok_worker:
  assumes "sm_ok m" "sm_workers m = a @ k # b" "worker_cnt k' = worker_cnt k" "worker_wcd k' = worker_wcd k"
    and "is_taking k' = is_taking k" "worker_processed k' = worker_processed k"
  shows "sm_ok (m\<lparr>sm_workers := a @ k' # b\<rparr>)"
proof -
  have "sm_ok (m\<lparr>sm_batchCh := sm_batchCh m, sm_workers := a @ k' # b, h_processed := h_processed m, h_failed := h_failed m\<rparr>)"
    by (rule sm_ok_workers [OF assms(1)]) (use sm_okD(1) [OF assms(1)] assms in \<open>auto simp: records_ok_def waiting_def\<close>)
  then show ?thesis by (cases m) simp
qed

lemma worker_take_ok:
  assumes "sm_ok m" "sm_workers m = a @ KTake n # b" "sm_batchCh m = wcd # rest"
  shows "sm_ok (m\<lparr>sm_batchCh := rest, sm_workers := a @ KStart n wcd # b\<rparr>)"
proof -
  have "sm_ok (m\<lparr>sm_batchCh := rest, sm_workers := a @ KStart n wcd # b, h_processed := h_processed m, h_failed := h_failed m\<rparr>)"
    by (rule sm_ok_workers [OF assms(1)]) (use sm_okD(1) [OF assms(1)] assms in \<open>auto simp: records_ok_def waiting_def\<close>)
  then show ?thesis by (cases m) simp
qed

lemma worker_done_ok:
  assumes "sm_ok m" "sm_workers m = a @ KHandle n wcd bl # b"
  shows "sm_ok (m\<lparr>sm_workers := a @ b, h_failed := h_failed m @ [(n, wcd)]\<rparr>)"
    and "sm_ok (m\<lparr>sm_workers := a @ KNotify n bl # b, h_processed := h_processed m @ [(n, wcd)]\<rparr>)"
proof -
  have "sm_ok (m\<lparr>sm_batchCh := sm_batchCh m, sm_workers := a @ b, h_processed := h_processed m, h_failed := h_failed m @ [(n, wcd)]\<rparr>)"
    by (rule sm_ok_workers [OF assms(1)]) (use sm_okD(1) [OF assms(1)] assms in \<open>auto simp: records_ok_def waiting_def\<close>)
  then show "sm_ok (m\<lparr>sm_workers := a @ b, h_failed := h_failed m @ [(n, wcd)]\<rparr>)" by (cases m) simp
  have "sm_ok (m\<lparr>sm_batchCh := sm_batchCh m, sm_workers := a @ KNotify n bl # b, h_processed := h_processed m @ [(n, wcd)], h_failed := h_failed m\<rparr>)"
    by (rule sm_ok_workers [OF assms(1)]) (use sm_okD(1) [OF assms(1)] assms in \<open>auto simp: records_ok_def waiting_def\<close>)
  then show "sm_ok (m\<lparr>sm_workers := a @ KNotify n bl # b, h_processed := h_processed m @ [(n, wcd)]\<rparr>)" by (cases m) simp
qed

lemma worker_ack_ok:
  assumes "sm_ok m" "sm_workers m = a @ KAck n # b" "send_out (ack_data n) m = Some (Inr m1)"
  shows "sm_ok (m1\<lparr>sm_workers := a @ b\<rparr>)"
proof -
  have m1: "m1 = m\<lparr>sm_out := sm_out m @ [ack_data n], h_out := h_out m @ [ack_data n]\<rparr>" "length (sm_out m) < out_capacity" "\<not> sm_out_closed m"
    using assms(3) by (auto simp: send_out_def split: if_splits)
  show ?thesis
  proof (rule sm_okI)
    show "records_ok (m1\<lparr>sm_workers := a @ b\<rparr>)" using sm_okD(1) [OF assms(1)] assms(2) by (simp add: m1 records_ok_def waiting_def)
    have "mset (acks (h_out m)) + mset (map worker_cnt (filter worker_processed (a @ KAck n # b))) \<subseteq># mset (map fst (h_processed m))"
      using sm_okD(2) [OF assms(1)] by (simp add: acks_ok_def assms(2))
    then have sub: "add_mset n (mset (acks (h_out m)) + mset (map worker_cnt (filter worker_processed (a @ b)))) \<subseteq># mset (map fst (h_processed m))" by simp
    have "mset (acks (h_out m)) + mset (map worker_cnt (filter worker_processed (a @ b))) \<subseteq># add_mset n (mset (acks (h_out m)) + mset (map worker_cnt (filter worker_processed (a @ b))))"
      by (rule subset_mset.less_imp_le) simp
    note subset_mset.order_trans [OF this sub]
    with sub show "acks_ok (m1\<lparr>sm_workers := a @ b\<rparr>)" by (auto simp: acks_ok_def m1(1) acks_def ack_data_def)
    show "out_ok (m1\<lparr>sm_workers := a @ b\<rparr>)" using sm_okD(3) [OF assms(1)] m1(2) by (auto simp: m1(1) out_ok_def)
  qed (rule frames, rule assms(1); use m1 serve_okD [OF sm_okD(4) [OF assms(1)]] in auto)
qed

lemma worker_step_ok:
  fixes m :: "('k, 's) streamManager"
  assumes "sm_ok m" "worker_step e cfg inp j m = Some (Inr m')"
  shows "sm_ok m'"
proof -
  have j: "j < length (sm_workers m)" using assms(2) by (auto simp: worker_step_def split: if_splits)
  obtain a b where w: "sm_workers m = a @ (sm_workers m ! j) # b"
    and set: "\<And>k (n :: ('k, 's) streamManager). sm_workers n = sm_workers m \<Longrightarrow> set_worker j (Some k) n = n\<lparr>sm_workers := a @ k # b\<rparr> \<and> set_worker j None n = n\<lparr>sm_workers := a @ b\<rparr>"
    by (rule worker_split [OF j]) blast
  show ?thesis
  proof (cases "sm_workers m ! j")
    case (KTake n)
    then obtain wcd rest where q: "sm_batchCh m = wcd # rest" and m': "m' = set_worker j (Some (KStart n wcd)) (m\<lparr>sm_batchCh := rest\<rparr>)"
      using assms(2) j by (auto simp: worker_step_def split: list.splits)
    have "m' = m\<lparr>sm_batchCh := rest, sm_workers := a @ KStart n wcd # b\<rparr>" using set by (simp add: m')
    then show ?thesis using worker_take_ok [OF assms(1) _ q, of a n b] w KTake by simp
  next
    case (KStart n wcd)
    have "sm_ok (m\<lparr>sm_workers := a @ KHandle n wcd (blocked_services (sm_info m)) # b\<rparr>)"
      by (rule sm_ok_worker [OF assms(1)]) (use w KStart in auto)
    then show ?thesis using assms(2) j KStart by (simp add: worker_step_def set)
  next
    case (KHandle n wcd bl)
    then obtain err info m1 where c: "call_server (on_world (HandleMessagesFromClient e cfg inp (sm_info m) wcd)) m = Inr ((err, info), m1)"
      and m': "m' = (if err \<noteq> None then (set_worker j None (m1\<lparr>sm_info := info\<rparr>))\<lparr>h_failed := h_failed m1 @ [(n, wcd)]\<rparr>
            else (set_worker j (Some (KNotify n bl)) (m1\<lparr>sm_info := info\<rparr>))\<lparr>h_processed := h_processed m1 @ [(n, wcd)]\<rparr>)"
      using assms(2) j by (auto simp: worker_step_def worker_handle_def Let_def)
    have ok: "sm_ok (m1\<lparr>sm_info := info\<rparr>)" using call_server_ok [OF c] assms(1) by simp
    have ws: "sm_workers (m1\<lparr>sm_info := info\<rparr>) = sm_workers m" using c by (auto simp: call_server_def)
    show ?thesis using worker_done_ok [OF ok, of a n wcd bl b] ws w KHandle by (auto simp: m' set [OF ws])
  next
    case (KNotify n bl)
    have "sm_ok (m\<lparr>sm_workers := a @ KAck n # b\<rparr>)" by (rule sm_ok_worker [OF assms(1)]) (use w KNotify in auto)
    moreover have "sm_ok (m\<lparr>sm_localNotices := True, sm_workers := a @ KAck n # b\<rparr>)"
      by (rule sm_ok_worker) (use assms(1) w KNotify in auto)
    ultimately show ?thesis using assms(2) j KNotify by (auto simp: worker_step_def worker_notify_def Let_def set)
  next
    case (KAck n)
    then obtain m1 where s: "send_out (ack_data n) m = Some (Inr m1)" and m': "m' = set_worker j None m1"
      using assms(2) j by (auto simp: worker_step_def split: option.splits sum.splits) (metis Inr_not_Inl map_sum.simps sum.inject(2) sumE)
    have "sm_workers m1 = sm_workers m" using s by (auto simp: send_out_def split: if_splits)
    then show ?thesis using worker_ack_ok [OF assms(1) _ s, of a b] w KAck by (simp add: m' set)
  qed
qed

lemma notify_to_ok: "sm_ok m \<Longrightarrow> sm_notify m \<noteq> NEnded \<Longrightarrow> notify_to p m = Some (Inr m') \<Longrightarrow> sm_ok m'"
  by (auto simp: notify_to_def intro: sm_ok_notify)

lemma notify_send_ok:
  assumes "sm_ok m" "AckIndex cd = 0" "notify_send cd p m = Some (Inr m')" "sm_notify m \<noteq> NEnded"
  shows "sm_ok m'"
proof -
  obtain m1 where s: "send_out cd m = Some (Inr m1)" and m': "m' = m1\<lparr>sm_notify := p\<rparr>"
    using assms(3) by (cases "send_out cd m") (auto simp: notify_send_def map_sum_def split: sum.splits)
  have "sm_notify m1 = sm_notify m" using s by (auto simp: send_out_def split: if_splits)
  then show ?thesis using sm_ok_notify [OF send_out_ok [OF assms(1) s assms(2)]] assms(4) by (simp add: m')
qed

lemma recv_notice_ok: "recv_notice m = (r, m') \<Longrightarrow> sm_ok m' = sm_ok m \<and> sm_notify m' = sm_notify m"
  by (auto simp: recv_notice_def set_dispatcher_def Let_def split: option.splits if_splits)

lemma notify_notice_ok: "sm_ok m \<Longrightarrow> sm_notify m \<noteq> NEnded \<Longrightarrow> notify_notice p m = Some (Inr m') \<Longrightarrow> sm_ok m'"
  using recv_notice_ok [of m] by (auto simp: notify_notice_def split: prod.splits notice.splits intro: notify_to_ok [rotated 2])

lemma notify_get_ok:
  assumes "sm_ok m" "sm_notify m \<noteq> NEnded" "notify_get e cfg inp errCnt m = Inr m'"
  shows "sm_ok m'"
proof -
  from assms(3) obtain r info m1 p where c: "call_server (GetMessagesForClient e cfg inp (sm_info m)) m = Inr ((r, info), m1)"
    and m': "m' = m1\<lparr>sm_info := info, sm_notify := p\<rparr>" by (auto simp: notify_get_def Let_def)
  have "sm_ok (m1\<lparr>sm_info := info\<rparr>)" "sm_notify m1 = sm_notify m" using call_server_ok [OF c] assms(1) c by (auto simp: call_server_def)
  then show ?thesis using sm_ok_notify [of "m1\<lparr>sm_info := info\<rparr>" p] assms(2) by (simp add: m')
qed

lemma notify_step_ok:
  assumes "sm_ok m" "notify_step cfg ev m = Some (Inr m')"
  shows "sm_ok m'"
proof -
  have top: ?thesis if "notify_to p n = Some (Inr m')" "n = m \<or> n = m\<lparr>sm_localNotices := False\<rparr>" "sm_notify m \<noteq> NEnded" for p n
    using notify_to_ok [OF _ _ that(1)] that(2,3) assms(1) by auto
  have ctx: ?thesis if "notify_ctx m = Some (Inr m')" "sm_notify m \<noteq> NEnded"
    using that top by (auto simp: notify_ctx_def split: if_splits)
  have send: ?thesis if "notify_send cd p m = Some (Inr m')" "AckIndex cd = 0" "sm_notify m \<noteq> NEnded" for cd p
    using notify_send_ok [OF assms(1) that(2,1,3)] .
  note notice = notify_notice_ok [OF assms(1)] and get = notify_get_ok [OF assms(1)]
  show ?thesis
    by (cases "sm_notify m") (use assms(2) top ctx notice get send in
      \<open>auto simp: notify_step_def done_data_def to_StreamData_def split: notify_event.splits if_splits\<close>)
qed

lemma sm_ok_step:
  assumes "sm_ok m" "sm_step cfg cap ev m = Some (Inr m')"
  shows "sm_ok m'"
proof (cases ev)
  case (SRead r)
  then show ?thesis using assms by (auto intro: read_step_ok split: if_splits)
next
  case SBatch
  then show ?thesis using assms by (auto intro: batch_send_ok split: sread_phase.splits)
next
  case (SContext x)
  then show ?thesis using assms by (auto intro: sm_ok_ctx split: if_splits)
qed (use assms worker_step_ok notify_step_ok write_step_ok serve_step_ok in \<open>auto\<close>)

interpretation stream_manager: step_invariant "\<lambda>m. \<exists>s info moreMsgs. m = new_streamManager s info moreMsgs" "sm_next cfg cap" sm_ok for cfg cap
  by unfold_locales (auto simp: sm_next_def sm_ok_new intro: sm_ok_step)

text \<open>The steps that can end the process are the calls of the server.\<close>

definition server_call :: "'s server_event \<Rightarrow> ('k, 's) streamManager \<Rightarrow> bool" where
  "server_call ev m = (case ev of
       SRead r \<Rightarrow> True
     | SWorker j e inp \<Rightarrow> (case sm_workers m ! j of KHandle n wcd bl \<Rightarrow> True | _ \<Rightarrow> False)
     | SNotify (NGetStep e inp) \<Rightarrow> True
     | SServe b \<Rightarrow> sm_serve m = VFin
     | _ \<Rightarrow> False)"

lemma send_out_no_panic: "serve_ok m \<Longrightarrow> sm_workers m \<noteq> [] \<or> sm_notify m \<noteq> NEnded \<Longrightarrow> send_out cd m \<noteq> Some (Inl x)"
  using serve_okD(1) [of m] by (auto simp: send_out_def split: if_splits)

lemma map_sum_eq_Inl: "map_sum (\<lambda>x. x) f r = Inl x \<longleftrightarrow> r = Inl x"
  by (cases r) auto

lemma sm_step_panic:
  assumes "sm_ok m" "sm_step cfg cap ev m = Some (Inl x)"
  shows "server_call ev m"
proof (cases ev)
  case (SWorker j e inp)
  have "sm_workers m \<noteq> []" using assms(2) SWorker by (auto simp: worker_step_def)
  then show ?thesis using assms(2) SWorker send_out_no_panic [OF sm_okD(4) [OF assms(1)]]
    by (auto simp: server_call_def worker_step_def map_sum_eq_Inl split: if_splits worker.splits list.splits)
next
  case (SNotify nev)
  then show ?thesis using assms(2) send_out_no_panic [OF sm_okD(4) [OF assms(1)]]
    by (cases "sm_notify m") (auto simp: server_call_def notify_step_def notify_to_def notify_ctx_def notify_notice_def notify_send_def map_sum_eq_Inl
        split: if_splits notify_event.splits prod.splits notice.splits)
next
  case (SServe b)
  then show ?thesis using assms(2) serve_okD(4) [OF sm_okD(4) [OF assms(1)]]
    by (auto simp: server_call_def serve_step_def split: serve_phase.splits if_splits)
qed (use assms(2) in \<open>auto simp: server_call_def split: if_splits sread_phase.splits\<close>)

lemma ended_nothing_waits:
  assumes "sm_ok m" "sm_serve m = VEnded"
  shows "waiting m = []"
proof -
  have "sm_read m = SReadEnded" "sm_workers m = []" using serve_okD(1,4) [OF sm_okD(4) [OF assms(1)]] assms(2) by auto
  then show ?thesis using sm_okD(1) [OF assms(1)] by (simp add: waiting_def sending_def records_ok_def)
qed

text \<open>
  C7. In every run of the server's end of a stream, under every interleaving of its goroutines, of the rest of the server and of
  the context: each record read is waiting, was processed once or failed once, and none waits when \<^verbatim>\<open>ServeHTTP\<close> returns; the
  acknowledgements sent are those of goroutines that have processed a record, one each; what is written to the client is a prefix of what was
  sent; and no goroutine sends to a closed channel or closes one twice, so that only a call of the server itself can end the process.
\<close>

theorem stream_records_accounted:
  assumes "reach (sm_next cfg cap) (new_streamManager s info moreMsgs) m"
  shows "mset (h_read m) = mset (waiting m) + mset (map snd (h_processed m)) + mset (map snd (h_failed m))
    \<and> (sm_serve m = VEnded \<longrightarrow> waiting m = [])
    \<and> mset (acks (h_out m)) \<subseteq># mset (map fst (h_processed m))
    \<and> (\<exists>unwritten. h_out m = h_written m @ unwritten)
    \<and> (\<forall>ev x. sm_step cfg cap ev m = Some (Inl x) \<longrightarrow> server_call ev m)"
proof -
  have ok: "sm_ok m" using stream_manager.reachable_inv [of _ cfg cap m] assms by blast
  have "mset (acks (h_out m)) \<subseteq># mset (acks (h_out m)) + mset (map worker_cnt (filter worker_processed (sm_workers m)))" by simp
  also have "\<dots> \<subseteq># mset (map fst (h_processed m))" using sm_okD(2) [OF ok] by (simp add: acks_ok_def)
  finally show ?thesis using sm_okD(1,3) [OF ok] sm_step_panic [OF ok] ended_nothing_waits [OF ok] by (auto simp: records_ok_def out_ok_def)
qed

section \<open>The end of a stream\<close>














definition reader_blocked :: "('k, 's) streamManager \<Rightarrow> bool" where
  "reader_blocked m \<longleftrightarrow> sm_read m = SReading \<and> sm_notify m = NEnded \<and> sm_workers m = [] \<and> sm_serve m = VReaders
     \<and> sm_write m = ODrain \<and> sm_out m = [] \<and> \<not> sm_out_closed m"



lemma reader_blocked_steps:
  assumes "reader_blocked m" "sm_ctx m \<noteq> None" "sm_step cfg cap ev m = Some r"
  shows "(\<exists>q. ev = SRead q) \<or> (\<exists>s. ev = SOther s)"
  using assms by (cases ev) (auto simp: reader_blocked_def worker_step_def notify_step_def write_take_def write_step_def write_ctx_def drain_step_def serve_step_def)


text \<open>
  So with a client that neither sends nor closes its connection \<^verbatim>\<open>ServeHTTP\<close> does not return, whatever else happens.
\<close>

lemma silent_client_blocks:
  assumes "reach (\<lambda>m m'. \<exists>ev. (\<forall>q. ev \<noteq> SRead q) \<and> sm_step cfg cap ev m = Some (Inr m')) m m'" "reader_blocked m" "sm_ctx m \<noteq> None"
  shows "reader_blocked m' \<and> sm_ctx m' \<noteq> None \<and> sm_serve m' = VReaders"
  using assms
proof induction
  case (reach_step m m1 m2)
  then obtain ev where ev: "\<forall>q. ev \<noteq> SRead q" "sm_step cfg cap ev m1 = Some (Inr m2)" by blast
  from reader_blocked_steps [OF _ _ ev(2)] reach_step ev(1) obtain s where "ev = SOther s" by blast
  with ev(2) reach_step show ?case by (auto simp: reader_blocked_def)
qed (simp add: reader_blocked_def)

text \<open>
  A write error on a stream whose context is active ends the write loop without cancelling the stream: the test of \<^verbatim>\<open>m.ctx.Err()\<close> is the
  wrong way round. Messages for the client and acknowledgements are taken from the channel and dropped until the stream's deadline.
\<close>

lemma write_error_keeps_stream:
  assumes "sm_ctx m = None" "sm_write m = OWriting cd"
  shows "\<exists>m'. write_step (Some x) m = Some m' \<and> sm_ctx m' = None \<and> sm_write m' = ODrain \<and> h_written m' = h_written m"
  using assms by (simp add: write_step_def)

section \<open>A stream that ends\<close>

fun sm_run :: "('k, 'c, 's) server_cfg \<Rightarrow> nat \<Rightarrow> 's server_event list \<Rightarrow> ('k, 's) streamManager \<Rightarrow> ('k, 's) streamManager option" where
  "sm_run cfg cap [] m = Some m"
| "sm_run cfg cap (ev # evs) m = (case sm_step cfg cap ev m of Some (Inr m') \<Rightarrow> sm_run cfg cap evs m' | _ \<Rightarrow> None)"

lemma sm_run_reach: "sm_run cfg cap evs m = Some m' \<Longrightarrow> reach (sm_next cfg cap) m0 m \<Longrightarrow> reach (sm_next cfg cap) m0 m'"
proof (induction evs arbitrary: m)
  case (Cons ev evs)
  then obtain t where t: "sm_step cfg cap ev m = Some (Inr t)" "sm_run cfg cap evs t = Some m'"
    by (auto split: option.splits sum.splits)
  have "sm_next cfg cap m t" using t(1) by (auto simp: sm_next_def)
  with Cons.prems(2) have "reach (sm_next cfg cap) m0 t" by (rule reach.intros)
  then show ?case by (rule Cons.IH [OF t(2)])
qed simp

definition demo_stream :: "(bytes, unit) streamManager" where
  "demo_stream = new_streamManager demo_server (demo_conn False) False"

text \<open>One record is processed, then the server stops while an acknowledgement is in the channel.\<close>

definition demo_serving :: "unit server_event list" where
  "demo_serving = [SRead (Some 200, Inr (demo_wcd [[9]])), SBatch] @ replicate 5 (SWorker 0 demo_env demo_inputs) @ [SServe True]"

definition demo_ending :: "unit server_event list" where
  "demo_ending = [SServe False, SNotify (NTopStep False), SNotify NCtx, SWriteCtx, SDrain, SRead (None, Inl io_EOF), SServe False, SDrain, SServe False]"

definition demo_stream_after :: "unit server_event list \<Rightarrow> (bytes, unit) streamManager" where
  "demo_stream_after evs = (case sm_run (demo_cfg True) 10 evs demo_stream of Some m \<Rightarrow> m | None \<Rightarrow> demo_stream)"

lemma demo_stream_reach:
  "reach (sm_next (demo_cfg True) 10) (new_streamManager demo_server (demo_conn False) False) (demo_stream_after evs)"
  unfolding demo_stream_after_def demo_stream_def by (auto intro: sm_run_reach split: option.split)

definition stream_view :: "(bytes, unit) streamManager \<Rightarrow> serve_phase \<times> u64 list \<times> u64 list \<times> bool \<times> nat" where
  "stream_view m = (sm_serve m, map fst (h_processed m), acks (h_out m), sm_ctx m = None, length (sm_out m))"

theorem stream_records_accounted_witness:
  "sm_serve (demo_stream_after (demo_serving @ demo_ending)) = VEnded \<and> waiting (demo_stream_after (demo_serving @ demo_ending)) = []
   \<and> map fst (h_processed (demo_stream_after (demo_serving @ demo_ending))) = [1] \<and> acks (h_out (demo_stream_after (demo_serving @ demo_ending))) = [1]"
proof -
  let ?m = "demo_stream_after (demo_serving @ demo_ending)"
  have "stream_view ?m = (VEnded, [1], [1], False, 0)" by code_simp
  then have "sm_serve ?m = VEnded" "map fst (h_processed ?m) = [1]" "acks (h_out ?m) = [1]" by (simp_all add: stream_view_def)
  then show ?thesis using stream_records_accounted [OF demo_stream_reach, of "demo_serving @ demo_ending"] by blast
qed


end
