(* ===== verification/Stream_Session.thy ===== *)
theory Stream_Session
  imports Client_Streaming Server_Streaming
begin

text \<open>
  A streaming session: the connection of a client (\<^verbatim>\<open>client/https/streaming.go\<close>) and the server's end of it
  (\<^verbatim>\<open>server/https/streaming_message_server.go\<close>), each with its goroutines, over a network that keeps the order of the records and may
  lose the last of them. The server's \<open>n\<close>-th read returns the \<open>n\<close>-th record that the client wrote, the client's \<open>n\<close>-th read the
  \<open>n\<close>-th answer that the server wrote; reads may fail at any time.
\<close>

record ('k, 's) session =
  ss_comm :: streamComm
  ss_mgr :: "('k, 's) streamManager"
  ss_nread :: nat

text \<open>The contact data in a record has the messages of the group it was made from.\<close>

definition carries :: "('k, 'c, 's) server_cfg \<Rightarrow> WrappedContactData \<Rightarrow> MessageInfo list option \<Rightarrow> bool" where
  "carries cfg wcd r = (case sv_unmarshal_ContactData cfg (wcd_ContactData wcd) of
       Inl _ \<Rightarrow> False
     | Inr cd \<Rightarrow> Messages cd = map mi_M (msgs_of r))"

datatype 's session_event = ClientStep stream_event | ServerStep "'s server_event"

definition client_allowed :: "stream_event \<Rightarrow> ('k, 's) session \<Rightarrow> bool" where
  "client_allowed ev ss = (case ev of
       ReadContact (Inr cd) \<Rightarrow> ss_nread ss < length (h_written (ss_mgr ss)) \<and> cd = h_written (ss_mgr ss) ! ss_nread ss
     | _ \<Rightarrow> True)"

definition server_allowed :: "('k, 'c, 's) server_cfg \<Rightarrow> 's server_event \<Rightarrow> ('k, 's) session \<Rightarrow> bool" where
  "server_allowed cfg ev ss = (case ev of
       SRead (_, Inr wcd) \<Rightarrow> length (h_read (ss_mgr ss)) < length (cn_written (st_con (ss_comm ss)))
         \<and> carries cfg wcd (cn_written (st_con (ss_comm ss)) ! length (h_read (ss_mgr ss)))
     | _ \<Rightarrow> True)"

definition reads_answer :: "stream_event \<Rightarrow> nat" where
  "reads_answer ev = (case ev of ReadContact (Inr cd) \<Rightarrow> 1 | _ \<Rightarrow> 0)"

fun session_step :: "(Message \<Rightarrow> nat) \<Rightarrow> ('k, 'c, 's) server_cfg \<Rightarrow> nat \<Rightarrow> 's session_event \<Rightarrow> ('k, 's) session \<Rightarrow>
    (error + ('k, 's) session) option" where
  "session_step Size cfg cap (ClientStep ev) ss = (if client_allowed ev ss
     then map_option (map_sum (\<lambda>x. x) (\<lambda>c. ss\<lparr>ss_comm := c, ss_nread := ss_nread ss + reads_answer ev\<rparr>)) (con_step Size ev (ss_comm ss))
     else None)"
| "session_step Size cfg cap (ServerStep ev) ss = (if server_allowed cfg ev ss
     then map_option (map_sum (\<lambda>x. x) (\<lambda>m. ss\<lparr>ss_mgr := m\<rparr>)) (sm_step cfg cap ev (ss_mgr ss)) else None)"

definition session_next :: "(Message \<Rightarrow> nat) \<Rightarrow> ('k, 'c, 's) server_cfg \<Rightarrow> nat \<Rightarrow> ('k, 's) session \<Rightarrow> ('k, 's) session \<Rightarrow> bool" where
  "session_next Size cfg cap ss ss' \<longleftrightarrow> (\<exists>ev. session_step Size cfg cap ev ss = Some (Inr ss'))"

text \<open>A session begins after the first exchange: a fresh connection and a fresh manager.\<close>

definition session_start :: "('k, 's) session \<Rightarrow> bool" where
  "session_start ss \<longleftrightarrow> (\<exists>pm b. st_con (ss_comm ss) = (new_connection_state pm)\<lparr>cn_ctx_done := b\<rparr>)
     \<and> (\<exists>s info moreMsgs. ss_mgr ss = new_streamManager s info moreMsgs) \<and> ss_nread ss = 0"

section \<open>The client's half\<close>

text \<open>An answer that the read loop has read and not yet looked at for an acknowledgement.\<close>

definition read_pending :: "connection \<Rightarrow> StreamData list" where
  "read_pending c = (case cn_read c of RServerDone cd \<Rightarrow> [cd] | _ \<Rightarrow> [])"

text \<open>What a step of the connection does to the counters: nothing is counted but what is read.\<close>

definition counts :: "stream_event \<Rightarrow> connection \<Rightarrow> connection \<Rightarrow> bool" where
  "counts ev c c' \<longleftrightarrow> (\<exists>new. cn_written c' = cn_written c @ new)
     \<and> cn_rcnt c' + length (acks (read_pending c')) \<le> cn_rcnt c + length (acks (read_pending c))
       + length (acks (case ev of ReadContact (Inr cd) \<Rightarrow> [cd] | _ \<Rightarrow> []))"

lemma acks_simps [simp]: "acks [] = []" "acks (cd # cds) = (if AckIndex cd = 0 then acks cds else AckIndex cd # acks cds)"
  "acks (as @ bs) = acks as @ acks bs"
  by (simp_all add: acks_def)

lemma counts_write:
  "write_fin c = Inr c' \<Longrightarrow> counts ev c c'" "write_add msgs c = Inr c' \<Longrightarrow> counts ev c c'"
  "write_result mk err rate msgs c = Inr c' \<Longrightarrow> counts ev c c'" "write_return b c = Inr c' \<Longrightarrow> counts ev c c'"
  by (auto simp: counts_def write_fin_def write_add_def write_result_def write_return_def close_writingDone_def read_pending_def Let_def
      split: if_splits option.splits sum.splits)

lemma counts_read:
  "cn_read c = RRead \<Longrightarrow> read_contact_step r c = Inr c' \<Longrightarrow> counts (ReadContact r) c c'"
  "cn_read c = RServerDone cd \<Longrightarrow> counts ev c (read_writing_done cd c)" "counts ev c (read_return c)"
  by (auto simp: counts_def read_contact_step_def read_ack_def read_writing_done_def read_return_def read_pending_def Let_def
      split: if_splits sum.splits)

lemma counts_same: "counts ev c (c\<lparr>cn_write := w\<rparr>)" "counts ev c (c\<lparr>cn_ctx_done := b\<rparr>)"
  by (simp_all add: counts_def read_pending_def)

lemma on_con_st_con: "on_con f s = Inr t \<Longrightarrow> f (st_con s) = Inr (st_con t)"
  by (auto simp: on_con_def)

text \<open>
  Every step of the connection is one of these operations on it; the read loop looks at an acknowledgement
  when it reads an answer, or after the wait that follows \<^verbatim>\<open>DoneSending\<close>.
\<close>

lemma con_step_cases:
  assumes "con_step Size ev s = Some (Inr s')"
  obtains "cn_write (st_con s) = WGroup" "write_fin (st_con s) = Inr (st_con s')"
  | msgs where "cn_write (st_con s) = WGroup" "st_con s' = (st_con s)\<lparr>cn_write := WGrouped msgs\<rparr>"
  | msgs where "cn_write (st_con s) = WGrouped msgs" "write_add msgs (st_con s) = Inr (st_con s')"
  | msgs mk err rate where "cn_write (st_con s) = WWrite msgs" "write_result mk err rate msgs (st_con s) = Inr (st_con s')"
  | "write_return True (st_con s) = Inr (st_con s')"
  | r where "ev = ReadContact r" "cn_read (st_con s) = RRead" "read_contact_step r (st_con s) = Inr (st_con s')"
  | cd where "cn_read (st_con s) = RServerDone cd" "st_con s' = read_writing_done cd (st_con s)"
  | "st_con s' = read_return (st_con s)"
  | "st_con s' = (st_con s)\<lparr>cn_ctx_done := True\<rparr>"
proof (cases ev)
  case (ReadContact r)
  then obtain t where "on_con (read_contact_step r) s = Inr t" "st_con s' = st_con t" "cn_read (st_con s) = RRead"
    using assms by (cases "on_con (read_contact_step r) s") (auto simp: con_step_def Let_def split: if_splits sum.splits)
  then show thesis using that(6) ReadContact on_con_st_con [of "read_contact_step r" s t] by simp
next
  case ReadWritingDone
  then obtain cd t where "cn_read (st_con s) = RServerDone cd" "on_con (\<lambda>c. Inr (read_writing_done cd c)) s = Inr t" "st_con s' = st_con t"
    using assms by (cases "cn_read (st_con s)") (auto simp: con_step_def Let_def on_con_def split: if_splits)
  then show thesis using that(7) on_con_st_con [of _ s t] by fastforce
next
  case (GroupMessages offered)
  then show thesis using assms that(2) by (auto simp: con_step_def Let_def on_con_def split: if_splits)
next
  case AddPending
  then show thesis using assms that(3) on_con_st_con by (auto simp: con_step_def Let_def split: write_phase.splits)
next
  case (WriteResult mk err rate)
  then show thesis using assms that(4) on_con_st_con by (auto simp: con_step_def Let_def split: write_phase.splits)
next
  case GroupFin
  then show thesis using assms that(1) on_con_st_con by (auto simp: con_step_def Let_def split: if_splits)
next
  case WriteWaited
  then show thesis using assms that(5) on_con_st_con by (auto simp: con_step_def Let_def split: if_splits)
qed (use assms that(2,8,9) in \<open>auto simp: con_step_def Let_def on_con_def split: if_splits read_phase.splits\<close>)

lemma con_step_counts:
  assumes "con_step Size ev s = Some (Inr s')"
  shows "counts ev (st_con s) (st_con s')"
  using assms by (rule con_step_cases) (simp_all add: counts_write counts_read counts_same)

lemma con_step_ordered:
  assumes "con_step Size ev s = Some (Inr s')" and ord: "con_ordered (st_con s)"
    and fits: "\<And>cd. ev = ReadContact (Inr cd) \<or> cn_read (st_con s) = RServerDone cd \<Longrightarrow> AckIndex cd \<noteq> 0 \<Longrightarrow> cn_rcnt (st_con s) < cn_wcnt (st_con s)"
  shows "con_ordered (st_con s')"
  using assms(1)
proof (rule con_step_cases)
  fix r assume r: "ev = ReadContact r" "read_contact_step r (st_con s) = Inr (st_con s')"
  show ?thesis
  proof (cases r)
    case (Inr cd)
    then have "st_con s' = (st_con s)\<lparr>cn_serverDone := True, cn_read := RServerDone cd\<rparr> \<or> st_con s' = read_ack cd (st_con s)"
      using r(2) by (auto simp: read_contact_step_def split: if_splits)
    moreover have "con_ordered (read_ack cd (st_con s))" by (rule con_ordered_ack [OF ord]) (use r(1) Inr fits in blast)
    ultimately show ?thesis using ord by auto
  next
    case (Inl x)
    then have "st_con s' = read_return (st_con s)" using r(2) by (simp add: read_contact_step_def)
    then show ?thesis using ord by (simp add: read_return_def)
  qed
next
  fix cd assume cd: "cn_read (st_con s) = RServerDone cd" "st_con s' = read_writing_done cd (st_con s)"
  have "con_ordered (read_ack cd ((st_con s)\<lparr>cn_rdone := True\<rparr>))"
    by (rule con_ordered_ack) (use ord fits [of cd] cd(1) in auto)
  then show ?thesis using ord cd(2) by (simp add: read_writing_done_def read_return_def Let_def)
qed (use ord in \<open>auto intro: con_ordered_write con_ordered_add con_ordered_result con_ordered_return simp: read_return_def\<close>)

section \<open>The server's half\<close>

text \<open>What a step of the server does to the histories of what it reads and writes.\<close>

definition grows :: "'s server_event \<Rightarrow> ('k, 's) streamManager \<Rightarrow> ('k, 's) streamManager \<Rightarrow> bool" where
  "grows ev m m' \<longleftrightarrow> (\<exists>new. h_written m' = h_written m @ new)
     \<and> (h_read m' = h_read m \<or> (\<exists>st wcd. ev = SRead (st, Inr wcd) \<and> h_read m' = h_read m @ [wcd]))"

lemma grows_call: "call_server f m = Inr (a, m1) \<Longrightarrow> h_written m1 = h_written m \<and> h_read m1 = h_read m"
  by (auto simp: call_server_def)

lemma grows_send: "send_out cd m = Some (Inr m1) \<Longrightarrow> h_written m1 = h_written m \<and> h_read m1 = h_read m"
  by (auto simp: send_out_def split: if_splits)

lemma grows_set_worker: "h_written (set_worker j k m) = h_written m" "h_read (set_worker j k m) = h_read m"
  by (simp_all add: set_worker_def)

lemma grows_read:
  assumes "read_step cfg r m = Inr m'"
  shows "grows (SRead r) m m'"
proof -
  from assms obtain st q m1 where c: "call_server (readOne cfg (sm_info m) r) m = Inr ((st, q), m1)"
    and m': "m' = (case q of Inl _ \<Rightarrow> (sm_cancel m1)\<lparr>sm_read := SReadEnded\<rparr>
       | Inr wcd \<Rightarrow> m1\<lparr>sm_cnt := sm_cnt m1 + 1, sm_read := SSending wcd, h_read := h_read m1 @ [wcd]\<rparr>)"
    by (auto simp: read_step_def)
  have "snd r = q" if "\<not> isl q"
    using c that by (auto simp: call_server_def readOne_def aret_def split: prod.splits sum.splits) (meson sumE)
  with grows_call [OF c] show ?thesis
    by (cases q; cases r) (auto simp: m' grows_def sm_cancel_def)
qed

lemma grows_worker:
  assumes "worker_step e cfg inp j m = Some (Inr m')"
  shows "h_written m' = h_written m \<and> h_read m' = h_read m"
proof -
  have h: ?thesis if "worker_handle e cfg inp j n wcd bl m = Inr m'" for n wcd bl
    using that by (auto simp: worker_handle_def Let_def grows_set_worker dest!: grows_call split: if_splits)
  have a: ?thesis if "map_option (map_sum (\<lambda>x. x) (set_worker j None)) (send_out (ack_data n) m) = Some (Inr m')" for n
    using that grows_send [of "ack_data n" m] by (cases "send_out (ack_data n) m") (auto simp: map_sum_def grows_set_worker split: sum.splits)
  show ?thesis using assms h a
    by (auto simp: worker_step_def worker_notify_def Let_def grows_set_worker split: if_splits worker.splits list.splits)
qed

lemma grows_notify:
  assumes "notify_step cfg ev m = Some (Inr m')"
  shows "h_written m' = h_written m \<and> h_read m' = h_read m"
proof -
  have top: ?thesis if "notify_to p n = Some (Inr m')" "h_written n = h_written m \<and> h_read n = h_read m" for p n
    using that by (auto simp: notify_to_def)
  have notice: ?thesis if "notify_notice p m = Some (Inr m')" for p
    using that by (auto simp: notify_notice_def notify_to_def recv_notice_def set_dispatcher_def Let_def split: option.splits if_splits)
  have send: ?thesis if "notify_send cd p m = Some (Inr m')" for cd p
    using that grows_send [of cd m] by (cases "send_out cd m") (auto simp: notify_send_def map_sum_def split: sum.splits)
  have get: ?thesis if "notify_get e cfg inp n m = Inr m'" for e inp n
    using that by (auto simp: notify_get_def Let_def dest!: grows_call)
  show ?thesis
    by (cases "sm_notify m") (use assms top notice send get in \<open>auto simp: notify_step_def notify_ctx_def split: notify_event.splits if_splits\<close>)
qed

lemma sm_step_grows:
  assumes "sm_step cfg cap ev m = Some (Inr m')"
  shows "grows ev m m'"
proof (cases ev)
  case (SRead r)
  then show ?thesis using assms by (auto intro: grows_read split: if_splits)
next
  case (SServe b)
  then show ?thesis using assms by (auto simp: grows_def serve_step_def sm_cancel_def dest!: grows_call split: serve_phase.splits if_splits)
next
  case (SWrite err)
  then show ?thesis using assms by (auto simp: grows_def write_step_def sm_cancel_def split: if_splits out_phase.splits)
next
  case SBatch
  then show ?thesis using assms by (auto simp: grows_def batch_send_def split: sread_phase.splits if_splits)
qed (use assms grows_worker [of _ cfg _ _ m m'] grows_notify [of cfg _ m m'] in
  \<open>auto simp: grows_def write_take_def write_ctx_def drain_step_def split: if_splits list.splits\<close>)

section \<open>What an acknowledgement means\<close>

definition session_ok :: "('k, 'c, 's) server_cfg \<Rightarrow> ('k, 's) session \<Rightarrow> bool" where
  "session_ok cfg ss \<longleftrightarrow> (let c = st_con (ss_comm ss); m = ss_mgr ss in
     con_ordered c \<and> sm_ok m
     \<and> length (h_read m) \<le> length (cn_written c) \<and> list_all2 (carries cfg) (h_read m) (take (length (h_read m)) (cn_written c))
     \<and> ss_nread ss \<le> length (h_written m)
     \<and> cn_rcnt c + length (acks (read_pending c)) \<le> Suc (length (acks (take (ss_nread ss) (h_written m)))))"

lemma sm_acks_bound:
  assumes "sm_ok m"
  shows "length (acks (take n (h_written m))) \<le> length (h_processed m)" "length (acks (h_written m)) \<le> length (h_processed m)"
    "length (h_processed m) \<le> length (h_read m)"
proof -
  have "size (mset (acks (h_out m)) + mset (map worker_cnt (filter worker_processed (sm_workers m)))) \<le> size (mset (map fst (h_processed m)))"
    using sm_okD(2) [OF assms] unfolding acks_ok_def by (rule size_mset_mono)
  then have "length (acks (h_out m)) \<le> length (h_processed m)" by simp
  moreover obtain rest where "h_out m = h_written m @ rest" using sm_okD(3) [OF assms] by (auto simp: out_ok_def)
  ultimately show w: "length (acks (h_written m)) \<le> length (h_processed m)" by simp
  have "acks (h_written m) = acks (take n (h_written m)) @ acks (drop n (h_written m))"
    by (simp only: append_take_drop_id flip: acks_simps(3))
  with w show "length (acks (take n (h_written m))) \<le> length (h_processed m)" by simp
  have "size (mset (h_read m)) = size (mset (waiting m) + mset (map snd (h_processed m)) + mset (map snd (h_failed m)))"
    using sm_okD(1) [OF assms] by (simp add: records_ok_def)
  then show "length (h_processed m) \<le> length (h_read m)" by simp
qed

lemma con_ordered_written: "con_ordered c \<Longrightarrow> \<exists>rest. cn_added c = cn_written c @ rest"
  by (cases "cn_write c") (auto simp: con_ordered_def written_ok_def)

lemma session_ok_start:
  assumes "session_start ss"
  shows "session_ok cfg ss"
proof -
  obtain pm b s info moreMsgs where c: "st_con (ss_comm ss) = (new_connection_state pm)\<lparr>cn_ctx_done := b\<rparr>"
    and m: "ss_mgr ss = new_streamManager s info moreMsgs" and n: "ss_nread ss = 0"
    using assms by (auto simp: session_start_def)
  have "con_ordered (st_con (ss_comm ss))" "sm_ok (ss_mgr ss)" unfolding c m by (rule con_ordered_new, rule sm_ok_new)
  moreover have "h_read (ss_mgr ss) = []" "cn_rcnt (st_con (ss_comm ss)) = 1" "read_pending (st_con (ss_comm ss)) = []"
    by (simp_all add: c m new_streamManager_def new_connection_state_def read_pending_def)
  ultimately show ?thesis by (simp add: session_ok_def n Let_def)
qed

lemma session_ok_server:
  assumes ok: "session_ok cfg ss" and "server_allowed cfg ev ss" "sm_step cfg cap ev (ss_mgr ss) = Some (Inr m')"
  shows "session_ok cfg (ss\<lparr>ss_mgr := m'\<rparr>)"
proof -
  let ?m = "ss_mgr ss" and ?c = "st_con (ss_comm ss)"
  have base: "con_ordered ?c" "sm_ok ?m" "length (h_read ?m) \<le> length (cn_written ?c)"
    "list_all2 (carries cfg) (h_read ?m) (take (length (h_read ?m)) (cn_written ?c))" "ss_nread ss \<le> length (h_written ?m)"
    "cn_rcnt ?c + length (acks (read_pending ?c)) \<le> Suc (length (acks (take (ss_nread ss) (h_written ?m))))"
    using ok by (simp_all add: session_ok_def Let_def)
  obtain new where new: "h_written m' = h_written ?m @ new" using sm_step_grows [OF assms(3)] by (auto simp: grows_def)
  consider "h_read m' = h_read ?m" | st wcd where "ev = SRead (st, Inr wcd)" "h_read m' = h_read ?m @ [wcd]"
    using sm_step_grows [OF assms(3)] by (auto simp: grows_def)
  then have "length (h_read m') \<le> length (cn_written ?c) \<and> list_all2 (carries cfg) (h_read m') (take (length (h_read m')) (cn_written ?c))"
  proof cases
    case 1
    then show ?thesis using base(3,4) by simp
  next
    case (2 st wcd)
    then have "length (h_read ?m) < length (cn_written ?c)" "carries cfg wcd (cn_written ?c ! length (h_read ?m))"
      using assms(2) by (simp_all add: server_allowed_def)
    then show ?thesis using base(4) 2(2) by (simp add: take_Suc_conv_app_nth list_all2_appendI)
  qed
  then show ?thesis using base sm_ok_step [OF base(2) assms(3)] new by (simp add: session_ok_def Let_def)
qed

lemma session_ok_client:
  assumes ok: "session_ok cfg ss" and "client_allowed ev ss" "con_step Size ev (ss_comm ss) = Some (Inr s')"
  shows "session_ok cfg (ss\<lparr>ss_comm := s', ss_nread := ss_nread ss + reads_answer ev\<rparr>)"
proof -
  let ?m = "ss_mgr ss" and ?c = "st_con (ss_comm ss)" and ?n = "ss_nread ss + reads_answer ev"
  let ?got = "case ev of ReadContact (Inr cd) \<Rightarrow> [cd] | _ \<Rightarrow> []"
  have base: "con_ordered ?c" "sm_ok ?m" "length (h_read ?m) \<le> length (cn_written ?c)"
    "list_all2 (carries cfg) (h_read ?m) (take (length (h_read ?m)) (cn_written ?c))" "ss_nread ss \<le> length (h_written ?m)"
    "cn_rcnt ?c + length (acks (read_pending ?c)) \<le> Suc (length (acks (take (ss_nread ss) (h_written ?m))))"
    using ok by (simp_all add: session_ok_def Let_def)
  obtain new where new: "cn_written (st_con s') = cn_written ?c @ new" using con_step_counts [OF assms(3)] by (auto simp: counts_def)
  have n: "?n \<le> length (h_written ?m)" "take ?n (h_written ?m) = take (ss_nread ss) (h_written ?m) @ ?got"
    using assms(2) base(5) by (auto simp: client_allowed_def reads_answer_def take_Suc_conv_app_nth split: stream_event.split sum.split)
  have cnt: "cn_rcnt (st_con s') + length (acks (read_pending (st_con s'))) \<le> Suc (length (acks (take ?n (h_written ?m))))"
    using con_step_counts [OF assms(3)] base(6) by (simp add: counts_def n(2))
  have "con_ordered (st_con s')"
  proof (rule con_step_ordered [OF assms(3) base(1)])
    fix cd assume cd: "ev = ReadContact (Inr cd) \<or> cn_read ?c = RServerDone cd" "AckIndex cd \<noteq> 0"
    have "length (acks (take (ss_nread ss) (h_written ?m)) @ acks ?got) \<le> length (cn_written ?c)"
      using sm_acks_bound(1) [OF base(2), of ?n] sm_acks_bound(3) [OF base(2)] base(3) by (simp add: n(2))
    moreover have "length (cn_written ?c) < cn_wcnt ?c" using con_ordered_written [OF base(1)] base(1) by (auto simp: con_ordered_def)
    ultimately show "cn_rcnt ?c < cn_wcnt ?c" using cd base(6) by (auto simp: read_pending_def split: if_splits)
  qed
  then show ?thesis using base n(1) cnt new by (simp add: session_ok_def Let_def)
qed

lemma session_ok_step:
  assumes "session_ok cfg ss" "session_step Size cfg cap ev ss = Some (Inr ss')"
  shows "session_ok cfg ss'"
proof (cases ev)
  case (ClientStep cev)
  then obtain s' where "client_allowed cev ss" "con_step Size cev (ss_comm ss) = Some (Inr s')"
      "ss' = ss\<lparr>ss_comm := s', ss_nread := ss_nread ss + reads_answer cev\<rparr>"
    using assms(2) by (cases "con_step Size cev (ss_comm ss)") (auto simp: map_sum_def split: if_splits sum.splits)
  then show ?thesis using session_ok_client [OF assms(1)] by simp
next
  case (ServerStep sev)
  then obtain m' where "server_allowed cfg sev ss" "sm_step cfg cap sev (ss_mgr ss) = Some (Inr m')" "ss' = ss\<lparr>ss_mgr := m'\<rparr>"
    using assms(2) by (cases "sm_step cfg cap sev (ss_mgr ss)") (auto simp: map_sum_def split: if_splits sum.splits)
  then show ?thesis using session_ok_server [OF assms(1)] by simp
qed

interpretation stream_session: step_invariant session_start "session_next Size cfg cap" "session_ok cfg" for Size cfg cap
  by unfold_locales (auto simp: session_next_def intro: session_ok_start session_ok_step)

text \<open>The message of \<open>mi\<close> is in a record that the server has processed.\<close>

definition was_processed :: "('k, 'c, 's) server_cfg \<Rightarrow> (u64 \<times> WrappedContactData) list \<Rightarrow> MessageInfo \<Rightarrow> bool" where
  "was_processed cfg done mi = list_ex (\<lambda>(_, wcd). case sv_unmarshal_ContactData cfg (wcd_ContactData wcd) of
       Inl _ \<Rightarrow> False | Inr cd \<Rightarrow> mi_M mi \<in> set (Messages cd)) done"

lemma acked_processed:
  assumes "session_ok cfg ss"
    and order: "map snd (h_processed (ss_mgr ss)) = take (length (h_processed (ss_mgr ss))) (h_read (ss_mgr ss))"
    and k: "k < length (h_processed (ss_mgr ss))" and mi: "mi \<in> set (msgs_of (cn_written (st_con (ss_comm ss)) ! k))"
  shows "was_processed cfg (h_processed (ss_mgr ss)) mi"
proof -
  let ?m = "ss_mgr ss" and ?c = "st_con (ss_comm ss)"
  have ok: "sm_ok ?m" and all2: "list_all2 (carries cfg) (h_read ?m) (take (length (h_read ?m)) (cn_written ?c))"
    using assms(1) by (simp_all add: session_ok_def Let_def)
  have k': "k < length (h_read ?m)" using k sm_acks_bound(3) [OF ok] by simp
  have "carries cfg (h_read ?m ! k) (cn_written ?c ! k)" using list_all2_nthD [OF all2 k'] k' by simp
  moreover have "h_read ?m ! k = snd (h_processed ?m ! k)"
    using arg_cong [OF order, of "\<lambda>xs. xs ! k"] k by simp
  ultimately obtain cd where "sv_unmarshal_ContactData cfg (wcd_ContactData (snd (h_processed ?m ! k))) = Inr cd" "mi_M mi \<in> set (Messages cd)"
    using mi by (auto simp: carries_def split: sum.splits)
  moreover have "h_processed ?m ! k \<in> set (h_processed ?m)" using k by simp
  ultimately show ?thesis unfolding was_processed_def list_ex_iff by (intro bexI) (auto split: prod.split)
qed

text \<open>
  C5. In every run of a streaming session, whatever the interleaving of the goroutines on both sides: the messages that the client
  has acknowledged on the connection are those of its first records in the order it wrote them, as many as it has seen acknowledgements, and these are
  no more than the records the server has processed; so that, if the server has processed the records it read in their order without
  a failure in between, every message that the client acknowledged was processed by the server.
\<close>

theorem session_acks_safe:
  assumes "session_start ss0" "reach (session_next Size cfg cap) ss0 ss"
  shows "cn_acked (st_con (ss_comm ss)) = concat (map msgs_of (take (cn_rcnt (st_con (ss_comm ss)) - 1) (cn_written (st_con (ss_comm ss)))))
    \<and> cn_rcnt (st_con (ss_comm ss)) - 1 \<le> length (h_processed (ss_mgr ss))
    \<and> (map snd (h_processed (ss_mgr ss)) = take (length (h_processed (ss_mgr ss))) (h_read (ss_mgr ss))
        \<longrightarrow> list_all (was_processed cfg (h_processed (ss_mgr ss))) (cn_acked (st_con (ss_comm ss))))"
proof -
  let ?m = "ss_mgr ss" and ?c = "st_con (ss_comm ss)"
  have ok: "session_ok cfg ss" using stream_session.reachable_inv [OF assms] .
  then have ord: "con_ordered ?c" and sm: "sm_ok ?m" and len: "length (h_read ?m) \<le> length (cn_written ?c)"
    and cnt: "cn_rcnt ?c \<le> Suc (length (acks (take (ss_nread ss) (h_written ?m))))" by (simp_all add: session_ok_def Let_def)
  have n: "cn_rcnt ?c - 1 \<le> length (h_processed ?m)" using cnt sm_acks_bound(1) [OF sm, of "ss_nread ss"] by simp
  then have "cn_rcnt ?c - 1 \<le> length (cn_written ?c)" using sm_acks_bound(3) [OF sm] len by simp
  then have acked: "cn_acked ?c = concat (map msgs_of (take (cn_rcnt ?c - 1) (cn_written ?c)))"
    using con_ordered_written [OF ord] ord by (auto simp: con_ordered_def)
  moreover have "list_all (was_processed cfg (h_processed ?m)) (cn_acked ?c)"
    if order: "map snd (h_processed ?m) = take (length (h_processed ?m)) (h_read ?m)"
  proof -
    have "was_processed cfg (h_processed ?m) mi" if mi: "mi \<in> set (cn_acked ?c)" for mi
    proof -
      from mi obtain r where "mi \<in> set (msgs_of r)" "r \<in> set (take (cn_rcnt ?c - 1) (cn_written ?c))" unfolding acked by auto
      then obtain k where k: "k < cn_rcnt ?c - 1" "r = cn_written ?c ! k" by (auto simp: in_set_conv_nth)
      with \<open>mi \<in> set (msgs_of r)\<close> show ?thesis using acked_processed [OF ok order, of k mi] n by simp
    qed
    then show ?thesis by (simp add: list_all_iff)
  qed
  ultimately show ?thesis using n by simp
qed

section \<open>A lost message\<close>

fun session_run :: "(Message \<Rightarrow> nat) \<Rightarrow> ('k, 'c, 's) server_cfg \<Rightarrow> nat \<Rightarrow> 's session_event list \<Rightarrow> ('k, 's) session \<Rightarrow> ('k, 's) session option" where
  "session_run Size cfg cap [] ss = Some ss"
| "session_run Size cfg cap (ev # evs) ss = (case session_step Size cfg cap ev ss of
     Some (Inr ss') \<Rightarrow> session_run Size cfg cap evs ss' | _ \<Rightarrow> None)"

lemma session_run_reach:
  "session_run Size cfg cap evs ss = Some ss' \<Longrightarrow> reach (session_next Size cfg cap) ss0 ss \<Longrightarrow> reach (session_next Size cfg cap) ss0 ss'"
proof (induction evs arbitrary: ss)
  case (Cons ev evs)
  then obtain t where t: "session_step Size cfg cap ev ss = Some (Inr t)" "session_run Size cfg cap evs t = Some ss'"
    by (auto split: option.splits sum.splits)
  have "session_next Size cfg cap ss t" using t(1) by (auto simp: session_next_def)
  with Cons.prems(2) have "reach (session_next Size cfg cap) ss0 t" by (rule reach.intros)
  then show ?case by (rule Cons.IH [OF t(2)])
qed simp

definition stream_msg :: "u8 \<Rightarrow> Message" where
  "stream_msg n = (hd (Messages demo_cdata))\<lparr>SourceMessageId := Some [n]\<rparr>"

definition stream_mi :: "u8 \<Rightarrow> MessageInfo" where
  "stream_mi n = \<lparr>mi_M = stream_msg n, mi_callbacks = unat n\<rparr>"

definition stream_cfg :: "(bytes, bytes, unit) server_cfg" where
  "stream_cfg = (demo_cfg True)\<lparr>sv_unmarshal_ContactData := (\<lambda>b. Inr (demo_cdata\<lparr>Messages := map stream_msg b\<rparr>))\<rparr>"

definition stream_wcd :: "u8 \<Rightarrow> WrappedContactData" where
  "stream_wcd n = \<lparr>wcd_ContactData = [n], wcd_Signatures = [], wcd_ClientLabels = []\<rparr>"

definition stream_demo :: "(bytes, unit) session" where
  "stream_demo = \<lparr>ss_comm = demo_stream_start\<lparr>st_phase := StConnected\<rparr>, ss_mgr = new_streamManager demo_server (demo_conn False) False, ss_nread = 0\<rparr>"

definition write_record :: "u8 \<Rightarrow> unit session_event list" where
  "write_record n = map ClientStep [GroupMessages [stream_mi n], AddPending, WriteResult (Inr []) None None]"

definition read_record_steps :: "u8 \<Rightarrow> unit session_event list" where
  "read_record_steps n = map ServerStep [SRead (Some 200, Inr (stream_wcd n)), SBatch]"

text \<open>The five steps of a goroutine, in a server whose database fails to commit or not.\<close>

definition work_steps :: "nat \<Rightarrow> unit session_event list" where
  "work_steps n = map ServerStep (replicate n (SWorker 0 demo_env demo_inputs))"


definition two_records :: "unit session_event list" where
  "two_records = write_record 1 @ write_record 2 @ read_record_steps 1 @ read_record_steps 2"

definition safe_events :: "unit session_event list" where
  "safe_events = two_records @ work_steps 5 @ [ServerStep STake, ServerStep (SWrite None), ClientStep (ReadContact (Inr (ack_data 1)))]"


definition demo_session :: "unit session_event list \<Rightarrow> (bytes, unit) session" where
  "demo_session evs = (case session_run (\<lambda>_. 3) stream_cfg 10 evs stream_demo of Some ss \<Rightarrow> ss | None \<Rightarrow> stream_demo)"

lemma stream_demo_start: "session_start stream_demo"
proof -
  have "st_con demo_stream_start = new_connection_state []" by code_simp
  then have "st_con (ss_comm stream_demo) = (new_connection_state [])\<lparr>cn_ctx_done := False\<rparr>"
    by (simp add: stream_demo_def new_connection_state_def)
  then show ?thesis unfolding session_start_def by (auto simp: stream_demo_def)
qed

lemma demo_session_reach: "reach (session_next (\<lambda>_. 3) stream_cfg 10) stream_demo (demo_session evs)"
  by (auto simp: demo_session_def intro: session_run_reach split: option.split)

definition order_view :: "(bytes, unit) session \<Rightarrow> MessageInfo list \<times> WrappedContactData list \<times> WrappedContactData list" where
  "order_view ss = (cn_acked (st_con (ss_comm ss)), map snd (h_processed (ss_mgr ss)), h_read (ss_mgr ss))"

theorem session_acks_safe_witness:
  "cn_acked (st_con (ss_comm (demo_session safe_events))) = [stream_mi 1]
   \<and> list_all (was_processed stream_cfg (h_processed (ss_mgr (demo_session safe_events)))) (cn_acked (st_con (ss_comm (demo_session safe_events))))"
proof -
  let ?ss = "demo_session safe_events"
  have view: "order_view ?ss = ([stream_mi 1], [stream_wcd 1], [stream_wcd 1, stream_wcd 2])" by code_simp
  then have "map snd (h_processed (ss_mgr ?ss)) = [stream_wcd 1]" "h_read (ss_mgr ?ss) = [stream_wcd 1, stream_wcd 2]"
    by (simp_all add: order_view_def)
  moreover from this(1) have "length (h_processed (ss_mgr ?ss)) = 1" by (metis length_map length_Cons list.size(3) One_nat_def)
  ultimately have "map snd (h_processed (ss_mgr ?ss)) = take (length (h_processed (ss_mgr ?ss))) (h_read (ss_mgr ?ss))" by simp
  moreover have "cn_acked (st_con (ss_comm ?ss)) = [stream_mi 1]" using view by (simp add: order_view_def)
  ultimately show ?thesis using session_acks_safe [OF stream_demo_start demo_session_reach] by blast
qed



end
