(* ===== verification/Https_Cert.thy ===== *)
theory Https_Cert
  imports Server_Contact
begin

text \<open>
  How a server learns the certificate of a client, \<^verbatim>\<open>fleetspeak/src/server/https/client_certificate.go\<close>: from the TLS
  connection, or from a header set by a proxy, plain, with a checksum, or in the format of Envoy's \<^verbatim>\<open>X-Forwarded-Client-Cert\<close>.

  \<^verbatim>\<open>url.PathEscape\<close>, \<^verbatim>\<open>url.PathUnescape\<close>, \<^verbatim>\<open>encoding/base64\<close> and \<^verbatim>\<open>encoding/hex\<close> are modelled; \<^verbatim>\<open>pem.Decode\<close>,
  \<^verbatim>\<open>x509.ParseCertificate\<close> and SHA-256 are the record \<open>cert_lib\<close>. The headers of a request are what
  \<^verbatim>\<open>Header.Get\<close> answers for a name.
\<close>

section \<open>Path escapes\<close>

text \<open>The characters \<^verbatim>\<open>PathEscape\<close> keeps, and the escape of the others.\<close>

definition unescaped :: "char \<Rightarrow> bool" where
  "unescaped c \<longleftrightarrow> (let n = (of_char c :: nat) in
     48 \<le> n \<and> n \<le> 57 \<or> 65 \<le> n \<and> n \<le> 90 \<or> 97 \<le> n \<and> n \<le> 122) \<or> c \<in> set ''-_.~$&+=:@''"

definition upperhex :: "nat \<Rightarrow> char" where
  "upperhex n = ''0123456789ABCDEF'' ! n"

definition escape_char :: "char \<Rightarrow> string" where
  "escape_char c = (if unescaped c then [c] else [CHR ''%'', upperhex (of_char c div 16), upperhex (of_char c mod 16)])"

definition PathEscape :: "string \<Rightarrow> string" where
  "PathEscape s = concat (map escape_char s)"

definition unhex :: "char \<Rightarrow> nat option" where
  "unhex c = (let n = (of_char c :: nat) in
     if 48 \<le> n \<and> n \<le> 57 then Some (n - 48)
     else if 97 \<le> n \<and> n \<le> 102 then Some (n - 97 + 10)
     else if 65 \<le> n \<and> n \<le> 70 then Some (n - 65 + 10) else None)"

fun PathUnescape :: "string \<Rightarrow> error + string" where
  "PathUnescape [] = Inr []"
| "PathUnescape (c # s) = (if c \<noteq> CHR ''%'' then ebind (PathUnescape s) (\<lambda>r. Inr (c # r))
     else case s of
         a # b # s' \<Rightarrow> (case (unhex a, unhex b) of
             (Some x, Some y) \<Rightarrow> ebind (PathUnescape s') (\<lambda>r. Inr (char_of (16 * x + y) # r))
           | _ \<Rightarrow> Inl (Err ''invalid URL escape''))
       | _ \<Rightarrow> Inl (Err ''invalid URL escape''))"

lemma unhex_upperhex: "n < 16 \<Longrightarrow> unhex (upperhex n) = Some n"
proof -
  have "list_all (\<lambda>n. unhex (upperhex n) = Some n) [0..<16]" by code_simp
  then show "n < 16 \<Longrightarrow> unhex (upperhex n) = Some n" by (simp add: list_all_iff)
qed

lemma of_char_div: "(of_char c :: nat) div 16 < 16"
  by (rule less_mult_imp_div_less) simp

lemma PathUnescape_escape_char: "PathUnescape (escape_char c @ s) = ebind (PathUnescape s) (\<lambda>r. Inr (c # r))"
proof (cases "unescaped c")
  case True
  then have "c \<noteq> CHR ''%''" by (auto simp: unescaped_def)
  then show ?thesis using True by (simp add: escape_char_def)
next
  case False
  have "(of_char c :: nat) div 16 < 16" "(of_char c :: nat) mod 16 < 16" by (rule of_char_div, simp)
  moreover have "16 * ((of_char c :: nat) div 16) + of_char c mod 16 = of_char c" by simp
  ultimately show ?thesis using False by (simp add: escape_char_def unhex_upperhex)
qed

lemma PathUnescape_PathEscape: "PathUnescape (PathEscape s) = Inr s"
  by (induction s) (simp_all add: PathEscape_def PathUnescape_escape_char)

lemma PathEscape_no_slash: "CHR ''/'' \<notin> set (PathEscape s)"
proof -
  have hex: "upperhex n \<noteq> CHR ''/''" if "n < 16" for n
  proof -
    have "list_all (\<lambda>n. upperhex n \<noteq> CHR ''/'') [0..<16]" by code_simp
    with that show ?thesis by (simp add: list_all_iff)
  qed
  have "CHR ''/'' \<notin> set (escape_char c)" for c
    using hex [of "of_char c div 16"] hex [of "of_char c mod 16"] of_char_div [of c]
    by (auto simp: escape_char_def unescaped_def)
  then show ?thesis by (auto simp: PathEscape_def)
qed

section \<open>Base64\<close>

definition b64digit :: "nat \<Rightarrow> char" where
  "b64digit n = ''ABCDEFGHIJKLMNOPQRSTUVWXYZabcdefghijklmnopqrstuvwxyz0123456789+/'' ! n"

text \<open>\<^verbatim>\<open>base64.StdEncoding.EncodeToString\<close>, with padding.\<close>

fun b64_encode :: "nat list \<Rightarrow> string" where
  "b64_encode (a # b # c # bs) = [b64digit (a div 4), b64digit (a mod 4 * 16 + b div 16), b64digit (b mod 16 * 4 + c div 64), b64digit (c mod 64)]
     @ b64_encode bs"
| "b64_encode [a, b] = [b64digit (a div 4), b64digit (a mod 4 * 16 + b div 16), b64digit (b mod 16 * 4), CHR ''='']"
| "b64_encode [a] = [b64digit (a div 4), b64digit (a mod 4 * 16), CHR ''='', CHR ''='']"
| "b64_encode [] = []"

definition TrimRight :: "string \<Rightarrow> char \<Rightarrow> string" where
  "TrimRight s c = rev (dropWhile (\<lambda>x. x = c) (rev s))"

definition base64_checksum :: "bytes \<Rightarrow> string" where
  "base64_checksum b = TrimRight (b64_encode (map unat b)) CHR ''=''"

section \<open>Certificates in headers\<close>

record pem_block =
  pem_Type :: string
  pem_Bytes :: bytes

record 'c cert_lib =
  pem_Decode :: "string \<Rightarrow> (pem_block \<times> string) option"
  lib_ParseCertificate :: "bytes \<Rightarrow> error + 'c"
  lib_sha256 :: "bytes \<Rightarrow> bytes"

text \<open>The oneof \<^verbatim>\<open>frontend_mode\<close> of a configuration; \<open>NilMode\<close> is a member that is set to nil.\<close>

datatype FrontendMode =
    MtlsConfig
  | CleartextHeaderConfig string
  | HttpsHeaderConfig string
  | CleartextHeaderChecksumConfig string string
  | HttpsHeaderChecksumConfig string string
  | CleartextXfccConfig string
  | NilMode

record 'c cert_request =
  cr_TLS :: "'c list option"
  cr_Header :: "string \<Rightarrow> string"

definition getCertFromTLS :: "'c cert_request \<Rightarrow> error + 'c" where
  "getCertFromTLS req = (case cr_TLS req of
       None \<Rightarrow> Inl (Err ''TLS information not found'')
     | Some certs \<Rightarrow> if length certs \<noteq> 1 then Inl (Err ''expected 1 client cert'') else Inr (certs ! 0))"

definition getCertFromHeader :: "'c cert_lib \<Rightarrow> string \<Rightarrow> (string \<Rightarrow> string) \<Rightarrow> error + 'c" where
  "getCertFromHeader lib hn rh = (let headerCert = rh hn in
     if headerCert = [] then Inl (Err ''no certificate found in header'')
     else ebind (PathUnescape headerCert) (\<lambda>decodedCert. case pem_Decode lib decodedCert of
         None \<Rightarrow> Inl (Err ''failed to decode PEM block'')
       | Some (block, rest) \<Rightarrow>
           if pem_Type block \<noteq> ''CERTIFICATE'' then Inl (Err ''PEM block is not a certificate'')
           else if length rest \<noteq> 0 then Inl (Err ''received more than 1 client cert'')
           else lib_ParseCertificate lib (pem_Bytes block)))"

text \<open>The empty string stands for a failure.\<close>

definition calculateClientCertificateChecksum :: "'c cert_lib \<Rightarrow> string \<Rightarrow> string" where
  "calculateClientCertificateChecksum lib clientCert = (case PathUnescape clientCert of
       Inl _ \<Rightarrow> []
     | Inr clientCert \<Rightarrow> (case pem_Decode lib clientCert of
         None \<Rightarrow> []
       | Some (block, rest) \<Rightarrow> if length rest \<noteq> 0 then [] else
           (let sha256Digest = lib_sha256 lib (pem_Bytes block); sha256HexStr = EncodeToString sha256Digest in
            case DecodeString sha256HexStr of Inl _ \<Rightarrow> [] | Inr sha256Binary \<Rightarrow> base64_checksum sha256Binary)))"

definition verifyCertSha256Checksum :: "'c cert_lib \<Rightarrow> string \<Rightarrow> string \<Rightarrow> error option" where
  "verifyCertSha256Checksum lib headerCert checksum =
     (if checksum = [] then Some (Err ''no client certificate checksum received in header'')
      else if calculateClientCertificateChecksum lib headerCert \<noteq> checksum
      then Some (Err ''received client certificate checksum is invalid'') else None)"

section \<open>The header of Envoy\<close>

datatype xfcc_state = XKey | XValueStart | XValue | XQuotedValue

text \<open>
  The loop of \<^verbatim>\<open>xfccParser.Next\<close> over the rest of the header, with the key and the value read so far: they, and the header that is left.
  \<open>None\<close> is the return for a backslash at the end, which leaves the header as it was. The state \<open>XValueStart\<close> on any character but a quote goes
  on as \<open>XValue\<close> with the same character.
\<close>

definition value_state :: "xfcc_state \<Rightarrow> xfcc_state" where
  "value_state state = (if state = XValueStart then XValue else state)"

fun xfcc_loop :: "xfcc_state \<Rightarrow> string \<Rightarrow> string \<Rightarrow> string \<Rightarrow> (string \<times> string \<times> string) option" where
  "xfcc_loop state k v [] = Some (k, v, [])"
| "xfcc_loop XKey k v (c # h) = (if c = CHR ''='' then xfcc_loop XValueStart k v h else xfcc_loop XKey (k @ [c]) v h)"
| "xfcc_loop state k v (c # h) =
     (if state \<noteq> XValue \<and> c = CHR 0x22 then xfcc_loop (if state = XValueStart then XQuotedValue else XValue) k v h
      else if state \<noteq> XQuotedValue \<and> (c = CHR '';'' \<or> c = CHR '','') then Some (k, v, h)
      else if c = CHR 0x5C then (case h of [] \<Rightarrow> None | d # h' \<Rightarrow> xfcc_loop (value_state state) k (v @ [d]) h')
      else xfcc_loop (value_state state) k (v @ [c]) h)"

definition xfcc_Next :: "string \<Rightarrow> string \<times> string \<times> string" where
  "xfcc_Next header = (case xfcc_loop XKey [] [] header of None \<Rightarrow> ([], [], header) | Some r \<Rightarrow> r)"

lemma xfcc_loop_shorter: "xfcc_loop state k v h = Some (k', v', h') \<Longrightarrow> length h' \<le> length h - 1"
  by (induction state k v h rule: xfcc_loop.induct) (fastforce split: if_splits list.splits)+

lemma xfcc_Next_shorter: "xfcc_Next h = (k, v, h') \<Longrightarrow> k \<noteq> [] \<Longrightarrow> length h' < length h"
  using xfcc_loop_shorter [of XKey "[]" "[]" h k v h'] by (cases h) (auto simp: xfcc_Next_def split: option.splits)

function extractField :: "string \<Rightarrow> string \<Rightarrow> string" where
  "extractField fieldName header = (case xfcc_Next header of (keyStr, valueStr, header) \<Rightarrow>
     if keyStr = [] then [] else if keyStr = fieldName then valueStr else extractField fieldName header)"
  by pat_completeness auto
termination
  by (relation "measure (\<lambda>(f, h). length h)") (auto dest: xfcc_Next_shorter [OF sym])

declare extractField.simps [simp del]

definition getCertFromXfcc :: "'c cert_lib \<Rightarrow> string \<Rightarrow> (string \<Rightarrow> string) \<Rightarrow> error + 'c" where
  "getCertFromXfcc lib hn rh = (let headerCert = rh hn in
     if headerCert = [] then Inl (Err ''no certificate found in header'')
     else let certField = extractField ''Cert'' headerCert; headerCert = (if certField \<noteq> [] then certField else headerCert) in
       ebind (PathUnescape headerCert) (\<lambda>headerCert. case pem_Decode lib headerCert of
         None \<Rightarrow> Inl (Err ''failed to decode PEM block containing certificate'')
       | Some (block, rest) \<Rightarrow>
           if pem_Type block \<noteq> ''CERTIFICATE'' then Inl (Err ''failed to decode PEM block containing certificate'')
           else if length rest \<noteq> 0 then Inl (Err ''received more than 1 client cert'')
           else lib_ParseCertificate lib (pem_Bytes block)))"

definition checked_header :: "'c cert_lib \<Rightarrow> string \<Rightarrow> string \<Rightarrow> 'c cert_request \<Rightarrow> error + 'c" where
  "checked_header lib hn chn req = ebind (getCertFromHeader lib hn (cr_Header req)) (\<lambda>cert.
     case verifyCertSha256Checksum lib (cr_Header req hn) (cr_Header req chn) of Some x \<Rightarrow> Inl x | None \<Rightarrow> Inr cert)"

definition GetClientCert :: "'c cert_lib \<Rightarrow> 'c cert_request \<Rightarrow> FrontendMode option \<Rightarrow> error + 'c" where
  "GetClientCert lib req frontendMode = (case frontendMode of
       None \<Rightarrow> getCertFromTLS req
     | Some MtlsConfig \<Rightarrow> getCertFromTLS req
     | Some (CleartextHeaderConfig hn) \<Rightarrow> getCertFromHeader lib hn (cr_Header req)
     | Some (HttpsHeaderConfig hn) \<Rightarrow> getCertFromHeader lib hn (cr_Header req)
     | Some (CleartextHeaderChecksumConfig hn chn) \<Rightarrow> checked_header lib hn chn req
     | Some (HttpsHeaderChecksumConfig hn chn) \<Rightarrow> checked_header lib hn chn req
     | Some (CleartextXfccConfig hn) \<Rightarrow> getCertFromXfcc lib hn (cr_Header req)
     | Some NilMode \<Rightarrow> Inl (Err ''invalid frontend_config''))"

section \<open>Reading Envoy's header\<close>

text \<open>
  The header as Envoy writes it: elements of a key and a value, each but the last followed by a separator. A value is quoted or, if it
  has no separator in it, may stand as it is, as those of \<^verbatim>\<open>By\<close>, \<^verbatim>\<open>Hash\<close> and \<^verbatim>\<open>URI\<close> do; in both forms a
  backslash stands before a quote and a backslash.
\<close>

record xfcc_elem =
  xe_key :: string
  xe_quoted :: bool
  xe_value :: string
  xe_sep :: char

definition xfcc_quote :: "string \<Rightarrow> string" where
  "xfcc_quote v = concat (map (\<lambda>c. if c = CHR 0x22 \<or> c = CHR 0x5C then [CHR 0x5C, c] else [c]) v)"

definition xfcc_text :: "xfcc_elem \<Rightarrow> string" where
  "xfcc_text e = xe_key e @ CHR ''='' #
     (if xe_quoted e then CHR 0x22 # xfcc_quote (xe_value e) @ [CHR 0x22] else xfcc_quote (xe_value e))"

fun xfcc_header :: "xfcc_elem list \<Rightarrow> string" where
  "xfcc_header [] = []"
| "xfcc_header [e] = xfcc_text e"
| "xfcc_header (e # e' # es) = xfcc_text e @ xe_sep e # xfcc_header (e' # es)"

definition xfcc_separator :: "char \<Rightarrow> bool" where
  "xfcc_separator c \<longleftrightarrow> c = CHR '';'' \<or> c = CHR '',''"

definition xfcc_element :: "xfcc_elem \<Rightarrow> bool" where
  "xfcc_element e \<longleftrightarrow> xe_key e \<noteq> [] \<and> CHR ''='' \<notin> set (xe_key e) \<and> xfcc_separator (xe_sep e) \<and>
     (xe_quoted e \<or> list_all (\<lambda>c. \<not> xfcc_separator c) (xe_value e))"

lemma xfcc_loop_key: "CHR ''='' \<notin> set key \<Longrightarrow> xfcc_loop XKey k v (key @ CHR ''='' # h) = xfcc_loop XValueStart (k @ key) v h"
  by (induction key arbitrary: k) auto

lemma xfcc_loop_quoted: "xfcc_loop XQuotedValue k v (xfcc_quote w @ CHR 0x22 # h) = xfcc_loop XValue k (v @ w) h"
  by (induction w arbitrary: v) (auto simp: xfcc_quote_def value_state_def)

lemma xfcc_loop_plain:
  "list_all (\<lambda>c. \<not> xfcc_separator c) w \<Longrightarrow> xfcc_loop XValue k v (xfcc_quote w @ h) = xfcc_loop XValue k (v @ w) h"
  by (induction w arbitrary: v) (auto simp: xfcc_quote_def xfcc_separator_def value_state_def)

lemma xfcc_loop_unquoted:
  assumes "list_all (\<lambda>c. \<not> xfcc_separator c) w"
  shows "xfcc_loop XValueStart k v (xfcc_quote w @ h) = xfcc_loop (if w = [] then XValueStart else XValue) k (v @ w) h"
proof (cases w)
  case (Cons c cs)
  with assms xfcc_loop_plain [of cs k "v @ [c]" h] show ?thesis
    by (auto simp: xfcc_quote_def xfcc_separator_def value_state_def)
qed (simp add: xfcc_quote_def)

lemma xfcc_Next_element:
  assumes "xfcc_element e"
  shows "xfcc_Next (xfcc_text e) = (xe_key e, xe_value e, [])"
    and "xfcc_Next (xfcc_text e @ xe_sep e # h) = (xe_key e, xe_value e, h)"
proof -
  have stop: "xfcc_loop state k v [] = Some (k, v, [])"
    "xfcc_loop state k v (xe_sep e # h) = Some (k, v, h)" if "state = XValueStart \<or> state = XValue" for state k v h
    using that assms by (auto simp: xfcc_element_def xfcc_separator_def)
  have key: "CHR ''='' \<notin> set (xe_key e)" using assms by (simp add: xfcc_element_def)
  have "xfcc_loop XKey [] [] (xfcc_text e @ h) = xfcc_loop (if \<not> xe_quoted e \<and> xe_value e = [] then XValueStart else XValue) (xe_key e) (xe_value e) h" for h
  proof (cases "xe_quoted e")
    case False
    with assms have "list_all (\<lambda>c. \<not> xfcc_separator c) (xe_value e)" by (simp add: xfcc_element_def)
    with False show ?thesis using xfcc_loop_unquoted [of "xe_value e" "xe_key e" "[]" h] by (simp add: xfcc_text_def xfcc_loop_key [OF key])
  qed (simp add: xfcc_text_def xfcc_loop_key [OF key] xfcc_loop_quoted)
  note loop = this [of "[]"] this [of "xe_sep e # h"]
  show "xfcc_Next (xfcc_text e) = (xe_key e, xe_value e, [])" and "xfcc_Next (xfcc_text e @ xe_sep e # h) = (xe_key e, xe_value e, h)"
    using loop stop by (simp_all add: xfcc_Next_def)
qed

lemma xfcc_Next_header: "xfcc_element e \<Longrightarrow> xfcc_Next (xfcc_header (e # es)) = (xe_key e, xe_value e, xfcc_header es)"
  by (cases es) (simp_all add: xfcc_Next_element)

text \<open>
  C11. From a header in the format of Envoy, with any number of elements, any separators and any values, quoted with quotes,
  backslashes and separators in them, or unquoted without separators, \<^verbatim>\<open>extractField\<close> returns the value of the first element with
  the name it looks for, and the empty string if there is none; in particular it terminates.
\<close>

theorem extractField_header:
  assumes "list_all xfcc_element es"
  shows "extractField f (xfcc_header es) = (case map_of (map (\<lambda>e. (xe_key e, xe_value e)) es) f of None \<Rightarrow> [] | Some v \<Rightarrow> v)"
  using assms
proof (induction es)
  case Nil
  then show ?case by (subst extractField.simps) (simp add: xfcc_Next_def)
next
  case (Cons e es)
  then show ?case using xfcc_Next_header [of e es]
    by (subst extractField.simps) (auto simp: xfcc_element_def)
qed

text \<open>The vector of \<^verbatim>\<open>TestXFCCParser\<close>, abbreviated, followed by two certificates.\<close>

definition demo_elements :: "xfcc_elem list" where
  "demo_elements = [\<lparr>xe_key = ''By'', xe_quoted = False, xe_value = ''http://frontend.lyft.com'', xe_sep = CHR '';''\<rparr>,
     \<lparr>xe_key = ''Hash'', xe_quoted = False, xe_value = ''468ed33b'', xe_sep = CHR '';''\<rparr>,
     \<lparr>xe_key = ''Subject'', xe_quoted = True, xe_value = ''/C=US;CN=Test Client'', xe_sep = CHR '';''\<rparr>,
     \<lparr>xe_key = ''Cert'', xe_quoted = True, xe_value = ''x'' @ [CHR 0x22], xe_sep = CHR '',''\<rparr>,
     \<lparr>xe_key = ''Cert'', xe_quoted = False, xe_value = ''y'', xe_sep = CHR '',''\<rparr>]"

theorem extractField_header_witness:
  "take 44 (xfcc_header demo_elements) = ''By=http://frontend.lyft.com;Hash=468ed33b;Su'' \<and>
   extractField ''By'' (xfcc_header demo_elements) = ''http://frontend.lyft.com'' \<and>
   extractField ''Cert'' (xfcc_header demo_elements) = ''x'' @ [CHR 0x22] \<and> extractField ''URI'' (xfcc_header demo_elements) = []"
proof -
  have ok: "list_all xfcc_element demo_elements" by code_simp
  have "take 44 (xfcc_header demo_elements) = ''By=http://frontend.lyft.com;Hash=468ed33b;Su''" by code_simp
  with extractField_header [OF ok] show ?thesis by (simp add: demo_elements_def)
qed

section \<open>Checksums\<close>

text \<open>The encoding without padding, and its inverse.\<close>

fun b64_raw :: "nat list \<Rightarrow> string" where
  "b64_raw (a # b # c # bs) = [b64digit (a div 4), b64digit (a mod 4 * 16 + b div 16), b64digit (b mod 16 * 4 + c div 64), b64digit (c mod 64)]
     @ b64_raw bs"
| "b64_raw [a, b] = [b64digit (a div 4), b64digit (a mod 4 * 16 + b div 16), b64digit (b mod 16 * 4)]"
| "b64_raw [a] = [b64digit (a div 4), b64digit (a mod 4 * 16)]"
| "b64_raw [] = []"

definition b64value :: "char \<Rightarrow> nat" where
  "b64value c = length (takeWhile (\<lambda>d. d \<noteq> c) ''ABCDEFGHIJKLMNOPQRSTUVWXYZabcdefghijklmnopqrstuvwxyz0123456789+/'')"

fun b64_decode :: "nat list \<Rightarrow> nat list" where
  "b64_decode (p # q # r # s # cs) = [p * 4 + q div 16, q mod 16 * 16 + r div 4, r mod 4 * 64 + s] @ b64_decode cs"
| "b64_decode [p, q, r] = [p * 4 + q div 16, q mod 16 * 16 + r div 4]"
| "b64_decode [p, q] = [p * 4 + q div 16]"
| "b64_decode cs = []"

lemma b64digit_facts: "n < 64 \<Longrightarrow> b64value (b64digit n) = n \<and> b64digit n \<noteq> CHR ''=''"
proof -
  have "list_all (\<lambda>n. b64value (b64digit n) = n \<and> b64digit n \<noteq> CHR ''='') [0..<64]" by code_simp
  then show "n < 64 \<Longrightarrow> b64value (b64digit n) = n \<and> b64digit n \<noteq> CHR ''=''" by (simp add: list_all_iff)
qed

lemma sextets:
  "a < 256 \<Longrightarrow> a div 4 < (64 :: nat)" "b < 256 \<Longrightarrow> a mod 4 * 16 + b div 16 < (64 :: nat)" "c < 256 \<Longrightarrow> b mod 16 * 4 + c div 64 < (64 :: nat)"
  "a mod 4 * 16 < (64 :: nat)" "b mod 16 * 4 < (64 :: nat)"
proof -
  have "a mod 4 < 4" "b mod 16 < 16" for a b :: nat by simp_all
  note m = this
  show "a < 256 \<Longrightarrow> a div 4 < (64 :: nat)" by (simp add: less_mult_imp_div_less)
  show "b < 256 \<Longrightarrow> a mod 4 * 16 + b div 16 < (64 :: nat)" using m(1) [of a] less_mult_imp_div_less [of b 16 16] by simp
  show "c < 256 \<Longrightarrow> b mod 16 * 4 + c div 64 < (64 :: nat)" using m(2) [of b] less_mult_imp_div_less [of c 4 64] by simp
  show "a mod 4 * 16 < (64 :: nat)" "b mod 16 * 4 < (64 :: nat)" using m(1) [of a] m(2) [of b] by simp_all
qed

lemma octets:
  "b < 256 \<Longrightarrow> b div 16 div 16 = (0 :: nat) \<and> b div 16 mod 16 * 16 + b mod 16 = b"
  "c < 256 \<Longrightarrow> c div 64 div 4 = (0 :: nat) \<and> c div 64 mod 4 * 64 + c mod 64 = c"
proof -
  show "b < 256 \<Longrightarrow> b div 16 div 16 = (0 :: nat) \<and> b div 16 mod 16 * 16 + b mod 16 = b"
    using less_mult_imp_div_less [of b 16 16] by simp
  show "c < 256 \<Longrightarrow> c div 64 div 4 = (0 :: nat) \<and> c div 64 mod 4 * 64 + c mod 64 = c"
    using less_mult_imp_div_less [of c 4 64] by simp
qed

lemma b64_decode_raw: "list_all (\<lambda>x. x < 256) bs \<Longrightarrow> b64_decode (map b64value (b64_raw bs)) = bs"
  by (induction bs rule: b64_raw.induct) (use octets in \<open>auto simp: b64digit_facts sextets\<close>)

lemma b64_raw_no_padding: "list_all (\<lambda>x. x < 256) bs \<Longrightarrow> CHR ''='' \<notin> set (b64_raw bs)"
proof (induction bs rule: b64_raw.induct)
  case (1 a b c bs)
  have "b64digit n \<noteq> CHR ''=''" if "n < 64" for n using b64digit_facts [OF that] by simp
  then show ?case using 1 sextets [of a] sextets [of b] sextets [of c] by (auto simp: eq_commute [of "CHR ''=''"])
qed (use b64digit_facts sextets in \<open>auto simp: eq_commute [of "CHR ''=''"]\<close>)

lemma b64_encode_raw: "\<exists>n. b64_encode bs = b64_raw bs @ replicate n CHR ''=''"
proof (induction bs rule: b64_encode.induct)
  case (2 a b)
  show ?case by (rule exI [of _ 1]) simp
next
  case (3 a)
  show ?case by (rule exI [of _ 2]) (simp add: numeral_2_eq_2)
qed auto

lemma unat_bytes: "list_all (\<lambda>x. x < 256) (map unat (b :: bytes))"
proof -
  have "unat x < 256" for x :: u8 using unsigned_less [of x] by simp
  then show ?thesis by (simp add: list_all_iff)
qed

lemma base64_checksum_raw: "base64_checksum b = b64_raw (map unat b)"
proof -
  obtain n where n: "b64_encode (map unat b) = b64_raw (map unat b) @ replicate n CHR ''=''" using b64_encode_raw by blast
  have "dropWhile (\<lambda>x. x = CHR ''='') (replicate n CHR ''='' @ rev (b64_raw (map unat b))) = rev (b64_raw (map unat b))"
    using b64_raw_no_padding [OF unat_bytes, of b] by (cases "rev (b64_raw (map unat b))") (auto simp: dropWhile_append)
  then show ?thesis by (simp add: base64_checksum_def TrimRight_def n)
qed

lemma base64_checksum_inj: "base64_checksum a = base64_checksum b \<Longrightarrow> a = b"
proof -
  assume "base64_checksum a = base64_checksum b"
  then have "b64_decode (map b64value (b64_raw (map unat a))) = b64_decode (map b64value (b64_raw (map unat b)))"
    by (simp add: base64_checksum_raw)
  then have "map unat a = map unat b" by (simp only: b64_decode_raw [OF unat_bytes])
  then show "a = b" by (rule map_injective) (simp add: inj_def word_unat_eq_iff)
qed

text \<open>
  C9. In the modes with a checksum a server accepts a certificate only if it is the one in the header, alone in its PEM text,
  and the checksum header is the base64 text of the SHA-256 digest of that certificate, so that a different digest has a different
  checksum.
\<close>

theorem checksum_binds_cert:
  assumes "GetClientCert lib req (Some mode) = Inr cert"
    and "mode = CleartextHeaderChecksumConfig hn chn \<or> mode = HttpsHeaderChecksumConfig hn chn"
  shows "\<exists>pemText block. PathUnescape (cr_Header req hn) = Inr pemText \<and> pem_Decode lib pemText = Some (block, []) \<and> pem_Type block = ''CERTIFICATE''
    \<and> lib_ParseCertificate lib (pem_Bytes block) = Inr cert
    \<and> cr_Header req chn \<noteq> [] \<and> (\<forall>digest. base64_checksum digest = cr_Header req chn \<longleftrightarrow> digest = lib_sha256 lib (pem_Bytes block))"
proof -
  have c: "checked_header lib hn chn req = Inr cert" using assms by (auto simp: GetClientCert_def)
  then have h: "getCertFromHeader lib hn (cr_Header req) = Inr cert"
    and v: "verifyCertSha256Checksum lib (cr_Header req hn) (cr_Header req chn) = None"
    by (auto simp: checked_header_def split: option.splits)
  from h obtain pemText block where b: "PathUnescape (cr_Header req hn) = Inr pemText" "pem_Decode lib pemText = Some (block, [])"
    "pem_Type block = ''CERTIFICATE''" "lib_ParseCertificate lib (pem_Bytes block) = Inr cert"
    by (cases "PathUnescape (cr_Header req hn)"; cases "pem_Decode lib (projr (PathUnescape (cr_Header req hn)))")
      (auto simp: getCertFromHeader_def Let_def split: if_splits prod.splits)
  from v b have "cr_Header req chn \<noteq> []" "cr_Header req chn = base64_checksum (lib_sha256 lib (pem_Bytes block))"
    by (auto simp: verifyCertSha256Checksum_def calculateClientCertificateChecksum_def Let_def split: if_splits)
  with b show ?thesis by (auto dest: base64_checksum_inj)
qed

definition demo_lib :: "bytes cert_lib" where
  "demo_lib = \<lparr>pem_Decode = (\<lambda>s. Some (\<lparr>pem_Type = ''CERTIFICATE'', pem_Bytes = map (\<lambda>c. word_of_nat (of_char c)) s\<rparr>, [])),
     lib_ParseCertificate = Inr, lib_sha256 = (\<lambda>b. take 2 b)\<rparr>"

definition demo_cert_request :: "bytes cert_request" where
  "demo_cert_request = \<lparr>cr_TLS = None, cr_Header = (\<lambda>h. if h = ''cert'' then ''ab%20'' else if h = ''sum'' then ''YWI'' else [])\<rparr>"

theorem checksum_binds_cert_witness:
  "GetClientCert demo_lib demo_cert_request (Some (HttpsHeaderChecksumConfig ''cert'' ''sum'')) = Inr [97, 98, 32]
   \<and> (\<exists>pemText block. PathUnescape (cr_Header demo_cert_request ''cert'') = Inr pemText \<and> pem_Decode demo_lib pemText = Some (block, [])
     \<and> pem_Type block = ''CERTIFICATE'' \<and> lib_ParseCertificate demo_lib (pem_Bytes block) = Inr [97, 98, 32]
     \<and> cr_Header demo_cert_request ''sum'' \<noteq> []
     \<and> (\<forall>digest. base64_checksum digest = cr_Header demo_cert_request ''sum'' \<longleftrightarrow> digest = lib_sha256 demo_lib (pem_Bytes block)))"
proof -
  have g: "GetClientCert demo_lib demo_cert_request (Some (HttpsHeaderChecksumConfig ''cert'' ''sum'')) = Inr [97, 98, 32]" by code_simp
  from g checksum_binds_cert [OF g, of "''cert''" "''sum''"] show ?thesis by simp
qed

text \<open>
  A client that puts its certificate into a header, as \<^verbatim>\<open>pollHost\<close>, \<^verbatim>\<open>connect\<close> and the file download do, is identified by that
  certificate, if \<^verbatim>\<open>pem.Decode\<close> reads back what \<^verbatim>\<open>pem.EncodeToMemory\<close> writes.
\<close>

lemma header_cert_roundtrip:
  assumes "pem_Decode lib (encode der) = Some (\<lparr>pem_Type = ''CERTIFICATE'', pem_Bytes = der\<rparr>, [])" "cr_Header req hn = PathEscape (encode der)" "encode der \<noteq> []"
  shows "GetClientCert lib req (Some (CleartextHeaderConfig hn)) = lib_ParseCertificate lib der"
    and "GetClientCert lib req (Some (HttpsHeaderConfig hn)) = lib_ParseCertificate lib der"
proof -
  have "PathEscape s = [] \<longleftrightarrow> s = []" for s by (cases s) (auto simp: PathEscape_def escape_char_def)
  then show "GetClientCert lib req (Some (CleartextHeaderConfig hn)) = lib_ParseCertificate lib der"
    and "GetClientCert lib req (Some (HttpsHeaderConfig hn)) = lib_ParseCertificate lib der"
    using assms by (simp_all add: GetClientCert_def getCertFromHeader_def PathUnescape_PathEscape)
qed

end
