(* ===== verification/Server_Https.thy ===== *)
theory Server_Https
  imports Https_Cert Stream_Wire Comms_Properties
begin

text \<open>
  The HTTPS communicator of the server around the handling of contacts: \<^verbatim>\<open>fleetspeak/src/server/https/https.go\<close> (start, stop, the
  guarded listener), \<^verbatim>\<open>message_server.go\<close> (polls), \<^verbatim>\<open>compression.go\<close> and \<^verbatim>\<open>file_server.go\<close>, and the requests that the clients
  make of them (\<^verbatim>\<open>client/https/polling.go\<close>, \<^verbatim>\<open>client/https/https.go\<close>).

  A request body is the bytes that can be read from it and the error that follows them, if any. TLS, \<^verbatim>\<open>zlib\<close>, the encoding of protocol buffers,
  the public key of a certificate and \<^verbatim>\<open>netip.ParseAddrPort\<close> are arguments; an address is kept as its text. \<^verbatim>\<open>URL.Path\<close> of a request
  is the \<^verbatim>\<open>Path\<close> of the URL the client built: the escapes that \<^verbatim>\<open>URL.String\<close> adds are removed again when the request is parsed.
\<close>

section \<open>Start and stop\<close>

record https_params =
  hp_Streaming :: bool
  hp_StreamingLifespan :: int
  hp_StreamingCloseTime :: int
  hp_MaxPerClientBatchProcessors :: u32
  hp_FileServerAuthorization :: bool
  hp_FrontendMode :: "FrontendMode option"

definition params_defaults :: "https_params \<Rightarrow> https_params" where
  "params_defaults p = p\<lparr>
     hp_StreamingLifespan := (if hp_StreamingLifespan p = 0 then 10 * minute else hp_StreamingLifespan p),
     hp_StreamingCloseTime := (if hp_StreamingCloseTime p = 0 then 30 * second else hp_StreamingCloseTime p),
     hp_MaxPerClientBatchProcessors := (if hp_MaxPerClientBatchProcessors p = 0 then 10 else hp_MaxPerClientBatchProcessors p)\<rparr>"

text \<open>\<open>hc_pending\<close> is the counter of the \<^verbatim>\<open>WaitGroup\<close>, \<open>hc_handlers\<close> the history of handlers between the two calls.\<close>

record httpsComm =
  hc_running :: bool
  hc_stopping :: bool
  hc_pending :: int
  hc_handlers :: nat

definition hc_Start :: "httpsComm \<Rightarrow> httpsComm" where
  "hc_Start c = c\<lparr>hc_running := True\<rparr>"

text \<open>\<^verbatim>\<open>Stop\<close> up to its wait for the handlers; the wait ends when the counter is 0.\<close>

definition hc_Stop :: "httpsComm \<Rightarrow> error + httpsComm" where
  "hc_Stop c = (let c = c\<lparr>hc_running := False\<rparr> in
     if hc_stopping c then Inl (Fatal ''close of closed channel'') else Inr (c\<lparr>hc_stopping := True\<rparr>))"

definition startProcessing :: "httpsComm \<Rightarrow> bool \<times> httpsComm" where
  "startProcessing c = (hc_running c, if hc_running c then c\<lparr>hc_pending := hc_pending c + 1, hc_handlers := hc_handlers c + 1\<rparr> else c)"

definition stopProcessing :: "httpsComm \<Rightarrow> error + httpsComm" where
  "stopProcessing c = (if hc_pending c - 1 < 0 then Inl (Fatal ''sync: negative WaitGroup counter'')
     else Inr (c\<lparr>hc_pending := hc_pending c - 1, hc_handlers := hc_handlers c - 1\<rparr>))"

text \<open>The calls that \<^verbatim>\<open>Start\<close>, \<^verbatim>\<open>Stop\<close> and the handlers make, in any order; a handler ends after it has begun.\<close>

datatype hc_event = HStart | HStop | HBegin | HEnd

definition hc_step :: "hc_event \<Rightarrow> httpsComm \<Rightarrow> (error + httpsComm) option" where
  "hc_step ev c = (case ev of
       HStart \<Rightarrow> Some (Inr (hc_Start c))
     | HStop \<Rightarrow> Some (hc_Stop c)
     | HBegin \<Rightarrow> Some (Inr (snd (startProcessing c)))
     | HEnd \<Rightarrow> if hc_handlers c > 0 then Some (stopProcessing c) else None)"

definition hc_init :: httpsComm where
  "hc_init = \<lparr>hc_running = False, hc_stopping = False, hc_pending = 0, hc_handlers = 0\<rparr>"

lemma hc_step_counted: "hc_pending c = int (hc_handlers c) \<Longrightarrow> hc_step ev c = Some (Inr c') \<Longrightarrow> hc_pending c' = int (hc_handlers c')"
  by (cases ev) (auto simp: hc_step_def hc_Start_def hc_Stop_def startProcessing_def stopProcessing_def Let_def split: if_splits)

interpretation https_comm: step_invariant "\<lambda>c. c = hc_init" "\<lambda>c c'. \<exists>ev. hc_step ev c = Some (Inr c')" "\<lambda>c. hc_pending c = int (hc_handlers c)"
  by unfold_locales (auto simp: hc_init_def intro: hc_step_counted)

text \<open>
  \<^verbatim>\<open>Stop\<close> waits for exactly the handlers that are at work, and a handler never makes the counter negative; once \<^verbatim>\<open>Stop\<close> has cleared the flag and its
  wait is over, there is no handler and none begins.
\<close>

lemma stop_drains:
  assumes "reach (\<lambda>c c'. \<exists>ev. hc_step ev c = Some (Inr c')) hc_init c"
  shows "hc_step HEnd c \<noteq> Some (Inl x)" "hc_pending c = 0 \<Longrightarrow> hc_handlers c = 0" "\<not> hc_running c \<Longrightarrow> hc_step HBegin c = Some (Inr c)"
proof -
  have "hc_pending c = int (hc_handlers c)" using https_comm.reachable_inv [OF refl assms] .
  then show "hc_step HEnd c \<noteq> Some (Inl x)" "hc_pending c = 0 \<Longrightarrow> hc_handlers c = 0" "\<not> hc_running c \<Longrightarrow> hc_step HBegin c = Some (Inr c)"
    by (auto simp: hc_step_def stopProcessing_def startProcessing_def)
qed

text \<open>\<^verbatim>\<open>guardedListener.Accept\<close> on the connections that arrive: the one accepted or the error, and those closed.\<close>

fun guarded_Accept :: "(string \<Rightarrow> bool) \<Rightarrow> (error + string) list \<Rightarrow> (error + string) option \<times> string list" where
  "guarded_Accept allow1 [] = (None, [])"
| "guarded_Accept allow1 (Inl x # cs) = (Some (Inl x), [])"
| "guarded_Accept allow1 (Inr addr # cs) = (if allow1 addr then (Some (Inr addr), [])
     else case guarded_Accept allow1 cs of (r, closed) \<Rightarrow> (r, addr # closed))"

section \<open>Requests\<close>

record 'c http_request = "'c cert_request" +
  rq_Method :: string
  rq_ContentLength :: int
  rq_Body :: "bytes \<times> error option"
  rq_RemoteAddr :: string
  rq_Path :: string
  rq_Labels :: "string list"

datatype http_body = HttpError string | HttpBytes bytes

record ('c, 'k) http_env =
  he_lib :: "'c cert_lib"
  he_PublicKey :: "'c \<Rightarrow> 'k option"
  he_unmarshal :: "bytes \<Rightarrow> error + WrappedContactData"
  he_marshal :: "ContactData \<Rightarrow> error + bytes"
  he_inflate :: "bytes \<Rightarrow> error + bytes \<times> error option"
  he_ParseAddrPort :: "string \<Rightarrow> error + string"

text \<open>\<^verbatim>\<open>http.MaxBytesReader\<close>, and \<^verbatim>\<open>readWrappedContactData\<close> from a body that may end in an error.\<close>

definition MaxBytesReader :: "int \<Rightarrow> bytes \<times> error option \<Rightarrow> bytes \<times> error option" where
  "MaxBytesReader n body = (case body of (d, x) \<Rightarrow>
     if int (length d) > n then (take (nat n) d, Some (Err ''http: request body too large'')) else (d, x))"

definition read_body :: "(bytes \<Rightarrow> error + 'w) \<Rightarrow> int \<Rightarrow> bytes \<times> error option \<Rightarrow> error + 'w" where
  "read_body unmarshal sz body = (if sz \<le> 0 \<and> snd body \<noteq> None then Inl (Err ''error reading body'')
     else ebind (readWrappedContactData unmarshal sz (fst body)) (\<lambda>(wcd, _). Inr wcd))"

section \<open>Polls\<close>

text \<open>
  \<^verbatim>\<open>messageServer.ServeHTTP\<close>: the status that is recorded and the answer. \<open>ready\<close> is what \<^verbatim>\<open>startProcessing\<close> returned, \<open>werr\<close> the error of
  writing the answer, which is recorded after the status 200 was sent.
\<close>

definition poll_answer :: "('c, 'k) http_env \<Rightarrow> error option \<Rightarrow> error + 'k ConnectionInfo \<times> ContactData \<times> bool \<Rightarrow> nat \<times> http_body" where
  "poll_answer he werr r = (case r of
       Inl x \<Rightarrow> if x = ErrNotAuthorized then (503, HttpError ''not authorized'') else (500, HttpError ''error processing contact'')
     | Inr (info, toSend, _) \<Rightarrow> (case he_marshal he toSend of
         Inl _ \<Rightarrow> (500, HttpError ''error preparing messages'')
       | Inr b \<Rightarrow> (if werr \<noteq> None then 400 else 200, HttpBytes b)))"

definition messageServer_ServeHTTP :: "env \<Rightarrow> ('k, 'c, 's) server_cfg \<Rightarrow> contact_inputs \<Rightarrow> ('c, 'k) http_env \<Rightarrow> https_params \<Rightarrow>
    bool \<Rightarrow> error option \<Rightarrow> 'c http_request \<Rightarrow> ('s server, nat \<times> http_body) gofn" where
  "messageServer_ServeHTTP e cfg inp he p ready werr req =
     (if \<not> ready then aret (500, HttpError ''Server not ready.'')
      else if rq_Method req \<noteq> ''POST'' then aret (400, HttpError ''not supported'')
      else if rq_ContentLength req > MaxContactSize then aret (400, HttpError ''content length too large'')
      else case GetClientCert (he_lib he) (cert_request.truncate req) (hp_FrontendMode p) of
        Inl x \<Rightarrow> aret (400, HttpError ''no client certificate'')
      | Inr cert \<Rightarrow> (case he_PublicKey he cert of
          None \<Rightarrow> aret (400, HttpError ''public key not present in client cert'')
        | Some key \<Rightarrow> (case MakeClientID (sv_MarshalPKIX cfg) (sv_sha256 cfg) key of
            Inl _ \<Rightarrow> aret (400, HttpError ''unable to create client id from public key'')
          | Inr i \<Rightarrow> (case read_body (he_unmarshal he) (rq_ContentLength req) (MaxBytesReader (MaxContactSize + 1) (rq_Body req)) of
              Inl _ \<Rightarrow> aret (400, HttpError ''error reading or parsing body'')
            | Inr wcd \<Rightarrow>
                abind (InitializeConnection e cfg inp (rq_RemoteAddr req) key wcd False) (\<lambda>r. aret (poll_answer he werr r))))))"

text \<open>\<^verbatim>\<open>CompressionHandler.ServeHTTP\<close> around a handler; the encoding is in the header.\<close>

definition CompressionHandler :: "('c, 'k) http_env \<Rightarrow> ('c http_request \<Rightarrow> ('w, nat \<times> http_body) gofn) \<Rightarrow> 'c http_request \<Rightarrow> ('w, nat \<times> http_body) gofn" where
  "CompressionHandler he h req = (let encoding = cr_Header req ''Content-Encoding'' in
     if encoding = [] then h req
     else if encoding = ''deflate'' then (case he_inflate he (fst (rq_Body req)) of
         Inl _ \<Rightarrow> aret (400, HttpError ''failed to create zlib reader'')
       | Inr body \<Rightarrow> h (req\<lparr>rq_Body := body, cr_Header := (cr_Header req)(''Content-Encoding'' := [])\<rparr>))
     else aret (415, HttpError ''unsupported content encoding''))"

text \<open>The request of \<^verbatim>\<open>pollHost\<close>: \<^verbatim>\<open>http.NewRequest\<close> sets the length of the buffer it is given.\<close>

definition poll_request :: "(bytes \<Rightarrow> bytes) option \<Rightarrow> bytes \<Rightarrow> 'c http_request \<Rightarrow> 'c http_request" where
  "poll_request deflate data req = (let body = (case deflate of None \<Rightarrow> data | Some f \<Rightarrow> f data) in
     req\<lparr>rq_Method := ''POST'', rq_ContentLength := int (length body), rq_Body := (body, None), rq_Path := ''/message'',
       cr_Header := (cr_Header req)(''Content-Encoding'' := (case deflate of None \<Rightarrow> [] | Some _ \<Rightarrow> ''deflate''))\<rparr>)"

section \<open>Files\<close>

text \<open>\<^verbatim>\<open>strings.Split\<close> at a character, and \<^verbatim>\<open>strings.TrimPrefix\<close> of one.\<close>

fun split_at :: "char \<Rightarrow> string \<Rightarrow> string list" where
  "split_at sep [] = [[]]"
| "split_at sep (c # s) = (if c = sep then [] # split_at sep s else (c # hd (split_at sep s)) # tl (split_at sep s))"

definition TrimPrefix1 :: "string \<Rightarrow> char \<Rightarrow> string" where
  "TrimPrefix1 s c = (case s of [] \<Rightarrow> [] | d # s' \<Rightarrow> if d = c then s' else s)"

definition parseFilePath :: "string \<Rightarrow> error + string \<times> string" where
  "parseFilePath pathStr = (let path = split_at CHR ''/'' (TrimPrefix1 pathStr CHR ''/'') in
     if length path \<noteq> 3 \<or> path ! 0 \<noteq> ''files'' then Inl (Err ''unable to parse files URI'')
     else ebind (PathUnescape (path ! 1)) (\<lambda>service. ebind (PathUnescape (path ! 2)) (\<lambda>name. Inr (service, name))))"

definition extractClientID :: "('k, 'c, 's) server_cfg \<Rightarrow> ('c, 'k) http_env \<Rightarrow> https_params \<Rightarrow> 'c http_request \<Rightarrow> error + ClientID" where
  "extractClientID cfg he p req = ebind (GetClientCert (he_lib he) (cert_request.truncate req) (hp_FrontendMode p)) (\<lambda>cert.
     case he_PublicKey he cert of
       None \<Rightarrow> Inl (Err ''unsupported public key'')
     | Some key \<Rightarrow> MakeClientID (sv_MarshalPKIX cfg) (sv_sha256 cfg) key)"

definition authorizeFileRequest :: "('k, 'c, 's) server_cfg \<Rightarrow> ('c, 'k) http_env \<Rightarrow> 'c http_request \<Rightarrow> ClientID \<Rightarrow> error option" where
  "authorizeFileRequest cfg he req i = (case he_ParseAddrPort he (rq_RemoteAddr req) of
       Inl x \<Rightarrow> Some x
     | Inr addr \<Rightarrow> if \<not> Allow1 (sv_authorizer cfg) addr then Some (Err ''unauthorized via Allow1'')
         else if \<not> Allow2 (sv_authorizer cfg) addr \<lparr>ci_ID = i, ci_ContactSize = 0, ci_ClientLabels = rq_Labels req, ci_Type = FileRequest\<rparr>
         then Some (Err ''unauthorized via Allow2'') else None)"

text \<open>\<^verbatim>\<open>http.ServeContent\<close> decides from the request and the time what of the file it sends; here it is the whole file.\<close>

definition file_answer :: "error + bytes \<times> gotime \<Rightarrow> nat \<times> http_body" where
  "file_answer r = (case r of
       Inl x \<Rightarrow> if IsNotFound x then (404, HttpError ''file not found'') else (500, HttpError ''internal error'')
     | Inr (data, modtime) \<Rightarrow> (200, HttpBytes data))"

definition fileServer_ServeHTTP :: "env \<Rightarrow> ('k, 'c, 's) server_cfg \<Rightarrow> ('c, 'k) http_env \<Rightarrow> https_params \<Rightarrow> 'c http_request \<Rightarrow> ('s, nat \<times> http_body) action" where
  "fileServer_ServeHTTP e cfg he p req = (let clientID = extractClientID cfg he p req;
       denied = (if hp_FileServerAuthorization p
         then (case clientID of Inl _ \<Rightarrow> True | Inr i \<Rightarrow> authorizeFileRequest cfg he req i \<noteq> None) else False)
     in if denied then aret (401, HttpError ''unauthorized'')
        else case parseFilePath (rq_Path req) of
            Inl x \<Rightarrow> aret (400, HttpError ''unable to parse files URI'')
          | Inr (service, name) \<Rightarrow> abind (comms_ReadFile e cfg service name) (\<lambda>r. aret (file_answer r)))"

text \<open>
  The path a client asks for, \<^verbatim>\<open>getFileIfModifiedFromHost\<close>: \<^verbatim>\<open>path.Join\<close> drops empty elements and resolves the elements
  \<^verbatim>\<open>.\<close> and \<^verbatim>\<open>..\<close> of a rooted path.
\<close>

fun clean_elements :: "string list \<Rightarrow> string list \<Rightarrow> string list" where
  "clean_elements out [] = out"
| "clean_elements out (x # xs) = (if x = [] \<or> x = ''.'' then clean_elements out xs
     else if x = ''..'' then clean_elements (butlast out) xs else clean_elements (out @ [x]) xs)"

definition path_Join :: "string list \<Rightarrow> string" where
  "path_Join elems = (case clean_elements [] (concat (map (split_at CHR ''/'') (filter (\<lambda>x. x \<noteq> []) elems))) of
       [] \<Rightarrow> ''/'' | es \<Rightarrow> concat (map (\<lambda>x. CHR ''/'' # x) es))"

definition file_request_path :: "string \<Rightarrow> string \<Rightarrow> string" where
  "file_request_path service name = path_Join [''/files'', PathEscape service, PathEscape name]"

lemma split_at_no_sep: "sep \<notin> set s \<Longrightarrow> split_at sep s = [s]"
  by (induction s) auto

lemma split_at_append: "sep \<notin> set a \<Longrightarrow> split_at sep (a @ sep # s) = a # split_at sep s"
  by (induction a) auto

lemma escape_char_neq_Nil: "escape_char c \<noteq> []"
  by (simp add: escape_char_def)

lemma PathEscape_plain: "list_all unescaped t \<Longrightarrow> PathEscape s = t \<longleftrightarrow> s = t"
proof
  assume t: "list_all unescaped t" and "PathEscape s = t"
  moreover have "PathEscape t = t" using t by (induction t) (auto simp: PathEscape_def escape_char_def)
  ultimately show "s = t" using PathUnescape_PathEscape [of s] PathUnescape_PathEscape [of t] by simp
next
  assume "list_all unescaped t" "s = t"
  then show "PathEscape s = t" by (induction t arbitrary: s) (auto simp: PathEscape_def escape_char_def)
qed

text \<open>
  C12. The path in which a client asks for a file is read back by the server as the service and the name of the file, whatever
  characters they have, slashes and percent signs included, unless one of them is empty, \<^verbatim>\<open>.\<close> or \<^verbatim>\<open>..\<close>.
\<close>

theorem file_path_roundtrip:
  assumes "service \<notin> {[], ''.'', ''..''}" "name \<notin> {[], ''.'', ''..''}"
  shows "parseFilePath (file_request_path service name) = Inr (service, name)"
proof -
  have special: "PathEscape s \<notin> {[], ''.'', ''..''}" if "s \<notin> {[], ''.'', ''..''}" for s
    using that PathEscape_plain [of "[]" s] PathEscape_plain [of "''.''" s] PathEscape_plain [of "''..''" s] by (simp add: unescaped_def)
  have split: "split_at CHR ''/'' (PathEscape s) = [PathEscape s]" for s by (rule split_at_no_sep [OF PathEscape_no_slash])
  have "split_at CHR ''/'' ''/files'' = [[], ''files'']" by simp
  then have "file_request_path service name = ''/files/'' @ PathEscape service @ CHR ''/'' # PathEscape name"
    using special [OF assms(1)] special [OF assms(2)] by (simp add: file_request_path_def path_Join_def split)
  moreover have "split_at CHR ''/'' (''files/'' @ PathEscape service @ CHR ''/'' # PathEscape name) = [''files'', PathEscape service, PathEscape name]"
    using split_at_append [of "CHR ''/''" "''files''"] split_at_append [OF PathEscape_no_slash] split by simp
  ultimately show ?thesis by (simp add: parseFilePath_def TrimPrefix1_def PathUnescape_PathEscape)
qed

theorem file_path_roundtrip_witness: "parseFilePath (file_request_path ''a/b'' ''50%.txt'') = Inr (''a/b'', ''50%.txt'')"
  by (rule file_path_roundtrip) simp_all

text \<open>
  C10. When file requests are authorized, a server reads a file for a request only if the certificate of the request gives a client id and the
  authorizer accepts the address and that id; every other request is refused with status 401 or 400, and the datastore is not touched.
\<close>

theorem file_server_authorized:
  assumes "hp_FileServerAuthorization p" "fileServer_ServeHTTP e cfg he p req w = Inr ((st, body), w')" "st \<notin> {400, 401} \<or> w' \<noteq> w"
  shows "\<exists>cert key i addr service name r. GetClientCert (he_lib he) (cert_request.truncate req) (hp_FrontendMode p) = Inr cert
    \<and> he_PublicKey he cert = Some key \<and> MakeClientID (sv_MarshalPKIX cfg) (sv_sha256 cfg) key = Inr i
    \<and> he_ParseAddrPort he (rq_RemoteAddr req) = Inr addr \<and> Allow1 (sv_authorizer cfg) addr
    \<and> Allow2 (sv_authorizer cfg) addr \<lparr>ci_ID = i, ci_ContactSize = 0, ci_ClientLabels = rq_Labels req, ci_Type = FileRequest\<rparr>
    \<and> parseFilePath (rq_Path req) = Inr (service, name) \<and> comms_ReadFile e cfg service name w = Inr (r, w')"
proof -
  obtain i where i: "extractClientID cfg he p req = Inr i" and a: "authorizeFileRequest cfg he req i = None"
    using assms by (auto simp: fileServer_ServeHTTP_def Let_def aret_def split: sum.splits if_splits)
  obtain service name where sn: "parseFilePath (rq_Path req) = Inr (service, name)"
    using assms i a by (auto simp: fileServer_ServeHTTP_def Let_def aret_def split: sum.splits)
  have "\<exists>r. comms_ReadFile e cfg service name w = Inr (r, w')"
    using assms(1,2) i a sn by (auto simp: fileServer_ServeHTTP_def Let_def aret_def)
  moreover obtain cert key where "GetClientCert (he_lib he) (cert_request.truncate req) (hp_FrontendMode p) = Inr cert"
    "he_PublicKey he cert = Some key" "MakeClientID (sv_MarshalPKIX cfg) (sv_sha256 cfg) key = Inr i"
    using i by (auto simp: extractClientID_def split: option.splits)
  moreover obtain addr where "he_ParseAddrPort he (rq_RemoteAddr req) = Inr addr" "Allow1 (sv_authorizer cfg) addr"
    "Allow2 (sv_authorizer cfg) addr \<lparr>ci_ID = i, ci_ContactSize = 0, ci_ClientLabels = rq_Labels req, ci_Type = FileRequest\<rparr>"
    using a by (auto simp: authorizeFileRequest_def split: sum.splits if_splits)
  ultimately show ?thesis using sn by blast
qed

section \<open>What a poll gets\<close>

text \<open>
  A poll is answered with status 200, 400, 500 or 503. The server is touched only through \<^verbatim>\<open>InitializeConnection\<close>, called once with the key of the
  certificate of the request and the contact data in its body; and messages are sent only when that call succeeded, and then those it returned.
\<close>

lemma message_server_outcome:
  assumes "messageServer_ServeHTTP e cfg inp he p ready werr req s = Inr ((st, body), s')"
  shows "st \<in> {200, 400, 500, 503} \<and>
    (s' \<noteq> s \<or> (\<forall>msg. body \<noteq> HttpError msg) \<longrightarrow> ready \<and> rq_ContentLength req \<le> MaxContactSize
      \<and> (\<exists>cert key wcd r. GetClientCert (he_lib he) (cert_request.truncate req) (hp_FrontendMode p) = Inr cert \<and> he_PublicKey he cert = Some key
        \<and> read_body (he_unmarshal he) (rq_ContentLength req) (MaxBytesReader (MaxContactSize + 1) (rq_Body req)) = Inr wcd
        \<and> InitializeConnection e cfg inp (rq_RemoteAddr req) key wcd False s = Inr (r, s')
        \<and> (\<forall>b. body = HttpBytes b \<longrightarrow> (\<exists>info toSend m. r = Inr (info, toSend, m) \<and> he_marshal he toSend = Inr b))))"
proof (cases "ready \<and> rq_Method req = ''POST'' \<and> rq_ContentLength req \<le> MaxContactSize")
  case False
  then show ?thesis using assms by (auto simp: messageServer_ServeHTTP_def aret_def split: if_splits)
next
  case True
  show ?thesis
  proof (cases "GetClientCert (he_lib he) (cert_request.truncate req) (hp_FrontendMode p)")
    case (Inl x)
    then show ?thesis using assms True by (auto simp: messageServer_ServeHTTP_def aret_def)
  next
    case cert: (Inr cert)
    show ?thesis
    proof (cases "he_PublicKey he cert")
      case None
      then show ?thesis using assms True cert by (auto simp: messageServer_ServeHTTP_def aret_def)
    next
      case key: (Some key)
      have answer: "fst (poll_answer he werr r) \<in> {200, 400, 500, 503}
          \<and> (\<forall>b. snd (poll_answer he werr r) = HttpBytes b \<longrightarrow> (\<exists>info toSend m. r = Inr (info, toSend, m) \<and> he_marshal he toSend = Inr b))" for r
        by (auto simp: poll_answer_def split: sum.split)
      show ?thesis
        using assms True answer
        by (cases "MakeClientID (sv_MarshalPKIX cfg) (sv_sha256 cfg) key";
            cases "read_body (he_unmarshal he) (rq_ContentLength req) (MaxBytesReader (MaxContactSize + 1) (rq_Body req))")
          (auto simp: messageServer_ServeHTTP_def aret_def cert key prod_eq_iff)
    qed
  qed
qed

section \<open>Compressed polls\<close>

lemma read_body_prefix:
  assumes "0 < n" "n \<le> length data" "int n \<le> MaxContactSize"
  shows "read_body u (int n) (MaxBytesReader (MaxContactSize + 1) (data, None)) = read_body u (int n) (MaxBytesReader (MaxContactSize + 1) (take n data, None))"
proof -
  have "n \<le> nat (MaxContactSize + 1)" using assms(3) by simp
  then show ?thesis using assms
    by (auto simp: read_body_def MaxBytesReader_def readWrappedContactData_def min_def split: sum.splits)
qed

lemma read_body_short:
  assumes "length data < n"
  shows "\<exists>x. read_body u (int n) (MaxBytesReader m (data, None)) = Inl x"
  using assms by (auto simp: read_body_def MaxBytesReader_def readWrappedContactData_def)

text \<open>
  C8. A server does not understand compressed polls. The length that a client announces is that of the compressed contact, and the server reads as many
  bytes of the uncompressed one: a contact that compression makes longer is refused with status 400, and of one that it makes shorter the server
  takes the first bytes for the whole, exactly as if they had been sent uncompressed.
\<close>

theorem compressed_poll_misread:
  assumes "he_inflate he (deflate data) = Inr (data, None)"
  shows "(length data < length (deflate data) \<longrightarrow>
      (\<exists>msg. CompressionHandler he (messageServer_ServeHTTP e cfg inp he p True werr) (poll_request (Some deflate) data req) s
         = Inr ((400, HttpError msg), s)))
    \<and> (length (deflate data) < length data \<and> deflate data \<noteq> [] \<longrightarrow>
      CompressionHandler he (messageServer_ServeHTTP e cfg inp he p True werr) (poll_request (Some deflate) data req) s
         = CompressionHandler he (messageServer_ServeHTTP e cfg inp he p True werr) (poll_request None (take (length (deflate data)) data) req) s)"
    (is "(_ \<longrightarrow> ?refused) \<and> (_ \<longrightarrow> ?same)")
proof (intro conjI impI)
  assume "length data < length (deflate data)"
  then obtain x where "read_body (he_unmarshal he) (int (length (deflate data))) (MaxBytesReader (MaxContactSize + 1) (data, None)) = Inl x"
    using read_body_short by blast
  then show ?refused using assms
    by (auto simp: CompressionHandler_def poll_request_def messageServer_ServeHTTP_def Let_def aret_def split: sum.split option.split)
next
  assume n: "length (deflate data) < length data \<and> deflate data \<noteq> []"
  show ?same
  proof (cases "int (length (deflate data)) \<le> MaxContactSize")
    case True
    then have "read_body (he_unmarshal he) (int (length (deflate data))) (MaxBytesReader (MaxContactSize + 1) (data, None))
      = read_body (he_unmarshal he) (int (length (deflate data))) (MaxBytesReader (MaxContactSize + 1) (take (length (deflate data)) data, None))"
      using read_body_prefix [of "length (deflate data)" data] n by simp
    then show ?thesis using assms n
      by (simp add: CompressionHandler_def poll_request_def messageServer_ServeHTTP_def Let_def cert_request.truncate_def min_def
          split: sum.split option.split)
  next
    case False
    then show ?thesis using assms n
      by (simp add: CompressionHandler_def poll_request_def messageServer_ServeHTTP_def Let_def min_def)
  qed
qed

section \<open>Examples\<close>

definition demo_http :: "(bytes, bytes) http_env" where
  "demo_http = \<lparr>he_lib = demo_lib, he_PublicKey = Some, he_unmarshal = (\<lambda>b. Inr (demo_wcd [b])), he_marshal = (\<lambda>_. Inr [1]),
     he_inflate = (\<lambda>b. Inr (drop 2 b, None)), he_ParseAddrPort = Inr\<rparr>"

definition demo_params :: https_params where
  "demo_params = \<lparr>hp_Streaming = True, hp_StreamingLifespan = 0, hp_StreamingCloseTime = 0, hp_MaxPerClientBatchProcessors = 0,
     hp_FileServerAuthorization = True, hp_FrontendMode = None\<rparr>"

definition demo_http_request :: "string \<Rightarrow> bytes \<Rightarrow> bytes http_request" where
  "demo_http_request path b = \<lparr>cr_TLS = Some [replicate 8 1], cr_Header = (\<lambda>_. []), rq_Method = ''POST'', rq_ContentLength = int (length b),
     rq_Body = (b, None), rq_RemoteAddr = ''addr'', rq_Path = path, rq_Labels = []\<rparr>"

definition demo_file_cfg :: "(bytes, bytes, unit) server_cfg" where
  "demo_file_cfg = (demo_cfg True)\<lparr>sv_fileStores := [(''s'', \<lambda>_ _ w. Inr (Inr ([7], 0), w))]\<rparr>"

theorem file_server_authorized_witness:
  "\<exists>cert key i addr w'. GetClientCert (he_lib demo_http) (cert_request.truncate (demo_http_request ''/files/s/f'' [])) (hp_FrontendMode demo_params) = Inr cert
    \<and> he_PublicKey demo_http cert = Some key \<and> MakeClientID (sv_MarshalPKIX demo_file_cfg) (sv_sha256 demo_file_cfg) key = Inr i
    \<and> Allow1 (sv_authorizer demo_file_cfg) addr
    \<and> fileServer_ServeHTTP demo_env demo_file_cfg demo_http demo_params (demo_http_request ''/files/s/f'' []) demo_world = Inr ((200, HttpBytes [7]), w')"
proof -
  let ?run = "fileServer_ServeHTTP demo_env demo_file_cfg demo_http demo_params (demo_http_request ''/files/s/f'' []) demo_world"
  have "map_sum (\<lambda>e. e) (\<lambda>(r, s). r) ?run = Inr (200, HttpBytes [7])" by code_simp
  then obtain w' where run: "?run = Inr ((200, HttpBytes [7]), w')" by (cases ?run) auto
  have "hp_FileServerAuthorization demo_params" by (simp add: demo_params_def)
  from file_server_authorized [OF this run] run show ?thesis by auto
qed

text \<open>A new client that the authorizer refuses: the status is 503, and the server has registered the client.\<close>

definition demo_empty_server :: "unit server" where
  "demo_empty_server = demo_server\<lparr>sv_world := demo_world\<lparr>w_db := initSchema\<rparr>\<rparr>"

lemma message_server_outcome_instance:
  "\<exists>body s' cert key wcd r. messageServer_ServeHTTP demo_env (demo_cfg False) demo_inputs demo_http demo_params True None
      (demo_http_request ''/message'' [9]) demo_empty_server = Inr ((503, body), s') \<and> s' \<noteq> demo_empty_server
    \<and> GetClientCert (he_lib demo_http) (cert_request.truncate (demo_http_request ''/message'' [9])) (hp_FrontendMode demo_params) = Inr cert
    \<and> he_PublicKey demo_http cert = Some key
    \<and> InitializeConnection demo_env (demo_cfg False) demo_inputs (rq_RemoteAddr (demo_http_request ''/message'' [9])) key wcd False demo_empty_server = Inr (r, s')"
proof -
  let ?run = "messageServer_ServeHTTP demo_env (demo_cfg False) demo_inputs demo_http demo_params True None (demo_http_request ''/message'' [9]) demo_empty_server"
  have "map_sum (\<lambda>e. e) (\<lambda>(r, s). (fst r, length (t_clients (w_db (sv_world s))))) ?run = Inr (503, 1)" by code_simp
  then obtain r s' where r: "?run = Inr (r, s')" "(fst r, length (t_clients (w_db (sv_world s')))) = (503, 1)" by (rule ran)
  then have run: "?run = Inr ((503, snd r), s')" by (cases r) simp
  have "length (t_clients (w_db (sv_world demo_empty_server))) = 0" by code_simp
  then have new: "s' \<noteq> demo_empty_server" using r(2) by auto
  obtain cert key wcd q where
    "GetClientCert (he_lib demo_http) (cert_request.truncate (demo_http_request ''/message'' [9])) (hp_FrontendMode demo_params) = Inr cert"
    "he_PublicKey demo_http cert = Some key"
    "InitializeConnection demo_env (demo_cfg False) demo_inputs (rq_RemoteAddr (demo_http_request ''/message'' [9])) key wcd False demo_empty_server = Inr (q, s')"
    using message_server_outcome [OF run] new by auto
  with run new show ?thesis by (intro exI conjI)
qed

theorem compressed_poll_misread_witness:
  "\<exists>msg. CompressionHandler demo_http (messageServer_ServeHTTP demo_env (demo_cfg True) demo_inputs demo_http demo_params True None)
      (poll_request (Some (\<lambda>b. 0 # 0 # b)) [9] (demo_http_request ''/message'' [])) demo_server = Inr ((400, HttpError msg), demo_server)"
proof -
  have "he_inflate demo_http (0 # 0 # [9]) = Inr ([9], None)" by (simp add: demo_http_def)
  from compressed_poll_misread [of demo_http "\<lambda>b. 0 # 0 # b", OF this] show ?thesis by simp
qed

end

