(* ===== verification/Spec2Isabelle.thy ===== *)
theory Spec2Isabelle
  imports Outbox_Sort Outbox_Retry Message_Looper Comms_Properties Client_Flow Client_Polling Admin Broadcast_Machine Mysql_Delivery Stream_Session Server_Https
begin

text \<open>
  Fleetspeak: a server and its clients exchange messages on behalf of services that run on either side.

  All source paths below are relative to \<^verbatim>\<open>src/fleetspeak/src\<close>.

  \<^bold>\<open>The program.\<close> A client hosts services (\<^verbatim>\<open>client/services.go\<close>). A message a service sends goes through
  a sorting loop and a retry loop (\<^verbatim>\<open>client/internal/message\<close>) to a communicator (\<^verbatim>\<open>client/https\<close>), which
  polls a server over HTTPS or keeps a stream open to it. The server (\<^verbatim>\<open>server/comms.go\<close>) identifies and authorizes the client, gives the
  messages to the service manager (\<^verbatim>\<open>server/internal/services\<close>), which calls the server side of the services
  and stores every message in the datastore (\<^verbatim>\<open>server/sqlite\<close>), and answers with messages from the
  datastore and with broadcasts (\<^verbatim>\<open>server/internal/broadcasts\<close>). A cache of client data, a dispatcher of
  notifications and the administration interface (\<^verbatim>\<open>server/admin\<close>) stand beside this path.

  \<^bold>\<open>How the code is modelled.\<close>
\<^item> A fallible function returns \<^verbatim>\<open>error + 'a\<close>, \<open>Inl\<close> for the error; a panic or \<^verbatim>\<open>log.Fatal\<close> is the error \<open>Fatal\<close>. A function that
  changes state is a \<open>gofn\<close>: it ends the process or returns a value and the new state.
\<^item> A struct is a record, an interface value the record of its operations, a Go map an association list whose order is
  the order in which Go happens to iterate, so that a theorem about every list holds for every order. Machine integers are words of
  their width; times and durations are integers of nanoseconds, for the years in which \<^verbatim>\<open>UnixNano\<close> is exact.
\<^item> Code outside the repository is an argument with named hypotheses: encodings of protocol buffers (\<open>codec\<close>,
  \<open>codec_roundtrips\<close>), X.509, SHA-256, the random source, the clock, \<^verbatim>\<open>Begin\<close> and \<^verbatim>\<open>Commit\<close> of the database driver (\<open>env\<close>).
\<^item> A table of a database is the list of its rows, and an SQL statement what it means under the declared keys.
\<^item> Goroutines of the client interleave at every point where another one can see a difference. On the server the
  goroutines that process one batch run one after the other, in an order that is an argument, and the counter they
  share is a machine of its own; the goroutines of a stream interleave at their channel operations and calls. The clock is read once per call.
\<^item> \<^verbatim>\<open>sort.Slice\<close> is a stable sort, one of the results Go allows. Logging, and the statistics whose values no code reads, are left out. Fields
  named after a history, such as \<open>received\<close> or \<open>h_acked\<close>, record what happened and are never read by the code.

  \<^bold>\<open>The theories, in the order they build on each other.\<close>
\<^item> \<open>Prelude\<close>, \<open>Proto\<close>: results, slices, maps, words, protocol buffer records, clock and retry times (\<^verbatim>\<open>server/db/time.go\<close>,
  \<^verbatim>\<open>server/internal/ftime\<close>). The locale \<open>step_invariant\<close> is the interface of every machine: an initial predicate, a step and an
  invariant that steps keep.
\<^item> \<open>Ids\<close>: identifiers (\<^verbatim>\<open>common/ids.go\<close>, \<^verbatim>\<open>server/ids\<close>), with the locales \<open>byte_id\<close> and \<open>string_id\<close> interpreted on the client,
  message and broadcast ids.
\<^item> \<open>Flow_Filter\<close>, \<open>Outbox_Sort\<close>, \<open>Outbox_Retry\<close>: the client's filter and its two message loops. Nothing is lost, duplicated or
  reordered within a priority; a message waits only for more urgent ones; the callbacks never block; the pending messages stay within their limits.
\<^item> \<open>Client_Polling\<close>: the polling communicator (\<^verbatim>\<open>client/https/polling.go\<close>). Every message is acknowledged or refused exactly once, no
  channel is closed twice, and the process ends itself only after the configured time without a successful poll.
\<^item> \<open>Stream_Wire\<close>, \<open>Client_Streaming\<close>: the bytes of a stream, read back as they were written, and the streaming communicator
  (\<^verbatim>\<open>client/https/streaming.go\<close>) with the loops of its connections; every message is acknowledged or refused exactly once.
\<^item> \<open>Client_Config\<close>: identity and persistent state of a client (\<^verbatim>\<open>client/internal/config\<close>, \<^verbatim>\<open>client/config\<close>). Writing the state is
  atomic on a failing disk and a restart keeps the identity.
\<^item> \<open>Client_Services\<close>, \<open>Client_Flow\<close>: services, inboxes, processing loops, restarts and tokens of a client (\<^verbatim>\<open>client/services.go\<close>, \<^verbatim>\<open>client.go\<close>,
  \<^verbatim>\<open>comms.go\<close>, \<^verbatim>\<open>system_service.go\<close>) as one interleaved machine; what it guarantees, and two runs in which a restart goes wrong.
\<^item> \<open>Sqlite_Core\<close>, \<open>Sqlite_Messages\<close>, \<open>Sqlite_Clients\<close>, \<open>Sqlite_Files\<close>, \<open>Sqlite_Broadcasts\<close>, \<open>Sqlite_Usage\<close>, \<open>Broadcast_Alloc\<close>: the datastore
  \<^verbatim>\<open>server/sqlite\<close>, with the allocation arithmetic of \<^verbatim>\<open>server/db/store.go\<close> in exact single precision. \<open>Sqlite_Store\<close> is the
  machine of all calls of the interface \<^verbatim>\<open>db.Store\<close>, the interpretation \<open>store\<close> of \<open>step_invariant\<close> with the invariant \<open>store_ok\<close>, and the properties
  that hold after every sequence of calls: a message is pending exactly when it has no result, blacklisting is permanent, a broadcast goes to a client at most
  once and to at most twice its limit of clients. The files are also a \<open>keyed_store\<close>.
\<^item> \<open>Message_Looper\<close>: the loop that feeds messages for the server to its services, with its termination.
\<^item> \<open>Mysql_Messages\<close>, \<open>Mysql_Delivery\<close>: the message store on MySQL (\<^verbatim>\<open>server/mysql/messagestore.go\<close>, transactions and retries of \<^verbatim>\<open>mysql.go\<close>).
  Under the abstraction \<open>as_sqlite\<close> storing messages and setting results do what the SQLite store does, whatever lock errors occur. Handing out messages
  respects the limits when the transaction is run once; when it is run again, messages are repeated.
\<^item> \<open>Client_Cache\<close>, \<open>Dispatcher\<close>, \<open>Broadcast_Manager\<close>: the cache as a refinement of a map of last writes, notification channels without
  panics, and the manager that takes allocations of broadcasts and hands them to clients. \<open>Broadcast_Machine\<close> interleaves the calls of the manager
  with its refresh loop and shows that it makes only honest store calls.
\<^item> \<open>System_Service\<close>, \<open>Server_Services\<close>: the system service and the service manager of the server.
\<^item> \<open>Server_Contact\<close>, \<open>Server_Comms\<close>: connections, tokens, authorizer, signatures and the handling of a contact.
\<^item> \<open>Service_Contract\<close>, \<open>Comms_Properties\<close>: what services may do to the datastore, as the locales \<open>db_order\<close>, \<open>system_contract\<close> and
  \<open>service_contract\<close>, interpreted on the relation of honest store calls and on the relation that no message of another client appears, for the
  manager with the system service; from them the end-to-end properties of a contact: no client can store messages of another, accepted
  messages are stored, tokens are respected and charged, a refused or blacklisted client gets nothing else.
\<^item> \<open>Https_Cert\<close>, \<open>Server_Https\<close>: how a server learns the certificate of a client, with the parser of Envoy's header and the checksums
  (\<^verbatim>\<open>server/https/client_certificate.go\<close>), and its handlers for polls, compressed bodies and files (\<^verbatim>\<open>message_server.go\<close>, \<^verbatim>\<open>compression.go\<close>,
  \<^verbatim>\<open>file_server.go\<close>, start and stop of \<^verbatim>\<open>https.go\<close>). A checksum fixes its certificate, the parser and the paths of files read back what was
  written, files go to authorized clients only, and compressed polls are misread.
\<^item> \<open>Server_Streaming\<close>: the server's end of a stream (\<^verbatim>\<open>server/https/streaming_message_server.go\<close>), its reader, the goroutine of each record, the loop that
  fetches messages, the writer and the shutdown. Every record is accounted for, acknowledgements belong to processed records, no closed
  channel is used, and a shutdown cannot get stuck. \<open>Stream_Session\<close> puts both ends of a stream together: the client never counts more
  acknowledgements than the server has processed records, which is safe when records are processed in order; and a run in which a failure makes
  the client forget a message.
\<^item> \<open>Admin\<close>: the administration interface, and that a message inserted there reaches its client.

  \<^bold>\<open>Bounds.\<close> Recursions over rows, messages and channels are structural. The loop of \<open>Message_Looper\<close> may run for ever and is
  a partial function; its theorem shows that it returns, after at most as many rounds as messages are due, when the
  datastore works and the rounds are not slower than the retry delay. No definition uses fuel.

  \<^bold>\<open>Not modelled.\<close> The Spanner datastore and the client, broadcast and file stores on MySQL, which implement the same interface; the HTTP and TLS layer of the communicators;
  daemon, socket and stdin services, resource monitoring and the watchdog, which are operating system I/O; gRPC and
  Cloud Pub/Sub services, Prometheus statistics and the configuration tool, which are glue around libraries; the
  generated protocol buffer code, whose messages are the records of \<open>Proto\<close>; and the test code.
\<close>

end
